(* ===== verification/Prelude.thy ===== *)
theory Prelude
  imports Main "HOL-Library.AList" "HOL-Library.Sublist"
begin

text \<open>
  Shared vocabulary of the development. Rust's \<open>IndexMap\<close> (insertion ordered) and
  \<open>HashMap\<close> are association lists with distinct keys: \<open>im_get\<close> looks a key up,
  \<open>im_insert\<close> overwrites in place or appends, \<open>im_extend\<close> inserts the entries of another
  map in their order, \<open>im_remove\<close> is \<open>shift_remove\<close> and \<open>im_retain\<close> keeps what a
  predicate accepts. A Rust \<open>String\<close> is a \<open>string\<close>; one \<open>char\<close> stands for one
  scalar value below U+0100, and the scanners below treat every other scalar alike. Errors are the
  left summand of a sum. The lemmas of the collection \<open>imap_simps\<close> reduce every map
  operation to \<open>map_of\<close>.
\<close>

named_theorems imap_simps "lookups after the operations of an index map"
named_theorems imap_distinct "operations keep the keys of an index map distinct"

type_synonym ('k, 'v) imap = "('k \<times> 'v) list"
type_synonym path = "string list"

subsection \<open>Insertion-ordered maps\<close>

definition im_get :: "('k, 'v) imap \<Rightarrow> 'k \<Rightarrow> 'v option" where
  "im_get m k = map_of m k"

definition im_keys :: "('k, 'v) imap \<Rightarrow> 'k list" where
  "im_keys m = map fst m"

definition im_has :: "('k, 'v) imap \<Rightarrow> 'k \<Rightarrow> bool" where
  "im_has m k \<longleftrightarrow> k \<in> set (im_keys m)"

definition im_insert :: "'k \<Rightarrow> 'v \<Rightarrow> ('k, 'v) imap \<Rightarrow> ('k, 'v) imap" where
  "im_insert k v m = AList.update k v m"

definition im_combine :: "('v \<Rightarrow> 'v \<Rightarrow> 'v) \<Rightarrow> 'k \<Rightarrow> 'v \<Rightarrow> ('k, 'v) imap \<Rightarrow> ('k, 'v) imap" where
  "im_combine f k v m =
     im_insert k (case im_get m k of Some u \<Rightarrow> f u v | None \<Rightarrow> v) m"

definition im_merge_with ::
  "('v \<Rightarrow> 'v \<Rightarrow> 'v) \<Rightarrow> ('k, 'v) imap \<Rightarrow> ('k, 'v) imap \<Rightarrow> ('k, 'v) imap" where
  "im_merge_with f m n = fold (\<lambda>(k, v). im_combine f k v) n m"

definition im_extend :: "('k, 'v) imap \<Rightarrow> ('k, 'v) imap \<Rightarrow> ('k, 'v) imap" where
  "im_extend m n = fold (\<lambda>(k, v). im_insert k v) n m"

definition im_remove :: "'k \<Rightarrow> ('k, 'v) imap \<Rightarrow> ('k, 'v) imap" where
  "im_remove k m = filter (\<lambda>p. fst p \<noteq> k) m"

definition im_retain :: "('k \<Rightarrow> 'v \<Rightarrow> bool) \<Rightarrow> ('k, 'v) imap \<Rightarrow> ('k, 'v) imap" where
  "im_retain P m = filter (\<lambda>(k, v). P k v) m"

definition im_map :: "('k \<Rightarrow> 'v \<Rightarrow> 'w) \<Rightarrow> ('k, 'v) imap \<Rightarrow> ('k, 'w) imap" where
  "im_map f m = map (\<lambda>(k, v). (k, f k v)) m"

definition im_wf :: "('k, 'v) imap \<Rightarrow> bool" where
  "im_wf m \<longleftrightarrow> distinct (im_keys m)"

lemma im_get_Nil [simp]: "im_get [] k = None"
  by (simp add: im_get_def)

lemma im_get_Cons [simp]: "im_get ((j, v) # m) k = (if j = k then Some v else im_get m k)"
  by (simp add: im_get_def)

lemma im_keys_Nil [simp]: "im_keys [] = []"
  by (simp add: im_keys_def)

lemma im_keys_Cons [simp]: "im_keys (p # m) = fst p # im_keys m"
  by (simp add: im_keys_def)

lemma im_wf_Nil [simp, imap_distinct]: "im_wf []"
  by (simp add: im_wf_def)

lemma im_has_iff: "im_has m k \<longleftrightarrow> (\<exists>v. im_get m k = Some v)"
  by (induction m) (auto simp: im_has_def)

lemma im_has_None: "\<not> im_has m k \<longleftrightarrow> im_get m k = None"
  by (auto simp: im_has_iff)

lemma im_has_Nil [simp]: "\<not> im_has [] k"
  by (simp add: im_has_def)

lemma im_has_Cons [simp]: "im_has (p # m) k \<longleftrightarrow> fst p = k \<or> im_has m k"
  by (auto simp: im_has_def)

lemma im_get_in: "im_get m k = Some v \<Longrightarrow> (k, v) \<in> set m"
  by (simp add: im_get_def map_of_SomeD)

lemma im_get_of_in: "im_wf m \<Longrightarrow> (k, v) \<in> set m \<Longrightarrow> im_get m k = Some v"
  by (simp add: im_get_def im_wf_def im_keys_def)

lemma set_im_keys: "set (im_keys m) = fst ` set m"
  by (simp add: im_keys_def)

lemma im_get_insert [imap_simps]:
  "im_get (im_insert k v m) j = (if j = k then Some v else im_get m j)"
  by (simp add: im_get_def im_insert_def update_conv')

lemma im_keys_insert:
  "im_keys (im_insert k v m) = (if im_has m k then im_keys m else im_keys m @ [k])"
  by (simp add: im_keys_def im_insert_def im_has_def update_keys)

lemma im_has_insert [imap_simps]: "im_has (im_insert k v m) j \<longleftrightarrow> j = k \<or> im_has m j"
  by (auto simp: im_has_def im_keys_insert)

lemma im_wf_insert [imap_distinct]: "im_wf m \<Longrightarrow> im_wf (im_insert k v m)"
  by (simp add: im_wf_def im_keys_def im_insert_def distinct_update)

lemma im_extend_Nil [simp]: "im_extend m [] = m"
  by (simp add: im_extend_def)

lemma im_extend_Cons: "im_extend m ((k, v) # n) = im_extend (im_insert k v m) n"
  by (simp add: im_extend_def)

lemma im_extend_append: "im_extend m (n @ n') = im_extend (im_extend m n) n'"
  by (simp add: im_extend_def)

lemma im_combine_snd: "im_combine (\<lambda>_ v. v) = im_insert"
  by (simp add: im_combine_def option.case_eq_if fun_eq_iff)

text \<open>\<open>extend\<close> is the merge that keeps the newer value.\<close>

lemma im_extend_merge: "im_extend m n = im_merge_with (\<lambda>_ v. v) m n"
  unfolding im_extend_def im_merge_with_def im_combine_snd ..

lemma im_merge_with_Nil [simp]: "im_merge_with f m [] = m"
  by (simp add: im_merge_with_def)

lemma im_merge_with_Cons: "im_merge_with f m ((k, v) # n) = im_merge_with f (im_combine f k v m) n"
  by (simp add: im_merge_with_def)

lemma im_merge_with_append:
  "im_merge_with f m (n @ n') = im_merge_with f (im_merge_with f m n) n'"
  by (simp add: im_merge_with_def)

lemma im_get_combine [imap_simps]:
  "im_get (im_combine f k v m) j =
     (if j = k then Some (case im_get m k of Some u \<Rightarrow> f u v | None \<Rightarrow> v) else im_get m j)"
  by (simp add: im_combine_def im_get_insert)

lemma im_has_combine [imap_simps]: "im_has (im_combine f k v m) j \<longleftrightarrow> j = k \<or> im_has m j"
  by (simp add: im_combine_def im_has_insert)

lemma im_wf_combine [imap_distinct]: "im_wf m \<Longrightarrow> im_wf (im_combine f k v m)"
  by (simp add: im_combine_def im_wf_insert)

lemma im_has_merge_with [imap_simps]: "im_has (im_merge_with f m n) j \<longleftrightarrow> im_has m j \<or> im_has n j"
proof (induction n arbitrary: m)
  case (Cons p n)
  then show ?case by (cases p) (auto simp: im_merge_with_Cons im_has_combine)
qed simp

lemma im_wf_merge_with [imap_distinct]: "im_wf m \<Longrightarrow> im_wf (im_merge_with f m n)"
proof (induction n arbitrary: m)
  case (Cons p n)
  then show ?case by (cases p) (auto simp: im_merge_with_Cons im_wf_combine)
qed simp

lemma im_wf_Cons: "im_wf (p # m) \<longleftrightarrow> im_get m (fst p) = None \<and> im_wf m"
  by (auto simp: im_wf_def im_has_def simp flip: im_has_None)

lemma im_get_merge_with [imap_simps]:
  "im_wf n \<Longrightarrow>
   im_get (im_merge_with f m n) j =
     (case im_get n j of
        Some v \<Rightarrow> Some (case im_get m j of Some u \<Rightarrow> f u v | None \<Rightarrow> v)
      | None \<Rightarrow> im_get m j)"
proof (induction n arbitrary: m)
  case (Cons p n)
  then show ?case
    by (cases p)
       (auto simp: im_merge_with_Cons im_wf_Cons im_combine_def im_get_insert split: option.splits)
qed simp

lemma im_get_extend [imap_simps]:
  "im_wf n \<Longrightarrow>
   im_get (im_extend m n) j = (case im_get n j of Some v \<Rightarrow> Some v | None \<Rightarrow> im_get m j)"
  by (auto simp: im_extend_merge im_get_merge_with split: option.splits)

lemma im_has_extend [imap_simps]: "im_has (im_extend m n) j \<longleftrightarrow> im_has m j \<or> im_has n j"
  by (simp add: im_extend_merge im_has_merge_with)

lemma im_wf_extend [imap_distinct]: "im_wf m \<Longrightarrow> im_wf (im_extend m n)"
  by (simp add: im_extend_merge im_wf_merge_with)

lemma im_wf_retain [imap_distinct]: "im_wf m \<Longrightarrow> im_wf (im_retain P m)"
  by (auto simp: im_wf_def im_keys_def im_retain_def distinct_map_filter)

lemma im_wf_remove [imap_distinct]: "im_wf m \<Longrightarrow> im_wf (im_remove k m)"
  by (auto simp: im_wf_def im_keys_def im_remove_def distinct_map_filter)

lemma im_keys_map [simp]: "im_keys (im_map f m) = im_keys m"
  by (auto simp: im_keys_def im_map_def)

lemma im_wf_map [imap_distinct]: "im_wf m \<Longrightarrow> im_wf (im_map f m)"
  by (simp add: im_wf_def)

lemma im_get_map [imap_simps]: "im_get (im_map f m) k = map_option (f k) (im_get m k)"
  by (induction m) (auto simp: im_map_def)

lemma im_has_map [imap_simps]: "im_has (im_map f m) k = im_has m k"
  by (simp add: im_has_def)

lemma im_get_remove [imap_simps]: "im_get (im_remove k m) j = (if j = k then None else im_get m j)"
  by (induction m) (auto simp: im_remove_def)

lemma im_has_remove [imap_simps]: "im_has (im_remove k m) j \<longleftrightarrow> j \<noteq> k \<and> im_has m j"
  by (auto simp: im_has_iff im_get_remove)

lemma im_get_retain [imap_simps]:
  "im_wf m \<Longrightarrow>
   im_get (im_retain P m) k = (case im_get m k of Some v \<Rightarrow> if P k v then Some v else None | None \<Rightarrow> None)"
proof (induction m)
  case (Cons p m)
  then show ?case
    by (cases p) (auto simp: im_retain_def im_wf_def split: option.splits dest: im_get_in
        simp flip: im_has_def, auto simp: im_has_None im_has_iff im_has_def set_im_keys image_iff)
qed (simp add: im_retain_def)

lemma im_insert_overwrite [simp]: "im_insert k v (im_insert k w m) = im_insert k v m"
  by (simp add: im_insert_def)

lemma im_insert_commute:
  "im_has m k \<Longrightarrow> k \<noteq> j \<Longrightarrow> im_insert k v (im_insert j w m) = im_insert j w (im_insert k v m)"
  by (induction m) (auto simp: im_insert_def im_has_def update_nonempty)

lemma im_insert_split:
  assumes "k \<notin> set (im_keys xs)"
  shows "im_insert k v (xs @ (k, w) # ys) = xs @ (k, v) # ys"
  using assms by (induction xs) (auto simp: im_insert_def)

lemma im_insert_new: "\<not> im_has m k \<Longrightarrow> im_insert k v m = m @ [(k, v)]"
  by (induction m) (auto simp: im_insert_def im_has_def)

lemma im_combine_new: "\<not> im_has m k \<Longrightarrow> im_combine f k v m = m @ [(k, v)]"
  by (simp add: im_combine_def im_has_None im_insert_new)

lemma im_combine_commute:
  "im_has m k \<Longrightarrow> k \<noteq> j \<Longrightarrow>
   im_combine f k v (im_combine f j w m) = im_combine f j w (im_combine f k v m)"
  by (simp add: im_combine_def im_get_insert im_insert_commute)

lemma im_combine_merge:
  "im_has m k \<Longrightarrow> k \<notin> set (im_keys n) \<Longrightarrow>
   im_combine f k v (im_merge_with f m n) = im_merge_with f (im_combine f k v m) n"
proof (induction n arbitrary: m)
  case (Cons p n)
  then show ?case
    by (cases p) (simp add: im_merge_with_Cons im_has_combine im_combine_commute)
qed simp

text \<open>The values of a map, all accepted by a predicate.\<close>

definition im_all :: "('v \<Rightarrow> bool) \<Rightarrow> ('k, 'v) imap \<Rightarrow> bool" where
  "im_all P m \<longleftrightarrow> list_all (\<lambda>(_, v). P v) m"

lemma im_all_simps [simp]:
  "im_all P []" "im_all P (p # m) \<longleftrightarrow> P (snd p) \<and> im_all P m"
  "im_all P (m @ n) \<longleftrightarrow> im_all P m \<and> im_all P n" "im_all (\<lambda>_. True) m"
  by (auto simp: im_all_def list_all_iff split: prod.splits)

lemma im_all_get: "im_all P m \<Longrightarrow> im_get m k = Some v \<Longrightarrow> P v"
  by (auto simp: im_all_def list_all_iff dest!: im_get_in)

lemma im_all_insert: "im_all P m \<Longrightarrow> P v \<Longrightarrow> im_all P (im_insert k v m)"
  by (induction m) (auto simp: im_insert_def)

text \<open>
  A component that stacks values of one kind (files, profiles, maps) relies on this contract of
  its merge: associative and closed on the accepted values.
\<close>

locale layering =
  fixes merge :: "'a \<Rightarrow> 'a \<Rightarrow> 'a"
    and accepted :: "'a \<Rightarrow> bool"
  assumes merge_assoc: "accepted a \<Longrightarrow> accepted b \<Longrightarrow> accepted c \<Longrightarrow>
      merge (merge a b) c = merge a (merge b c)"
    and merge_accepted: "accepted a \<Longrightarrow> accepted b \<Longrightarrow> accepted (merge a b)"
begin

lemma foldl_accepted: "accepted a \<Longrightarrow> list_all accepted bs \<Longrightarrow> accepted (foldl merge a bs)"
  by (induction bs arbitrary: a) (auto intro: merge_accepted)

lemma merge_foldl:
  "accepted a \<Longrightarrow> accepted b \<Longrightarrow> list_all accepted bs \<Longrightarrow>
   merge a (foldl merge b bs) = foldl merge (merge a b) bs"
proof (induction bs arbitrary: b)
  case (Cons c bs)
  then have "merge a (foldl merge (merge b c) bs) = foldl merge (merge a (merge b c)) bs"
    by (intro Cons.IH) (auto intro: merge_accepted)
  also have "merge a (merge b c) = merge (merge a b) c"
    using Cons.prems by (simp add: merge_assoc)
  finally show ?case by simp
qed simp

text \<open>Layers may be bracketed in any way: merging two merged stacks merges the joined stack.\<close>

lemma merge_stacks:
  assumes "accepted a" "list_all accepted as" "accepted b" "list_all accepted bs"
  shows "merge (foldl merge a as) (foldl merge b bs) = foldl merge a (as @ b # bs)"
  using assms by (simp add: merge_foldl foldl_accepted)

lemma combine_all:
  "im_all accepted m \<Longrightarrow> accepted v \<Longrightarrow> im_all accepted (im_combine merge k v m)"
  by (auto simp: im_combine_def split: option.splits
      intro!: im_all_insert merge_accepted dest: im_all_get)

lemma merge_with_all:
  "im_all accepted m \<Longrightarrow> im_all accepted n \<Longrightarrow> im_all accepted (im_merge_with merge m n)"
proof (induction n arbitrary: m)
  case (Cons p n)
  then show ?case by (cases p) (auto simp: im_merge_with_Cons combine_all)
qed simp

lemma combine_twice:
  assumes "im_all accepted m" "accepted w" "accepted v"
  shows "im_combine merge k v (im_combine merge k w m) = im_combine merge k (merge w v) m"
  using assms by (auto simp: im_combine_def im_get_insert merge_assoc dest: im_all_get split: option.splits)

lemma merge_combine:
  assumes wf: "im_wf n" and all: "im_all accepted m" "im_all accepted n" "accepted v"
  shows "im_merge_with merge m (im_combine merge k v n) = im_combine merge k v (im_merge_with merge m n)"
proof (cases "im_has n k")
  case False
  then show ?thesis by (simp add: im_combine_new im_merge_with_append im_merge_with_Cons)
next
  case True
  then obtain w where w: "im_get n k = Some w" by (auto simp: im_has_iff)
  then obtain xs ys where n: "n = xs @ (k, w) # ys" by (meson im_get_in split_list)
  with wf have k: "k \<notin> set (im_keys xs)" "k \<notin> set (im_keys ys)"
    by (auto simp: im_wf_def im_keys_def)
  have xs: "im_all accepted (im_merge_with merge m xs)" and aw: "accepted w"
    using all n by (auto intro: merge_with_all)
  have "im_combine merge k v n = xs @ (k, merge w v) # ys"
    unfolding im_combine_def w by (simp add: n im_insert_split k)
  then have "im_merge_with merge m (im_combine merge k v n)
      = im_merge_with merge (im_combine merge k v (im_combine merge k w (im_merge_with merge m xs))) ys"
    by (simp add: im_merge_with_append im_merge_with_Cons combine_twice xs aw all)
  also have "\<dots> = im_combine merge k v (im_merge_with merge (im_combine merge k w (im_merge_with merge m xs)) ys)"
    by (simp add: im_combine_merge k im_has_combine)
  finally show ?thesis by (simp add: n im_merge_with_append im_merge_with_Cons)
qed

text \<open>Maps are layered entry by entry, order of entries included.\<close>

lemma merge_with_assoc:
  assumes "im_wf b" "im_all accepted a" "im_all accepted b" "im_all accepted c"
  shows "im_merge_with merge (im_merge_with merge a b) c = im_merge_with merge a (im_merge_with merge b c)"
  using assms
proof (induction c rule: rev_induct)
  case (snoc p c)
  then show ?case
    by (cases p)
       (simp add: im_merge_with_append im_merge_with_Cons merge_combine merge_with_all imap_distinct)
qed simp

end

text \<open>The newest value wins: \<open>extend\<close>.\<close>

interpretation newest: layering "\<lambda>_ v. v" "\<lambda>_. True"
  by unfold_locales simp_all

lemma im_extend_assoc:
  "im_wf b \<Longrightarrow> im_extend (im_extend a b) c = im_extend a (im_extend b c)"
  unfolding im_extend_merge by (rule newest.merge_with_assoc) simp_all

lemma im_merge_with_empty_left: "im_wf m \<Longrightarrow> im_merge_with f [] m = m"
proof (induction m rule: rev_induct)
  case (snoc p m)
  then have "im_wf m" "im_get m (fst p) = None"
    by (auto simp: im_wf_def im_keys_def im_has_def simp flip: im_has_None)
  with snoc show ?case
    by (cases p) (simp add: im_merge_with_append im_merge_with_Cons im_combine_new im_has_None)
qed simp

lemma im_extend_empty_left: "im_wf m \<Longrightarrow> im_extend [] m = m"
  by (simp add: im_extend_merge im_merge_with_empty_left)

text \<open>\<open>if overlay.x.is_some() { merged.x = overlay.x }\<close>: the overlay wins where it is set.\<close>

fun first_occurrences :: "'a list \<Rightarrow> 'a list \<Rightarrow> 'a list" where
  \<comment> \<open>the loop that collects each element once, in the order of its first occurrence\<close>
  "first_occurrences [] names = names"
| "first_occurrences (x # xs) names = first_occurrences xs (if x \<in> set names then names else names @ [x])"

lemma set_first_occurrences [simp]: "set (first_occurrences xs names) = set names \<union> set xs"
  by (induction xs arbitrary: names) auto

lemma distinct_first_occurrences [simp, intro]: "distinct names \<Longrightarrow> distinct (first_occurrences xs names)"
  by (induction xs arbitrary: names) auto

definition or_else :: "'a option \<Rightarrow> 'a option \<Rightarrow> 'a option" where
  "or_else overlay base = (case overlay of Some v \<Rightarrow> Some v | None \<Rightarrow> base)"

lemma or_else_assoc: "or_else c (or_else b a) = or_else (or_else c b) a"
  by (simp add: or_else_def split: option.splits)

lemma or_else_simps [simp]:
  "or_else None b = b" "or_else (Some v) b = Some v" "or_else a None = a" "or_else a a = a"
  by (simp_all add: or_else_def split: option.splits)

subsection \<open>Computations that may fail and that update a state\<close>

type_synonym ('s, 'e, 'a) comp = "'s \<Rightarrow> ('e + 'a) \<times> 's"

definition ok :: "'a \<Rightarrow> ('s, 'e, 'a) comp" where
  "ok a = (\<lambda>s. (Inr a, s))"

definition err :: "'e \<Rightarrow> ('s, 'e, 'a) comp" where
  "err e = (\<lambda>s. (Inl e, s))"

definition andThen :: "('s, 'e, 'a) comp \<Rightarrow> ('a \<Rightarrow> ('s, 'e, 'b) comp) \<Rightarrow> ('s, 'e, 'b) comp" where
  "andThen m f = (\<lambda>s. case m s of (Inl e, s') \<Rightarrow> (Inl e, s') | (Inr a, s') \<Rightarrow> f a s')"

definition get_state :: "('s, 'e, 's) comp" where
  "get_state = (\<lambda>s. (Inr s, s))"

definition modify :: "('s \<Rightarrow> 's) \<Rightarrow> ('s, 'e, unit) comp" where
  "modify f = (\<lambda>s. (Inr (), f s))"

definition lift_sum :: "'e + 'a \<Rightarrow> ('s, 'e, 'a) comp" where
  "lift_sum r = (\<lambda>s. (r, s))"

fun foldM :: "('b \<Rightarrow> 'a \<Rightarrow> ('s, 'e, 'b) comp) \<Rightarrow> 'b \<Rightarrow> 'a list \<Rightarrow> ('s, 'e, 'b) comp" where
  "foldM f b [] = ok b"
| "foldM f b (x # xs) = andThen (f b x) (\<lambda>b'. foldM f b' xs)"

fun bind_sum :: "'e + 'a \<Rightarrow> ('a \<Rightarrow> 'e + 'b) \<Rightarrow> 'e + 'b" where
  "bind_sum (Inl e) f = Inl e"
| "bind_sum (Inr a) f = f a"

lemma bind_sum_Inr: "bind_sum m f = Inr b \<longleftrightarrow> (\<exists>a. m = Inr a \<and> f a = Inr b)"
  by (cases m) auto

lemma bind_sum_Inl: "bind_sum m f = Inl e \<longleftrightarrow> m = Inl e \<or> (\<exists>a. m = Inr a \<and> f a = Inl e)"
  by (cases m) auto

lemma andThen_fst: "fst (andThen m f s) = bind_sum (fst (m s)) (\<lambda>a. fst (f a (snd (m s))))"
  by (auto simp: andThen_def split: prod.splits sum.splits)

lemma comp_simps [simp]:
  "ok a s = (Inr a, s)" "err e s = (Inl e, s)" "get_state s = (Inr s, s)"
  "modify f s = (Inr (), f s)" "lift_sum r s = (r, s)"
  by (simp_all add: ok_def err_def get_state_def modify_def lift_sum_def)

lemma andThen_Inr:
  "andThen m f s = (Inr b, s'') \<longleftrightarrow> (\<exists>a s'. m s = (Inr a, s') \<and> f a s' = (Inr b, s''))"
  by (auto simp: andThen_def split: prod.splits sum.splits)

end
