(* ===== verification/Names.thy ===== *)
theory Names
  imports Prelude
begin

text \<open>
  Text scanners, paths, profile names and configuration file names:
  \<open>crates/fnox-client/src/profile.rs\<close>, the profile list of
  \<open>crates/fnox-core/src/env.rs\<close> and the file-name rules at the head of
  \<open>crates/fnox-core/src/config.rs\<close>. A path is the list of its components as
  \<open>Path::components\<close> yields them, with the component \<open>/\<close> in front of an absolute path.
  The lemmas show that a list of profiles is always normalised to accepted names, that an accepted
  name cannot leave the directory it is joined to, and that file names and profile names are
  inverse to each other.
\<close>

subsection \<open>Characters and text\<close>

definition is_control :: "char \<Rightarrow> bool" where
  "is_control c \<longleftrightarrow> (of_char c :: nat) < 32 \<or> (127 \<le> (of_char c :: nat) \<and> (of_char c :: nat) \<le> 159)"

definition is_whitespace :: "char \<Rightarrow> bool" where
  "is_whitespace c \<longleftrightarrow>
     (9 \<le> (of_char c :: nat) \<and> (of_char c :: nat) \<le> 13) \<or> (of_char c :: nat) \<in> {32, 133, 160}"

definition is_upper :: "char \<Rightarrow> bool" where
  "is_upper c \<longleftrightarrow> 65 \<le> (of_char c :: nat) \<and> (of_char c :: nat) \<le> 90"

definition is_lower :: "char \<Rightarrow> bool" where
  "is_lower c \<longleftrightarrow> 97 \<le> (of_char c :: nat) \<and> (of_char c :: nat) \<le> 122"

definition is_digit :: "char \<Rightarrow> bool" where
  "is_digit c \<longleftrightarrow> 48 \<le> (of_char c :: nat) \<and> (of_char c :: nat) \<le> 57"

definition is_alphanumeric :: "char \<Rightarrow> bool" where
  "is_alphanumeric c \<longleftrightarrow> is_upper c \<or> is_lower c \<or> is_digit c"

fun split_char :: "char \<Rightarrow> string \<Rightarrow> string list" where
  "split_char d [] = [[]]"
| "split_char d (c # cs) =
     (if c = d then [] # split_char d cs
      else (case split_char d cs of w # ws \<Rightarrow> (c # w) # ws | [] \<Rightarrow> [[c]]))"

definition trim_start :: "string \<Rightarrow> string" where
  "trim_start s = dropWhile is_whitespace s"

definition trim :: "string \<Rightarrow> string" where
  "trim s = rev (dropWhile is_whitespace (rev (trim_start s)))"

fun join :: "string \<Rightarrow> string list \<Rightarrow> string" where
  "join sep [] = []"
| "join sep [w] = w"
| "join sep (w # ws) = w @ sep @ join sep ws"

definition strip_prefix :: "string \<Rightarrow> string \<Rightarrow> string option" where
  "strip_prefix p s = (if take (length p) s = p then Some (drop (length p) s) else None)"

definition strip_suffix :: "string \<Rightarrow> string \<Rightarrow> string option" where
  "strip_suffix p s = map_option rev (strip_prefix (rev p) (rev s))"

definition starts_with :: "string \<Rightarrow> string \<Rightarrow> bool" where
  "starts_with p s \<longleftrightarrow> take (length p) s = p"

definition ends_with :: "string \<Rightarrow> string \<Rightarrow> bool" where
  "ends_with p s \<longleftrightarrow> starts_with (rev p) (rev s)"

fun find_sub :: "string \<Rightarrow> string \<Rightarrow> (string \<times> string) option" where
  \<comment> \<open>the text before the first occurrence of the pattern and the text after it\<close>
  "find_sub pat [] = (if pat = [] then Some ([], []) else None)"
| "find_sub pat (c # cs) =
     (case strip_prefix pat (c # cs) of
        Some rest \<Rightarrow> Some ([], rest)
      | None \<Rightarrow> (case find_sub pat cs of
                  Some (before, rest) \<Rightarrow> Some (c # before, rest)
                | None \<Rightarrow> None))"

lemma split_char_not_Nil [simp]: "split_char d s \<noteq> []"
  by (induction s) (auto split: list.splits)

lemma split_char_none: "d \<notin> set s \<Longrightarrow> split_char d s = [s]"
  by (induction s) auto

lemma split_char_parts: "w \<in> set (split_char d s) \<Longrightarrow> d \<notin> set w"
  by (induction s arbitrary: w) (auto split: list.splits if_splits)

lemma split_char_subset: "w \<in> set (split_char d s) \<Longrightarrow> set w \<subseteq> set s"
  by (induction s arbitrary: w) (fastforce split: list.splits if_splits)+

lemma join_split_char: "join [d] (split_char d s) = s"
proof (induction s)
  case (Cons c s)
  obtain w ws where "split_char d s = w # ws" by (meson neq_Nil_conv split_char_not_Nil)
  with Cons show ?case by (cases ws) auto
qed simp

lemma strip_prefix_Some: "strip_prefix p s = Some r \<longleftrightarrow> s = p @ r"
  by (auto simp: strip_prefix_def) (metis append_take_drop_id)

lemma strip_prefix_append [simp]: "strip_prefix p (p @ r) = Some r"
  by (simp add: strip_prefix_Some)

lemma strip_suffix_Some: "strip_suffix p s = Some r \<longleftrightarrow> s = r @ p"
  by (auto simp: strip_suffix_def strip_prefix_Some) (metis rev_append rev_rev_ident)+

lemma starts_with_iff: "starts_with p s \<longleftrightarrow> (\<exists>r. s = p @ r)"
  by (auto simp: starts_with_def) (metis append_take_drop_id)

lemma ends_with_iff: "ends_with p s \<longleftrightarrow> (\<exists>r. s = r @ p)"
  by (auto simp: ends_with_def starts_with_iff) (metis rev_append rev_rev_ident)+

lemma find_sub_split: "find_sub pat s = Some (a, b) \<Longrightarrow> s = a @ pat @ b"
  by (induction s arbitrary: a b) (auto simp: strip_prefix_Some split: if_splits option.splits)

lemma find_sub_length: "find_sub pat s = Some (a, b) \<Longrightarrow> length b \<le> length s"
  by (drule find_sub_split) simp

lemma find_sub_None: "find_sub pat s = None \<Longrightarrow> s \<noteq> a @ pat @ b"
proof (induction s arbitrary: a)
  case (Cons c s)
  then show ?case
    by (cases a) (auto split: option.splits simp: strip_prefix_Some)
qed (auto split: if_splits)

lemma dropWhile_idem: "dropWhile P (dropWhile P xs) = dropWhile P xs"
  by (induction xs) auto

lemma dropWhile_snoc_keep:
  "dropWhile P xs \<noteq> [] \<Longrightarrow> dropWhile P (xs @ ys) = dropWhile P xs @ ys"
  by (induction xs) auto

lemma trim_subset: "set (trim s) \<subseteq> set s"
  by (auto simp: trim_def trim_start_def dest!: set_dropWhileD)

lemma hd_rev_dropWhile:
  assumes "xs \<noteq> [] \<longrightarrow> \<not> P (hd xs)" and "ys = rev (dropWhile P (rev xs))"
  shows "ys \<noteq> [] \<longrightarrow> \<not> P (hd ys)"
proof -
  obtain zs where "xs = ys @ zs"
    using assms(2) by (metis rev_append rev_swap takeWhile_dropWhile_id)
  with assms(1) show ?thesis by auto
qed

lemma trim_idem [simp]: "trim (trim s) = trim s"
proof -
  let ?t = "dropWhile is_whitespace s"
  have h: "?t \<noteq> [] \<longrightarrow> \<not> is_whitespace (hd ?t)" by (simp add: hd_dropWhile)
  have "trim s \<noteq> [] \<longrightarrow> \<not> is_whitespace (hd (trim s))"
    using h by (rule hd_rev_dropWhile [where xs = ?t]) (simp add: trim_def trim_start_def)
  then have "trim_start (trim s) = trim s"
    by (cases "trim s") (auto simp: trim_start_def)
  then show ?thesis
    by (simp add: trim_def [of "trim s"]) (simp add: trim_def dropWhile_idem)
qed


subsection \<open>Profile names\<close>

definition is_valid_name :: "string \<Rightarrow> bool" where
  "is_valid_name name \<longleftrightarrow>
     name \<noteq> [] \<and> name \<noteq> ''.'' \<and> name \<noteq> ''..'' \<and>
     list_all (\<lambda>ch. ch \<noteq> CHR ''/'' \<and> ch \<noteq> CHR 0x5C \<and> ch \<noteq> CHR '','' \<and>
                   ch \<noteq> CHR 0x00 \<and> \<not> is_control ch) name"

definition normalize :: "string list \<Rightarrow> string list" where
  "normalize input =
     (let profiles = filter (\<lambda>s. s \<noteq> [] \<and> is_valid_name s)
                       (map trim (concat (map (split_char CHR '','') input)))
      in if profiles = [] then [''default''] else profiles)"

definition parse_profile_list :: "string \<Rightarrow> string list" where
  "parse_profile_list profiles =
     filter (\<lambda>s. s \<noteq> [] \<and> is_valid_name s) (map trim (split_char CHR '','' profiles))"

lemma is_valid_nameD:
  assumes "is_valid_name p"
  shows "p \<noteq> []" "CHR ''/'' \<notin> set p" "CHR '','' \<notin> set p" "p \<noteq> ''.''" "p \<noteq> ''..''"
  using assms by (auto simp: is_valid_name_def list_all_iff)

lemma default_valid [simp]: "is_valid_name ''default''"
  by (simp add: is_valid_name_def is_control_def)

lemma trim_default: "trim ''default'' = ''default''"
  by (simp add: trim_def trim_start_def is_whitespace_def)

lemma normalize_not_Nil: "normalize input \<noteq> []"
  by (simp add: normalize_def Let_def)

lemma normalize_valid: "p \<in> set (normalize input) \<Longrightarrow> is_valid_name p \<and> trim p = p"
  by (auto simp: normalize_def Let_def trim_default split: if_splits)

lemma normalize_fixed:
  assumes "ps \<noteq> []" and "\<forall>p \<in> set ps. is_valid_name p \<and> trim p = p"
  shows "normalize ps = ps"
proof -
  have "concat (map (split_char CHR '','') ps) = ps"
    using assms(2) by (induction ps) (auto simp: split_char_none is_valid_nameD)
  moreover have "map trim ps = ps"
    using assms(2) by (simp add: map_idI)
  moreover have "filter (\<lambda>s. s \<noteq> [] \<and> is_valid_name s) ps = ps"
    using assms(2) by (auto simp: filter_id_conv is_valid_nameD)
  ultimately show ?thesis using assms(1) by (simp add: normalize_def)
qed

subsection \<open>Paths\<close>

fun norm_dots :: "string list \<Rightarrow> string list" where
  "norm_dots [] = []"
| "norm_dots (c # cs) = c # filter (\<lambda>x. x \<noteq> ''.'') cs"

definition path_components :: "string \<Rightarrow> path" where
  "path_components s =
     (let parts = filter (\<lambda>c. c \<noteq> []) (split_char CHR ''/'' s)
      in if starts_with ''/'' s then ''/'' # filter (\<lambda>x. x \<noteq> ''.'') parts else norm_dots parts)"

definition path_is_absolute :: "path \<Rightarrow> bool" where
  "path_is_absolute p \<longleftrightarrow> (case p of c # _ \<Rightarrow> c = ''/'' | [] \<Rightarrow> False)"

definition path_join :: "path \<Rightarrow> path \<Rightarrow> path" where
  "path_join d p =
     (if path_is_absolute p then p
      else if d = [] then p
      else d @ filter (\<lambda>x. x \<noteq> ''.'') p)"

definition path_parent :: "path \<Rightarrow> path option" where
  "path_parent p = (if p = [] \<or> p = [''/''] then None else Some (butlast p))"

definition file_name :: "path \<Rightarrow> string option" where
  "file_name p =
     (if p = [] \<or> last p \<in> {''..'', ''.'', ''/''} then None else Some (last p))"

lemma path_components_plain:
  "s \<noteq> [] \<Longrightarrow> CHR ''/'' \<notin> set s \<Longrightarrow> path_components s = [s]"
  by (auto simp: path_components_def split_char_none starts_with_iff Let_def)

lemma split_char_append:
  "d \<notin> set a \<Longrightarrow> split_char d (a @ d # b) = a # split_char d b"
  by (induction a) auto

subsection \<open>Configuration file names\<close>

definition DEFAULT_CONFIG_FILENAME :: string where
  "DEFAULT_CONFIG_FILENAME = ''fnox.toml''"

definition base_filenames :: "string list" where
  "base_filenames = [DEFAULT_CONFIG_FILENAME, ''.fnox.toml'', ''.config/fnox.toml'']"

definition profile_filenames :: "string \<Rightarrow> string list" where
  "profile_filenames p =
     [''fnox.'' @ p @ ''.toml'', ''.fnox.'' @ p @ ''.toml'', ''.config/fnox.'' @ p @ ''.toml'']"

definition local_filenames :: "string list" where
  "local_filenames = [''fnox.local.toml'', ''.fnox.local.toml'', ''.config/fnox.local.toml'']"

definition all_config_filenames :: "string list \<Rightarrow> string list" where
  "all_config_filenames profiles =
     base_filenames
     @ concat (map profile_filenames (filter (\<lambda>p. p \<noteq> ''default'') profiles))
     @ local_filenames"

definition uses_config_discovery :: "path \<Rightarrow> bool" where
  "uses_config_discovery p \<longleftrightarrow>
     length p = 1 \<and> list_ex (\<lambda>f. p = path_components f) (all_config_filenames [])"

definition local_override_filename :: "path \<Rightarrow> string option" where
  "local_override_filename p =
     (case file_name p of
        None \<Rightarrow> None
      | Some name \<Rightarrow>
          if name = ''fnox.toml'' then Some ''fnox.local.toml''
          else if name = ''.fnox.toml'' then Some ''.fnox.local.toml''
          else None)"

definition write_profile :: "string list \<Rightarrow> string" where
  "write_profile profiles = (if profiles = [] then ''default'' else last profiles)"

definition find_local_config :: "(path \<Rightarrow> bool) \<Rightarrow> path \<Rightarrow> string list \<Rightarrow> path" where
  "find_local_config exists dir profiles =
     (let wp = write_profile profiles;
          at = (\<lambda>name. path_join dir (path_components name));
          own = (if wp = ''default'' then [] else profile_filenames wp);
          is_profiled = list_ex (\<lambda>p. p \<noteq> ''default'') profiles;
          local = (if is_profiled then [] else local_filenames)
      in case find exists (map at own) of
           Some p \<Rightarrow> p
         | None \<Rightarrow>
             (case find exists (map at base_filenames) of
                Some p \<Rightarrow> p
              | None \<Rightarrow>
                  (case find exists (map at local) of
                     Some p \<Rightarrow> p
                   | None \<Rightarrow> at DEFAULT_CONFIG_FILENAME)))"

definition strip_dot :: "string \<Rightarrow> string" where
  "strip_dot name = (case strip_prefix ''.'' name of Some r \<Rightarrow> r | None \<Rightarrow> name)"

definition is_profile_file :: "path \<Rightarrow> bool" where
  "is_profile_file p =
     (case file_name p of
        None \<Rightarrow> False
      | Some n \<Rightarrow>
          (let name = strip_dot n
           in starts_with ''fnox.'' name \<and> ends_with ''.toml'' name \<and>
              name \<noteq> ''fnox.toml'' \<and> name \<noteq> ''fnox.local.toml''))"

definition profile_name_from_file :: "path \<Rightarrow> string option" where
  "profile_name_from_file p =
     (case file_name p of
        None \<Rightarrow> None
      | Some n \<Rightarrow>
          (case strip_prefix ''fnox.'' (strip_dot n) of
             None \<Rightarrow> None
           | Some rest \<Rightarrow>
               (case strip_suffix ''.toml'' rest of
                  None \<Rightarrow> None
                | Some profile \<Rightarrow>
                    if profile \<noteq> ''default'' \<and> profile \<noteq> ''local'' \<and> is_valid_name profile
                    then Some profile else None)))"

definition is_valid_secret_name :: "string \<Rightarrow> bool" where
  "is_valid_secret_name name \<longleftrightarrow>
     (case name of
        [] \<Rightarrow> False
      | c # cs \<Rightarrow> (is_upper c \<or> is_lower c \<or> c = CHR ''_'') \<and>
                  list_all (\<lambda>b. is_alphanumeric b \<or> b = CHR ''_'') cs)"


lemma config_file_components:
  assumes "CHR ''/'' \<notin> set p"
  shows "path_components (''fnox.'' @ p @ ''.toml'') = [''fnox.'' @ p @ ''.toml'']"
    and "path_components (''.fnox.'' @ p @ ''.toml'') = [''.fnox.'' @ p @ ''.toml'']"
    and "path_components (''.config/fnox.'' @ p @ ''.toml'') = [''.config'', ''fnox.'' @ p @ ''.toml'']"
proof -
  have "split_char CHR ''/'' (''.config/fnox.'' @ p @ ''.toml'')
          = [''.config'', ''fnox.'' @ p @ ''.toml'']"
    using split_char_append [of "CHR ''/''" "''.config''" "''fnox.'' @ p @ ''.toml''"] assms
    by (simp add: split_char_none)
  then show "path_components (''.config/fnox.'' @ p @ ''.toml'') = [''.config'', ''fnox.'' @ p @ ''.toml'']"
    by (simp add: path_components_def starts_with_iff Let_def)
  show "path_components (''fnox.'' @ p @ ''.toml'') = [''fnox.'' @ p @ ''.toml'']"
    by (rule path_components_plain) (use assms in auto)
  show "path_components (''.fnox.'' @ p @ ''.toml'') = [''.fnox.'' @ p @ ''.toml'']"
    by (rule path_components_plain) (use assms in auto)
qed

lemma path_join_relative:
  assumes "list_all (\<lambda>c. c \<noteq> ''.'') cs" and "cs \<noteq> []" and "hd cs \<noteq> ''/''"
  shows "path_join d cs = d @ cs"
  using assms by (cases cs) (auto simp: path_join_def path_is_absolute_def filter_id_conv list_all_iff)

text \<open>Joined to a directory, each file name of a profile is a file of that directory or of its
  \<open>.config\<close> subdirectory.\<close>

definition config_file_of :: "string \<Rightarrow> path \<Rightarrow> bool" where
  "config_file_of c cs \<longleftrightarrow> cs = [c] \<or> cs = [''.config'', c]"

lemma config_file_join:
  assumes "config_file_of c cs" and "c \<noteq> ''.''" and "c \<noteq> ''/''"
  obtains e where "path_join d cs = e @ [c]" and "path_parent (path_join d cs) = Some e"
    and "e = d \<or> e = d @ [''.config'']"
  using assms
  by (auto simp: config_file_of_def path_join_relative path_parent_def)

lemma profile_filenames_file:
  assumes "CHR ''/'' \<notin> set p" and "f \<in> set (profile_filenames p)"
  obtains c where "config_file_of c (path_components f)"
    and "c = ''fnox.'' @ p @ ''.toml'' \<or> c = ''.fnox.'' @ p @ ''.toml''"
  using assms(2) config_file_components [OF assms(1)]
  by (auto simp only: profile_filenames_def config_file_of_def list.set insert_iff empty_iff)

lemma fixed_filenames_components:
  "map path_components (base_filenames @ local_filenames) =
     [[''fnox.toml''], [''.fnox.toml''], [''.config'', ''fnox.toml''],
      [''fnox.local.toml''], [''.fnox.local.toml''], [''.config'', ''fnox.local.toml'']]"
  by code_simp

lemma fixed_filenames_file:
  assumes "f \<in> set base_filenames \<union> set local_filenames"
  obtains c where "config_file_of c (path_components f)" and "length c > 1"
proof -
  have "path_components f \<in> set (map path_components (base_filenames @ local_filenames))"
    using assms by auto
  then have "\<exists>c. config_file_of c (path_components f) \<and> length c > 1"
    unfolding fixed_filenames_components config_file_of_def
    by (auto simp only: list.set insert_iff empty_iff) simp_all
  then show thesis using that by blast
qed

text \<open>Every configuration file name derived from accepted profile names names a file of
  the directory it is joined to, or of its \<open>.config\<close> subdirectory: a profile name can never
  make fnox read or write outside the searched directory.\<close>

lemma config_files_stay_in_directory:
  assumes "f \<in> set (all_config_filenames (normalize input))"
  shows "path_parent (path_join d (path_components f)) \<in> {Some d, Some (d @ [''.config''])}"
proof -
  obtain c where "config_file_of c (path_components f)" and "length c > 1"
  proof (cases "f \<in> set base_filenames \<union> set local_filenames")
    case True
    then show thesis using that by (elim fixed_filenames_file)
  next
    case False
    with assms obtain p where p: "p \<in> set (normalize input)" "f \<in> set (profile_filenames p)"
      by (auto simp: all_config_filenames_def)
    then have "CHR ''/'' \<notin> set p" using normalize_valid is_valid_nameD(2) by blast
    then obtain c where c: "config_file_of c (path_components f)"
      and "c = ''fnox.'' @ p @ ''.toml'' \<or> c = ''.fnox.'' @ p @ ''.toml''"
      using profile_filenames_file p(2) by blast
    then have "length c > 1" by (elim disjE) simp_all
    with c show thesis by (rule that)
  qed
  then show ?thesis by (elim config_file_join [where d = d]) auto
qed

lemma profile_file_name:
  assumes "is_valid_name p" and "p \<notin> {''default'', ''local''}"
    and "c \<in> {''fnox.'' @ p @ ''.toml'', ''.fnox.'' @ p @ ''.toml''}"
  shows "profile_name_from_file (d @ [c]) = Some p"
proof -
  have "strip_dot c = ''fnox.'' @ p @ ''.toml''"
    using assms(3) by (auto simp: strip_dot_def strip_prefix_def)
  moreover have "file_name (d @ [c]) = Some c"
    using assms(3) by (auto simp: file_name_def)
  moreover have "strip_suffix ''.toml'' (p @ ''.toml'') = Some p"
    by (simp add: strip_suffix_Some)
  moreover have "strip_prefix ''fnox.'' (''fnox.'' @ p @ ''.toml'') = Some (p @ ''.toml'')"
    by (simp only: strip_prefix_append)
  ultimately show ?thesis
    using assms(1,2) by (simp add: profile_name_from_file_def)
qed

lemma profile_file_recognised:
  assumes "p \<notin> {''default'', ''local''}"
    and "c = ''fnox.'' @ p @ ''.toml'' \<or> c = ''.fnox.'' @ p @ ''.toml''"
  shows "is_profile_file (d @ [c])"
proof -
  have dot: "strip_dot c = ''fnox.'' @ p @ ''.toml''"
    using assms(2) by (auto simp: strip_dot_def strip_prefix_def)
  have s: "starts_with ''fnox.'' (''fnox.'' @ p @ ''.toml'')"
    unfolding starts_with_iff by blast
  have e: "ends_with ''.toml'' (''fnox.'' @ p @ ''.toml'')"
    unfolding ends_with_iff by (rule exI [of _ "''fnox.'' @ p"]) simp
  have f: "file_name (d @ [c]) = Some c" using assms(2) by (auto simp: file_name_def)
  have n: "''fnox.'' @ p @ ''.toml'' \<noteq> ''fnox.toml''"
    by (auto dest: arg_cong [of _ _ length])
  have l: "''fnox.'' @ p @ ''.toml'' \<noteq> ''fnox.local.toml''"
  proof
    assume "''fnox.'' @ p @ ''.toml'' = ''fnox.local.toml''"
    then have "p @ ''.toml'' = ''local'' @ ''.toml''" by simp
    then show False using assms(1) by (simp only: append_same_eq) simp
  qed
  show ?thesis
    unfolding is_profile_file_def f option.case dot Let_def using s e n l by blast
qed

text \<open>The file a profile is loaded from names exactly that profile: for an accepted name
  other than \<open>default\<close> and \<open>local\<close>, each of the three file names searched for the profile
  is recognised as a profile file and yields the profile's name back.\<close>

lemma profile_file_roundtrip:
  assumes "is_valid_name p" and "p \<notin> {''default'', ''local''}"
    and "f \<in> set (profile_filenames p)"
  shows "profile_name_from_file (path_join d (path_components f)) = Some p \<and>
         is_profile_file (path_join d (path_components f))"
proof -
  have slash: "CHR ''/'' \<notin> set p" using assms(1) by (rule is_valid_nameD)
  obtain c where c: "config_file_of c (path_components f)"
    and form: "c = ''fnox.'' @ p @ ''.toml'' \<or> c = ''.fnox.'' @ p @ ''.toml''"
    using profile_filenames_file [OF slash assms(3)] .
  from form have ne: "c \<noteq> ''.''" "c \<noteq> ''/''" by (elim disjE; simp)+
  obtain e where at: "path_join d (path_components f) = e @ [c]"
    using config_file_join [OF c ne] .
  have "profile_name_from_file (e @ [c]) = Some p"
    by (rule profile_file_name [OF assms(1,2)]) (use form in blast)
  moreover have "is_profile_file (e @ [c])"
    by (rule profile_file_recognised [OF assms(2) form])
  ultimately show ?thesis unfolding at by blast
qed

lemma normalize_idem: "normalize (normalize input) = normalize input"
  by (rule normalize_fixed) (simp_all add: normalize_not_Nil normalize_valid)

lemma write_profile_in: "ps \<noteq> [] \<Longrightarrow> write_profile ps \<in> set ps"
  by (simp add: write_profile_def)

end
