(* ===== verification/Errors.thy ===== *)
theory Errors
  imports Names
begin

text \<open>
  The errors of \<open>crates/fnox-core/src/error.rs\<close> that the modelled operations return, and
  the small enumerations shared by configuration and resolution. A formatted message is a
  constructor that carries the values the message is built from; \<open>FnoxError::Config\<close> carries
  one of the messages of \<open>config_message\<close>. \<open>Panicked\<close> stands for the panic of an index
  expression on a missing key, so that every abnormal end of an operation is a value.
\<close>

datatype if_missing = IfError | IfWarn | IfIgnore

datatype env_mode = EnvShell | EnvExec | EnvNever

type_synonym span = "nat \<times> nat"

record 'a spanned =
  sv_value :: 'a
  sv_span :: "span option"

definition without_span :: "'a \<Rightarrow> 'a spanned" where
  "without_span v = \<lparr>sv_value = v, sv_span = None\<rparr>"

record validation_issue =
  vi_message :: "string list"
  vi_help :: "string list"

datatype config_message =
    InvalidInheritedProfileName string
  | InvalidWriteProfileName string
  | MultipleProfilesActive string
  | NoProvidersConfigured
  | DefaultProviderNotFound string string
  | ImportFileNotFound path
  | CurrentDirUnavailable
  | JsonParseFailed
  | JsonPathNotFound string
  | JsonPathEmpty
  | JsonPathAndLine
  | LineZero
  | LineOutOfRange nat nat
  | EmptyInterpolationReference string
  | ReferenceNotResolved string string
  | ReferenceUndefined string string
  | InterpolationSelfCycle string
  | InterpolationCycle string
  | FallbackCycle string
  | SecretNotInProfile string
  | SecretNotFound string
  | TemplateFailed string
  | InvalidDuration string
  | InvalidDurationUnit char string
  | DurationZero
  | DurationEmpty
  | DurationTooLarge string
  | LeaseIdAmbiguous string "string list"
  | LeaseNotFound string
  | LeaseAllWithTarget
  | LeaseNoTarget
  | LeaseBackendMissing string
  | UrlInvalid string string
  | UrlInsecure string string
  | FilterPatternInvalid string
  | SecretFileInvalid nat string
  | LeasePrefixAmbiguous string "string list"
  | LeasePrerequisitesMissing string string
  | LeaseDurationTooLong string string
  | LedgerLockFailed
  | BackendMessage string
  | DirChangeFailed path
  | InvalidDaemonResponse string
  | DaemonMessage string
  | DaemonUnreachable string
  | RequestTooLong nat
  | RequestUndecodable
  | UnterminatedEnvValue
  | ShellInputUnterminated
  | ShellInputNotAssignment string
  | YamlParseFailed string
  | TomlParseFailed string

datatype fnox_error =
    ConfigError config_message
  | ConfigNotFound path
  | ConfigReadFailed path
  | ConfigWriteFailed path
  | ConfigParseError string
  | ConfigParseErrorWithSource string path span
  | ConfigValidationFailed "validation_issue list"
  | ProfileNotFound string "string list"
  | ProfileInheritanceCycle string
  | DefaultProviderNotFoundWithSource string string path span
  | ProviderNotConfigured string string "path option" "string option"
  | ProviderNotConfiguredWithSource string string "string option" path span
  | InteractiveAuthRequired string
  | AuthCommandFailed int
  | ProviderError string
  | ProviderAuthFailed string string string string
  | EnvKeysRejected "string list" "string list" string
  | CommandNotSpecified
  | ExecReplaceFileSecrets string
  | ExecReplaceLeases
  | ExecReplaceRedact
  | SecretMissing string string "path option" "string option"
  | ImportStdinRequiresForce
  | InvalidRegexFilter string string
  | ImportProviderUnsupported string string
  | ImportReadFailed path
  | StdinReadFailed
  | ImportEncryptionFailed string string fnox_error
  | ImportParseErrorWithSource string string string nat nat
  | CreateDirFailed path
  | ExportWriteFailed path
  | SerializationFailed string
  | Panicked string

definition is_auth_error :: "fnox_error \<Rightarrow> bool" where
  "is_auth_error e = (case e of ProviderAuthFailed _ _ _ _ \<Rightarrow> True | _ \<Rightarrow> False)"

text \<open>\<open>get_named_source\<close> finds the content that \<open>register\<close> stored for a file.\<close>

type_synonym registry = "(path, string) imap"

definition register :: "path \<Rightarrow> string \<Rightarrow> registry \<Rightarrow> registry" where
  "register p content r = im_insert p content r"

definition get_named_source :: "registry \<Rightarrow> path \<Rightarrow> string option" where
  "get_named_source r p = im_get r p"

text \<open>The environment modes of the two places a secret may be injected.\<close>

definition in_shell :: "env_mode \<Rightarrow> bool" where
  "in_shell m \<longleftrightarrow> m = EnvShell"

definition in_exec :: "env_mode \<Rightarrow> bool" where
  "in_exec m \<longleftrightarrow> m = EnvShell \<or> m = EnvExec"

lemma in_shell_in_exec: "in_shell m \<Longrightarrow> in_exec m"
  by (simp add: in_shell_def in_exec_def)

end
