(* ===== verification/ConfigModel.thy ===== *)
theory ConfigModel
  imports Errors "HOL-Library.List_Lexorder" "HOL-Library.Char_ord"
begin

text \<open>
  The configuration of \<open>crates/fnox-core/src/config.rs\<close>: its structs as records and the
  operations that read and reshape one value. Provider and lease configurations are the type
  parameters \<open>'p\<close> and \<open>'l\<close>: the provider enum is generated by the build script, and
  nothing here looks inside either. \<open>visit\<close> is the profile expansion of
  \<open>resolve_profiles_inner\<close>; its \<open>visiting\<close> stack is an argument, because every push is
  popped before the call returns.
\<close>

subsection \<open>Data\<close>

record sync_config =
  sy_provider :: string
  sy_value :: string
  sy_local_source :: bool

record secret_config =
  s_description :: "string option"
  s_if_missing :: "if_missing option"
  s_default :: "string option"
  s_provider :: "string spanned option"
  s_value :: "string spanned option"
  s_env :: "env_mode option"
  s_as_file :: bool
  s_json_path :: "string option"
  s_line :: "nat option"
  s_sync :: "sync_config option"
  s_source_path :: "path option"
  s_source_is_profile :: bool
  s_source_profile :: "string option"
  s_daemon_cache :: "bool option"

record ('p, 'l) profile_config =
  p_inherits :: "string list option"
  p_leases :: "(string, 'l) imap"
  p_providers :: "(string, 'p) imap"
  p_default_provider :: "string spanned option"
  p_secrets :: "(string, secret_config) imap"
  p_provider_sources :: "(string, path) imap"
  p_secret_sources :: "(string, path) imap"
  p_default_provider_source :: "path option"

datatype mcp_tool = GetSecret | Exec

record mcp_config =
  m_tools_raw :: "mcp_tool list option"
  m_exec_timeout_secs :: "nat option"
  m_redact_output :: "bool option"
  m_secrets :: "string list option"

record daemon_config =
  d_enabled :: "bool option"
  d_idle_timeout :: "string option"

record audit_config =
  a_enabled :: "bool option"
  a_path :: "path option"

datatype proxy_egress = Strict | Permissive

record proxy_rule =
  r_secret :: string
  r_domain :: string
  r_env :: "string option"
  r_header :: "string option"
  r_query :: "string option"
  r_methods :: "string list"
  r_paths :: "string list"
  r_placeholder :: "string option"

record proxy_config =
  x_egress :: proxy_egress
  x_audit :: bool
  x_rules :: "proxy_rule list"
  x_allow_domains :: "string list"
  x_allow_private :: "string list"
  x_sandbox :: bool
  x_sandbox_allow_write :: "string list"
  x_sandbox_deny_read :: "string list"
  x_sandbox_allow_read :: "string list"

record ('p, 'l) config =
  c_import :: "string list"
  c_root :: bool
  c_leases :: "(string, 'l) imap"
  c_providers :: "(string, 'p) imap"
  c_plugins :: "(string, string) imap"
  c_default_provider :: "string spanned option"
  c_secrets :: "(string, secret_config) imap"
  c_profiles :: "(string, ('p, 'l) profile_config) imap"
  c_age_key_file :: "path option"
  c_if_missing :: "if_missing option"
  c_env :: "env_mode option"
  c_prompt_auth :: "bool option"
  c_redact_exec :: "bool option"
  c_mcp :: "mcp_config option"
  c_daemon :: "daemon_config option"
  c_proxy :: "proxy_config option"
  c_audit :: "audit_config option"
  c_provider_sources :: "(string, path) imap"
  c_secret_sources :: "(string, path) imap"
  c_default_provider_source :: "path option"
  c_loaded_file_profiles :: "string list"
  c_project_dir :: "path option"

definition new_secret :: secret_config where
  "new_secret = \<lparr>s_description = None, s_if_missing = None, s_default = None, s_provider = None,
     s_value = None, s_env = None, s_as_file = False, s_json_path = None, s_line = None,
     s_sync = None, s_source_path = None, s_source_is_profile = False, s_source_profile = None,
     s_daemon_cache = None\<rparr>"

definition new_profile :: "('p, 'l) profile_config" where
  "new_profile = \<lparr>p_inherits = None, p_leases = [], p_providers = [], p_default_provider = None,
     p_secrets = [], p_provider_sources = [], p_secret_sources = [],
     p_default_provider_source = None\<rparr>"

definition new_config :: "('p, 'l) config" where
  "new_config = \<lparr>c_import = [], c_root = False, c_leases = [], c_providers = [], c_plugins = [],
     c_default_provider = None, c_secrets = [], c_profiles = [], c_age_key_file = None,
     c_if_missing = None, c_env = None, c_prompt_auth = None, c_redact_exec = None, c_mcp = None,
     c_daemon = None, c_proxy = None, c_audit = None, c_provider_sources = [],
     c_secret_sources = [], c_default_provider_source = None, c_loaded_file_profiles = [],
     c_project_dir = None\<rparr>"

subsection \<open>Reading one secret or profile\<close>

definition secret_provider :: "secret_config \<Rightarrow> string option" where
  "secret_provider sc = map_option sv_value (s_provider sc)"

definition secret_value :: "secret_config \<Rightarrow> string option" where
  "secret_value sc = map_option sv_value (s_value sc)"

definition set_provider :: "string option \<Rightarrow> secret_config \<Rightarrow> secret_config" where
  "set_provider p sc = sc\<lparr>s_provider := map_option without_span p\<rparr>"

definition set_value :: "string option \<Rightarrow> secret_config \<Rightarrow> secret_config" where
  "set_value v sc = sc\<lparr>s_value := map_option without_span v\<rparr>"

definition has_value :: "secret_config \<Rightarrow> bool" where
  "has_value sc \<longleftrightarrow> secret_provider sc \<noteq> None \<or> secret_value sc \<noteq> None \<or> s_default sc \<noteq> None"

definition secret_env_mode :: "secret_config \<Rightarrow> env_mode" where
  "secret_env_mode sc = (case s_env sc of Some m \<Rightarrow> m | None \<Rightarrow> EnvShell)"

definition for_raw_resolve :: "secret_config \<Rightarrow> secret_config" where
  "for_raw_resolve sc = sc\<lparr>s_json_path := None, s_line := None, s_sync := None, s_default := None\<rparr>"

definition profile_default_provider :: "('p, 'l) profile_config \<Rightarrow> string option" where
  "profile_default_provider p = map_option sv_value (p_default_provider p)"

definition profile_default_provider_span :: "('p, 'l) profile_config \<Rightarrow> span option" where
  "profile_default_provider_span p = Option.bind (p_default_provider p) sv_span"

definition profile_inherits :: "('p, 'l) profile_config \<Rightarrow> string list" where
  "profile_inherits p = (case p_inherits p of Some ps \<Rightarrow> ps | None \<Rightarrow> [])"

definition profile_is_empty :: "('p, 'l) profile_config \<Rightarrow> bool" where
  "profile_is_empty p \<longleftrightarrow>
     p_inherits p = None \<and> p_leases p = [] \<and> p_providers p = [] \<and> p_secrets p = [] \<and>
     profile_default_provider p = None"

definition config_default_provider :: "('p, 'l) config \<Rightarrow> string option" where
  "config_default_provider c = map_option sv_value (c_default_provider c)"

definition config_default_provider_span :: "('p, 'l) config \<Rightarrow> span option" where
  "config_default_provider_span c = Option.bind (c_default_provider c) sv_span"

definition set_default_provider :: "string option \<Rightarrow> ('p, 'l) config \<Rightarrow> ('p, 'l) config" where
  "set_default_provider p c = c\<lparr>c_default_provider := map_option without_span p\<rparr>"

definition mcp_default :: mcp_config where
  "mcp_default = \<lparr>m_tools_raw = None, m_exec_timeout_secs = None, m_redact_output = None,
     m_secrets = None\<rparr>"

definition mcp_tools :: "mcp_config \<Rightarrow> mcp_tool list" where
  "mcp_tools m = (case m_tools_raw m of Some ts \<Rightarrow> ts | None \<Rightarrow> [GetSecret, Exec])"

definition tools_explicitly_set :: "mcp_config \<Rightarrow> bool" where
  "tools_explicitly_set m \<longleftrightarrow> m_tools_raw m \<noteq> None"

definition set_tools :: "mcp_tool list \<Rightarrow> mcp_config \<Rightarrow> mcp_config" where
  "set_tools ts m = m\<lparr>m_tools_raw := Some ts\<rparr>"

definition mcp_redact_output :: "mcp_config \<Rightarrow> bool" where
  "mcp_redact_output m = (case m_redact_output m of Some b \<Rightarrow> b | None \<Rightarrow> True)"

definition mcp_filter_secrets ::
  "mcp_config \<Rightarrow> (string, secret_config) imap \<Rightarrow> (string, secret_config) imap" where
  "mcp_filter_secrets m secrets =
     (case m_secrets m of
        None \<Rightarrow> secrets
      | Some allowlist \<Rightarrow> im_retain (\<lambda>k _. k \<in> set allowlist) secrets)"

definition daemon_default :: daemon_config where
  "daemon_default = \<lparr>d_enabled = None, d_idle_timeout = None\<rparr>"

definition daemon_enabled :: "daemon_config \<Rightarrow> bool" where
  "daemon_enabled d = (case d_enabled d of Some b \<Rightarrow> b | None \<Rightarrow> False)"

definition daemon_idle_timeout :: "daemon_config \<Rightarrow> string" where
  "daemon_idle_timeout d = (case d_idle_timeout d of Some t \<Rightarrow> t | None \<Rightarrow> ''8h'')"

definition audit_default :: audit_config where
  "audit_default = \<lparr>a_enabled = None, a_path = None\<rparr>"

definition audit_enabled :: "audit_config \<Rightarrow> bool" where
  "audit_enabled a = (case a_enabled a of Some b \<Rightarrow> b | None \<Rightarrow> False)"

subsection \<open>Profile expansion\<close>

definition available_profiles :: "('p, 'l) config \<Rightarrow> string list" where
  "available_profiles c =
     remdups_adj (sort (''default'' # im_keys (c_profiles c) @ c_loaded_file_profiles c))"

definition profile_backed :: "('p, 'l) config \<Rightarrow> string \<Rightarrow> bool" where
  "profile_backed c p \<longleftrightarrow> im_has (c_profiles c) p \<or> p \<in> set (c_loaded_file_profiles c)"

record vstate =
  v_resolved :: "string list"
  v_visited :: "string set"

definition push_profile :: "string \<Rightarrow> vstate \<Rightarrow> vstate" where
  "push_profile p st =
     st\<lparr>v_visited := insert p (v_visited st), v_resolved := v_resolved st @ [p]\<rparr>"

definition inheritance_cycle :: "string list \<Rightarrow> string \<Rightarrow> fnox_error" where
  "inheritance_cycle visiting p =
     ProfileInheritanceCycle (join '' -> '' (dropWhile (\<lambda>n. n \<noteq> p) visiting @ [p]))"

definition unexplored :: "('p, 'l) config \<Rightarrow> string list \<Rightarrow> nat" where
  "unexplored c visiting = card (set (im_keys (c_profiles c)) - set visiting)"

lemma unexplored_less:
  assumes "im_get (c_profiles c) p = Some pc" and "p \<notin> set visiting"
  shows "unexplored c (visiting @ [p]) < unexplored c visiting"
proof -
  have "p \<in> set (im_keys (c_profiles c))" using assms(1) by (auto simp: im_has_iff simp flip: im_has_def)
  with assms(2) show ?thesis
    unfolding unexplored_def by (intro psubset_card_mono) auto
qed

function visit :: "('p, 'l) config \<Rightarrow> bool \<Rightarrow> string list \<Rightarrow> bool \<Rightarrow> string \<Rightarrow> vstate \<Rightarrow> fnox_error + vstate"
  and visit_inherited ::
    "('p, 'l) config \<Rightarrow> bool \<Rightarrow> string list \<Rightarrow> string list \<Rightarrow> vstate \<Rightarrow> fnox_error + vstate" where
  "visit c validate visiting force p st =
     (if \<not> is_valid_name p then Inl (ConfigError (InvalidInheritedProfileName p))
      else if p \<in> v_visited st \<and> \<not> force then Inr st
      else if p = ''default'' then Inr (push_profile p st)
      else if validate \<and> \<not> force \<and> \<not> profile_backed c p
      then Inl (ProfileNotFound p (available_profiles c))
      else if p \<in> set visiting then Inl (inheritance_cycle visiting p)
      else (case im_get (c_profiles c) p of
              None \<Rightarrow> Inr (push_profile p st)
            | Some pc \<Rightarrow>
                bind_sum (visit_inherited c validate (visiting @ [p]) (profile_inherits pc) st)
                  (\<lambda>st'. Inr (push_profile p st'))))"
| "visit_inherited c validate visiting [] st = Inr st"
| "visit_inherited c validate visiting (p # ps) st =
     bind_sum (visit c validate visiting False p st) (\<lambda>st'. visit_inherited c validate visiting ps st')"
  by pat_completeness auto

termination
  by (relation "measures [\<lambda>x. case x of Inl (c, _, visiting, _) \<Rightarrow> unexplored c visiting
                                      | Inr (c, _, visiting, _) \<Rightarrow> unexplored c visiting,
                          \<lambda>x. case x of Inl _ \<Rightarrow> 1 | Inr (_, _, _, ps, _) \<Rightarrow> 2 * length ps]")
     (auto simp: unexplored_less)

declare visit.simps [simp del]

fun visit_requested :: "('p, 'l) config \<Rightarrow> bool \<Rightarrow> string list \<Rightarrow> vstate \<Rightarrow> fnox_error + vstate" where
  "visit_requested c validate [] st = Inr st"
| "visit_requested c validate (p # ps) st =
     bind_sum (visit c validate [] True p st) (\<lambda>st'. visit_requested c validate ps st')"

definition resolve_profiles_inner :: "('p, 'l) config \<Rightarrow> string list \<Rightarrow> bool \<Rightarrow> fnox_error + string list" where
  "resolve_profiles_inner c profiles validate_inherited =
     bind_sum (visit_requested c validate_inherited profiles \<lparr>v_resolved = [], v_visited = {}\<rparr>)
       (\<lambda>st. Inr (v_resolved st))"

definition resolve_profiles :: "('p, 'l) config \<Rightarrow> string list \<Rightarrow> fnox_error + string list" where
  "resolve_profiles c profiles = resolve_profiles_inner c profiles True"

definition resolve_profiles_for_discovery :: "('p, 'l) config \<Rightarrow> string list \<Rightarrow> fnox_error + string list" where
  "resolve_profiles_for_discovery c profiles = resolve_profiles_inner c profiles False"

definition validate_profiles :: "('p, 'l) config \<Rightarrow> string list \<Rightarrow> string option \<Rightarrow> fnox_error + unit" where
  "validate_profiles c profiles allow_missing =
     bind_sum (resolve_profiles c profiles) (\<lambda>resolved.
       case find (\<lambda>p. p \<noteq> ''default'' \<and> \<not> (Some p = allow_missing \<and> p \<in> set profiles) \<and>
                      \<not> profile_backed c p) resolved of
         Some p \<Rightarrow> Inl (ProfileNotFound p (available_profiles c))
       | None \<Rightarrow> Inr ())"

definition resolve_write_profile :: "string list \<Rightarrow> string option \<Rightarrow> fnox_error + string" where
  "resolve_write_profile profiles explicit =
     (case explicit of
        Some name \<Rightarrow>
          if \<not> is_valid_name name then Inl (ConfigError (InvalidWriteProfileName name)) else Inr name
      | None \<Rightarrow>
          (case profiles of
             [] \<Rightarrow> Inr ''default''
           | [p] \<Rightarrow> Inr p
           | _ \<Rightarrow> Inl (ConfigError (MultipleProfilesActive (join '','' profiles)))))"

definition display_profiles :: "string list \<Rightarrow> string" where
  "display_profiles profiles = (if profiles = [] then ''default'' else join '','' profiles)"

end
