(* ===== verification/ProfileExpansion.thy ===== *)
theory ProfileExpansion
  imports ConfigModel
begin

text \<open>
  What the profile expansion of \<open>ConfigModel\<close> computes: the profiles reachable through
  \<open>inherits\<close>, each after everything it inherits. The lemmas follow the mutual recursion of
  \<open>visit\<close> and \<open>visit_inherited\<close>: both only append to the resolved list, both keep the
  resolved list and the visited set in step, and an error is one of three, each with its cause.
\<close>

definition inherits_of :: "('p, 'l) config \<Rightarrow> string \<Rightarrow> string list" where
  "inherits_of c q =
     (if q = ''default'' then []
      else case im_get (c_profiles c) q of Some pc \<Rightarrow> profile_inherits pc | None \<Rightarrow> [])"

inductive inherits_from :: "('p, 'l) config \<Rightarrow> string \<Rightarrow> string \<Rightarrow> bool" for c where
  inherits_step: "r \<in> set (inherits_of c q) \<Longrightarrow> inherits_from c q r"

inductive_simps inherits_from_iff: "inherits_from c q r"

text \<open>Every profile stands after the profiles it inherits.\<close>

fun parents_first :: "('p, 'l) config \<Rightarrow> string set \<Rightarrow> string list \<Rightarrow> bool" where
  "parents_first c before [] \<longleftrightarrow> True"
| "parents_first c before (q # qs) \<longleftrightarrow>
     set (inherits_of c q) \<subseteq> before \<and> parents_first c (insert q before) qs"

lemma parents_first_append:
  "parents_first c b (xs @ ys) \<longleftrightarrow> parents_first c b xs \<and> parents_first c (b \<union> set xs) ys"
  by (induction xs arbitrary: b) auto

text \<open>The relation between the states before and after a visit.\<close>

definition extends :: "('p, 'l) config \<Rightarrow> vstate \<Rightarrow> vstate \<Rightarrow> bool" where
  "extends c st st' \<longleftrightarrow>
     (\<exists>new. v_resolved st' = v_resolved st @ new \<and> v_visited st' = v_visited st \<union> set new \<and>
            parents_first c (v_visited st) new \<and> list_all is_valid_name new)"

lemma extends_refl [simp]: "extends c st st"
  by (simp add: extends_def)

lemma extends_trans: "extends c a b \<Longrightarrow> extends c b d \<Longrightarrow> extends c a d"
  by (fastforce simp: extends_def parents_first_append)

lemma push_profile_simps [simp]:
  "v_visited (push_profile p st) = insert p (v_visited st)"
  "v_resolved (push_profile p st) = v_resolved st @ [p]"
  by (simp_all add: push_profile_def)

lemma extends_push:
  "is_valid_name p \<Longrightarrow> set (inherits_of c p) \<subseteq> v_visited st \<Longrightarrow> extends c st (push_profile p st)"
  by (auto simp: extends_def)

lemma extends_visited: "extends c a b \<Longrightarrow> v_visited a \<subseteq> v_visited b"
  by (auto simp: extends_def)

lemma visit_cases [consumes 1, case_names seen leaf node]:
  assumes "visit c v vis f p st = Inr st'"
  obtains (seen) "is_valid_name p" "p \<in> v_visited st" "\<not> f" "st' = st"
  | (leaf) "is_valid_name p" "\<not> (p \<in> v_visited st \<and> \<not> f)" "inherits_of c p = []"
      "p = ''default'' \<or> (p \<notin> set vis \<and> im_get (c_profiles c) p = None)"
      "st' = push_profile p st"
  | (node) pc st2 where "is_valid_name p" "\<not> (p \<in> v_visited st \<and> \<not> f)" "p \<noteq> ''default''"
      "\<not> (v \<and> \<not> f \<and> \<not> profile_backed c p)" "p \<notin> set vis" "im_get (c_profiles c) p = Some pc"
      "inherits_of c p = profile_inherits pc"
      "visit_inherited c v (vis @ [p]) (profile_inherits pc) st = Inr st2"
      "st' = push_profile p st2"
  using assms
  by (subst (asm) visit.simps)
     (auto simp: inherits_of_def bind_sum_Inr split: if_splits option.splits)

lemma visit_extends_aux:
  shows "visit c v vis f p st = Inr st' \<Longrightarrow> extends c st st' \<and> p \<in> v_visited st'"
    and "visit_inherited c v vis ps st = Inr st'' \<Longrightarrow> extends c st st'' \<and> set ps \<subseteq> v_visited st''"
proof (induction c v vis f p st and c v vis ps st arbitrary: st' and st''
    rule: visit_visit_inherited.induct)
  case (1 c v vis f p st)
  from "1.prems" show ?case
  proof (cases rule: visit_cases)
    case (node pc st2)
    then have IH: "extends c st st2" "set (profile_inherits pc) \<subseteq> v_visited st2"
      using "1.IH" by auto
    have "extends c st2 st'"
      unfolding node(9) by (rule extends_push [OF node(1)]) (use IH node in simp)
    with IH(1) node(9) show ?thesis by (auto intro: extends_trans)
  qed (auto intro: extends_push)
next
  case (3 c v vis p ps st)
  then obtain st1 where st1: "visit c v vis False p st = Inr st1"
    and st': "visit_inherited c v vis ps st1 = Inr st''"
    by (auto simp: bind_sum_Inr)
  have a: "extends c st st1" "p \<in> v_visited st1" using "3.IH"(1) st1 by auto
  have b: "extends c st1 st''" "set ps \<subseteq> v_visited st''" using "3.IH"(2) st1 st' by auto
  show ?case using a b extends_visited [OF b(1)] by (auto intro: extends_trans)
qed simp

lemmas visit_extends = visit_extends_aux(1)
lemmas visit_inherited_extends = visit_extends_aux(2)

lemma visit_requested_extends:
  "visit_requested c v ps st = Inr st' \<Longrightarrow> extends c st st' \<and> set ps \<subseteq> v_visited st'"
proof (induction ps arbitrary: st)
  case (Cons p ps)
  then obtain st1 where st1: "visit c v [] True p st = Inr st1"
    and st': "visit_requested c v ps st1 = Inr st'"
    by (auto simp: bind_sum_Inr)
  note a = visit_extends [OF st1] and b = Cons.IH [OF st']
  from a b extends_visited show ?case by (auto intro: extends_trans)
qed simp

abbreviation start :: vstate where
  "start \<equiv> \<lparr>v_resolved = [], v_visited = {}\<rparr>"

lemma resolve_profiles_innerE:
  assumes "resolve_profiles_inner c ps v = Inr rs"
  obtains st where "visit_requested c v ps start = Inr st" and "rs = v_resolved st"
  using assms by (auto simp: resolve_profiles_inner_def bind_sum_Inr)

lemma resolved_parents_first:
  assumes "resolve_profiles_inner c ps v = Inr rs"
  shows "parents_first c {} rs \<and> set ps \<subseteq> set rs \<and> list_all is_valid_name rs"
  using assms
  by (rule resolve_profiles_innerE) (auto dest!: visit_requested_extends simp: extends_def)

subsection \<open>Exactly the reachable profiles\<close>

lemma parents_first_closed:
  "parents_first c b rs \<Longrightarrow> q \<in> set rs \<Longrightarrow> set (inherits_of c q) \<subseteq> b \<union> set rs"
  by (induction rs arbitrary: b) auto

lemma closed_reachable:
  assumes "(inherits_from c)\<^sup>*\<^sup>* q r" and "q \<in> S" and "\<And>x. x \<in> S \<Longrightarrow> set (inherits_of c x) \<subseteq> S"
  shows "r \<in> S"
  using assms by (induction rule: rtranclp_induct) (auto simp: inherits_from_iff)

lemma visit_reachable_aux:
  shows "visit c v vis f p st = Inr st' \<Longrightarrow>
           v_visited st' \<subseteq> v_visited st \<union> {r. (inherits_from c)\<^sup>*\<^sup>* p r}"
    and "visit_inherited c v vis ps st = Inr st'' \<Longrightarrow>
           v_visited st'' \<subseteq> v_visited st \<union> {r. \<exists>p \<in> set ps. (inherits_from c)\<^sup>*\<^sup>* p r}"
proof (induction c v vis f p st and c v vis ps st arbitrary: st' and st''
    rule: visit_visit_inherited.induct)
  case (1 c v vis f p st)
  from "1.prems" show ?case
  proof (cases rule: visit_cases)
    case (node pc st2)
    then have "v_visited st2 \<subseteq> v_visited st \<union> {r. \<exists>q \<in> set (profile_inherits pc). (inherits_from c)\<^sup>*\<^sup>* q r}"
      using "1.IH" by simp
    moreover have "inherits_from c p q" if "q \<in> set (profile_inherits pc)" for q
      using that node(7) by (simp add: inherits_from_iff)
    ultimately show ?thesis
      using node(9) by (auto intro: converse_rtranclp_into_rtranclp)
  qed auto
next
  case (3 c v vis p ps st)
  then obtain st1 where "visit c v vis False p st = Inr st1"
    and "visit_inherited c v vis ps st1 = Inr st''"
    by (auto simp: bind_sum_Inr)
  with "3.IH" show ?case by fastforce
qed simp

lemma visit_requested_reachable:
  "visit_requested c v ps st = Inr st' \<Longrightarrow>
   v_visited st' \<subseteq> v_visited st \<union> {r. \<exists>p \<in> set ps. (inherits_from c)\<^sup>*\<^sup>* p r}"
proof (induction ps arbitrary: st)
  case (Cons p ps)
  then obtain st1 where "visit c v [] True p st = Inr st1" "visit_requested c v ps st1 = Inr st'"
    by (auto simp: bind_sum_Inr)
  with Cons.IH [of st1] visit_reachable_aux(1) show ?case by fastforce
qed simp

lemma resolved_visited:
  "visit_requested c v ps start = Inr st \<Longrightarrow> set (v_resolved st) = v_visited st"
  by (auto dest!: visit_requested_extends simp: extends_def)

lemma resolved_reachable_in_order:
  assumes "resolve_profiles c ps = Inr rs"
  shows "set rs = {r. \<exists>p \<in> set ps. (inherits_from c)\<^sup>*\<^sup>* p r} \<and> parents_first c {} rs"
proof -
  from assms have inner: "resolve_profiles_inner c ps True = Inr rs"
    by (simp add: resolve_profiles_def)
  then obtain st where st: "visit_requested c True ps start = Inr st" and rs: "rs = v_resolved st"
    by (rule resolve_profiles_innerE)
  note order = resolved_parents_first [OF inner]
  have "set rs \<subseteq> {r. \<exists>p \<in> set ps. (inherits_from c)\<^sup>*\<^sup>* p r}"
    using visit_requested_reachable [OF st] resolved_visited [OF st] rs by auto
  moreover have "r \<in> set rs" if "p \<in> set ps" "(inherits_from c)\<^sup>*\<^sup>* p r" for p r
    using that(2)
  proof (rule closed_reachable)
    show "p \<in> set rs" using that(1) order by auto
    show "set (inherits_of c x) \<subseteq> set rs" if "x \<in> set rs" for x
      using parents_first_closed order that by fastforce
  qed
  ultimately show ?thesis using order by auto
qed

text \<open>C13: Resolving a stack of profiles yields exactly the profiles reachable from the requested
  ones through \<open>inherits\<close> (the top level \<open>default\<close> inherits nothing), and each profile stands
  after every profile it inherits, so that an inherited profile is always overlaid by the profile
  that names it.\<close>

theorem resolve_profiles_reachable_in_order:
  assumes "resolve_profiles c ps = Inr rs"
  shows "set rs = {r. \<exists>p \<in> set ps. (inherits_from c)\<^sup>*\<^sup>* p r} \<and> parents_first c {} rs"
  using assms by (rule resolved_reachable_in_order)

text \<open>A configuration with a diamond of profiles, for the witnesses.\<close>

definition diamond :: "(unit, unit) config" where
  "diamond = new_config\<lparr>c_profiles :=
     [(''base'', new_profile),
      (''eu'', new_profile\<lparr>p_inherits := Some [''base'']\<rparr>),
      (''prod'', new_profile\<lparr>p_inherits := Some [''base'']\<rparr>),
      (''prod-eu'', new_profile\<lparr>p_inherits := Some [''prod'', ''eu'']\<rparr>)]\<rparr>"

lemma diamond_resolved: "resolve_profiles diamond [''prod-eu''] = Inr [''base'', ''prod'', ''eu'', ''prod-eu'']"
  by code_simp

theorem resolve_profiles_reachable_in_order_witness:
  "set [''base'', ''prod'', ''eu'', ''prod-eu'']
     = {r. \<exists>p \<in> set [''prod-eu'']. (inherits_from diamond)\<^sup>*\<^sup>* p r} \<and>
   parents_first diamond {} [''base'', ''prod'', ''eu'', ''prod-eu'']"
  by (rule resolve_profiles_reachable_in_order [OF diamond_resolved])

subsection \<open>Shared ancestors are applied once\<close>

lemma visit_distinct_aux:
  shows "visit c v vis f p st = Inr st' \<Longrightarrow> distinct (v_resolved st) \<Longrightarrow>
           set (v_resolved st) = v_visited st \<Longrightarrow> p \<notin> v_visited st \<or> \<not> f \<Longrightarrow>
           set vis \<inter> v_visited st = {} \<Longrightarrow> ''default'' \<notin> set vis \<Longrightarrow>
           distinct (v_resolved st') \<and> set vis \<inter> v_visited st' = {}"
    and "visit_inherited c v vis ps st = Inr st'' \<Longrightarrow> distinct (v_resolved st) \<Longrightarrow>
           set (v_resolved st) = v_visited st \<Longrightarrow>
           set vis \<inter> v_visited st = {} \<Longrightarrow> ''default'' \<notin> set vis \<Longrightarrow>
           distinct (v_resolved st'') \<and> set vis \<inter> v_visited st'' = {}"
proof (induction c v vis f p st and c v vis ps st arbitrary: st' and st''
    rule: visit_visit_inherited.induct)
  case (1 c v vis f p st)
  from "1.prems"(1) show ?case
  proof (cases rule: visit_cases)
    case (node pc st2)
    then have "p \<notin> v_visited st" using "1.prems"(4) by auto
    with node "1.prems" have "distinct (v_resolved st2) \<and> set (vis @ [p]) \<inter> v_visited st2 = {}"
      by (intro "1.IH") auto
    moreover have "set (v_resolved st2) = v_visited st2"
      using visit_inherited_extends [OF node(8)] "1.prems"(3) by (auto simp: extends_def)
    ultimately show ?thesis using node(5,9) by auto
  qed (use "1.prems" in auto)
next
  case (3 c v vis p ps st)
  then obtain st1 where st1: "visit c v vis False p st = Inr st1"
    and st'': "visit_inherited c v vis ps st1 = Inr st''"
    by (auto simp: bind_sum_Inr)
  have "set (v_resolved st1) = v_visited st1"
    using visit_extends [OF st1] "3.prems"(3) by (auto simp: extends_def)
  with "3.IH"(1) [OF st1] "3.IH"(2) [OF st''] "3.prems" show ?case by auto
qed simp

text \<open>A single requested profile is resolved to a list without repetition: an ancestor
  reached along several inheritance paths is applied once.\<close>

lemma single_profile_resolved_once:
  assumes "resolve_profiles c [p] = Inr rs"
  shows "distinct rs"
proof -
  from assms obtain st where "visit c True [] True p start = Inr st" and "rs = v_resolved st"
    by (auto simp: resolve_profiles_def resolve_profiles_inner_def bind_sum_Inr)
  with visit_distinct_aux(1) show ?thesis by fastforce
qed

subsection \<open>Expansion is idempotent\<close>

lemma visit_forced_last: "visit c v vis True p st = Inr st' \<Longrightarrow> \<exists>new. v_resolved st' = v_resolved st @ new @ [p]"
  by (erule visit_cases) (auto dest!: visit_inherited_extends simp: extends_def)

lemma visit_requested_subseq:
  "visit_requested c v ps st = Inr st' \<Longrightarrow> \<exists>new. v_resolved st' = v_resolved st @ new \<and> subseq ps new"
proof (induction ps arbitrary: st)
  case (Cons p ps)
  then obtain st1 where "visit c v [] True p st = Inr st1" and "visit_requested c v ps st1 = Inr st'"
    by (auto simp: bind_sum_Inr)
  from visit_forced_last [OF this(1)] Cons.IH [OF this(2)]
  obtain xs ys where "v_resolved st' = v_resolved st @ xs @ [p] @ ys" and "subseq ps ys" by auto
  then show ?case by (intro exI [of _ "xs @ p # ys"]) (auto intro: list_emb_append2)
qed simp

lemma resolved_keeps_requested: "resolve_profiles_inner c ps v = Inr rs \<Longrightarrow> subseq ps rs"
  by (erule resolve_profiles_innerE) (auto dest: visit_requested_subseq)


lemma visit_inherited_skip:
  "set ps \<subseteq> v_visited st \<Longrightarrow> list_all is_valid_name ps \<Longrightarrow> visit_inherited c v vis ps st = Inr st"
  by (induction ps) (auto simp: visit.simps)

lemma visit_requested_in_order:
  assumes "parents_first c b rs" and "v_visited st = b" and "\<forall>q \<in> b \<union> set rs. is_valid_name q"
  shows "\<exists>st'. visit_requested c v rs st = Inr st' \<and> v_resolved st' = v_resolved st @ rs"
  using assms
proof (induction rs arbitrary: b st)
  case (Cons q rs)
  have inh: "set (inherits_of c q) \<subseteq> v_visited st" using Cons.prems by simp
  then have "list_all is_valid_name (inherits_of c q)"
    using Cons.prems by (auto simp: list_all_iff)
  with inh have "visit_inherited c v vis (inherits_of c q) st = Inr st" for vis
    by (simp add: visit_inherited_skip)
  then have "visit c v [] True q st = Inr (push_profile q st)"
    using Cons.prems(3) by (subst visit.simps) (auto simp: inherits_of_def split: option.splits)
  moreover have "\<exists>st'. visit_requested c v rs (push_profile q st) = Inr st' \<and>
      v_resolved st' = v_resolved (push_profile q st) @ rs"
    using Cons.prems by (intro Cons.IH [where b = "insert q b"]) (auto simp: push_profile_def)
  ultimately show ?case by (auto simp: push_profile_def)
qed simp

lemma resolve_profiles_idem_inner:
  assumes "resolve_profiles_inner c ps v = Inr rs"
  shows "resolve_profiles_inner c rs w = Inr rs"
proof -
  note order = resolved_parents_first [OF assms]
  obtain st where "visit_requested c w rs start = Inr st" and "v_resolved st = v_resolved start @ rs"
    using visit_requested_in_order [of c "{}" rs start w] order by (auto simp: list_all_iff)
  then show ?thesis by (simp add: resolve_profiles_inner_def)
qed

text \<open>Expanding an expanded stack changes nothing, whether inherited profiles are checked
  or not. Every accessor of the configuration expands its argument again, and the discovery loop
  stops when an expansion returns its argument; both rely on this.\<close>

lemma resolve_profiles_idempotent:
  assumes "resolve_profiles_for_discovery c ps = Inr rs"
  shows "resolve_profiles_for_discovery c rs = Inr rs \<and> resolve_profiles c rs = Inr rs"
  using assms resolve_profiles_idem_inner
  by (auto simp: resolve_profiles_for_discovery_def resolve_profiles_def)

subsection \<open>When expansion succeeds\<close>

definition first_index :: "string list \<Rightarrow> string \<Rightarrow> nat" where
  "first_index rs r = length (takeWhile (\<lambda>x. x \<noteq> r) rs)"

lemma parents_first_index:
  assumes "parents_first c {} rs" and "r \<in> set rs" and "inherits_from c r q"
  shows "q \<in> set rs \<and> first_index rs q < first_index rs r"
proof -
  obtain xs ys where rs: "rs = xs @ r # ys" and r: "r \<notin> set xs"
    using split_list_first [OF assms(2)] by blast
  have "q \<in> set xs"
    using assms(1,3) by (auto simp: rs parents_first_append inherits_from_iff)
  moreover from this have "length (takeWhile (\<lambda>x. x \<noteq> q) (xs @ r # ys)) < length xs"
    by (induction xs) auto
  moreover have "takeWhile (\<lambda>x. x \<noteq> r) rs = xs"
    using r unfolding rs by (induction xs) auto
  ultimately show ?thesis by (auto simp: first_index_def rs)
qed

lemma parents_first_acyclic:
  assumes "(inherits_from c)\<^sup>+\<^sup>+ r q" and "parents_first c {} rs" and "r \<in> set rs"
  shows "q \<in> set rs \<and> first_index rs q < first_index rs r"
  using assms
proof (induction rule: tranclp_induct)
  case (step q t)
  then show ?case using parents_first_index [of c rs q t] by auto
qed (simp add: parents_first_index)

text \<open>Every error of an expansion has its cause among the reachable profiles.\<close>

definition expansion_fault :: "('p, 'l) config \<Rightarrow> bool \<Rightarrow> string \<Rightarrow> bool" where
  "expansion_fault c v r \<longleftrightarrow>
     \<not> is_valid_name r \<or> (v \<and> \<not> profile_backed c r \<and> r \<noteq> ''default'') \<or> (inherits_from c)\<^sup>+\<^sup>+ r r"

lemma visit_fails_aux:
  shows "visit c v vis f p st = Inl e \<Longrightarrow> \<forall>x \<in> set vis. (inherits_from c)\<^sup>+\<^sup>+ x p \<Longrightarrow>
           \<exists>r. (inherits_from c)\<^sup>*\<^sup>* p r \<and> expansion_fault c v r"
    and "visit_inherited c v vis ps st = Inl e' \<Longrightarrow>
           \<forall>x \<in> set vis. \<forall>p \<in> set ps. (inherits_from c)\<^sup>+\<^sup>+ x p \<Longrightarrow>
           \<exists>p \<in> set ps. \<exists>r. (inherits_from c)\<^sup>*\<^sup>* p r \<and> expansion_fault c v r"
proof (induction c v vis f p st and c v vis ps st arbitrary: e and e'
    rule: visit_visit_inherited.induct)
  case (1 c v vis f p st)
  show ?case
  proof (cases "is_valid_name p \<and> (v \<longrightarrow> profile_backed c p \<or> p = ''default'') \<and> p \<notin> set vis")
    case False
    then have "expansion_fault c v p" using "1.prems"(2) by (auto simp: expansion_fault_def)
    then show ?thesis by blast
  next
    case True
    with "1.prems"(1) obtain pc where pc: "im_get (c_profiles c) p = Some pc"
      and fail: "visit_inherited c v (vis @ [p]) (profile_inherits pc) st = Inl e"
      and guards: "\<not> (p \<in> v_visited st \<and> \<not> f)" "p \<noteq> ''default''"
      by (subst (asm) visit.simps) (auto split: if_splits option.splits simp: bind_sum_Inl)
    have inh: "inherits_from c p q" if "q \<in> set (profile_inherits pc)" for q
      using that pc guards(2) by (simp add: inherits_from_iff inherits_of_def)
    have "\<forall>x \<in> set (vis @ [p]). \<forall>q \<in> set (profile_inherits pc). (inherits_from c)\<^sup>+\<^sup>+ x q"
      using "1.prems"(2) inh by (auto intro: tranclp.trancl_into_trancl)
    then have "\<exists>q \<in> set (profile_inherits pc). \<exists>r. (inherits_from c)\<^sup>*\<^sup>* q r \<and> expansion_fault c v r"
      using True guards pc fail by (intro "1.IH") auto
    then show ?thesis using inh by (meson converse_rtranclp_into_rtranclp)
  qed
next
  case (3 c v vis p ps st)
  then show ?case by (fastforce simp: bind_sum_Inl)
qed simp

lemma visit_requested_fails:
  "visit_requested c v ps st = Inl e \<Longrightarrow>
   \<exists>p \<in> set ps. \<exists>r. (inherits_from c)\<^sup>*\<^sup>* p r \<and> expansion_fault c v r"
proof (induction ps arbitrary: st)
  case (Cons p ps)
  then consider "visit c v [] True p st = Inl e"
    | st1 where "visit_requested c v ps st1 = Inl e"
    by (auto simp: bind_sum_Inl)
  then show ?case
    using Cons.IH visit_fails_aux(1) [of c v "[]" True p st e] by cases auto
qed simp

text \<open>C33: When every reachable profile has an accepted name and is declared, expansion succeeds
  exactly when no reachable profile inherits itself: every acyclic stack resolves, and a cycle is
  always reported instead of looping or being applied.\<close>

theorem resolve_profiles_succeeds_iff_acyclic:
  assumes "\<And>p r. p \<in> set ps \<Longrightarrow> (inherits_from c)\<^sup>*\<^sup>* p r \<Longrightarrow>
             is_valid_name r \<and> (profile_backed c r \<or> r = ''default'')"
  shows "(\<exists>rs. resolve_profiles c ps = Inr rs) \<longleftrightarrow>
         {r. (\<exists>p \<in> set ps. (inherits_from c)\<^sup>*\<^sup>* p r) \<and> (inherits_from c)\<^sup>+\<^sup>+ r r} = {}"
proof
  assume "\<exists>rs. resolve_profiles c ps = Inr rs"
  then obtain rs where rs: "resolve_profiles c ps = Inr rs" ..
  note res = resolved_reachable_in_order [OF rs]
  then show "{r. (\<exists>p \<in> set ps. (inherits_from c)\<^sup>*\<^sup>* p r) \<and> (inherits_from c)\<^sup>+\<^sup>+ r r} = {}"
    using parents_first_acyclic [of c _ _ rs] by blast
next
  assume "{r. (\<exists>p \<in> set ps. (inherits_from c)\<^sup>*\<^sup>* p r) \<and> (inherits_from c)\<^sup>+\<^sup>+ r r} = {}"
  then have "visit_requested c True ps start \<noteq> Inl e" for e
    using visit_requested_fails [of c True ps start e] assms by (auto simp: expansion_fault_def)
  then show "\<exists>rs. resolve_profiles c ps = Inr rs"
    by (cases "visit_requested c True ps start")
       (auto simp: resolve_profiles_def resolve_profiles_inner_def)
qed

text \<open>The hypothesis holds of the diamond, whose names are all declared.\<close>

lemma diamond_reachable:
  assumes "(inherits_from diamond)\<^sup>*\<^sup>* p r" and "p \<in> set [''base'', ''prod'', ''eu'', ''prod-eu'']"
  shows "r \<in> set [''base'', ''prod'', ''eu'', ''prod-eu'']"
proof (rule closed_reachable [OF assms])
  have "list_all (\<lambda>x. list_all (\<lambda>q. q \<in> set [''base'', ''prod'', ''eu'', ''prod-eu'']) (inherits_of diamond x))
          [''base'', ''prod'', ''eu'', ''prod-eu'']"
    by code_simp
  then show "set (inherits_of diamond x) \<subseteq> set [''base'', ''prod'', ''eu'', ''prod-eu'']"
    if "x \<in> set [''base'', ''prod'', ''eu'', ''prod-eu'']" for x
    using that unfolding list_all_iff by blast
qed

lemma diamond_names:
  "r \<in> set [''base'', ''prod'', ''eu'', ''prod-eu''] \<Longrightarrow>
   is_valid_name r \<and> (profile_backed diamond r \<or> r = ''default'')"
proof -
  have "list_all (\<lambda>r. is_valid_name r \<and> (profile_backed diamond r \<or> r = ''default''))
          [''base'', ''prod'', ''eu'', ''prod-eu'']"
    by code_simp
  then show "r \<in> set [''base'', ''prod'', ''eu'', ''prod-eu''] \<Longrightarrow>
    is_valid_name r \<and> (profile_backed diamond r \<or> r = ''default'')"
    unfolding list_all_iff by blast
qed

theorem resolve_profiles_succeeds_iff_acyclic_witness:
  "(\<exists>rs. resolve_profiles diamond [''prod-eu''] = Inr rs) \<longleftrightarrow>
   {r. (\<exists>p \<in> set [''prod-eu'']. (inherits_from diamond)\<^sup>*\<^sup>* p r) \<and> (inherits_from diamond)\<^sup>+\<^sup>+ r r} = {}"
proof (rule resolve_profiles_succeeds_iff_acyclic)
  fix p r
  assume "p \<in> set [''prod-eu'']" and "(inherits_from diamond)\<^sup>*\<^sup>* p r"
  then have "r \<in> set [''base'', ''prod'', ''eu'', ''prod-eu'']"
    using diamond_reachable [of p r] by simp
  then show "is_valid_name r \<and> (profile_backed diamond r \<or> r = ''default'')"
    by (rule diamond_names)
qed

end
