(* ===== verification/ConfigQuery.thy ===== *)
theory ConfigQuery
  imports ProfileExpansion
begin

text \<open>
  The effective view of a configuration for a stack of profiles: secrets, providers, leases, the
  default provider, and validation. \<open>reg\<close> is the registry of loaded sources (it only selects
  the error with source), \<open>ptype\<close> is \<open>ProviderConfig::provider_type\<close> of the generated
  provider enum, and \<open>no_defaults\<close> is the setting of that name.
\<close>

subsection \<open>Operations\<close>

definition overlay_profile ::
  "(('p, 'l) profile_config \<Rightarrow> (string, 'v) imap) \<Rightarrow> ('p, 'l) config \<Rightarrow> string \<Rightarrow> (string, 'v) imap \<Rightarrow>
   (string, 'v) imap" where
  "overlay_profile sel c p m =
     (case im_get (c_profiles c) p of Some pc \<Rightarrow> im_extend m (sel pc) | None \<Rightarrow> m)"

definition overlay_profiles ::
  "(('p, 'l) profile_config \<Rightarrow> (string, 'v) imap) \<Rightarrow> ('p, 'l) config \<Rightarrow> (string, 'v) imap \<Rightarrow> string list \<Rightarrow>
   (string, 'v) imap" where
  "overlay_profiles sel c base profiles =
     fold (overlay_profile sel c) (filter (\<lambda>p. p \<noteq> ''default'') profiles) base"

definition get_leases :: "('p, 'l) config \<Rightarrow> string list \<Rightarrow> fnox_error + (string, 'l) imap" where
  "get_leases c profiles =
     bind_sum (resolve_profiles c profiles) (\<lambda>profiles.
       Inr (overlay_profiles p_leases c (c_leases c) profiles))"

definition get_providers :: "('p, 'l) config \<Rightarrow> string list \<Rightarrow> fnox_error + (string, 'p) imap" where
  "get_providers c profiles =
     bind_sum (resolve_profiles c profiles) (\<lambda>profiles.
       Inr (overlay_profiles p_providers c (c_providers c) profiles))"

definition has_non_default :: "string list \<Rightarrow> bool" where
  "has_non_default profiles \<longleftrightarrow> list_ex (\<lambda>p. p \<noteq> ''default'') profiles"

definition invalid_secret_name_issue :: "string \<Rightarrow> string option \<Rightarrow> validation_issue" where
  "invalid_secret_name_issue name profile =
     \<lparr>vi_message =
        [''Secret name'', name] @
        (case profile of
           Some p \<Rightarrow> if p \<noteq> ''default'' then ['' in profile '', p] else []
         | None \<Rightarrow> []) @
        ['' is not a valid environment variable name''],
      vi_help = [''Use only letters, digits, and underscores, starting with a letter or underscore'']\<rparr>"

definition stamp_env :: "env_mode option \<Rightarrow> secret_config \<Rightarrow> secret_config" where
  "stamp_env mode sc =
     (if mode \<noteq> None \<and> s_env sc = None then sc\<lparr>s_env := mode\<rparr> else sc)"

definition get_secrets_with_no_defaults ::
  "('p, 'l) config \<Rightarrow> string list \<Rightarrow> bool \<Rightarrow> fnox_error + (string, secret_config) imap" where
  "get_secrets_with_no_defaults c profiles no_defaults =
     bind_sum (resolve_profiles c profiles) (\<lambda>profiles.
       let base = (if \<not> has_non_default profiles \<or> \<not> no_defaults then c_secrets c else []);
           secrets = overlay_profiles p_secrets c base profiles;
           issues = map (\<lambda>name. invalid_secret_name_issue name None)
                      (filter (\<lambda>name. \<not> is_valid_secret_name name) (im_keys secrets))
       in if issues \<noteq> [] then Inl (ConfigValidationFailed issues)
          else Inr (if c_env c \<noteq> None then im_map (\<lambda>_. stamp_env (c_env c)) secrets else secrets))"

fun first_some :: "('a \<Rightarrow> 'b option) \<Rightarrow> 'a list \<Rightarrow> 'b option" where
  "first_some f [] = None"
| "first_some f (x # xs) = (case f x of Some y \<Rightarrow> Some y | None \<Rightarrow> first_some f xs)"

definition profile_secret :: "('p, 'l) config \<Rightarrow> string \<Rightarrow> string \<Rightarrow> secret_config option" where
  "profile_secret c key p = Option.bind (im_get (c_profiles c) p) (\<lambda>pc. im_get (p_secrets pc) key)"

definition get_secret_with_no_defaults ::
  "('p, 'l) config \<Rightarrow> string list \<Rightarrow> string \<Rightarrow> bool \<Rightarrow> fnox_error + secret_config option" where
  "get_secret_with_no_defaults c profiles key no_defaults =
     bind_sum (resolve_profiles c profiles) (\<lambda>profiles.
       case first_some (profile_secret c key) (rev (filter (\<lambda>p. p \<noteq> ''default'') profiles)) of
         Some secret \<Rightarrow> Inr (Some secret)
       | None \<Rightarrow>
           if has_non_default profiles \<and> no_defaults then Inr None
           else Inr (im_get (c_secrets c) key))"

definition winning_default :: "('p, 'l) config \<Rightarrow> string list \<Rightarrow> (string \<times> string) option" where
  \<comment> \<open>the profile that sets the default provider last, and the provider it names\<close>
  "winning_default c profiles =
     fold (\<lambda>p acc. case im_get (c_profiles c) p of
                     Some pc \<Rightarrow> (case profile_default_provider pc of Some n \<Rightarrow> Some (p, n) | None \<Rightarrow> acc)
                   | None \<Rightarrow> acc)
       (filter (\<lambda>p. p \<noteq> ''default'') profiles)
       (map_option (\<lambda>n. (''default'', n)) (config_default_provider c))"

definition default_provider_source_for :: "('p, 'l) config \<Rightarrow> string \<Rightarrow> path option" where
  "default_provider_source_for c p =
     (if p = ''default'' then c_default_provider_source c
      else Option.bind (im_get (c_profiles c) p) p_default_provider_source)"

definition default_provider_span_for :: "('p, 'l) config \<Rightarrow> string \<Rightarrow> span option" where
  "default_provider_span_for c p =
     (if p = ''default'' then config_default_provider_span c
      else Option.bind (im_get (c_profiles c) p) profile_default_provider_span)"

definition located_error :: "registry \<Rightarrow> path option \<Rightarrow> span option \<Rightarrow> (path \<Rightarrow> span \<Rightarrow> fnox_error) \<Rightarrow> fnox_error \<Rightarrow> fnox_error" where
  \<comment> \<open>the error with source where the file is registered and the span known\<close>
  "located_error reg src sp located plain =
     (case (src, sp) of
        (Some path, Some span) \<Rightarrow> if get_named_source reg path \<noteq> None then located path span else plain
      | _ \<Rightarrow> plain)"

definition get_default_provider :: "registry \<Rightarrow> ('p, 'l) config \<Rightarrow> string list \<Rightarrow> fnox_error + string option" where
  "get_default_provider reg c profiles =
     bind_sum (resolve_profiles c profiles) (\<lambda>profiles.
     bind_sum (get_providers c profiles) (\<lambda>providers.
       if providers = [] \<and> c_root c then Inr None
       else if providers = [] then Inl (ConfigError NoProvidersConfigured)
       else (case winning_default c profiles of
               Some (p, name) \<Rightarrow>
                 if \<not> im_has providers name
                 then Inl (located_error reg (default_provider_source_for c p)
                             (default_provider_span_for c p)
                             (DefaultProviderNotFoundWithSource name p)
                             (ConfigError (DefaultProviderNotFound name p)))
                 else Inr (Some name)
             | None \<Rightarrow>
                 if length providers = 1 then Inr (Some (fst (hd providers))) else Inr None)))"

definition is_plain_provider ::
  "('p \<Rightarrow> string) \<Rightarrow> registry \<Rightarrow> ('p, 'l) config \<Rightarrow> string option \<Rightarrow> string \<Rightarrow> bool" where
  "is_plain_provider ptype reg c secret_prov profile =
     (let providers = (case get_providers c [profile] of Inr m \<Rightarrow> m | Inl _ \<Rightarrow> []);
          provider_name = (case secret_prov of
              Some n \<Rightarrow> Some n
            | None \<Rightarrow> (case get_default_provider reg c [profile] of Inr r \<Rightarrow> r | Inl _ \<Rightarrow> None))
      in case provider_name of
           None \<Rightarrow> False
         | Some n \<Rightarrow> (case im_get providers n of Some p \<Rightarrow> ptype p = ''plain'' | None \<Rightarrow> False))"

definition check_empty_value ::
  "('p \<Rightarrow> string) \<Rightarrow> registry \<Rightarrow> ('p, 'l) config \<Rightarrow> string \<Rightarrow> secret_config \<Rightarrow> string \<Rightarrow>
   validation_issue option" where
  "check_empty_value ptype reg c key secret profile =
     (case secret_value secret of
        None \<Rightarrow> None
      | Some value \<Rightarrow>
          if value \<noteq> [] then None
          else if is_plain_provider ptype reg c (secret_provider secret) profile then None
          else Some \<lparr>vi_message =
                       (if profile = ''default'' then [''Secret'', key, ''has an empty value'']
                        else [''Secret'', key, ''in profile'', profile, ''has an empty value'']),
                     vi_help = [''Set a value for this secret or remove it from the configuration'']\<rparr>)"

definition secret_issues ::
  "('p \<Rightarrow> string) \<Rightarrow> registry \<Rightarrow> ('p, 'l) config \<Rightarrow> string option \<Rightarrow> string \<Rightarrow>
   (string, secret_config) imap \<Rightarrow> validation_issue list" where
  "secret_issues ptype reg c shown profile secrets =
     concat (map (\<lambda>(key, secret).
       (if \<not> is_valid_secret_name key then [invalid_secret_name_issue key shown] else []) @
       (case check_empty_value ptype reg c key secret profile of Some i \<Rightarrow> [i] | None \<Rightarrow> [])) secrets)"

definition default_provider_issue ::
  "registry \<Rightarrow> (string, 'p) imap \<Rightarrow> string option \<Rightarrow> path option \<Rightarrow> span option \<Rightarrow> string \<Rightarrow>
   fnox_error + validation_issue list" where
  "default_provider_issue reg providers named src sp profile =
     (case named of
        None \<Rightarrow> Inr []
      | Some name \<Rightarrow>
          if im_has providers name then Inr []
          else (case (src, sp) of
                  (Some path, Some span) \<Rightarrow>
                    if get_named_source reg path \<noteq> None
                    then Inl (DefaultProviderNotFoundWithSource name profile path span)
                    else Inr [\<lparr>vi_message = [''Default provider'', name, ''not found'', profile],
                               vi_help = [''Add'', name, profile]\<rparr>]
                | _ \<Rightarrow> Inr [\<lparr>vi_message = [''Default provider'', name, ''not found'', profile],
                             vi_help = [''Add'', name, profile]\<rparr>]))"

definition validate_profile ::
  "('p \<Rightarrow> string) \<Rightarrow> registry \<Rightarrow> ('p, 'l) config \<Rightarrow> string \<Rightarrow> ('p, 'l) profile_config \<Rightarrow>
   validation_issue list \<Rightarrow> fnox_error + validation_issue list" where
  "validate_profile ptype reg c profile_name pc issues =
     bind_sum (get_providers c [profile_name]) (\<lambda>providers.
     bind_sum (default_provider_issue reg providers (profile_default_provider pc)
                 (p_default_provider_source pc) (profile_default_provider_span pc) profile_name)
       (\<lambda>missing.
          Inr (issues
               @ secret_issues ptype reg c (Some profile_name) profile_name (p_secrets pc)
               @ (if providers = [] \<and> \<not> c_root c
                  then [\<lparr>vi_message = [''Profile'', profile_name, ''has no providers configured''],
                         vi_help = [''Add'', profile_name]\<rparr>] else [])
               @ missing)))"

fun validate_profile_list ::
  "('p \<Rightarrow> string) \<Rightarrow> registry \<Rightarrow> ('p, 'l) config \<Rightarrow> (string, ('p, 'l) profile_config) imap \<Rightarrow>
   validation_issue list \<Rightarrow> fnox_error + validation_issue list" where
  "validate_profile_list ptype reg c [] issues = Inr issues"
| "validate_profile_list ptype reg c ((name, pc) # rest) issues =
     bind_sum (validate_profile ptype reg c name pc issues) (validate_profile_list ptype reg c rest)"

definition validate :: "('p \<Rightarrow> string) \<Rightarrow> registry \<Rightarrow> ('p, 'l) config \<Rightarrow> fnox_error + unit" where
  "validate ptype reg c =
     (if c_root c \<and> c_providers c = [] \<and> c_profiles c = [] \<and> c_secrets c = [] then Inr ()
      else
        bind_sum (default_provider_issue reg (c_providers c) (config_default_provider c)
                    (c_default_provider_source c) (config_default_provider_span c) ''default'')
          (\<lambda>missing.
            let issues =
                  secret_issues ptype reg c None ''default'' (c_secrets c)
                  @ (if c_providers c = [] \<and> c_profiles c = [] \<and> c_secrets c \<noteq> []
                     then [\<lparr>vi_message = [''No providers configured''],
                            vi_help = [''Add at least one provider to fnox.toml'']\<rparr>] else [])
                  @ missing
            in bind_sum (validate_profile_list ptype reg c (c_profiles c) issues)
                 (\<lambda>issues. if issues = [] then Inr () else Inl (ConfigValidationFailed issues))))"

definition should_prompt_auth :: "bool option \<Rightarrow> bool \<Rightarrow> bool \<Rightarrow> ('p, 'l) config \<Rightarrow> bool" where
  "should_prompt_auth env_prompt non_interactive stdin_tty c \<longleftrightarrow>
     (case env_prompt of
        Some b \<Rightarrow> b
      | None \<Rightarrow> (case c_prompt_auth c of Some b \<Rightarrow> b | None \<Rightarrow> True)) \<and>
     \<not> non_interactive \<and> stdin_tty"

definition should_redact_exec :: "bool option \<Rightarrow> ('p, 'l) config \<Rightarrow> bool" where
  "should_redact_exec env_redact c \<longleftrightarrow>
     (case env_redact of
        Some b \<Rightarrow> b
      | None \<Rightarrow> (case c_redact_exec c of Some b \<Rightarrow> b | None \<Rightarrow> False))"


subsection \<open>Well-formed configurations\<close>

text \<open>Every map of a configuration has distinct keys, as \<open>IndexMap\<close> and \<open>HashMap\<close> do.\<close>

definition profile_wf :: "('p, 'l) profile_config \<Rightarrow> bool" where
  "profile_wf p \<longleftrightarrow>
     im_wf (p_leases p) \<and> im_wf (p_providers p) \<and> im_wf (p_secrets p) \<and>
     im_wf (p_provider_sources p) \<and> im_wf (p_secret_sources p)"

definition config_wf :: "('p, 'l) config \<Rightarrow> bool" where
  "config_wf c \<longleftrightarrow>
     im_wf (c_leases c) \<and> im_wf (c_providers c) \<and> im_wf (c_plugins c) \<and> im_wf (c_secrets c) \<and>
     im_wf (c_profiles c) \<and> im_wf (c_provider_sources c) \<and> im_wf (c_secret_sources c) \<and>
     list_all (\<lambda>(_, p). profile_wf p) (c_profiles c)"

lemma config_wf_profile:
  "config_wf c \<Longrightarrow> im_get (c_profiles c) p = Some pc \<Longrightarrow> profile_wf pc"
  by (auto simp: config_wf_def list_all_iff dest!: im_get_in)

subsection \<open>Layers of profiles\<close>

lemma overlay_profiles_snoc:
  "overlay_profiles sel c base (ps @ [p]) =
     (if p = ''default'' then overlay_profiles sel c base ps
      else overlay_profile sel c p (overlay_profiles sel c base ps))"
  by (simp add: overlay_profiles_def)

lemma overlay_profiles_Nil [simp]: "overlay_profiles sel c base [] = base"
  by (simp add: overlay_profiles_def)

lemma im_wf_overlay_profiles [imap_distinct]:
  "im_wf base \<Longrightarrow> im_wf (overlay_profiles sel c base ps)"
  by (induction ps rule: rev_induct)
     (auto simp: overlay_profiles_snoc overlay_profile_def im_wf_extend split: option.splits)

lemma im_has_overlay_profiles:
  "im_has (overlay_profiles sel c base ps) n \<longleftrightarrow>
     im_has base n \<or>
     (\<exists>p pc. p \<in> set ps \<and> p \<noteq> ''default'' \<and> im_get (c_profiles c) p = Some pc \<and> im_has (sel pc) n)"
  by (induction ps rule: rev_induct)
     (auto simp: overlay_profiles_snoc overlay_profile_def im_has_extend split: option.splits)

lemma first_some_append:
  "first_some f (xs @ ys) = (case first_some f xs of Some y \<Rightarrow> Some y | None \<Rightarrow> first_some f ys)"
  by (induction xs) (auto split: option.splits)

lemma im_get_overlay_profiles:
  assumes "\<And>p pc. im_get (c_profiles c) p = Some pc \<Longrightarrow> im_wf (sel pc)"
  shows "im_get (overlay_profiles sel c base ps) k =
    (case first_some (\<lambda>p. Option.bind (im_get (c_profiles c) p) (\<lambda>pc. im_get (sel pc) k))
            (rev (filter (\<lambda>p. p \<noteq> ''default'') ps)) of
       Some v \<Rightarrow> Some v | None \<Rightarrow> im_get base k)"
  by (induction ps rule: rev_induct)
     (auto simp: overlay_profiles_snoc overlay_profile_def im_get_extend assms split: option.splits)

subsection \<open>One secret and all secrets\<close>

lemma stamp_env_None [simp]: "stamp_env None = (\<lambda>sc. sc)"
  by (simp add: stamp_env_def fun_eq_iff)

text \<open>\<open>get_secret\<close>, which looks one key up without building the map, agrees with
  \<open>get_secrets\<close>: whenever the map of effective secrets is defined, its entry for a key is the
  secret found by the lookup, with the top-level \<open>env\<close> default stamped in.\<close>

lemma get_secrets_agrees_with_get_secret:
  assumes "config_wf c" and "get_secrets_with_no_defaults c ps nd = Inr m"
  shows "\<exists>found. get_secret_with_no_defaults c ps key nd = Inr found \<and>
                 im_get m key = map_option (stamp_env (c_env c)) found"
proof -
  obtain rs where rs: "resolve_profiles c ps = Inr rs"
    using assms(2) by (auto simp: get_secrets_with_no_defaults_def bind_sum_Inr)
  define base where "base = (if \<not> has_non_default rs \<or> \<not> nd then c_secrets c else [])"
  have sel: "im_wf (p_secrets pc)" if "im_get (c_profiles c) p = Some pc" for p pc
    using config_wf_profile [OF assms(1) that] by (simp add: profile_wf_def)
  have "im_get m key = map_option (stamp_env (c_env c)) (im_get (overlay_profiles p_secrets c base rs) key)"
    using assms(2) rs
    by (auto simp: get_secrets_with_no_defaults_def base_def Let_def im_get_map
        option.map_ident split: if_splits)
  moreover have "get_secret_with_no_defaults c ps key nd
      = Inr (im_get (overlay_profiles p_secrets c base rs) key)"
    using rs by (auto simp: get_secret_with_no_defaults_def im_get_overlay_profiles [OF sel] base_def
        profile_secret_def [abs_def] split: option.splits)
  ultimately show ?thesis by simp
qed

text \<open>A configuration with a base, a profile and an inherited profile, for the witnesses.\<close>

definition plain_secret :: "string \<Rightarrow> secret_config" where
  "plain_secret v = new_secret\<lparr>s_value := Some (without_span v)\<rparr>"

definition sample :: "(string, unit) config" where
  "sample = new_config\<lparr>
     c_providers := [(''age'', ''age'')],
     c_secrets := [(''TOKEN'', plain_secret ''t0''), (''URL'', plain_secret ''u0'')],
     c_env := Some EnvExec,
     c_profiles :=
       [(''base'', new_profile\<lparr>p_secrets := [(''TOKEN'', plain_secret ''t1'')],
                              p_providers := [(''op'', ''1password'')]\<rparr>),
        (''prod'', new_profile\<lparr>p_inherits := Some [''base''],
                              p_secrets := [(''KEY'', plain_secret ''k2'')],
                              p_default_provider := Some (without_span ''op'')\<rparr>)]\<rparr>"

lemma sample_wf: "config_wf sample"
  by code_simp

lemma stamp_env_set: "or_else (s_env (stamp_env d sc)) d = s_env (stamp_env d sc)"
  by (cases "s_env sc"; cases d) (simp_all add: stamp_env_def)

subsection \<open>The default provider\<close>

lemma get_providers_resolved:
  "resolve_profiles c ps = Inr rs \<Longrightarrow> get_providers c rs = get_providers c ps"
  using resolve_profiles_idem_inner
  by (fastforce simp: get_providers_def resolve_profiles_def)

text \<open>A default provider that resolution returns is always one of the effective providers of
  the same profiles; no caller can be handed the name of a provider that does not exist.\<close>

lemma default_provider_is_configured:
  assumes "get_default_provider reg c ps = Inr (Some name)"
  shows "\<exists>m. get_providers c ps = Inr m \<and> im_has m name"
proof -
  obtain rs m where rs: "resolve_profiles c ps = Inr rs" and m: "get_providers c rs = Inr m"
    and rest: "m \<noteq> []"
      "(case winning_default c rs of Some (p, n) \<Rightarrow> im_has m n \<and> n = name
        | None \<Rightarrow> length m = 1 \<and> name = fst (hd m))"
    using assms
    by (auto simp: get_default_provider_def bind_sum_Inr split: if_splits option.splits prod.splits)
  have "im_has m name" using rest by (cases m) (auto split: option.splits)
  with m get_providers_resolved [OF rs] show ?thesis by simp
qed

text \<open>The provider that wins is set by a profile of the stack or at the top level.\<close>

lemma winning_default_Some:
  "winning_default c rs = Some (p, n) \<Longrightarrow>
     (p = ''default'' \<and> config_default_provider c = Some n) \<or>
     (p \<in> set rs \<and> (\<exists>pc. im_get (c_profiles c) p = Some pc \<and> profile_default_provider pc = Some n))"
proof (induction rs rule: rev_induct)
  case Nil
  then show ?case by (auto simp: winning_default_def)
next
  case (snoc q rs)
  have step: "winning_default c (rs @ [q]) =
      (if q = ''default'' then winning_default c rs
       else case im_get (c_profiles c) q of
              Some pc \<Rightarrow> (case profile_default_provider pc of Some n \<Rightarrow> Some (q, n) | None \<Rightarrow> winning_default c rs)
            | None \<Rightarrow> winning_default c rs)"
    by (simp add: winning_default_def split: option.splits)
  from snoc show ?case by (auto simp: step split: if_splits option.splits)
qed

subsection \<open>Validation\<close>

lemma default_provider_issue_ok:
  "default_provider_issue reg m named src sp prof = Inr [] \<Longrightarrow> named = Some n \<Longrightarrow> im_has m n"
  by (auto simp: default_provider_issue_def split: if_splits option.splits)

lemma validate_profile_ok:
  assumes "validate_profile ptype reg c name pc issues = Inr []"
  shows "issues = [] \<and> (\<exists>m. get_providers c [name] = Inr m \<and> (m \<noteq> [] \<or> c_root c) \<and>
           (\<forall>n. profile_default_provider pc = Some n \<longrightarrow> im_has m n))"
  using assms
  by (auto simp: validate_profile_def bind_sum_Inr split: if_splits dest: default_provider_issue_ok)

lemma validate_profile_list_ok:
  "validate_profile_list ptype reg c pcs issues = Inr [] \<Longrightarrow>
   issues = [] \<and> (\<forall>(name, pc) \<in> set pcs. validate_profile ptype reg c name pc [] = Inr [])"
proof (induction pcs arbitrary: issues)
  case (Cons npc rest)
  obtain name pc where npc: "npc = (name, pc)" by fastforce
  with Cons.prems obtain i where i: "validate_profile ptype reg c name pc issues = Inr i"
    and rest: "validate_profile_list ptype reg c rest i = Inr []"
    by (auto simp: bind_sum_Inr)
  from Cons.IH [OF rest] i have "i = []" "validate_profile ptype reg c name pc issues = Inr []" by auto
  with validate_profile_ok [OF this(2)] Cons.IH [OF rest] show ?case by (auto simp: npc)
qed simp

lemma providers_of_member:
  assumes rs: "resolve_profiles c ps = Inr rs" and q: "q \<in> set rs"
    and m: "get_providers c ps = Inr m" and mq: "get_providers c [q] = Inr mq" and n: "im_has mq n"
  shows "im_has m n"
proof -
  obtain qs where qs: "resolve_profiles c [q] = Inr qs"
    and mq': "mq = overlay_profiles p_providers c (c_providers c) qs"
    using mq by (auto simp: get_providers_def bind_sum_Inr)
  have "set qs \<subseteq> set rs"
  proof
    fix r assume "r \<in> set qs"
    then have "(inherits_from c)\<^sup>*\<^sup>* q r" using resolved_reachable_in_order [OF qs] by auto
    then show "r \<in> set rs"
      using q resolved_reachable_in_order [OF rs] by (auto intro: rtranclp_trans)
  qed
  with n m rs show ?thesis by (auto 0 3 simp: get_providers_def mq' im_has_overlay_profiles)
qed


lemma validate_ok:
  assumes "validate ptype reg c = Inr ()" and "c_profiles c \<noteq> []"
  shows "(\<forall>n. config_default_provider c = Some n \<longrightarrow> im_has (c_providers c) n) \<and>
         (\<forall>(name, pc) \<in> set (c_profiles c). validate_profile ptype reg c name pc [] = Inr [])"
proof -
  obtain missing issues where
      d: "default_provider_issue reg (c_providers c) (config_default_provider c)
            (c_default_provider_source c) (config_default_provider_span c) ''default'' = Inr missing"
    and l: "validate_profile_list ptype reg c (c_profiles c) (issues @ missing) = Inr []"
    using assms by (auto simp: validate_def bind_sum_Inr Let_def split: if_splits)
  note list = validate_profile_list_ok [OF l]
  then have "missing = []" by simp
  with d list show ?thesis using default_provider_issue_ok by blast
qed

text \<open>Validation is sound for resolution: once \<open>validate\<close> accepts a configuration, choosing
  the default provider cannot fail for any declared profile, whatever its inherited profiles and
  the top level set.\<close>

lemma validated_profile_has_default_provider:
  assumes "validate ptype reg c = Inr ()" and "im_has (c_profiles c) p"
  shows "\<exists>r. get_default_provider reg c [p] = Inr r"
proof -
  obtain pc where pc: "im_get (c_profiles c) p = Some pc" using assms(2) by (auto simp: im_has_iff)
  then have "c_profiles c \<noteq> []" by auto
  note ok = validate_ok [OF assms(1) this]
  then have "validate_profile ptype reg c p pc [] = Inr []" using im_get_in [OF pc] by auto
  then obtain m where m: "get_providers c [p] = Inr m" and ne: "m \<noteq> [] \<or> c_root c"
    using validate_profile_ok by blast
  then obtain rs where rs: "resolve_profiles c [p] = Inr rs"
    by (auto simp: get_providers_def bind_sum_Inr)
  have known: "im_has m n" if win: "winning_default c rs = Some (q, n)" for q n
    using winning_default_Some [OF win]
  proof (elim disjE conjE exE)
    assume "config_default_provider c = Some n"
    then have "im_has (c_providers c) n" using ok by blast
    then show ?thesis using m rs by (auto simp: get_providers_def im_has_overlay_profiles)
  next
    fix qc assume q: "q \<in> set rs" and qc: "im_get (c_profiles c) q = Some qc"
      and n: "profile_default_provider qc = Some n"
    have "validate_profile ptype reg c q qc [] = Inr []" using ok im_get_in [OF qc] by auto
    then obtain mq where "get_providers c [q] = Inr mq" "im_has mq n"
      using validate_profile_ok n by blast
    then show ?thesis using providers_of_member [OF rs q m] by blast
  qed
  have "get_providers c rs = Inr m" using get_providers_resolved [OF rs] m by simp
  moreover have "resolve_profiles c rs = Inr rs"
    using rs resolve_profiles_idem_inner by (simp add: resolve_profiles_def)
  ultimately show ?thesis
    using rs ne known by (auto simp: get_default_provider_def split: option.splits)
qed

text \<open>C37: The effective secrets handed to shell integration and to child processes all carry
  portable environment variable names, and each carries an explicit injection mode once the
  configuration sets a default mode.\<close>

theorem effective_secrets_are_injectable:
  assumes "get_secrets_with_no_defaults c ps nd = Inr m" and "im_get m key = Some sc"
  shows "is_valid_secret_name key \<and> or_else (s_env sc) (c_env c) = s_env sc"
proof -
  have "key \<in> set (im_keys m)" using assms(2) by (auto simp: im_has_iff simp flip: im_has_def)
  then show ?thesis
    using assms
    by (auto simp: get_secrets_with_no_defaults_def bind_sum_Inr Let_def filter_empty_conv im_get_map
        stamp_env_set split: if_splits)
qed

theorem effective_secrets_are_injectable_witness:
  "is_valid_secret_name ''KEY'' \<and>
   or_else (s_env (stamp_env (Some EnvExec) (plain_secret ''k2''))) (c_env sample)
     = s_env (stamp_env (Some EnvExec) (plain_secret ''k2''))"
  by (rule effective_secrets_are_injectable [where ps = "[''prod'']" and nd = True
        and m = "[(''TOKEN'', stamp_env (Some EnvExec) (plain_secret ''t1'')),
                  (''KEY'', stamp_env (Some EnvExec) (plain_secret ''k2''))]"]) code_simp+

end
