(* ===== verification/ConfigMerge.thy ===== *)
theory ConfigMerge
  imports ConfigQuery
begin

text \<open>
  How configuration files are layered: \<open>merge_configs\<close>, the scoping of a profile file's or a
  local file's entries, the removal of cached sync values, source tracking and the inheritance of
  outer layers. \<open>merge_configs\<close> returns \<open>Ok\<close> on every path of the source, so the model
  returns the merged configuration itself. It satisfies the contract \<open>layering\<close> of the prelude,
  which the loader relies on, and so does \<open>merge_profile\<close> below it.
\<close>

subsection \<open>Operations\<close>

definition append_unique :: "'a list \<Rightarrow> 'a list \<Rightarrow> 'a list" where
  "append_unique xs ys = fold (\<lambda>y acc. if y \<in> set acc then acc else acc @ [y]) ys xs"

definition merge_mcp :: "mcp_config option \<Rightarrow> mcp_config option \<Rightarrow> mcp_config option" where
  "merge_mcp base overlay =
     (case overlay of
        None \<Rightarrow> base
      | Some o' \<Rightarrow>
          (let b = (case base of Some b \<Rightarrow> b | None \<Rightarrow> mcp_default);
               b = (if tools_explicitly_set o' then set_tools (mcp_tools o') b else b)
           in Some (b\<lparr>m_exec_timeout_secs := or_else (m_exec_timeout_secs o') (m_exec_timeout_secs b),
                      m_redact_output := or_else (m_redact_output o') (m_redact_output b),
                      m_secrets := or_else (m_secrets o') (m_secrets b)\<rparr>)))"

definition merge_daemon :: "daemon_config option \<Rightarrow> daemon_config option \<Rightarrow> daemon_config option" where
  "merge_daemon base overlay =
     (case overlay of
        None \<Rightarrow> base
      | Some o' \<Rightarrow>
          (let b = (case base of Some b \<Rightarrow> b | None \<Rightarrow> daemon_default)
           in Some (b\<lparr>d_enabled := or_else (d_enabled o') (d_enabled b),
                      d_idle_timeout := or_else (d_idle_timeout o') (d_idle_timeout b)\<rparr>)))"

definition merge_audit :: "audit_config option \<Rightarrow> audit_config option \<Rightarrow> audit_config option" where
  "merge_audit base overlay =
     (case overlay of
        None \<Rightarrow> base
      | Some o' \<Rightarrow>
          (let b = (case base of Some b \<Rightarrow> b | None \<Rightarrow> audit_default)
           in Some (b\<lparr>a_enabled := or_else (a_enabled o') (a_enabled b),
                      a_path := or_else (a_path o') (a_path b)\<rparr>)))"

definition merge_profile :: "('p, 'l) profile_config \<Rightarrow> ('p, 'l) profile_config \<Rightarrow> ('p, 'l) profile_config" where
  "merge_profile existing overlay =
     \<lparr>p_inherits = or_else (p_inherits overlay) (p_inherits existing),
      p_leases = im_extend (p_leases existing) (p_leases overlay),
      p_providers = im_extend (p_providers existing) (p_providers overlay),
      p_default_provider = or_else (p_default_provider overlay) (p_default_provider existing),
      p_secrets = im_extend (p_secrets existing) (p_secrets overlay),
      p_provider_sources = im_extend (p_provider_sources existing) (p_provider_sources overlay),
      p_secret_sources = im_extend (p_secret_sources existing) (p_secret_sources overlay),
      p_default_provider_source =
        (if p_default_provider overlay \<noteq> None then p_default_provider_source overlay
         else p_default_provider_source existing)\<rparr>"

definition merge_configs :: "('p, 'l) config \<Rightarrow> ('p, 'l) config \<Rightarrow> ('p, 'l) config" where
  "merge_configs base overlay =
     \<lparr>c_import = append_unique (c_import base) (c_import overlay),
      c_root = (c_root base \<or> c_root overlay),
      c_leases = im_extend (c_leases base) (c_leases overlay),
      c_providers = im_extend (c_providers base) (c_providers overlay),
      c_plugins = im_extend (c_plugins base) (c_plugins overlay),
      c_default_provider = or_else (c_default_provider overlay) (c_default_provider base),
      c_secrets = im_extend (c_secrets base) (c_secrets overlay),
      c_profiles = im_merge_with merge_profile (c_profiles base) (c_profiles overlay),
      c_age_key_file = or_else (c_age_key_file overlay) (c_age_key_file base),
      c_if_missing = or_else (c_if_missing overlay) (c_if_missing base),
      c_env = or_else (c_env overlay) (c_env base),
      c_prompt_auth = or_else (c_prompt_auth overlay) (c_prompt_auth base),
      c_redact_exec = or_else (c_redact_exec overlay) (c_redact_exec base),
      c_mcp = merge_mcp (c_mcp base) (c_mcp overlay),
      c_daemon = merge_daemon (c_daemon base) (c_daemon overlay),
      c_proxy = or_else (c_proxy overlay) (c_proxy base),
      c_audit = merge_audit (c_audit base) (c_audit overlay),
      c_provider_sources = im_extend (c_provider_sources base) (c_provider_sources overlay),
      c_secret_sources = im_extend (c_secret_sources base) (c_secret_sources overlay),
      c_default_provider_source =
        (if c_default_provider overlay \<noteq> None then c_default_provider_source overlay
         else c_default_provider_source base),
      c_loaded_file_profiles =
        append_unique (c_loaded_file_profiles base) (c_loaded_file_profiles overlay),
      c_project_dir = c_project_dir base\<rparr>"

definition profile_or_default :: "('p, 'l) config \<Rightarrow> string \<Rightarrow> ('p, 'l) profile_config" where
  "profile_or_default c name =
     (case im_get (c_profiles c) name of Some p \<Rightarrow> p | None \<Rightarrow> new_profile)"

definition scope_root_entries_to_profile :: "string \<Rightarrow> ('p, 'l) config \<Rightarrow> ('p, 'l) config" where
  "scope_root_entries_to_profile name c =
     (let p = profile_or_default c name;
          set_dp = (c_default_provider c \<noteq> None);
          p' = p\<lparr>p_leases := im_extend (p_leases p) (c_leases c),
                 p_providers := im_extend (p_providers p) (c_providers c),
                 p_provider_sources := im_extend (p_provider_sources p) (c_provider_sources c),
                 p_secrets := im_extend (p_secrets p) (c_secrets c),
                 p_secret_sources := im_extend (p_secret_sources p) (c_secret_sources c),
                 p_default_provider :=
                   (if set_dp then c_default_provider c else p_default_provider p),
                 p_default_provider_source :=
                   (if set_dp then c_default_provider_source c else p_default_provider_source p)\<rparr>
      in c\<lparr>c_leases := [], c_providers := [], c_provider_sources := [], c_secrets := [],
           c_secret_sources := [], c_default_provider := None,
           c_default_provider_source := (if set_dp then None else c_default_provider_source c),
           c_profiles := im_insert name p' (c_profiles c)\<rparr>)"

definition scope_to_profile :: "string \<Rightarrow> ('p, 'l) config \<Rightarrow> ('p, 'l) config" where
  "scope_to_profile name c =
     scope_root_entries_to_profile name
       (c\<lparr>c_loaded_file_profiles := append_unique (c_loaded_file_profiles c) [name]\<rparr>)"

definition scope_root_entries_to_profile_as_base ::
  "string \<Rightarrow> bool \<Rightarrow> ('p, 'l) config \<Rightarrow> ('p, 'l) config" where
  "scope_root_entries_to_profile_as_base name include_secrets c =
     (let overlay = im_get (c_profiles c) name;
          c1 = c\<lparr>c_profiles := im_remove name (c_profiles c)\<rparr>;
          c2 = (if include_secrets then scope_root_entries_to_profile name c1
                else (scope_root_entries_to_profile name (c1\<lparr>c_secrets := [], c_secret_sources := []\<rparr>))
                       \<lparr>c_secrets := c_secrets c, c_secret_sources := c_secret_sources c\<rparr>)
      in case overlay of
           None \<Rightarrow> c2
         | Some o' \<Rightarrow>
             c2\<lparr>c_profiles := im_insert name (merge_profile (profile_or_default c2 name) o') (c_profiles c2)\<rparr>)"

definition strip_local_sync_cache :: "(string, secret_config) imap \<Rightarrow> (string, secret_config) imap" where
  "strip_local_sync_cache secrets =
     im_map (\<lambda>_ sc. sc\<lparr>s_sync := None\<rparr>)
       (im_retain (\<lambda>_ sc. case s_sync sc of None \<Rightarrow> True | Some sync \<Rightarrow> sy_local_source sync) secrets)"

definition strip_local_sync :: "('p, 'l) config \<Rightarrow> ('p, 'l) config" where
  \<comment> \<open>the block of \<open>load_recursive\<close> for a local file loaded without cached sync entries\<close>
  "strip_local_sync c =
     (let secrets = strip_local_sync_cache (c_secrets c)
      in c\<lparr>c_secrets := secrets,
           c_secret_sources := im_retain (\<lambda>k _. im_has secrets k) (c_secret_sources c),
           c_profiles :=
             im_map (\<lambda>_ p. let ps = strip_local_sync_cache (p_secrets p)
                           in p\<lparr>p_secrets := ps,
                                p_secret_sources := im_retain (\<lambda>k _. im_has ps k) (p_secret_sources p)\<rparr>)
               (c_profiles c)\<rparr>)"

definition set_profile_source_paths ::
  "path \<Rightarrow> string \<Rightarrow> ('p, 'l) profile_config \<Rightarrow> ('p, 'l) profile_config" where
  "set_profile_source_paths path name p =
     p\<lparr>p_secrets := im_map (\<lambda>_ sc. sc\<lparr>s_source_path := Some path, s_source_is_profile := True,
                                       s_source_profile := Some name\<rparr>) (p_secrets p),
       p_secret_sources := im_extend (p_secret_sources p) (im_map (\<lambda>_ _. path) (p_secrets p)),
       p_provider_sources := im_extend (p_provider_sources p) (im_map (\<lambda>_ _. path) (p_providers p)),
       p_default_provider_source :=
         (if profile_default_provider p \<noteq> None then Some path else p_default_provider_source p)\<rparr>"

definition set_source_paths :: "path \<Rightarrow> ('p, 'l) config \<Rightarrow> ('p, 'l) config" where
  "set_source_paths path c =
     c\<lparr>c_secrets := im_map (\<lambda>_ sc. sc\<lparr>s_source_path := Some path, s_source_is_profile := False,
                                       s_source_profile := None\<rparr>) (c_secrets c),
       c_secret_sources := im_extend (c_secret_sources c) (im_map (\<lambda>_ _. path) (c_secrets c)),
       c_provider_sources := im_extend (c_provider_sources c) (im_map (\<lambda>_ _. path) (c_providers c)),
       c_default_provider_source :=
         (if config_default_provider c \<noteq> None then Some path else c_default_provider_source c),
       c_profiles := im_map (set_profile_source_paths path) (c_profiles c)\<rparr>"

definition is_outer :: "(path \<Rightarrow> path) \<Rightarrow> path list \<Rightarrow> path option \<Rightarrow> bool" where
  "is_outer canon own source = (case source of Some s \<Rightarrow> canon s \<notin> set own | None \<Rightarrow> False)"

definition inherit_providers ::
  "(path option \<Rightarrow> bool) \<Rightarrow> (string, path) imap \<Rightarrow> (string, 'p) imap \<Rightarrow> (string, 'p) imap \<Rightarrow> (string, 'p) imap" where
  "inherit_providers outer sources loaded mine =
     fold (\<lambda>(name, provider) m.
             if \<not> im_has m name \<and> outer (im_get sources name)
             then im_insert name provider m else m) loaded mine"

definition inherit_outer_profile ::
  "(path option \<Rightarrow> bool) \<Rightarrow> string \<times> ('p, 'l) profile_config \<Rightarrow> ('p, 'l) config \<Rightarrow> ('p, 'l) config" where
  "inherit_outer_profile outer = (\<lambda>(name, lp) c.
     let p = profile_or_default c name;
         p' = p\<lparr>p_providers := inherit_providers outer (p_provider_sources lp) (p_providers lp) (p_providers p),
                p_default_provider :=
                  (if p_default_provider p = None \<and> outer (p_default_provider_source lp)
                   then p_default_provider lp else p_default_provider p)\<rparr>
     in c\<lparr>c_profiles := im_insert name p' (c_profiles c)\<rparr>)"

definition inherit_outer_layers ::
  "(path \<Rightarrow> path) \<Rightarrow> ('p, 'l) config \<Rightarrow> ('p, 'l) config \<Rightarrow> path list \<Rightarrow> ('p, 'l) config" where
  \<comment> \<open>\<open>canon\<close> is \<open>fs::canonicalize\<close> with its fallback to the path itself\<close>
  "inherit_outer_layers canon self loaded own_files =
     (let outer = is_outer canon (map canon own_files);
          self1 = self\<lparr>c_providers := inherit_providers outer (c_provider_sources loaded)
                                        (c_providers loaded) (c_providers self),
                       c_default_provider :=
                         (if c_default_provider self = None \<and> outer (c_default_provider_source loaded)
                          then c_default_provider loaded else c_default_provider self)\<rparr>
      in fold (inherit_outer_profile outer) (c_profiles loaded) self1)"

subsection \<open>Merging is associative\<close>

lemma append_unique_Nil [simp]: "append_unique xs [] = xs"
  by (simp add: append_unique_def)

lemma append_unique_Cons:
  "append_unique xs (y # ys) = append_unique (if y \<in> set xs then xs else xs @ [y]) ys"
  by (simp add: append_unique_def)

lemma append_unique_snoc:
  "append_unique xs (ys @ [y]) =
     (if y \<in> set xs \<union> set ys then append_unique xs ys else append_unique xs ys @ [y])"
proof -
  have set: "set (append_unique xs ys) = set xs \<union> set ys" for xs ys :: "'a list"
    by (induction ys arbitrary: xs) (auto simp: append_unique_Cons)
  show ?thesis using set [of xs ys] by (simp add: append_unique_def)
qed

lemma set_append_unique [simp]: "set (append_unique xs ys) = set xs \<union> set ys"
  by (induction ys arbitrary: xs) (auto simp: append_unique_Cons)

lemma append_unique_assoc:
  "append_unique (append_unique xs ys) zs = append_unique xs (append_unique ys zs)"
  by (induction zs rule: rev_induct) (auto simp: append_unique_snoc)

lemma merge_profile_assoc:
  assumes "profile_wf b"
  shows "merge_profile (merge_profile a b) c = merge_profile a (merge_profile b c)"
  using assms by (simp add: merge_profile_def profile_wf_def im_extend_assoc or_else_assoc)
    (auto simp: or_else_def split: option.splits)


lemma profile_wf_merge: "profile_wf a \<Longrightarrow> profile_wf (merge_profile a b)"
  by (simp add: merge_profile_def profile_wf_def im_wf_extend)

interpretation profile_layers: layering merge_profile profile_wf
  by unfold_locales (simp_all add: merge_profile_assoc profile_wf_merge)

lemma merge_mcp_assoc: "merge_mcp (merge_mcp a b) c = merge_mcp a (merge_mcp b c)"
  by (cases a; cases b; cases c)
     (auto simp: merge_mcp_def or_else_def Let_def tools_explicitly_set_def set_tools_def mcp_tools_def
        mcp_default_def split: option.splits)

lemma merge_daemon_assoc: "merge_daemon (merge_daemon a b) c = merge_daemon a (merge_daemon b c)"
  by (cases a; cases b; cases c)
     (auto simp: merge_daemon_def or_else_def Let_def daemon_default_def split: option.splits)

lemma merge_audit_assoc: "merge_audit (merge_audit a b) c = merge_audit a (merge_audit b c)"
  by (cases a; cases b; cases c)
     (auto simp: merge_audit_def or_else_def Let_def audit_default_def split: option.splits)

lemma config_wf_profiles:
  "config_wf c \<Longrightarrow> im_wf (c_profiles c) \<and> im_all profile_wf (c_profiles c)"
  by (simp add: config_wf_def im_all_def)

lemma merge_default_source_assoc:
  "(if c_default_provider c \<noteq> None then c_default_provider_source c
    else if c_default_provider b \<noteq> None then c_default_provider_source b else x)
   = (if or_else (c_default_provider c) (c_default_provider b) \<noteq> None
      then (if c_default_provider c \<noteq> None then c_default_provider_source c
            else c_default_provider_source b) else x)"
  by (auto simp: or_else_def split: option.splits)

lemma merge_configs_assoc:
  assumes "config_wf a" "config_wf b" "config_wf c"
  shows "merge_configs (merge_configs a b) c = merge_configs a (merge_configs b c)"
proof -
  have b: "im_wf (c_leases b)" "im_wf (c_providers b)" "im_wf (c_plugins b)" "im_wf (c_secrets b)"
    "im_wf (c_provider_sources b)" "im_wf (c_secret_sources b)"
    using assms(2) by (simp_all add: config_wf_def)
  have p: "im_merge_with merge_profile (im_merge_with merge_profile (c_profiles a) (c_profiles b)) (c_profiles c)
      = im_merge_with merge_profile (c_profiles a) (im_merge_with merge_profile (c_profiles b) (c_profiles c))"
    by (rule profile_layers.merge_with_assoc) (use assms config_wf_profiles in blast)+
  show ?thesis
    unfolding merge_configs_def
    by (simp add: b p im_extend_assoc or_else_assoc append_unique_assoc merge_mcp_assoc
        merge_daemon_assoc merge_audit_assoc disj_assoc del: not_None_eq)
       (auto simp: or_else_def split: option.splits)
qed

lemma config_wf_merge:
  assumes "config_wf a" "config_wf b"
  shows "config_wf (merge_configs a b)"
  using assms profile_layers.merge_with_all [of "c_profiles a" "c_profiles b"]
  by (simp add: config_wf_def merge_configs_def im_wf_extend im_wf_merge_with im_all_def)

text \<open>The merge of configurations satisfies the contract of the loader.\<close>

interpretation config_layers: layering merge_configs config_wf
  by unfold_locales (simp_all add: merge_configs_assoc config_wf_merge)

lemma config_wf_new [simp]: "config_wf new_config"
  by (simp add: config_wf_def new_config_def)

lemma merge_new_right [simp]: "merge_configs c new_config = c"
  by (simp add: merge_configs_def new_config_def im_extend_merge merge_mcp_def merge_daemon_def
      merge_audit_def)


text \<open>C35: Layering of configuration files is associative on well-formed configurations, entry
  order, profile tables, sources and the field-wise merged sections included: the nesting in which
  the loader merges imports, directories and the global file does not matter, only their order.\<close>

theorem config_merge_associative:
  assumes "config_wf a" "config_wf b" "config_wf c"
  shows "merge_configs (merge_configs a b) c = merge_configs a (merge_configs b c) \<and>
         config_wf (merge_configs a b)"
  using merge_configs_assoc [OF assms] config_wf_merge [OF assms(1,2)] by blast

theorem config_merge_associative_witness:
  "merge_configs (merge_configs sample (new_config\<lparr>c_secrets := [(''URL'', plain_secret ''u1'')]\<rparr>)) sample
     = merge_configs sample (merge_configs (new_config\<lparr>c_secrets := [(''URL'', plain_secret ''u1'')]\<rparr>) sample) \<and>
   config_wf (merge_configs sample (new_config\<lparr>c_secrets := [(''URL'', plain_secret ''u1'')]\<rparr>))"
  by (rule config_merge_associative) code_simp+

subsection \<open>What a layer can and cannot change\<close>

lemma profile_secret_merge:
  assumes "config_wf b"
  shows "profile_secret (merge_configs a b) key p =
         or_else (profile_secret b key p) (profile_secret a key p)"
proof -
  have wf: "im_wf (c_profiles b)" using assms by (simp add: config_wf_def)
  have "im_wf (p_secrets pb)" if "im_get (c_profiles b) p = Some pb" for pb
    using config_wf_profile [OF assms that] by (simp add: profile_wf_def)
  then show ?thesis
    by (auto simp: profile_secret_def merge_configs_def im_get_merge_with [OF wf] merge_profile_def
        im_get_extend or_else_def split: option.splits)
qed

text \<open>The MCP allowlist of a lower layer survives every layer that does not set one: such a
  layer, whatever else it configures, exposes exactly the secrets the lower layer allowed, and it
  keeps the tool list unless it sets one itself.\<close>

lemma mcp_allowlist_survives_layers:
  assumes "c_mcp a = Some ma"
    and "\<And>mb. c_mcp b = Some mb \<Longrightarrow> m_secrets mb = None \<and> m_tools_raw mb = None"
  shows "\<exists>m. c_mcp (merge_configs a b) = Some m \<and>
             mcp_filter_secrets m secrets = mcp_filter_secrets ma secrets \<and>
             mcp_tools m = mcp_tools ma"
  using assms
  by (cases "c_mcp b")
     (auto simp: merge_configs_def merge_mcp_def Let_def mcp_filter_secrets_def mcp_tools_def
        tools_explicitly_set_def)

subsection \<open>Profile files and local files\<close>

lemma profile_or_default_secret:
  "im_get (p_secrets (profile_or_default c name)) key = profile_secret c key name"
  by (simp add: profile_or_default_def profile_secret_def new_profile_def split: option.splits)

lemma profile_secret_scope_root:
  assumes "im_wf (c_secrets c)"
  shows "profile_secret (scope_root_entries_to_profile name c) key q =
         (if q = name then or_else (im_get (c_secrets c) key) (profile_secret c key name)
          else profile_secret c key q)"
  using assms
  by (auto simp: scope_root_entries_to_profile_def Let_def profile_secret_def im_get_insert
      im_get_extend or_else_def profile_or_default_def new_profile_def split: option.splits)

lemma scope_root_secrets [simp]: "c_secrets (scope_root_entries_to_profile name c) = []"
  by (simp add: scope_root_entries_to_profile_def Let_def)

text \<open>In a file loaded for a profile, the top-level entries override that file's own table of
  the profile; in a local file loaded for a profile, the table overrides the top-level entries. In
  both cases no entry is lost and the top level is left without secrets, so an inherited profile
  can never override what the selected profile's file says.\<close>

lemma scoping_precedence:
  assumes "config_wf c"
  shows "profile_secret (scope_to_profile p c) key p
           = or_else (im_get (c_secrets c) key) (profile_secret c key p) \<and>
         profile_secret (scope_root_entries_to_profile_as_base p True c) key p
           = or_else (profile_secret c key p) (im_get (c_secrets c) key) \<and>
         c_secrets (scope_to_profile p c) = [] \<and>
         c_secrets (scope_root_entries_to_profile_as_base p True c) = []"
proof -
  have wf: "im_wf (c_secrets c)" using assms by (simp add: config_wf_def)
  let ?c1 = "c\<lparr>c_profiles := im_remove p (c_profiles c)\<rparr>"
  have base: "profile_secret (scope_root_entries_to_profile p ?c1) key p = im_get (c_secrets c) key"
    using wf by (simp add: profile_secret_scope_root) (simp add: profile_secret_def im_get_remove)
  have overlay: "im_wf (p_secrets o')" if "im_get (c_profiles c) p = Some o'" for o'
    using config_wf_profile [OF assms that] by (simp add: profile_wf_def)
  have "profile_secret (scope_root_entries_to_profile_as_base p True c) key p
      = or_else (profile_secret c key p) (im_get (c_secrets c) key)"
  proof (cases "im_get (c_profiles c) p")
    case None
    then show ?thesis
      by (simp add: scope_root_entries_to_profile_as_base_def base) (simp add: profile_secret_def)
  next
    case (Some o')
    then have "profile_secret (scope_root_entries_to_profile_as_base p True c) key p
        = im_get (p_secrets (merge_profile (profile_or_default (scope_root_entries_to_profile p ?c1) p) o')) key"
      by (simp add: scope_root_entries_to_profile_as_base_def Let_def)
         (simp add: profile_secret_def im_get_insert)
    also have "\<dots> = or_else (im_get (p_secrets o') key) (im_get (c_secrets c) key)"
      by (simp add: merge_profile_def im_get_extend overlay [OF Some] profile_or_default_secret base
          or_else_def split: option.splits)
    finally show ?thesis using Some by (simp add: profile_secret_def)
  qed
  moreover have "c_secrets (scope_root_entries_to_profile_as_base p True c) = []"
    by (simp add: scope_root_entries_to_profile_as_base_def Let_def split: option.splits)
  moreover have "profile_secret (scope_to_profile p c) key p
      = or_else (im_get (c_secrets c) key) (profile_secret c key p)"
    using wf by (simp add: scope_to_profile_def profile_secret_scope_root) (simp add: profile_secret_def)
  ultimately show ?thesis by (simp add: scope_to_profile_def)
qed

lemma strip_local_sync_cache_get:
  assumes "im_wf m"
  shows "im_get (strip_local_sync_cache m) key =
    (case im_get m key of
       None \<Rightarrow> None
     | Some sc \<Rightarrow>
         (case s_sync sc of
            None \<Rightarrow> Some sc
          | Some sync \<Rightarrow> if sy_local_source sync then Some (sc\<lparr>s_sync := None\<rparr>) else None))"
  using assms
  by (auto simp: strip_local_sync_cache_def im_get_map im_get_retain split: option.splits)

text \<open>Loading a local file without cached values leaves no cached value anywhere in it, keeps
  every secret that was not a cache copy, and drops exactly the cache copies: a secret whose source
  lives in the local file itself survives with its cached value removed.\<close>

lemma strip_local_sync_drops_caches:
  assumes "config_wf c"
  shows "im_get (c_secrets (strip_local_sync c)) key =
           (case im_get (c_secrets c) key of
              None \<Rightarrow> None
            | Some sc \<Rightarrow>
                (case s_sync sc of
                   None \<Rightarrow> Some sc
                 | Some sync \<Rightarrow> if sy_local_source sync then Some (sc\<lparr>s_sync := None\<rparr>) else None)) \<and>
         (case profile_secret (strip_local_sync c) key p of Some sc \<Rightarrow> s_sync sc = None | None \<Rightarrow> True)"
proof -
  have "s_sync sc = None" if hit: "profile_secret (strip_local_sync c) key p = Some sc" for sc
  proof -
    obtain pc where pc: "im_get (c_profiles c) p = Some pc"
      and sc: "im_get (strip_local_sync_cache (p_secrets pc)) key = Some sc"
      using hit by (auto simp: profile_secret_def strip_local_sync_def Let_def im_get_map split: bind_splits)
    have "im_wf (p_secrets pc)" using config_wf_profile [OF assms pc] by (simp add: profile_wf_def)
    with sc show ?thesis by (auto simp: strip_local_sync_cache_get split: option.splits if_splits)
  qed
  moreover have "im_wf (c_secrets c)" using assms by (simp add: config_wf_def)
  ultimately show ?thesis
    by (simp add: strip_local_sync_def Let_def strip_local_sync_cache_get split: option.split)
qed

definition cached_secret :: "bool \<Rightarrow> secret_config" where
  "cached_secret own = (plain_secret ''ref'')
     \<lparr>s_sync := Some \<lparr>sy_provider = ''age'', sy_value = ''ct'', sy_local_source = own\<rparr>\<rparr>"

definition local_sample :: "(unit, unit) config" where
  "local_sample = new_config\<lparr>c_secrets := [(''MINE'', cached_secret True), (''COPY'', cached_secret False)],
     c_profiles := [(''prod'', new_profile\<lparr>p_secrets := [(''MINE'', cached_secret True)]\<rparr>)]\<rparr>"

subsection \<open>Outer layers of an edited file\<close>

lemma inherit_providers_get:
  assumes "im_wf loaded"
  shows "im_get (inherit_providers outer sources loaded mine) n =
    (case im_get mine n of
       Some p \<Rightarrow> Some p
     | None \<Rightarrow> if outer (im_get sources n) then im_get loaded n else None)"
  using assms
proof (induction loaded arbitrary: mine)
  case Nil
  then show ?case by (simp add: inherit_providers_def split: option.splits)
next
  case (Cons kv loaded)
  obtain k v where kv: "kv = (k, v)" by fastforce
  have step: "inherit_providers outer sources ((k, v) # loaded) mine =
      inherit_providers outer sources loaded
        (if \<not> im_has mine k \<and> outer (im_get sources k) then im_insert k v mine else mine)"
    by (simp add: inherit_providers_def)
  from Cons.prems have "im_get loaded k = None" "im_wf loaded" by (simp_all add: im_wf_Cons kv)
  then show ?case
    by (simp add: step Cons.IH kv im_get_insert im_has_iff split: option.splits)
qed

lemma inherit_outer_profile_providers [simp]:
  "c_providers (fold (inherit_outer_profile outer) ps c) = c_providers c"
  by (induction ps arbitrary: c) (auto simp: inherit_outer_profile_def Let_def split: prod.splits)

text \<open>When an edited file inherits the outer layers, its own providers stay as edited, a
  provider is added exactly when the loaded configuration took it from a file outside the edited
  ones, and so a provider the user removed from the edited file stays removed.\<close>

lemma inherit_outer_layers_providers:
  assumes "config_wf loaded"
  shows "im_get (c_providers (inherit_outer_layers canon self loaded own)) n =
    (case im_get (c_providers self) n of
       Some p \<Rightarrow> Some p
     | None \<Rightarrow> if is_outer canon (map canon own) (im_get (c_provider_sources loaded) n)
               then im_get (c_providers loaded) n else None)"
  using assms by (simp add: inherit_outer_layers_def Let_def inherit_providers_get config_wf_def)

end
