(* ===== verification/ConfigLoad.thy ===== *)
theory ConfigLoad
  imports ConfigMerge
begin

text \<open>
  Loading: one file with its imports, the files of one directory, the walk to the parent
  directories, the global file, and the discovery loop that repeats the walk until profile
  inheritance selects no further files. The record \<open>world\<close> is what the code reads from outside:
  the file system, the TOML parser, tilde expansion and the settings. The registry of loaded
  sources is the state. The inductive \<open>layer_stack\<close> says which layers a directory is loaded from,
  and the main lemma shows that the nested merges of the walk are one left fold over that stack.
\<close>

record ('p, 'l) world =
  w_exists :: "path \<Rightarrow> bool"
  w_read :: "path \<Rightarrow> string option"
  w_parse :: "string \<Rightarrow> (string \<times> span option) + ('p, 'l) config"
  w_cwd :: "path option"
  w_tilde :: "string \<Rightarrow> string"
  w_config_dir :: path
  w_no_defaults :: bool
  w_settings_profile :: "string list"

type_synonym 'a loading = "(registry, fnox_error, 'a) comp"

subsection \<open>Operations\<close>

definition load :: "('p, 'l) world \<Rightarrow> path \<Rightarrow> ('p, 'l) config loading" where
  "load w path =
     (case w_read w path of
        None \<Rightarrow> err (ConfigReadFailed path)
      | Some content \<Rightarrow>
          andThen (modify (register path content)) (\<lambda>_.
            case w_parse w content of
              Inl (msg, Some span) \<Rightarrow> err (ConfigParseErrorWithSource msg path span)
            | Inl (msg, None) \<Rightarrow> err (ConfigParseError msg)
            | Inr c \<Rightarrow>
                ok (set_source_paths path
                      (case profile_name_from_file path of
                         Some profile \<Rightarrow> scope_to_profile profile c
                       | None \<Rightarrow> c))))"

definition resolve_relative_to_dir :: "('p, 'l) world \<Rightarrow> string \<Rightarrow> path \<Rightarrow> path" where
  "resolve_relative_to_dir w s dir =
     (let expanded = path_components (w_tilde w s)
      in if path_is_absolute expanded then expanded else path_join dir expanded)"

definition load_import :: "('p, 'l) world \<Rightarrow> string \<Rightarrow> path \<Rightarrow> ('p, 'l) config loading" where
  "load_import w import_path base_dir =
     (let absolute_path = resolve_relative_to_dir w import_path base_dir
      in if \<not> w_exists w absolute_path then err (ConfigError (ImportFileNotFound absolute_path))
         else load w absolute_path)"

definition with_imports :: "('p, 'l) world \<Rightarrow> path \<Rightarrow> ('p, 'l) config \<Rightarrow> ('p, 'l) config loading" where
  "with_imports w dir self =
     foldM (\<lambda>c import_path.
              andThen (load_import w import_path dir) (\<lambda>ic. ok (merge_configs ic c)))
       self (c_import self)"

definition global_config_path :: "('p, 'l) world \<Rightarrow> path" where
  "global_config_path w = path_join (w_config_dir w) [''config.toml'']"

definition parent_or_empty :: "path \<Rightarrow> path" where
  "parent_or_empty p = (case path_parent p of Some d \<Rightarrow> d | None \<Rightarrow> [])"

definition load_global :: "('p, 'l) world \<Rightarrow> (('p, 'l) config \<times> bool) loading" where
  "load_global w =
     (if w_exists w (global_config_path w)
      then andThen (load w (global_config_path w)) (\<lambda>c.
           andThen (with_imports w (parent_or_empty (global_config_path w)) c) (\<lambda>c. ok (c, True)))
      else ok (new_config, False))"

definition load_explicit :: "('p, 'l) world \<Rightarrow> path \<Rightarrow> ('p, 'l) config loading" where
  "load_explicit w path =
     andThen (load w path) (\<lambda>c.
     andThen (with_imports w (parent_or_empty path) c) (\<lambda>c.
       if path = global_config_path w then ok c
       else andThen (load_global w) (\<lambda>(global, found).
              ok (if found then merge_configs global c else c))))"

definition is_local_file :: "path \<Rightarrow> bool" where
  "is_local_file p \<longleftrightarrow> file_name p \<in> {Some ''fnox.local.toml'', Some ''.fnox.local.toml''}"

definition load_file ::
  "('p, 'l) world \<Rightarrow> string list \<Rightarrow> bool \<Rightarrow> path \<Rightarrow> ('p, 'l) config loading" where
  \<comment> \<open>the body of the loop over the file names of a directory, before the merge\<close>
  "load_file w profiles include_local_sync path =
     andThen (load w path) (\<lambda>file.
     andThen (with_imports w (parent_or_empty path) file) (\<lambda>merged.
       let file1 = merged\<lparr>c_root := c_root file\<rparr>;
           local = is_local_file path;
           file2 = (if local \<and> \<not> include_local_sync then strip_local_sync file1 else file1);
           wp = write_profile profiles;
           file3 = (if local \<and> wp \<noteq> ''default''
                    then scope_root_entries_to_profile_as_base wp (\<not> w_no_defaults w) file2
                    else file2)
       in ok file3))"

definition config_paths :: "string list \<Rightarrow> path \<Rightarrow> path list" where
  "config_paths profiles dir = map (\<lambda>f. path_join dir (path_components f)) (all_config_filenames profiles)"

definition load_directory ::
  "('p, 'l) world \<Rightarrow> string list \<Rightarrow> bool \<Rightarrow> path \<Rightarrow> bool \<Rightarrow> (('p, 'l) config \<times> bool) loading" where
  "load_directory w profiles include_local_sync dir found =
     foldM (\<lambda>(c, found) path.
              if w_exists w path
              then andThen (load_file w profiles include_local_sync path)
                     (\<lambda>file. ok (merge_configs c file, True))
              else ok (c, found))
       (new_config, found) (config_paths profiles dir)"

definition merge_global :: "('p, 'l) world \<Rightarrow> ('p, 'l) config \<Rightarrow> bool \<Rightarrow> (('p, 'l) config \<times> bool) loading" where
  "merge_global w c found =
     andThen (load_global w) (\<lambda>(global, global_found).
       ok (if global_found then (merge_configs global c, True) else (c, found)))"

function load_recursive ::
  "('p, 'l) world \<Rightarrow> string list \<Rightarrow> bool \<Rightarrow> path \<Rightarrow> bool \<Rightarrow> (('p, 'l) config \<times> bool) loading" where
  "load_recursive w profiles include_local_sync dir found_any =
     andThen (load_directory w profiles include_local_sync dir found_any) (\<lambda>(c, found).
       if c_root c then merge_global w c found
       else (case path_parent dir of
               Some parent \<Rightarrow>
                 andThen (load_recursive w profiles include_local_sync parent found)
                   (\<lambda>(parent_config, parent_found).
                      ok (merge_configs parent_config c, found \<or> parent_found))
             | None \<Rightarrow> merge_global w c found))"
  by pat_completeness auto
termination
  by (relation "measure (\<lambda>(w, ps, i, dir, f). length dir)")
     (auto simp: path_parent_def split: if_splits)

declare load_recursive.simps [simp del]

function find_project_dir :: "('p, 'l) world \<Rightarrow> string list \<Rightarrow> path \<Rightarrow> path option" where
  "find_project_dir w profiles d =
     (if list_ex (w_exists w) (config_paths profiles d) then Some d
      else (case path_parent d of Some p \<Rightarrow> find_project_dir w profiles p | None \<Rightarrow> None))"
  by pat_completeness auto
termination
  by (relation "measure (\<lambda>(w, ps, d). length d)") (auto simp: path_parent_def split: if_splits)

declare find_project_dir.simps [simp del]

definition get_profiles :: "('p, 'l) world \<Rightarrow> string list \<Rightarrow> string list" where
  "get_profiles w cli_profiles =
     (if cli_profiles \<noteq> [] then normalize cli_profiles else normalize (w_settings_profile w))"

fun discover ::
  "('p, 'l) world \<Rightarrow> bool \<Rightarrow> path \<Rightarrow> nat \<Rightarrow> string list \<Rightarrow> ('p, 'l) config \<times> bool \<Rightarrow>
   (string list \<times> ('p, 'l) config \<times> bool) option loading" where
  \<comment> \<open>the discovery loop; \<open>None\<close> when the fuel runs out\<close>
  "discover w ils dir 0 profiles cf = ok None"
| "discover w ils dir (Suc n) profiles cf =
     andThen (lift_sum (resolve_profiles_for_discovery (fst cf) profiles)) (\<lambda>expanded.
       if expanded = profiles then ok (Some (profiles, cf))
       else andThen (load_recursive w expanded ils dir False) (\<lambda>cf'. discover w ils dir n expanded cf'))"

definition load_with_recursion :: "('p, 'l) world \<Rightarrow> nat \<Rightarrow> bool \<Rightarrow> ('p, 'l) config option loading" where
  "load_with_recursion w fuel include_local_sync =
     (case w_cwd w of
        None \<Rightarrow> err (ConfigError CurrentDirUnavailable)
      | Some dir \<Rightarrow>
          let requested = get_profiles w []
          in andThen (load_recursive w requested include_local_sync dir False) (\<lambda>cf.
             andThen (discover w include_local_sync dir fuel requested cf) (\<lambda>r.
               case r of
                 None \<Rightarrow> ok None
               | Some (profiles, c, found) \<Rightarrow>
                   if \<not> found then err (ConfigNotFound dir)
                   else andThen (lift_sum (resolve_profiles c requested)) (\<lambda>_.
                          ok (Some (c\<lparr>c_project_dir := find_project_dir w profiles dir\<rparr>))))))"

definition load_smart :: "('p, 'l) world \<Rightarrow> nat \<Rightarrow> bool \<Rightarrow> path \<Rightarrow> ('p, 'l) config option loading" where
  "load_smart w fuel include_local_sync path =
     (if uses_config_discovery path then load_with_recursion w fuel include_local_sync
      else if path_is_absolute path then andThen (load_explicit w path) (\<lambda>c. ok (Some c))
      else (case w_cwd w of
              None \<Rightarrow> err (ConfigError CurrentDirUnavailable)
            | Some dir \<Rightarrow> andThen (load_explicit w (path_join dir path)) (\<lambda>c. ok (Some c))))"

subsection \<open>The registry never influences a result\<close>

definition pure_result :: "'a loading \<Rightarrow> bool" where
  "pure_result m \<longleftrightarrow> (\<forall>r r'. fst (m r) = fst (m r'))"

named_theorems pure_results

lemma pure_resultD: "pure_result m \<Longrightarrow> fst (m r) = fst (m r')"
  by (simp add: pure_result_def)

lemma pure_basic [pure_results]:
  "pure_result (ok a)" "pure_result (err e)" "pure_result (modify f)" "pure_result (lift_sum x)"
  by (simp_all add: pure_result_def)

lemma pure_andThen [pure_results]:
  assumes "pure_result m" and "\<And>a. pure_result (f a)"
  shows "pure_result (andThen m f)"
  unfolding pure_result_def andThen_fst
proof (intro allI)
  fix r r'
  have "fst (m r) = fst (m r')" by (rule pure_resultD [OF assms(1)])
  then show "bind_sum (fst (m r)) (\<lambda>a. fst (f a (snd (m r)))) = bind_sum (fst (m r')) (\<lambda>a. fst (f a (snd (m r'))))"
    using pure_resultD [OF assms(2)] by (cases "fst (m r')") auto
qed

lemma pure_foldM [pure_results]: "(\<And>b x. pure_result (f b x)) \<Longrightarrow> pure_result (foldM f b xs)"
  by (induction xs arbitrary: b) (auto intro: pure_results)

lemma pure_load [pure_results]: "pure_result (load w p)"
  unfolding load_def by (auto intro!: pure_results split: option.splits sum.splits)

lemma pure_load_import [pure_results]: "pure_result (load_import w i d)"
  unfolding load_import_def Let_def by (auto intro: pure_results)

lemma pure_with_imports [pure_results]: "pure_result (with_imports w d c)"
  unfolding with_imports_def by (intro pure_results)

lemma pure_load_global [pure_results]: "pure_result (load_global w)"
  unfolding load_global_def by (auto intro!: pure_results)

lemma pure_load_file [pure_results]: "pure_result (load_file w ps i p)"
  unfolding load_file_def Let_def by (auto intro!: pure_results)


lemma pure_load_directory [pure_results]: "pure_result (load_directory w ps i d f)"
  unfolding load_directory_def by (auto intro!: pure_results split: prod.splits)

subsection \<open>Loading keeps configurations well formed\<close>

definition world_wf :: "('p, 'l) world \<Rightarrow> bool" where
  \<comment> \<open>the parser fills index maps, whose keys are distinct\<close>
  "world_wf w \<longleftrightarrow> (\<forall>s c. w_parse w s = Inr c \<longrightarrow> config_wf c)"

lemma im_all_map: "im_all P m \<Longrightarrow> (\<And>k v. P v \<Longrightarrow> Q (f k v)) \<Longrightarrow> im_all Q (im_map f m)"
  by (auto simp: im_all_def im_map_def list_all_iff)

lemma im_all_remove: "im_all P m \<Longrightarrow> im_all P (im_remove k m)"
  by (auto simp: im_all_def im_remove_def list_all_iff)

lemma profile_wf_set_paths: "profile_wf p \<Longrightarrow> profile_wf (set_profile_source_paths path n p)"
  by (simp add: profile_wf_def set_profile_source_paths_def imap_distinct)

lemma config_wf_set_paths: "config_wf c \<Longrightarrow> config_wf (set_source_paths path c)"
  by (simp add: config_wf_def set_source_paths_def imap_distinct flip: im_all_def)
     (blast intro: im_all_map profile_wf_set_paths)

lemma profile_wf_or_default: "config_wf c \<Longrightarrow> profile_wf (profile_or_default c n)"
  by (auto simp: profile_or_default_def new_profile_def profile_wf_def im_wf_def im_keys_def
      split: option.splits dest: config_wf_profile)

lemma config_wf_scope_root:
  assumes "config_wf c"
  shows "config_wf (scope_root_entries_to_profile n c)"
  using assms profile_wf_or_default [OF assms, of n]
  by (simp add: scope_root_entries_to_profile_def Let_def config_wf_def profile_wf_def imap_distinct
      im_all_insert flip: im_all_def)

lemma config_wf_updates:
  "config_wf (c\<lparr>c_secrets := m, c_secret_sources := n\<rparr>) \<longleftrightarrow>
     config_wf (c\<lparr>c_secrets := [], c_secret_sources := []\<rparr>) \<and> im_wf m \<and> im_wf n"
  "config_wf c \<Longrightarrow> config_wf (c\<lparr>c_secrets := [], c_secret_sources := []\<rparr>)"
  by (auto simp: config_wf_def im_wf_def im_keys_def)

lemma config_wf_scope: "config_wf c \<Longrightarrow> config_wf (scope_to_profile n c)"
  unfolding scope_to_profile_def by (rule config_wf_scope_root) (simp add: config_wf_def)

lemma config_wf_scope_as_base:
  assumes "config_wf c"
  shows "config_wf (scope_root_entries_to_profile_as_base n b c)"
proof -
  let ?c1 = "c\<lparr>c_profiles := im_remove n (c_profiles c)\<rparr>"
  let ?c2 = "if b then scope_root_entries_to_profile n ?c1
    else (scope_root_entries_to_profile n (?c1\<lparr>c_secrets := [], c_secret_sources := []\<rparr>))
           \<lparr>c_secrets := c_secrets c, c_secret_sources := c_secret_sources c\<rparr>"
  have c1: "config_wf ?c1"
    using assms by (simp add: config_wf_def imap_distinct im_all_remove flip: im_all_def)
  then have "config_wf (?c1\<lparr>c_secrets := [], c_secret_sources := []\<rparr>)"
    by (rule config_wf_updates)
  then have "config_wf (scope_root_entries_to_profile n (?c1\<lparr>c_secrets := [], c_secret_sources := []\<rparr>))"
    by (rule config_wf_scope_root)
  then have "config_wf (scope_root_entries_to_profile n (?c1\<lparr>c_secrets := [], c_secret_sources := []\<rparr>)
      \<lparr>c_secrets := c_secrets c, c_secret_sources := c_secret_sources c\<rparr>)"
    using assms by (subst config_wf_updates(1)) (auto intro: config_wf_updates(2) simp: config_wf_def)
  moreover have "config_wf (scope_root_entries_to_profile n ?c1)" by (rule config_wf_scope_root [OF c1])
  ultimately have c2: "config_wf ?c2" by simp
  have "config_wf (?c2\<lparr>c_profiles := im_insert n (merge_profile (profile_or_default ?c2 n) v) (c_profiles ?c2)\<rparr>)" for v
    using c2 profile_wf_merge [OF profile_wf_or_default [OF c2, of n], of v]
    unfolding config_wf_def im_all_def [symmetric] by (simp add: imap_distinct im_all_insert)
  with c2 show ?thesis
    unfolding scope_root_entries_to_profile_as_base_def Let_def by (auto split: option.split)
qed

lemma im_wf_strip: "im_wf m \<Longrightarrow> im_wf (strip_local_sync_cache m)"
  by (simp add: strip_local_sync_cache_def imap_distinct)

lemma config_wf_strip:
  assumes "config_wf c"
  shows "config_wf (strip_local_sync c)"
  using assms unfolding strip_local_sync_def Let_def config_wf_def im_all_def [symmetric]
  by (simp add: im_wf_strip imap_distinct)
     (auto intro!: im_all_map simp: profile_wf_def im_wf_strip imap_distinct)

definition wf_loading :: "('p, 'l) config loading \<Rightarrow> bool" where
  "wf_loading m \<longleftrightarrow> (\<forall>r c. fst (m r) = Inr c \<longrightarrow> config_wf c)"

lemma wf_loadingD: "wf_loading m \<Longrightarrow> fst (m r) = Inr c \<Longrightarrow> config_wf c"
  unfolding wf_loading_def by blast

lemma wf_load: "world_wf w \<Longrightarrow> wf_loading (load w p)"
  unfolding world_wf_def wf_loading_def load_def
  by (auto simp: andThen_fst config_wf_set_paths config_wf_scope split: option.splits sum.splits)

lemma wf_load_import: "world_wf w \<Longrightarrow> wf_loading (load_import w i d)"
  using wf_load [of w] by (auto simp: wf_loading_def load_import_def Let_def)

lemma wf_import_fold:
  assumes "world_wf w" "config_wf c"
  shows "wf_loading (foldM (\<lambda>c i. andThen (load_import w i d) (\<lambda>ic. ok (merge_configs ic c))) c is)"
  using assms(2)
proof (induction "is" arbitrary: c)
  case (Cons i "is")
  have "wf_loading (foldM (\<lambda>c i. andThen (load_import w i d) (\<lambda>ic. ok (merge_configs ic c)))
          (merge_configs ic c) is)" if "fst (load_import w i d r) = Inr ic" for ic r
    using Cons config_wf_merge wf_loadingD [OF wf_load_import [OF assms(1)] that] by blast
  then have step: "config_wf c'"
    if "fst (load_import w i d r) = Inr ic"
      and "fst (foldM (\<lambda>c i. andThen (load_import w i d) (\<lambda>ic. ok (merge_configs ic c)))
            (merge_configs ic c) is r') = Inr c'" for ic r r' c'
    using that unfolding wf_loading_def by blast
  show ?case
    unfolding wf_loading_def foldM.simps by (auto simp only: andThen_fst bind_sum_Inr comp_simps fst_conv sum.inject dest: step)
qed (simp add: wf_loading_def)

lemma wf_with_imports: "world_wf w \<Longrightarrow> config_wf c \<Longrightarrow> wf_loading (with_imports w d c)"
  unfolding with_imports_def by (rule wf_import_fold)

lemma config_wf_root: "config_wf (c\<lparr>c_root := b\<rparr>) = config_wf c"
  by (simp add: config_wf_def)

lemma wf_load_file:
  assumes "world_wf w"
  shows "wf_loading (load_file w ps i p)"
proof -
  have m: "config_wf (m\<lparr>c_root := b\<rparr>)"
    if "fst (load w p r) = Inr a" and "fst (with_imports w d a r') = Inr m" for d a r r' m b
    unfolding config_wf_root
    using wf_loadingD [OF wf_with_imports [OF assms wf_loadingD [OF wf_load [OF assms] that(1)]] that(2)] .
  show ?thesis
    unfolding wf_loading_def load_file_def
    by (auto simp: andThen_fst bind_sum_Inr Let_def intro!: config_wf_strip config_wf_scope_as_base intro: m)
qed

lemma load_directory_wf:
  assumes "world_wf w" "fst (load_directory w ps i d f r) = Inr (c, f')"
  shows "config_wf c \<and> f' = (f \<or> list_ex (w_exists w) (config_paths ps d))"
proof -
  let ?step = "\<lambda>(c, found) path. if w_exists w path
      then andThen (load_file w ps i path) (\<lambda>file. ok (merge_configs c file, True)) else ok (c, found)"
  have "config_wf c \<and> f' = (f0 \<or> list_ex (w_exists w) paths)"
    if "fst (foldM ?step (c0, f0) paths r) = Inr (c, f')" "config_wf c0" for paths c0 f0 r
    using that
  proof (induction paths arbitrary: c0 f0 r)
    case (Cons p paths)
    show ?case
    proof (cases "w_exists w p")
      case True
      then obtain fc r1 where "fst (load_file w ps i p r) = Inr fc"
        and "fst (foldM ?step (merge_configs c0 fc, True) paths r1) = Inr (c, f')"
        using Cons.prems(1) by (auto simp: andThen_fst bind_sum_Inr)
      with Cons show ?thesis
        using True config_wf_merge wf_loadingD [OF wf_load_file [OF assms(1)]] by fastforce
    next
      case False
      with Cons show ?thesis by (fastforce simp: andThen_fst bind_sum_Inr)
    qed
  qed simp
  from this [OF assms(2) [unfolded load_directory_def]] show ?thesis by simp
qed

lemma load_global_wf:
  assumes "world_wf w" and "fst (load_global w r) = Inr (g, f)"
  shows "config_wf g"
proof (cases "w_exists w (global_config_path w)")
  case True
  let ?p = "global_config_path w"
  obtain c r1 where "fst (load w ?p r) = Inr c"
    and "fst (with_imports w (parent_or_empty ?p) c r1) = Inr g"
    using assms(2) True by (auto simp: load_global_def andThen_fst bind_sum_Inr)
  then show ?thesis
    using wf_loadingD [OF wf_with_imports [OF assms(1)]] wf_loadingD [OF wf_load [OF assms(1)]] by blast
next
  case False
  then show ?thesis using assms(2) by (auto simp: load_global_def)
qed

subsection \<open>The walk is a fold over the layers\<close>

inductive layer_stack ::
  "('p, 'l) world \<Rightarrow> string list \<Rightarrow> bool \<Rightarrow> path \<Rightarrow> (path \<times> ('p, 'l) config) list \<Rightarrow> bool"
  for w profiles ils where
  stop: "fst (load_directory w profiles ils d f r) = Inr (c, found) \<Longrightarrow>
         c_root c \<or> path_parent d = None \<Longrightarrow> layer_stack w profiles ils d [(d, c)]"
| up: "fst (load_directory w profiles ils d f r) = Inr (c, found) \<Longrightarrow> \<not> c_root c \<Longrightarrow>
       path_parent d = Some q \<Longrightarrow> layer_stack w profiles ils q ls \<Longrightarrow>
       layer_stack w profiles ils d (ls @ [(d, c)])"

definition merge_all :: "('p, 'l) config list \<Rightarrow> ('p, 'l) config" where
  "merge_all cs = (case cs of [] \<Rightarrow> new_config | c # cs \<Rightarrow> foldl merge_configs c cs)"

lemma merge_all_snoc: "cs \<noteq> [] \<Longrightarrow> merge_all (cs @ [c]) = merge_configs (merge_all cs) c"
  by (cases cs) (simp_all add: merge_all_def)

lemma layer_stack_nonempty: "layer_stack w ps i d ls \<Longrightarrow> ls \<noteq> []"
  by (induction rule: layer_stack.induct) auto

lemma layer_stack_wf: "layer_stack w ps i d ls \<Longrightarrow> world_wf w \<Longrightarrow> list_all (\<lambda>(_, c). config_wf c) ls"
  by (induction rule: layer_stack.induct) (auto dest: load_directory_wf)

definition loaded_from :: "('p, 'l) world \<Rightarrow> string list \<Rightarrow> bool \<Rightarrow> path \<Rightarrow> bool \<Rightarrow>
    (path \<times> ('p, 'l) config) list \<Rightarrow> ('p, 'l) config \<times> bool \<Rightarrow> bool" where
  \<comment> \<open>the configuration is the left fold over the global file and the layers\<close>
  "loaded_from w ps i d f ls cf \<longleftrightarrow>
     layer_stack w ps i d ls \<and>
     (\<exists>g gf. fst (load_global w []) = Inr (g, gf) \<and>
        fst cf = merge_all ((if gf then [g] else []) @ map snd ls) \<and>
        snd cf = (f \<or> gf \<or> (\<exists>(q, _) \<in> set ls. list_ex (w_exists w) (config_paths ps q))))"

lemma merge_global_result:
  assumes "fst (merge_global w c f r) = Inr (c', f')"
  shows "\<exists>g gf. fst (load_global w []) = Inr (g, gf) \<and>
           c' = merge_all ((if gf then [g] else []) @ [c]) \<and> f' = (f \<or> gf)"
proof -
  obtain g gf where "fst (load_global w r) = Inr (g, gf)"
    and "(if gf then (merge_configs g c, True) else (c, f)) = (c', f')"
    using assms by (auto simp: merge_global_def andThen_fst bind_sum_Inr)
  moreover have "fst (load_global w []) = fst (load_global w r)"
    by (rule pure_resultD [OF pure_load_global])
  ultimately show ?thesis by (cases gf) (auto simp: merge_all_def)
qed

lemma load_recursive_layers:
  assumes "fst (load_recursive w ps i d f r) = Inr cf" "world_wf w"
  shows "\<exists>ls. loaded_from w ps i d f ls cf"
  using assms
proof (induction w ps i d f arbitrary: r cf rule: load_recursive.induct)
  case (1 w ps i d f)
  obtain c found r1 where dir: "fst (load_directory w ps i d f r) = Inr (c, found)"
    and rest: "fst ((if c_root c then merge_global w c found
       else (case path_parent d of
               Some parent \<Rightarrow> andThen (load_recursive w ps i parent found)
                   (\<lambda>(parent_config, parent_found). ok (merge_configs parent_config c, found \<or> parent_found))
             | None \<Rightarrow> merge_global w c found)) r1) = Inr cf"
    using 1(2) by (subst (asm) load_recursive.simps) (auto simp: andThen_fst bind_sum_Inr)
  have here: "found = (f \<or> list_ex (w_exists w) (config_paths ps d))"
    using load_directory_wf [OF 1(3) dir] by simp
  show ?case
  proof (cases "c_root c \<or> path_parent d = None")
    case True
    then have "fst (merge_global w c found r1) = Inr (fst cf, snd cf)"
      using rest by (auto split: if_splits)
    from merge_global_result [OF this] obtain g gf where "fst (load_global w []) = Inr (g, gf)"
      and "fst cf = merge_all ((if gf then [g] else []) @ [c])" and "snd cf = (found \<or> gf)"
      by blast
    moreover have "layer_stack w ps i d [(d, c)]" using dir True by (rule layer_stack.stop)
    ultimately have "loaded_from w ps i d f [(d, c)] cf"
      unfolding loaded_from_def using here by (intro conjI exI [of _ g] exI [of _ gf]) auto
    then show ?thesis ..
  next
    case False
    then obtain q where q: "path_parent d = Some q" "\<not> c_root c" by auto
    then obtain pc pf where parent: "fst (load_recursive w ps i q found r1) = Inr (pc, pf)"
      and cf: "cf = (merge_configs pc c, found \<or> pf)"
      using rest by (auto simp: andThen_fst bind_sum_Inr)
    obtain ls where ls: "loaded_from w ps i q found ls (pc, pf)"
      using 1(1) [OF q(2) q(1) parent 1(3)] by blast
    then have stack: "layer_stack w ps i d (ls @ [(d, c)])"
      using layer_stack.up [OF dir q(2) q(1)] by (simp add: loaded_from_def)
    have "layer_stack w ps i q ls" using ls by (simp add: loaded_from_def)
    then have "ls \<noteq> []" by (rule layer_stack_nonempty)
    moreover obtain g gf where "fst (load_global w []) = Inr (g, gf)"
      and "pc = merge_all ((if gf then [g] else []) @ map snd ls)"
      and "pf = (found \<or> gf \<or> (\<exists>(q, _) \<in> set ls. list_ex (w_exists w) (config_paths ps q)))"
      using ls by (auto simp: loaded_from_def)
    ultimately have "loaded_from w ps i d f (ls @ [(d, c)]) cf"
      unfolding loaded_from_def
      using stack here merge_all_snoc [of "(if gf then [g] else []) @ map snd ls" c]
      by (intro conjI exI [of _ g] exI [of _ gf]) (auto simp: cf simp del: not_None_eq)
    then show ?thesis ..
  qed
qed


text \<open>C31: Loading a directory merges, by one left fold, the global file (when there is one) and
  then one layer per directory of the walk, the outermost first and the start directory last; the
  walk stops at the first directory whose own files set \<open>root\<close> or at the file system root, and
  \<open>found\<close> is reported exactly when some file was loaded.\<close>

theorem directory_walk_folds_layers:
  assumes "world_wf w" and "load_recursive w ps ils dir f r = (Inr cf, r')"
  shows "\<exists>ls. loaded_from w ps ils dir f ls cf"
  using load_recursive_layers [of w ps ils dir f r cf] assms by simp

text \<open>A world with a global file, a project file, a profile file and its parent profile's file;
  the project file selects the parent profile through \<open>inherits\<close>.\<close>

definition demo_files :: "(path \<times> string) list" where
  "demo_files =
     [([''/'', ''g'', ''config.toml''], ''G''), ([''/'', ''p'', ''fnox.toml''], ''P''),
      ([''/'', ''fnox.base.toml''], ''B''), ([''/'', ''p'', ''fnox.eu.toml''], ''E'')]"

definition demo_configs :: "(string \<times> (unit, unit) config) list" where
  "demo_configs =
     [(''G'', new_config\<lparr>c_secrets := [(''A'', plain_secret ''g'')]\<rparr>),
      (''P'', new_config\<lparr>c_secrets := [(''A'', plain_secret ''p'')],
                       c_profiles := [(''eu'', new_profile\<lparr>p_inherits := Some [''base'']\<rparr>)]\<rparr>),
      (''B'', new_config\<lparr>c_secrets := [(''B'', plain_secret ''b'')]\<rparr>),
      (''E'', new_config\<lparr>c_secrets := [(''B'', plain_secret ''e'')]\<rparr>)]"

definition demo_world :: "(unit, unit) world" where
  "demo_world =
     \<lparr>w_exists = (\<lambda>p. map_of demo_files p \<noteq> None), w_read = map_of demo_files,
      w_parse = (\<lambda>s. case map_of demo_configs s of Some c \<Rightarrow> Inr c | None \<Rightarrow> Inl (''bad'', None)),
      w_cwd = Some [''/'', ''p''], w_tilde = id, w_config_dir = [''/'', ''g''],
      w_no_defaults = False, w_settings_profile = [''eu'']\<rparr>"

lemma demo_wf: "world_wf demo_world"
proof -
  have "list_all (\<lambda>(_, c). config_wf c) demo_configs" by code_simp
  then show ?thesis
    by (auto simp: world_wf_def demo_world_def list_all_iff split: option.splits dest!: map_of_SomeD)
qed

definition demo_load :: "string list \<Rightarrow> (unit, unit) config \<times> bool" where
  "demo_load ps = (case load_recursive demo_world ps True [''/'', ''p''] False [] of
     (Inr cf, _) \<Rightarrow> cf | _ \<Rightarrow> (new_config, False))"

lemma demo_loads:
  "load_recursive demo_world [''base'', ''eu''] True [''/'', ''p''] False [] =
     (Inr (fst (demo_load [''base'', ''eu'']), snd (demo_load [''base'', ''eu''])),
      snd (load_recursive demo_world [''base'', ''eu''] True [''/'', ''p''] False []))"
  by code_simp

theorem directory_walk_folds_layers_witness:
  "\<exists>ls. loaded_from demo_world [''base'', ''eu''] True [''/'', ''p''] False ls
     (fst (demo_load [''base'', ''eu'']), snd (demo_load [''base'', ''eu'']))"
  by (rule directory_walk_folds_layers [OF demo_wf demo_loads])

subsection \<open>The nearest layer wins\<close>

definition top_layer :: "('a \<Rightarrow> 'b option) \<Rightarrow> 'a list \<Rightarrow> 'b option" where
  "top_layer f ls = foldl (\<lambda>found l. or_else (f l) found) None ls"

lemma top_layer_simps [simp]:
  "top_layer f [] = None" "top_layer f (ls @ [l]) = or_else (f l) (top_layer f ls)" "top_layer f [l] = f l"
  by (simp_all add: top_layer_def)

lemma config_wf_merge_all:
  "list_all config_wf cs \<Longrightarrow> config_wf (merge_all cs)"
  by (cases cs) (simp_all add: merge_all_def config_layers.foldl_accepted)

lemma merge_all_top_layer:
  assumes "\<And>a b. config_wf a \<Longrightarrow> config_wf b \<Longrightarrow> f (merge_configs a b) = or_else (f b) (f a)"
    and "f new_config = None" and "list_all config_wf cs"
  shows "f (merge_all cs) = top_layer f cs"
  using assms(3)
proof (induction cs rule: rev_induct)
  case Nil
  then show ?case using assms(2) by (simp add: merge_all_def)
next
  case (snoc c cs)
  show ?case
  proof (cases "cs = []")
    case True
    then show ?thesis by (simp add: merge_all_def)
  next
    case False
    with snoc show ?thesis
      using assms(1) [of "merge_all cs" c] by (simp add: merge_all_snoc config_wf_merge_all)
  qed
qed

text \<open>C30: Whatever the directories nest, a secret of the loaded configuration, at the top level or
  in a profile, and a provider, are those of the layer nearest to the start directory that defines
  them, the global file coming last; the same holds for the default provider.\<close>

theorem nearest_layer_wins:
  assumes "world_wf w" and "load_recursive w ps ils dir f r = (Inr (c, found), r')"
  shows "\<exists>ls. layer_stack w ps ils dir ls \<and>
    (\<exists>g gf. fst (load_global w []) = Inr (g, gf) \<and>
       (let layers = (if gf then [g] else []) @ map snd ls in
          im_get (c_secrets c) key = top_layer (\<lambda>l. im_get (c_secrets l) key) layers \<and>
          im_get (c_providers c) key = top_layer (\<lambda>l. im_get (c_providers l) key) layers \<and>
          profile_secret c key p = top_layer (\<lambda>l. profile_secret l key p) layers \<and>
          c_default_provider c = top_layer c_default_provider layers))"
proof -
  obtain ls g gf where stack: "layer_stack w ps ils dir ls"
    and g: "fst (load_global w []) = Inr (g, gf)"
    and c: "c = merge_all ((if gf then [g] else []) @ map snd ls)"
    using load_recursive_layers [of w ps ils dir f r "(c, found)"] assms
    by (auto simp: loaded_from_def)
  define layers where "layers = (if gf then [g] else []) @ map snd ls"
  have wf: "list_all config_wf layers"
    using layer_stack_wf [OF stack assms(1)] load_global_wf [OF assms(1) g]
    by (auto simp: layers_def list_all_iff)
  note top = merge_all_top_layer [OF _ _ wf]
  have "im_get (c_secrets (merge_all layers)) key = top_layer (\<lambda>l. im_get (c_secrets l) key) layers"
    by (rule top) (auto simp: merge_configs_def im_get_extend config_wf_def new_config_def or_else_def
        split: option.splits)
  moreover have "im_get (c_providers (merge_all layers)) key = top_layer (\<lambda>l. im_get (c_providers l) key) layers"
    by (rule top) (auto simp: merge_configs_def im_get_extend config_wf_def new_config_def or_else_def
        split: option.splits)
  moreover have "profile_secret (merge_all layers) key p = top_layer (\<lambda>l. profile_secret l key p) layers"
    by (rule top) (simp_all add: profile_secret_merge, simp add: profile_secret_def new_config_def)
  moreover have "c_default_provider (merge_all layers) = top_layer c_default_provider layers"
    by (rule top) (simp_all add: merge_configs_def new_config_def)
  ultimately show ?thesis
    using stack g unfolding Let_def c layers_def
    by (intro exI [of _ ls] exI [of _ g] exI [of _ gf] conjI)
qed

theorem nearest_layer_wins_witness:
  "\<exists>ls. layer_stack demo_world [''base'', ''eu''] True [''/'', ''p''] ls \<and>
    (\<exists>g gf. fst (load_global demo_world []) = Inr (g, gf) \<and>
       (let layers = (if gf then [g] else []) @ map snd ls; c = fst (demo_load [''base'', ''eu'']) in
          im_get (c_secrets c) ''A'' = top_layer (\<lambda>l. im_get (c_secrets l) ''A'') layers \<and>
          im_get (c_providers c) ''A'' = top_layer (\<lambda>l. im_get (c_providers l) ''A'') layers \<and>
          profile_secret c ''A'' ''base'' = top_layer (\<lambda>l. profile_secret l ''A'' ''base'') layers \<and>
          c_default_provider c = top_layer c_default_provider layers))"
  using nearest_layer_wins [OF demo_wf demo_loads] by (simp only: Let_def)

subsection \<open>Discovery\<close>

lemma discover_invariant:
  assumes "discover w ils dir n ps cf r = (Inr (Some (ps', cf')), r')"
  shows "subseq ps ps' \<and> resolve_profiles_for_discovery (fst cf') ps' = Inr ps' \<and>
         (ps' = ps \<and> cf' = cf \<or> (\<exists>r'. fst (load_recursive w ps' ils dir False r') = Inr cf'))"
  using assms
proof (induction w ils dir n ps cf arbitrary: r rule: discover.induct)
  case (2 w ils dir n ps cf)
  obtain expanded r1 where step: "resolve_profiles_for_discovery (fst cf) ps = Inr expanded"
    and rest: "(if expanded = ps then ok (Some (ps, cf))
       else andThen (load_recursive w expanded ils dir False) (\<lambda>cf'. discover w ils dir n expanded cf')) r1
       = (Inr (Some (ps', cf')), r')"
    using 2(2) by (auto simp: andThen_Inr)
  have sub: "subseq ps expanded"
    using step resolved_keeps_requested by (auto simp: resolve_profiles_for_discovery_def)
  show ?case
  proof (cases "expanded = ps")
    case True
    then show ?thesis using rest step by auto
  next
    case False
    then obtain cf2 r2 where load: "load_recursive w expanded ils dir False r1 = (Inr cf2, r2)"
      and rec: "discover w ils dir n expanded cf2 r2 = (Inr (Some (ps', cf')), r')"
      using rest by (auto simp: andThen_Inr)
    from 2(1) [OF False rec] sub load show ?thesis
      using subseq_order.order_trans by (metis fst_conv)
  qed
qed simp

lemma demo_discovery:
  "load_recursive demo_world [''eu''] True [''/'', ''p''] False [] =
     (Inr (demo_load [''eu'']), snd (load_recursive demo_world [''eu''] True [''/'', ''p''] False []))"
  "discover demo_world True [''/'', ''p''] 2 [''eu''] (demo_load [''eu''])
      (snd (load_recursive demo_world [''eu''] True [''/'', ''p''] False [])) =
     (Inr (Some ([''base'', ''eu''], fst (demo_load [''base'', ''eu'']), True)),
      snd (discover demo_world True [''/'', ''p''] 2 [''eu''] (demo_load [''eu''])
            (snd (load_recursive demo_world [''eu''] True [''/'', ''p''] False []))))"
  by code_simp+

end
