(* ===== verification/DiscoveryEnds.thy ===== *)
theory DiscoveryEnds
  imports ConfigLoad
begin

text \<open>
  The discovery loop of \<open>load_with_recursion\<close> ends. What a profile inherits in a loaded configuration
  is a map, and merging layers overrides maps, so that loading a file twice counts as loading it the
  last time. Expanding a list of profiles keeps the order of the last occurrences, unless it adds a
  profile. So a round of the loop adds a profile or is the last but one, and the files of a file system
  name finitely many profiles.
\<close>

subsection \<open>What profiles inherit in a configuration\<close>

definition inherits_map :: "('p, 'l) config \<Rightarrow> string \<rightharpoonup> string list" where
  "inherits_map c q = Option.bind (im_get (c_profiles c) q) p_inherits"

lemma inherits_of_map:
  "inherits_of c q = (if q = ''default'' then [] else case inherits_map c q of Some ps \<Rightarrow> ps | None \<Rightarrow> [])"
  by (auto simp: inherits_of_def inherits_map_def profile_inherits_def split: option.splits)

lemma inherits_map_merge: "config_wf b \<Longrightarrow> inherits_map (merge_configs a b) = inherits_map a ++ inherits_map b"
  by (auto simp: fun_eq_iff inherits_map_def merge_configs_def im_get_merge_with config_wf_def merge_profile_def
      or_else_def map_add_def split: option.splits)

lemma inherits_map_new: "inherits_map new_config = Map.empty"
  by (simp add: fun_eq_iff inherits_map_def new_config_def)

lemma inherits_map_root [simp]: "inherits_map (c\<lparr>c_root := b\<rparr>) = inherits_map c"
  by (simp add: fun_eq_iff inherits_map_def)

lemma inherits_map_set_paths: "inherits_map (set_source_paths path c) = inherits_map c"
  by (auto simp: fun_eq_iff inherits_map_def set_source_paths_def im_get_map Option.bind_map_option comp_def set_profile_source_paths_def)

lemma inherits_map_scope_root: "inherits_map (scope_root_entries_to_profile n c) = inherits_map c"
  by (auto simp: fun_eq_iff inherits_map_def scope_root_entries_to_profile_def Let_def im_get_insert profile_or_default_def
      new_profile_def split: option.splits)

lemma inherits_map_scope: "inherits_map (scope_to_profile n c) = inherits_map c"
  unfolding scope_to_profile_def inherits_map_scope_root by (simp add: fun_eq_iff inherits_map_def)

lemma inherits_map_scope_base: "config_wf c \<Longrightarrow> inherits_map (scope_root_entries_to_profile_as_base n b c) = inherits_map c"
  by (auto simp: fun_eq_iff inherits_map_def scope_root_entries_to_profile_as_base_def scope_root_entries_to_profile_def
      Let_def im_get_insert im_get_remove config_wf_def profile_or_default_def new_profile_def merge_profile_def or_else_def
      split: option.splits)

lemma inherits_map_strip: "inherits_map (strip_local_sync c) = inherits_map c"
  by (auto simp: fun_eq_iff inherits_map_def strip_local_sync_def Let_def im_get_map Option.bind_map_option comp_def)

subsection \<open>Later layers override earlier ones\<close>

definition override :: "('x \<Rightarrow> 'k \<rightharpoonup> 'v) \<Rightarrow> 'x list \<Rightarrow> 'k \<rightharpoonup> 'v" where
  "override F xs = foldr (\<lambda>x m. F x ++ m) xs Map.empty"

lemma override_simps [simp]:
  "override F [] = Map.empty" "override F (x # xs) = F x ++ override F xs"
  by (simp_all add: override_def)

lemma override_append: "override F (xs @ ys) = override F xs ++ override F ys"
  by (induction xs) simp_all

lemma override_concat: "override F (concat (map f xs)) = override (\<lambda>x. override F (f x)) xs"
  by (induction xs) (simp_all add: override_append)

lemma override_map: "override F (map g xs) = override (F \<circ> g) xs"
  by (induction xs) simp_all

lemma dom_override: "dom (override F xs) = (\<Union>x \<in> set xs. dom (F x))"
  by (induction xs) auto

lemma override_absorb: "dom m \<subseteq> dom n \<Longrightarrow> m ++ n = n"
  by (rule ext) (auto simp: map_add_def split: option.splits)

lemma override_remdups: "override F (remdups xs) = override F xs"
proof (induction xs)
  case (Cons x xs)
  show ?case
  proof (cases "x \<in> set xs")
    case True
    then have "dom (F x) \<subseteq> dom (override F xs)" by (auto simp: dom_override)
    then show ?thesis using True Cons by (simp add: override_absorb)
  qed (use Cons in simp)
qed simp

lemma last_remdups: "last (remdups xs) = last xs"
  by (induction xs) (auto simp: remdups_eq_nil_iff)

lemma override_last: "remdups xs = remdups ys \<Longrightarrow> override F xs = override F ys"
  by (metis override_remdups)

subsection \<open>Loading a list of profiles\<close>

lemma load_file_write_profile: "load_file w ps ils path = load_file w [write_profile ps] ils path"
  by (simp add: load_file_def write_profile_def)

definition file_map :: "('p, 'l) world \<Rightarrow> bool \<Rightarrow> string \<Rightarrow> path \<Rightarrow> string \<rightharpoonup> string list" where
  "file_map w ils wp path =
     (if w_exists w path
      then (case fst (load_file w [wp] ils path []) of Inr c \<Rightarrow> inherits_map c | Inl _ \<Rightarrow> Map.empty)
      else Map.empty)"

definition file_root :: "('p, 'l) world \<Rightarrow> bool \<Rightarrow> string \<Rightarrow> path \<Rightarrow> bool" where
  "file_root w ils wp path \<longleftrightarrow>
     w_exists w path \<and> (case fst (load_file w [wp] ils path []) of Inr c \<Rightarrow> c_root c | Inl _ \<Rightarrow> False)"

lemma load_files_map:
  assumes "world_wf w"
    and "foldM (\<lambda>(c, found) path.
              if w_exists w path
              then andThen (load_file w ps ils path) (\<lambda>file. ok (merge_configs c file, True))
              else ok (c, found)) (c0, f0) paths r = (Inr (c, f), r')"
  shows "inherits_map c = inherits_map c0 ++ override (file_map w ils (write_profile ps)) paths \<and>
    (c_root c \<longleftrightarrow> c_root c0 \<or> (\<exists>p \<in> set paths. file_root w ils (write_profile ps) p))"
  using assms(2)
proof (induction paths arbitrary: c0 f0 r)
  case (Cons path paths)
  show ?case
  proof (cases "w_exists w path")
    case False
    with Cons show ?thesis by (auto simp: andThen_Inr file_map_def file_root_def)
  next
    case True
    then obtain layer r1 where layer: "load_file w ps ils path r = (Inr layer, r1)"
      and rest: "foldM (\<lambda>(c, found) path.
              if w_exists w path
              then andThen (load_file w ps ils path) (\<lambda>file. ok (merge_configs c file, True))
              else ok (c, found)) (merge_configs c0 layer, True) paths r1 = (Inr (c, f), r')"
      using Cons.prems by (auto simp: andThen_Inr)
    have "fst (load_file w [write_profile ps] ils path []) = Inr layer"
      using layer pure_resultD [OF pure_load_file, of w "[write_profile ps]" ils path "[]" r]
      unfolding load_file_write_profile [of w ps] by simp
    then have seen: "file_map w ils (write_profile ps) path = inherits_map layer"
        "file_root w ils (write_profile ps) path = c_root layer"
      using True by (simp_all add: file_map_def file_root_def)
    have "config_wf layer" using wf_loadingD [OF wf_load_file [OF assms(1)]] layer by (metis fst_conv)
    then have "inherits_map (merge_configs c0 layer) = inherits_map c0 ++ inherits_map layer" by (rule inherits_map_merge)
    moreover have "c_root (merge_configs c0 layer) \<longleftrightarrow> c_root c0 \<or> c_root layer" by (simp add: merge_configs_def)
    ultimately show ?thesis using Cons.IH [OF rest] seen by (auto simp: map_add_assoc)
  qed
qed simp

lemma directory_map:
  assumes "world_wf w" and "load_directory w ps ils dir f r = (Inr (c, f'), r')"
  shows "inherits_map c = override (file_map w ils (write_profile ps)) (config_paths ps dir) \<and>
    (c_root c \<longleftrightarrow> (\<exists>p \<in> set (config_paths ps dir). file_root w ils (write_profile ps) p))"
  using load_files_map [OF assms(1) assms(2) [unfolded load_directory_def]]
  by (simp add: inherits_map_new) (simp add: new_config_def)

lemma config_paths_last:
  assumes "remdups ps = remdups ps'"
  shows "override F (config_paths ps dir) = override F (config_paths ps' dir)"
    and "set (config_paths ps dir) = set (config_paths ps' dir)"
    and "write_profile ps = write_profile ps'"
proof -
  let ?named = "filter (\<lambda>p. p \<noteq> ''default'')" and ?F = "F \<circ> (\<lambda>f. path_join dir (path_components f))"
  have split: "override F (config_paths qs dir) =
      override ?F base_filenames ++ override (\<lambda>p. override ?F (profile_filenames p)) (?named qs) ++ override ?F local_filenames" for qs
    unfolding config_paths_def all_config_filenames_def override_map override_append override_concat by simp
  have "remdups (?named ps) = remdups (?named ps')" using assms by (metis remdups_filter)
  then have "override (\<lambda>p. override ?F (profile_filenames p)) (?named ps) = override (\<lambda>p. override ?F (profile_filenames p)) (?named ps')"
    by (rule override_last)
  then show "override F (config_paths ps dir) = override F (config_paths ps' dir)" unfolding split by (simp only:)
  have "set ps = set ps'" using assms by (metis set_remdups)
  then show "set (config_paths ps dir) = set (config_paths ps' dir)"
    by (auto simp: config_paths_def all_config_filenames_def)
  show "write_profile ps = write_profile ps'"
    using assms by (metis write_profile_def last_remdups remdups_eq_nil_iff)
qed

lemma directory_last:
  assumes "world_wf w" and "remdups ps = remdups ps'"
    and "load_directory w ps ils dir f r = (Inr (c, x), r1)" and "load_directory w ps' ils dir f' r' = (Inr (c', x'), r1')"
  shows "inherits_map c = inherits_map c' \<and> c_root c = c_root c'"
  using directory_map [OF assms(1,3)] directory_map [OF assms(1,4)] config_paths_last [OF assms(2)] by metis

lemma merge_global_map:
  assumes "config_wf c" and "merge_global w c f r = (Inr (d, x), r1)"
  shows "inherits_map d = (case fst (load_global w []) of
    Inr (g, True) \<Rightarrow> inherits_map g ++ inherits_map c | _ \<Rightarrow> inherits_map c)"
proof -
  obtain g gf r2 where g: "load_global w r = (Inr (g, gf), r2)" and d: "(if gf then merge_configs g c else c) = d"
    using assms(2) by (auto simp: merge_global_def andThen_Inr split: if_splits)
  have "fst (load_global w []) = Inr (g, gf)" using g pure_resultD [OF pure_load_global, of w "[]" r] by simp
  then show ?thesis using d inherits_map_merge [OF assms(1)] by (cases gf) auto
qed

text \<open>One step of the walk: the configuration of the directory, and where the rest comes from.\<close>

definition walk_rest ::
  "('p, 'l) world \<Rightarrow> string list \<Rightarrow> bool \<Rightarrow> path \<Rightarrow> ('p, 'l) config \<Rightarrow> bool \<Rightarrow> (('p, 'l) config \<times> bool) loading" where
  "walk_rest w ps ils dir c found =
     (if c_root c then merge_global w c found
      else (case path_parent dir of
              Some parent \<Rightarrow>
                andThen (load_recursive w ps ils parent found)
                  (\<lambda>(parent_config, parent_found). ok (merge_configs parent_config c, found \<or> parent_found))
            | None \<Rightarrow> merge_global w c found))"

lemma load_recursive_step:
  "load_recursive w ps ils dir f r = (Inr (c, x), r1) \<Longrightarrow>
   \<exists>d y s. load_directory w ps ils dir f r = (Inr (d, y), s) \<and> walk_rest w ps ils dir d y s = (Inr (c, x), r1)"
  by (subst (asm) load_recursive.simps) (auto simp: andThen_Inr walk_rest_def)

lemma directory_config_wf: "world_wf w \<Longrightarrow> load_directory w ps ils dir f r = (Inr (d, y), s) \<Longrightarrow> config_wf d"
  using load_directory_wf [of w ps ils dir f r d y] by simp

lemma walk_last:
  "world_wf w \<Longrightarrow> remdups ps = remdups ps' \<Longrightarrow>
   load_recursive w ps ils dir f r = (Inr (c, x), r1) \<Longrightarrow> load_recursive w ps' ils dir f' r' = (Inr (c', x'), r1') \<Longrightarrow>
   inherits_map c = inherits_map c'"
proof (induction "length dir" arbitrary: dir f r c x r1 f' r' c' x' r1' rule: less_induct)
  case less
  obtain d y s where d: "load_directory w ps ils dir f r = (Inr (d, y), s)" "walk_rest w ps ils dir d y s = (Inr (c, x), r1)"
    using load_recursive_step [OF less.prems(3)] by blast
  obtain d' y' s' where d': "load_directory w ps' ils dir f' r' = (Inr (d', y'), s')" "walk_rest w ps' ils dir d' y' s' = (Inr (c', x'), r1')"
    using load_recursive_step [OF less.prems(4)] by blast
  have wf: "config_wf d" "config_wf d'" using directory_config_wf [OF less.prems(1)] d(1) d'(1) by blast+
  have same: "inherits_map d = inherits_map d'" "c_root d = c_root d'"
    using directory_last [OF less.prems(1,2) d(1) d'(1)] by auto
  show ?case
  proof (cases "c_root d \<or> path_parent dir = None")
    case True
    then have "merge_global w d y s = (Inr (c, x), r1)" "merge_global w d' y' s' = (Inr (c', x'), r1')"
      using d(2) d'(2) same(2) by (auto simp: walk_rest_def split: if_splits option.splits)
    from merge_global_map [OF wf(1) this(1)] merge_global_map [OF wf(2) this(2)] show ?thesis
      unfolding same(1) by (rule trans [OF _ sym])
  next
    case False
    then obtain parent where parent: "path_parent dir = Some parent" and root: "\<not> c_root d" "\<not> c_root d'"
      using same(2) by auto
    obtain pc px s1 where pc: "load_recursive w ps ils parent y s = (Inr (pc, px), s1)" "c = merge_configs pc d"
      using d(2) parent root(1) by (auto simp: walk_rest_def andThen_Inr)
    obtain pc' px' s1' where pc': "load_recursive w ps' ils parent y' s' = (Inr (pc', px'), s1')" "c' = merge_configs pc' d'"
      using d'(2) parent root(2) by (auto simp: walk_rest_def andThen_Inr)
    have "length parent < length dir" using parent by (auto simp: path_parent_def split: if_splits)
    then have "inherits_map pc = inherits_map pc'" using less.hyps less.prems(1,2) pc(1) pc'(1) by blast
    then show ?thesis using pc(2) pc'(2) same(1) wf by (simp add: inherits_map_merge)
  qed
qed

subsection \<open>The names that files mention\<close>

definition yields :: "('a \<Rightarrow> bool) \<Rightarrow> 'a loading \<Rightarrow> bool" where
  "yields P m \<longleftrightarrow> (\<forall>r a. fst (m r) = Inr a \<longrightarrow> P a)"

lemma yields_basic:
  "yields P (err e)" "yields P (ok a) \<longleftrightarrow> P a"
  by (auto simp: yields_def)

lemma yields_andThen: "yields Q m \<Longrightarrow> (\<And>a. Q a \<Longrightarrow> yields P (f a)) \<Longrightarrow> yields P (andThen m f)"
  unfolding yields_def andThen_fst bind_sum_Inr by blast

lemma yields_foldM: "P b \<Longrightarrow> (\<And>b x. P b \<Longrightarrow> yields P (f b x)) \<Longrightarrow> yields P (foldM f b xs)"
proof (induction xs arbitrary: b)
  case (Cons x xs)
  show ?case unfolding foldM.simps by (rule yields_andThen [OF Cons.prems(2) [OF Cons.prems(1)]]) (rule Cons.IH; use Cons.prems in blast)
qed (simp add: yields_def)

definition mentions_in :: "string list set \<Rightarrow> ('p, 'l) config \<Rightarrow> bool" where
  "mentions_in R c \<longleftrightarrow> config_wf c \<and> ran (inherits_map c) \<subseteq> R"

lemma mentions_merge: "mentions_in R a \<Longrightarrow> mentions_in R b \<Longrightarrow> mentions_in R (merge_configs a b)"
  by (auto simp: mentions_in_def config_wf_merge inherits_map_merge ran_def)

definition files_mention :: "string list set \<Rightarrow> ('p, 'l) world \<Rightarrow> bool" where
  "files_mention R w \<longleftrightarrow> (\<forall>path t c. w_read w path = Some t \<longrightarrow> w_parse w t = Inr c \<longrightarrow> mentions_in R c)"

lemma mentions_load: "files_mention R w \<Longrightarrow> yields (mentions_in R) (load w path)"
  unfolding load_def
  by (auto simp: files_mention_def mentions_in_def yields_def andThen_fst config_wf_set_paths config_wf_scope
      inherits_map_set_paths inherits_map_scope split: option.splits sum.splits)

lemma mentions_imports:
  "files_mention R w \<Longrightarrow> mentions_in R c \<Longrightarrow> yields (mentions_in R) (with_imports w dir c)"
  unfolding with_imports_def
  by (intro yields_foldM yields_andThen [where Q = "mentions_in R"])
     (auto simp: load_import_def Let_def yields_basic mentions_load mentions_merge)

lemma mentions_load_file: "files_mention R w \<Longrightarrow> yields (mentions_in R) (load_file w ps ils path)"
  unfolding load_file_def
  by (intro yields_andThen [OF mentions_load] yields_andThen [OF mentions_imports])
     (auto simp: Let_def yields_basic mentions_in_def config_wf_strip config_wf_scope_as_base config_wf_root
        inherits_map_strip inherits_map_scope_base)

lemma mentions_new: "mentions_in R new_config"
  by (simp add: mentions_in_def inherits_map_new)

lemma mentions_directory: "files_mention R w \<Longrightarrow> yields (\<lambda>(c, _). mentions_in R c) (load_directory w ps ils dir f)"
  unfolding load_directory_def
  by (intro yields_foldM)
     (auto simp: mentions_new yields_basic mentions_merge split: prod.splits
      intro!: yields_andThen [OF mentions_load_file])

lemma mentions_global: "files_mention R w \<Longrightarrow> yields (\<lambda>(c, _). mentions_in R c) (load_global w)"
  unfolding load_global_def
  by (auto simp: yields_basic mentions_new intro!: yields_andThen [OF mentions_load] yields_andThen [OF mentions_imports])

lemma mentions_merge_global:
  "files_mention R w \<Longrightarrow> mentions_in R c \<Longrightarrow> yields (\<lambda>(c, _). mentions_in R c) (merge_global w c f)"
  unfolding merge_global_def
  by (auto simp: yields_basic mentions_merge intro!: yields_andThen [OF mentions_global])

lemma mentions_walk: "files_mention R w \<Longrightarrow> yields (\<lambda>(c, _). mentions_in R c) (load_recursive w ps ils dir f)"
proof (induction "length dir" arbitrary: dir f rule: less_induct)
  case less
  have "yields (\<lambda>(c, _). mentions_in R c) (walk_rest w ps ils dir d y)" if "mentions_in R d" for d y
  proof (cases "path_parent dir")
    case (Some parent)
    then have "length parent < length dir" by (auto simp: path_parent_def split: if_splits)
    then have "yields (\<lambda>(c, _). mentions_in R c) (load_recursive w ps ils parent y)" using less by blast
    then show ?thesis
      unfolding walk_rest_def using that Some less.prems
      by (auto simp: mentions_merge_global mentions_merge yields_basic elim!: yields_andThen)
  qed (use that less.prems in \<open>simp add: walk_rest_def mentions_merge_global\<close>)
  then show ?case
    by (subst load_recursive.simps) (auto simp: walk_rest_def intro!: yields_andThen [OF mentions_directory [OF less.prems]])
qed

lemma finite_files_mention:
  assumes "world_wf w" and "finite {path. w_read w path \<noteq> None}"
  shows "\<exists>R. finite R \<and> files_mention R w"
proof -
  define parsed where "parsed path = (case w_read w path of
    None \<Rightarrow> {} | Some t \<Rightarrow> (case w_parse w t of Inl _ \<Rightarrow> {} | Inr c \<Rightarrow> ran (inherits_map c)))" for path
  have "finite (ran (inherits_map c))" for c :: "('a, 'b) config"
  proof -
    have "ran (inherits_map c) \<subseteq> the ` p_inherits ` snd ` set (c_profiles c)"
      by (force simp: ran_def inherits_map_def im_get_def Option.bind_eq_Some_conv dest: map_of_SomeD)
    then show ?thesis by (rule finite_subset) simp
  qed
  then have "finite (parsed path)" for path by (simp add: parsed_def split: option.splits sum.splits)
  moreover have "files_mention (\<Union>path \<in> {path. w_read w path \<noteq> None}. parsed path) w"
    using assms(1) by (fastforce simp: files_mention_def mentions_in_def world_wf_def parsed_def)
  ultimately show ?thesis using assms(2) by blast
qed

subsection \<open>A round of the loop\<close>

lemma remdups_shadowed: "set xs \<subseteq> set ys \<Longrightarrow> remdups (xs @ ys) = remdups ys"
  by (induction xs) auto

lemma visit_fresh_aux:
  shows "visit c v vis f p st = Inr st' \<Longrightarrow> \<not> f \<Longrightarrow>
      \<exists>new. v_resolved st' = v_resolved st @ new \<and> set new \<inter> v_visited st = {} \<and> v_visited st' = v_visited st \<union> set new"
    and "visit_inherited c v vis ps st = Inr st'' \<Longrightarrow>
      \<exists>new. v_resolved st'' = v_resolved st @ new \<and> set new \<inter> v_visited st = {} \<and> v_visited st'' = v_visited st \<union> set new"
proof (induction c v vis f p st and c v vis ps st arbitrary: st' and st'' rule: visit_visit_inherited.induct)
  case (1 c v vis f p st)
  from "1.prems"(1) show ?case
  proof (cases rule: visit_cases)
    case (node pc st2)
    then have "\<exists>new. v_resolved st2 = v_resolved st @ new \<and> set new \<inter> v_visited st = {} \<and> v_visited st2 = v_visited st \<union> set new"
      using "1.IH" by simp
    then obtain new where "v_resolved st2 = v_resolved st @ new" "set new \<inter> v_visited st = {}"
      "v_visited st2 = v_visited st \<union> set new" by blast
    moreover have "p \<notin> v_visited st" using node(2) "1.prems"(2) by simp
    ultimately show ?thesis using node(9) by (intro exI [of _ "new @ [p]"]) auto
  next
    case leaf
    then show ?thesis using "1.prems"(2) by (intro exI [of _ "[p]"]) auto
  qed simp
next
  case (3 c v vis p ps st)
  then obtain st1 where st1: "visit c v vis False p st = Inr st1" "visit_inherited c v vis ps st1 = Inr st''"
    by (auto simp: bind_sum_Inr)
  obtain new where new: "v_resolved st1 = v_resolved st @ new" "set new \<inter> v_visited st = {}" "v_visited st1 = v_visited st \<union> set new"
    using "3.IH"(1) [OF st1(1)] by auto
  obtain rest where "v_resolved st'' = v_resolved st1 @ rest" "set rest \<inter> v_visited st1 = {}" "v_visited st'' = v_visited st1 \<union> set rest"
    using "3.IH"(2) [OF st1(2)] by auto
  with new show ?case by (intro exI [of _ "new @ rest"]) auto
qed simp

lemma visit_new_unvisited:
  assumes "visit c v [] True p st = Inr st'"
  shows "\<exists>new. v_resolved st' = v_resolved st @ new @ [p] \<and> set new \<inter> v_visited st = {} \<and>
    v_visited st' = v_visited st \<union> set new \<union> {p}"
  using assms
proof (cases rule: visit_cases)
  case (node pc st2)
  then obtain new where "v_resolved st2 = v_resolved st @ new" "set new \<inter> v_visited st = {}" "v_visited st2 = v_visited st \<union> set new"
    using visit_fresh_aux(2) by blast
  then show ?thesis using node(9) by (intro exI [of _ new]) auto
qed auto

lemma visit_requested_last:
  "visit_requested c v ps st = Inr st' \<Longrightarrow>
   \<exists>ext. v_resolved st' = v_resolved st @ ext \<and> set ps \<subseteq> set ext \<and>
         (set ext \<subseteq> v_visited st \<union> set ps \<longrightarrow> remdups ext = remdups ps)"
proof (induction ps arbitrary: st)
  case (Cons p ps)
  then obtain st1 where st1: "visit c v [] True p st = Inr st1" and rest: "visit_requested c v ps st1 = Inr st'"
    by (auto simp: bind_sum_Inr)
  obtain new where new: "v_resolved st1 = v_resolved st @ new @ [p]" "set new \<inter> v_visited st = {}"
    "v_visited st1 = v_visited st \<union> set new \<union> {p}"
    using visit_new_unvisited [OF st1] by blast
  obtain ext where ext: "v_resolved st' = v_resolved st1 @ ext" "set ps \<subseteq> set ext"
    "set ext \<subseteq> v_visited st1 \<union> set ps \<Longrightarrow> remdups ext = remdups ps"
    using Cons.IH [OF rest] by blast
  have "remdups (new @ p # ext) = remdups (p # ps)" if "set (new @ p # ext) \<subseteq> v_visited st \<union> set (p # ps)"
  proof -
    have "remdups ext = remdups ps" using that new(3) by (intro ext(3)) auto
    moreover from this have "set ext = set ps" by (metis set_remdups)
    moreover have "set new \<subseteq> set (p # ext)" using that new(2) ext(2) by auto
    ultimately show ?thesis using remdups_shadowed [of new "p # ext"] by simp
  qed
  then show ?case using new(1) ext(1,2) by (intro exI [of _ "new @ p # ext"]) auto
qed simp

lemma expansion_keeps_order:
  assumes "resolve_profiles_inner c ps v = Inr es" and "set es \<subseteq> set ps"
  shows "remdups es = remdups ps"
  using assms(1) by (rule resolve_profiles_innerE) (use assms(2) in \<open>auto dest!: visit_requested_last\<close>)

lemma resolve_same_inherits:
  assumes "resolve_profiles_for_discovery c ps = Inr es" and "inherits_map c' = inherits_map c"
  shows "resolve_profiles_for_discovery c' es = Inr es"
proof -
  have "inherits_of c' = inherits_of c" by (simp add: fun_eq_iff inherits_of_map assms(2))
  then have same: "parents_first c' b xs = parents_first c b xs" for b xs by (induction xs arbitrary: b) simp_all
  have order: "parents_first c' {} es \<and> list_all is_valid_name es"
    using resolved_parents_first [OF assms(1) [unfolded resolve_profiles_for_discovery_def]] same by simp
  obtain st where "visit_requested c' False es start = Inr st" and "v_resolved st = v_resolved start @ es"
    using visit_requested_in_order [of c' "{}" es start False] order by (auto simp: list_all_iff)
  then show ?thesis by (simp add: resolve_profiles_for_discovery_def resolve_profiles_inner_def)
qed

lemma expansion_names:
  assumes "resolve_profiles_for_discovery c ps = Inr es" and "mentions_in R c"
  shows "set es \<subseteq> set ps \<union> \<Union> (set ` R)"
proof
  fix r
  assume "r \<in> set es"
  moreover obtain st where st: "visit_requested c False ps start = Inr st" and "es = v_resolved st"
    using assms(1) unfolding resolve_profiles_for_discovery_def by (rule resolve_profiles_innerE)
  ultimately obtain p where p: "p \<in> set ps" and reach: "(inherits_from c)\<^sup>*\<^sup>* p r"
    using visit_requested_reachable [OF st] resolved_visited [OF st] by auto
  from reach show "r \<in> set ps \<union> \<Union> (set ` R)"
  proof (cases rule: rtranclp.cases)
    case (rtrancl_into_rtrancl q)
    then have "r \<in> set (inherits_of c q)" by (simp add: inherits_from_iff)
    then obtain l where "inherits_map c q = Some l" "r \<in> set l"
      by (cases "inherits_map c q") (auto simp: inherits_of_map split: if_splits)
    then show ?thesis using assms(2) by (auto simp: mentions_in_def ran_def)
  qed (use p in simp)
qed

subsection \<open>The loop ends\<close>

definition settled ::
  "('p, 'l) world \<Rightarrow> bool \<Rightarrow> path \<Rightarrow> string list \<Rightarrow> (fnox_error + (string list \<times> ('p, 'l) config \<times> bool) option) \<Rightarrow> bool" where
  \<comment> \<open>an error, or a configuration that was loaded from exactly the files of the profiles returned, which expand to
    themselves and contain the requested ones in their order\<close>
  "settled w ils dir requested out =
     (case out of
        Inl _ \<Rightarrow> True
      | Inr None \<Rightarrow> False
      | Inr (Some (ps, c, found)) \<Rightarrow>
          resolve_profiles_for_discovery c ps = Inr ps \<and> subseq requested ps \<and>
          (\<exists>r. fst (load_recursive w ps ils dir False r) = Inr (c, found)))"

lemma discover_more:
  "fst (discover w ils dir n ps cf r) \<noteq> Inr None \<Longrightarrow> discover w ils dir (n + m) ps cf r = discover w ils dir n ps cf r"
proof (induction n arbitrary: ps cf r)
  case (Suc n)
  then show ?case by (auto simp: andThen_def split: sum.splits prod.splits if_splits)
qed simp

lemma discover_Suc_ends:
  assumes "\<And>expanded cf' r'. resolve_profiles_for_discovery (fst cf) ps = Inr expanded \<Longrightarrow> expanded \<noteq> ps \<Longrightarrow>
      load_recursive w expanded ils dir False r = (Inr cf', r') \<Longrightarrow> fst (discover w ils dir n expanded cf' r') \<noteq> Inr None"
  shows "fst (discover w ils dir (Suc n) ps cf r) \<noteq> Inr None"
  using assms by (auto simp: andThen_def split: sum.splits prod.splits)

lemma discovery_ends:
  assumes "world_wf w" and "finite R" and "files_mention R w"
  shows "fst (load_recursive w ps ils dir False r0) = Inr cf \<Longrightarrow> \<exists>n. fst (discover w ils dir n ps cf r) \<noteq> Inr None"
proof (induction "card (\<Union> (set ` R) - set ps)" arbitrary: ps cf r r0 rule: less_induct)
  case less
  let ?M = "\<Union> (set ` R)"
  have within: "mentions_in R (fst cf)"
    using mentions_walk [OF assms(3), of ps ils dir False] less.prems by (cases cf) (auto simp: yields_def)
  show ?case
  proof (cases "\<exists>es cf' r'. resolve_profiles_for_discovery (fst cf) ps = Inr es \<and> es \<noteq> ps \<and>
      load_recursive w es ils dir False r = (Inr cf', r')")
    case False
    then have "fst (discover w ils dir (Suc 0) ps cf r) \<noteq> Inr None" by (intro discover_Suc_ends) blast
    then show ?thesis by blast
  next
    case True
    then obtain es cf' r' where es: "resolve_profiles_for_discovery (fst cf) ps = Inr es" "es \<noteq> ps"
      "load_recursive w es ils dir False r = (Inr cf', r')" by blast
    have sub: "set ps \<subseteq> set es" "set es \<subseteq> set ps \<union> ?M"
      using resolved_parents_first [OF es(1) [unfolded resolve_profiles_for_discovery_def]] expansion_names [OF es(1) within]
      by auto
    have "\<exists>n. fst (discover w ils dir n es cf' r') \<noteq> Inr None"
    proof (cases "set es \<subseteq> set ps")
      case True
      have "remdups es = remdups ps"
        using expansion_keeps_order es(1) True by (simp add: resolve_profiles_for_discovery_def)
      then have "inherits_map (fst cf') = inherits_map (fst cf)"
        using walk_last [OF assms(1), of es ps] es(3) less.prems by (metis prod.collapse)
      then have "resolve_profiles_for_discovery (fst cf') es = Inr es" by (rule resolve_same_inherits [OF es(1)])
      then have "fst (discover w ils dir (Suc 0) es cf' r') \<noteq> Inr None" by (intro discover_Suc_ends) simp
      then show ?thesis by blast
    next
      case False
      then have "card (?M - set es) < card (?M - set ps)"
        using sub assms(2) by (intro psubset_card_mono) auto
      moreover have "fst (load_recursive w es ils dir False r) = Inr cf'" using es(3) by simp
      ultimately show ?thesis by (rule less.hyps)
    qed
    then obtain n where "fst (discover w ils dir n es cf' r') \<noteq> Inr None" by blast
    then have "fst (discover w ils dir (Suc n) ps cf r) \<noteq> Inr None" using es by (intro discover_Suc_ends) auto
    then show ?thesis by blast
  qed
qed

text \<open>C34: In a file system of finitely many files the discovery loop ends: from some number of rounds on
  it returns the same result. That is an error, or a configuration loaded from exactly the files of the
  profiles it returns, which select no further file and contain all requested profiles in their order.\<close>

theorem discovery_reaches_fixed_point:
  assumes "world_wf w" and "finite {path. w_read w path \<noteq> None}"
    and "load_recursive w requested ils dir False r0 = (Inr cf, r)"
  shows "\<exists>n out. settled w ils dir requested (fst out) \<and> (\<forall>m. discover w ils dir (n + m) requested cf r = out)"
proof -
  obtain R where "finite R" "files_mention R w" using finite_files_mention [OF assms(1,2)] by blast
  then obtain n where n: "fst (discover w ils dir n requested cf r) \<noteq> Inr None"
    using discovery_ends [OF assms(1), of R requested ils dir r0 cf r] assms(3) by auto
  have "settled w ils dir requested (fst (discover w ils dir n requested cf r))"
  proof (cases "fst (discover w ils dir n requested cf r)")
    case (Inr out)
    then obtain ps c found r' where out: "discover w ils dir n requested cf r = (Inr (Some (ps, c, found)), r')"
      using n by (cases out) (auto simp: prod_eq_iff)
    show ?thesis using discover_invariant [OF out] assms(3) by (auto simp: settled_def out) (metis fst_conv)+
  qed (simp add: settled_def)
  then show ?thesis using discover_more [OF n] by blast
qed

theorem discovery_reaches_fixed_point_witness:
  "\<exists>n out. settled demo_world True [''/'', ''p''] [''eu''] (fst out) \<and>
     (\<forall>m. discover demo_world True [''/'', ''p''] (n + m) [''eu''] (demo_load [''eu''])
            (snd (load_recursive demo_world [''eu''] True [''/'', ''p''] False [])) = out)"
proof (rule discovery_reaches_fixed_point [OF demo_wf _ demo_discovery(1)])
  have "{path. w_read demo_world path \<noteq> None} \<subseteq> fst ` set demo_files"
    by (auto simp: demo_world_def image_iff Bex_def dest!: map_of_SomeD)
  then show "finite {path. w_read demo_world path \<noteq> None}" by (rule finite_subset) simp
qed

end
