(* ===== verification/SecretValue.thy ===== *)
theory SecretValue
  imports ConfigModel
begin

text \<open>
  What happens to a secret's text: the extraction of a JSON member or of one line, and the
  \<open>${NAME}\<close> references of a default. The JSON parser and printer (\<open>serde_json\<close>) are
  parameters; the values they exchange are the datatype \<open>json\<close>. The lemmas relate the scanners
  to what their results mean: an escaped key path names exactly its keys, a line number names
  exactly that line under either line ending, and a rendered default depends on nothing but its
  references.
\<close>

datatype json =
    JNull
  | JBool bool
  | JNumber string
  | JString string
  | JArray "json list"
  | JObject "(string \<times> json) list"

record json_library =
  parse_json :: "string \<Rightarrow> json option"
  print_json :: "json \<Rightarrow> string"

subsection \<open>JSON paths\<close>

fun key_parts :: "string \<Rightarrow> string \<Rightarrow> string list" where
  \<comment> \<open>the loop over the characters, with the part read so far\<close>
  "key_parts current [] = [current]"
| "key_parts current [c] =
     (if c = CHR 0x5C then [current @ [CHR 0x5C]]
      else if c = CHR ''.'' then [current, []]
      else [current @ [c]])"
| "key_parts current (c # n # cs) =
     (if c = CHR 0x5C then key_parts (current @ [n]) cs
      else if c = CHR ''.'' then current # key_parts [] (n # cs)
      else key_parts (current @ [c]) (n # cs))"

definition split_key_path :: "string \<Rightarrow> string list" where
  "split_key_path key = key_parts [] key"

fun json_get :: "json \<Rightarrow> string \<Rightarrow> json option" where
  "json_get (JObject members) k = map_of members k"
| "json_get j k = None"

fun json_walk :: "json \<Rightarrow> string list \<Rightarrow> json option" where
  "json_walk j [] = Some j"
| "json_walk j (p # ps) = (case json_get j p of Some v \<Rightarrow> json_walk v ps | None \<Rightarrow> None)"

fun json_text :: "json_library \<Rightarrow> json \<Rightarrow> string" where
  "json_text L (JString s) = s"
| "json_text L JNull = ''null''"
| "json_text L other = print_json L other"

definition extract_json_path :: "json_library \<Rightarrow> string \<Rightarrow> string \<Rightarrow> fnox_error + string" where
  "extract_json_path L json_str path =
     (case parse_json L json_str of
        None \<Rightarrow> Inl (ConfigError JsonParseFailed)
      | Some value \<Rightarrow>
          (case json_walk value (split_key_path path) of
             None \<Rightarrow> Inl (ConfigError (JsonPathNotFound path))
           | Some v \<Rightarrow> Inr (json_text L v)))"

text \<open>How a user writes a key that holds dots or backslashes.\<close>

fun escape_key :: "string \<Rightarrow> string" where
  "escape_key [] = []"
| "escape_key (c # cs) =
     (if c = CHR ''.'' \<or> c = CHR 0x5C then CHR 0x5C # c # escape_key cs else c # escape_key cs)"

lemma key_parts_Cons:
  "c \<noteq> CHR 0x5C \<Longrightarrow> c \<noteq> CHR ''.'' \<Longrightarrow> key_parts cur (c # cs) = key_parts (cur @ [c]) cs"
  by (cases cs) auto

lemma key_parts_dot: "key_parts cur (CHR ''.'' # cs) = cur # key_parts [] cs"
  by (cases cs) auto

lemma key_parts_escaped: "key_parts cur (escape_key k @ rest) = key_parts (cur @ k) rest"
proof (induction k arbitrary: cur)
  case (Cons c k)
  then show ?case
    using key_parts_Cons [of c cur "escape_key k @ rest"] by auto
qed simp

lemma split_escaped_keys: "ks \<noteq> [] \<Longrightarrow> split_key_path (join ''.'' (map escape_key ks)) = ks"
proof -
  have "key_parts cur (join ''.'' (map escape_key (k # ks))) = (cur @ k) # ks" for cur k and ks :: "string list"
  proof (induction ks arbitrary: cur k)
    case Nil
    then show ?case using key_parts_escaped [of cur k "[]"] by simp
  next
    case (Cons k' ks)
    have "key_parts cur (join ''.'' (map escape_key (k # k' # ks)))
        = key_parts cur (escape_key k @ CHR ''.'' # join ''.'' (map escape_key (k' # ks)))"
      by simp
    also have "\<dots> = (cur @ k) # key_parts [] (join ''.'' (map escape_key (k' # ks)))"
      by (simp only: key_parts_escaped key_parts_dot)
    finally show ?case using Cons.IH [of "[]" k'] by simp
  qed
  from this [of "[]" "hd ks" "tl ks"] show "ks \<noteq> [] \<Longrightarrow> ?thesis"
    by (simp add: split_key_path_def)
qed

text \<open>Every member of a JSON secret can be named: escaping dots and backslashes in the keys on
  the way and joining them with dots gives a path that \<open>extract_json_path\<close> reads back to exactly
  those keys, so it returns the text of that member and fails exactly when there is none.\<close>

lemma json_path_names_member:
  assumes "parse_json L s = Some j" and "ks \<noteq> []"
  shows "extract_json_path L s (join ''.'' (map escape_key ks)) =
    (case json_walk j ks of
       Some v \<Rightarrow> Inr (json_text L v)
     | None \<Rightarrow> Inl (ConfigError (JsonPathNotFound (join ''.'' (map escape_key ks)))))"
  using assms by (simp add: extract_json_path_def split_escaped_keys)

definition toy_library :: json_library where
  "toy_library = \<lparr>parse_json = (\<lambda>s. if s = ''doc'' then Some (JObject [(''a.b'', JObject [(''c'', JString ''v'')])]) else None),
     print_json = (\<lambda>_. ''json'')\<rparr>"

subsection \<open>Lines\<close>

definition strip_cr :: "string \<Rightarrow> string" where
  "strip_cr l = (case strip_suffix [CHR 0x0D] l of Some r \<Rightarrow> r | None \<Rightarrow> l)"

definition str_lines :: "string \<Rightarrow> string list" where
  \<comment> \<open>\<open>str::lines\<close>: a carriage return is dropped only before a newline\<close>
  "str_lines s =
     (let parts = split_char (CHR 0x0A) s
      in map strip_cr (butlast parts) @ (if last parts = [] then [] else [last parts]))"

definition extract_line :: "string \<Rightarrow> nat \<Rightarrow> fnox_error + string" where
  "extract_line value line =
     (if line = 0 then Inl (ConfigError LineZero)
      else if line - 1 < length (str_lines value) then Inr (str_lines value ! (line - 1))
      else Inl (ConfigError (LineOutOfRange line (length (str_lines value)))))"

lemma split_char_lines:
  "(\<And>l. l \<in> set ls \<Longrightarrow> d \<notin> set l) \<Longrightarrow> split_char d (concat (map (\<lambda>l. l @ [d]) ls)) = ls @ [[]]"
  by (induction ls) (auto simp: split_char_append)

lemma strip_cr_snoc [simp]: "strip_cr (l @ [CHR 0x0D]) = l"
proof -
  have "strip_suffix [CHR 0x0D] (l @ [CHR 0x0D]) = Some l" by (simp add: strip_suffix_Some)
  then show ?thesis by (simp add: strip_cr_def)
qed

lemma strip_cr_keep: "l = [] \<or> last l \<noteq> CHR 0x0D \<Longrightarrow> strip_cr l = l"
  by (auto simp: strip_cr_def strip_suffix_Some split: option.splits)

definition newlines :: "string list" where
  "newlines = [[CHR 0x0A], [CHR 0x0D, CHR 0x0A]]"

lemma str_lines_of_lines:
  assumes "nl \<in> set newlines"
    and "\<And>l. l \<in> set ls \<Longrightarrow> CHR 0x0A \<notin> set l \<and> (l = [] \<or> last l \<noteq> CHR 0x0D)"
  shows "str_lines (concat (map (\<lambda>l. l @ nl) ls)) = ls"
proof (cases "nl = [CHR 0x0A]")
  case True
  then show ?thesis
    using assms(2) split_char_lines [of ls "CHR 0x0A"] by (simp add: str_lines_def map_idI strip_cr_keep)
next
  case False
  then have nl: "nl = [CHR 0x0D, CHR 0x0A]" using assms(1) by (auto simp: newlines_def)
  let ?ls = "map (\<lambda>l. l @ [CHR 0x0D]) ls"
  have "split_char (CHR 0x0A) (concat (map (\<lambda>l. l @ [CHR 0x0A]) ?ls)) = ?ls @ [[]]"
    by (rule split_char_lines) (use assms(2) in auto)
  then show ?thesis by (simp add: nl str_lines_def comp_def)
qed

text \<open>The line option of a secret is one-based and total: of a value written as lines, with
  either line ending and with or without a final one, line \<open>n\<close> is exactly the \<open>n\<close>-th line, and
  zero or a number past the last line is reported instead of read.\<close>

lemma extract_line_selects:
  assumes "nl \<in> set newlines"
    and "\<And>l. l \<in> set ls \<Longrightarrow> CHR 0x0A \<notin> set l \<and> (l = [] \<or> last l \<noteq> CHR 0x0D)"
  shows "extract_line (concat (map (\<lambda>l. l @ nl) ls)) n =
    (if n = 0 then Inl (ConfigError LineZero)
     else if n \<le> length ls then Inr (ls ! (n - 1))
     else Inl (ConfigError (LineOutOfRange n (length ls))))"
  using str_lines_of_lines [OF assms] by (auto simp: extract_line_def)

definition apply_post_processing :: "json_library \<Rightarrow> string \<Rightarrow> secret_config \<Rightarrow> fnox_error + string" where
  "apply_post_processing L value sc =
     (if s_json_path sc \<noteq> None \<and> s_line sc \<noteq> None then Inl (ConfigError JsonPathAndLine)
      else case s_json_path sc of
             Some json_path \<Rightarrow>
               if json_path = [] then Inl (ConfigError JsonPathEmpty)
               else extract_json_path L value json_path
           | None \<Rightarrow> (case s_line sc of Some line \<Rightarrow> extract_line value line | None \<Rightarrow> Inr value))"

lemma apply_post_processing_plain [simp]:
  "s_json_path sc = None \<Longrightarrow> s_line sc = None \<Longrightarrow> apply_post_processing L v sc = Inr v"
  by (simp add: apply_post_processing_def)

subsection \<open>References in defaults\<close>

type_synonym vals = "(string, string option) imap"

abbreviation open_ref :: string where "open_ref \<equiv> ''${''"
abbreviation close_ref :: string where "close_ref \<equiv> ''}''"

function references_from :: "string \<Rightarrow> string list \<Rightarrow> string list" where
  "references_from rest refs =
     (case find_sub open_ref rest of
        None \<Rightarrow> refs
      | Some (_, after_start) \<Rightarrow>
          (case find_sub close_ref after_start of
             None \<Rightarrow> refs
           | Some (name, after) \<Rightarrow>
               references_from after
                 (if name \<noteq> [] \<and> name \<notin> set refs then refs @ [name] else refs)))"
  by pat_completeness auto
termination
  by (relation "measure (\<lambda>(rest, refs). length rest)") (auto dest!: find_sub_split)

definition extract_default_references :: "string \<Rightarrow> string list" where
  "extract_default_references dflt = references_from dflt []"

definition has_default_interpolation :: "string \<Rightarrow> bool" where
  "has_default_interpolation dflt \<longleftrightarrow> find_sub open_ref dflt \<noteq> None"

function render_from :: "string \<Rightarrow> string \<Rightarrow> vals \<Rightarrow> string \<Rightarrow> fnox_error + string" where
  "render_from key rest resolved rendered =
     (case find_sub open_ref rest of
        None \<Rightarrow> Inr (rendered @ rest)
      | Some (before, after_start) \<Rightarrow>
          (case find_sub close_ref after_start of
             None \<Rightarrow> Inr (rendered @ rest)
           | Some (name, after) \<Rightarrow>
               if name = [] then Inl (ConfigError (EmptyInterpolationReference key))
               else (case im_get resolved name of
                       None \<Rightarrow> Inl (ConfigError (ReferenceNotResolved key name))
                     | Some value \<Rightarrow>
                         render_from key after resolved
                           (rendered @ before @ (case value of Some v \<Rightarrow> v | None \<Rightarrow> [])))))"
  by pat_completeness auto
termination
  by (relation "measure (\<lambda>(key, rest, r, s). length rest)") (auto dest!: find_sub_split)

declare references_from.simps [simp del] render_from.simps [simp del]

definition render_default_template :: "string \<Rightarrow> string \<Rightarrow> vals \<Rightarrow> fnox_error + string" where
  "render_default_template key dflt resolved = render_from key dflt resolved []"

definition default_reference_error :: "string \<Rightarrow> string \<Rightarrow> fnox_error" where
  "default_reference_error key reference = ConfigError (ReferenceUndefined key reference)"

text \<open>All the names between the markers, in order and with repetitions.\<close>

function ref_names :: "string \<Rightarrow> string list" where
  "ref_names rest =
     (case find_sub open_ref rest of
        None \<Rightarrow> []
      | Some (_, after_start) \<Rightarrow>
          (case find_sub close_ref after_start of
             None \<Rightarrow> []
           | Some (name, after) \<Rightarrow> name # ref_names after))"
  by pat_completeness auto
termination
  by (relation "measure length") (auto dest!: find_sub_split)

declare ref_names.simps [simp del]

lemma references_from_fold:
  "references_from rest refs = fold (\<lambda>n rs. if n \<noteq> [] \<and> n \<notin> set rs then rs @ [n] else rs) (ref_names rest) refs"
proof (induction rest refs rule: references_from.induct)
  case (1 rest refs)
  then show ?case
    by (simp add: references_from.simps [of rest] ref_names.simps [of rest] split: option.split)
qed

lemma set_extract_references: "set (extract_default_references d) = set (ref_names d) - {[]}"
proof -
  have "set (fold (\<lambda>n rs. if n \<noteq> [] \<and> n \<notin> set rs then rs @ [n] else rs) ns refs) = set refs \<union> (set ns - {[]})"
    for ns refs :: "string list"
    by (induction ns arbitrary: refs) auto
  then show ?thesis by (simp add: extract_default_references_def references_from_fold)
qed

lemma distinct_extract_references: "distinct (extract_default_references d)"
proof -
  have "distinct refs \<Longrightarrow>
      distinct (fold (\<lambda>n rs. if n \<noteq> [] \<and> n \<notin> set rs then rs @ [n] else rs) ns refs)"
    for ns refs :: "string list"
    by (induction ns arbitrary: refs) auto
  then show ?thesis by (simp add: extract_default_references_def references_from_fold)
qed

lemma render_from_succeeds:
  "(\<exists>v. render_from key rest m acc = Inr v) \<longleftrightarrow> list_all (\<lambda>n. n \<noteq> [] \<and> im_has m n) (ref_names rest)"
proof (induction key rest m acc rule: render_from.induct)
  case (1 key rest m acc)
  show ?case
  proof (cases "find_sub open_ref rest")
    case None
    then show ?thesis by (simp add: render_from.simps [of _ rest] ref_names.simps [of rest])
  next
    case (Some ba)
    obtain b a where ba: "find_sub open_ref rest = Some (b, a)" using Some by (cases ba) auto
    show ?thesis
    proof (cases "find_sub close_ref a")
      case None
      then show ?thesis by (simp add: render_from.simps [of _ rest] ref_names.simps [of rest] ba)
    next
      case (Some nr)
      obtain n r where nr: "find_sub close_ref a = Some (n, r)" using Some by (cases nr) auto
      have IH: "\<exists>v. render_from key r m (acc @ b @ (case u of Some v \<Rightarrow> v | None \<Rightarrow> [])) = Inr v
          \<longleftrightarrow> list_all (\<lambda>n. n \<noteq> [] \<and> im_has m n) (ref_names r)"
        if "n \<noteq> []" "im_get m n = Some u" for u
        using 1 [OF ba refl nr refl that] by blast
      then show ?thesis
        using 1 [OF ba refl nr refl]
        by (simp add: render_from.simps [of _ rest] ref_names.simps [of rest] ba nr im_has_iff
            split: option.split)
    qed
  qed
qed

lemma render_from_agrees:
  "\<forall>n \<in> set (ref_names rest) - {[]}. im_get m n = im_get m' n \<Longrightarrow>
   render_from key rest m acc = render_from key rest m' acc"
proof (induction key rest m acc rule: render_from.induct)
  case (1 key rest m acc)
  show ?case
  proof (cases "find_sub open_ref rest")
    case None
    then show ?thesis by (simp add: render_from.simps [of _ rest])
  next
    case (Some ba)
    obtain b a where ba: "find_sub open_ref rest = Some (b, a)" using Some by (cases ba) auto
    show ?thesis
    proof (cases "find_sub close_ref a")
      case None
      then show ?thesis by (simp add: render_from.simps [of _ rest] ba)
    next
      case (Some nr)
      obtain n r where nr: "find_sub close_ref a = Some (n, r)" using Some by (cases nr) auto
      have names: "ref_names rest = n # ref_names r" by (simp add: ref_names.simps [of rest] ba nr)
      with 1(2) have "n = [] \<or> im_get m n = im_get m' n"
        and rec: "\<forall>x \<in> set (ref_names r) - {[]}. im_get m x = im_get m' x" by auto
      with 1(1) [OF ba refl nr refl] show ?thesis
        by (auto simp: render_from.simps [of _ rest] ba nr split: option.split)
    qed
  qed
qed

text \<open>A default depends on its references and on nothing else: it renders exactly when it has
  no empty reference and every name that \<open>extract_default_references\<close> lists has a result, and two
  contexts that agree on those names render it alike. The dependency graph of the resolver is built
  from these lists, so an ordering by it never renders a default too early.\<close>

lemma default_depends_on_references:
  assumes "\<And>n. n \<in> set (extract_default_references d) \<Longrightarrow> im_get m n = im_get m' n"
  shows "render_default_template key d m = render_default_template key d m' \<and>
         ((\<exists>v. render_default_template key d m = Inr v) \<longleftrightarrow>
          [] \<notin> set (ref_names d) \<and> set (extract_default_references d) \<subseteq> set (im_keys m))"
  using assms render_from_succeeds [of key d m "[]"] render_from_agrees [of d m m' key "[]"]
  by (auto simp: render_default_template_def set_extract_references list_all_iff im_has_def)

end
