(* ===== verification/Closure.thy ===== *)
theory Closure
  imports ConfigQuery SecretValue
begin

text \<open>
  Which secrets must be resolved together. The record \<open>services\<close> holds what resolution takes from
  outside: the provider types (generated by the build script) with their environment dependencies,
  the providers themselves, the template engine, the user's answers and the settings. The state
  that the effects of \<open>Resolver\<close> thread through is the process environment and the world of the
  providers. Three closures are modelled here: the depth-first interpolation closure of one secret,
  the breadth-first dependency closure of a batch and the read dependencies of the audit log; each
  is characterised by reachability.
\<close>

record 'w rstate =
  rs_env :: "(string, string) imap"
  rs_world :: 'w

type_synonym ('w, 'a) effect = "('w rstate, fnox_error, 'a) comp"

record 'w provider =
  pv_auth_command :: "string option"
  pv_get_secret :: "string \<Rightarrow> ('w, string) effect"
  pv_get_secrets_batch ::
    "(string \<times> string) list \<Rightarrow> ('w, (string, fnox_error + string) imap) effect"
  pv_encryption :: bool
  pv_encrypt :: "string \<Rightarrow> ('w, string) effect"

record ('p, 'w) services =
  sv_env_dependencies :: "'p \<Rightarrow> string list"
  sv_interactive :: "'p \<Rightarrow> bool"
  sv_default_auth_command :: "'p \<Rightarrow> string option \<Rightarrow> string option"
  sv_open :: "string list \<Rightarrow> string \<Rightarrow> 'p \<Rightarrow> ('w, 'w provider) effect"
  sv_confirm :: "string \<Rightarrow> ('w, bool) effect"
  sv_run :: "string \<Rightarrow> ('w, int option) effect"
  sv_tera :: "string \<Rightarrow> string \<times> string list \<Rightarrow> string option"
  sv_json :: json_library
  sv_suggest :: "string \<Rightarrow> string list \<Rightarrow> string option"
  sv_sources :: registry
  sv_settings :: "(string option \<times> string option) option"
  sv_env_prompt_auth :: "bool option"
  sv_stdin_tty :: bool
  sv_no_defaults :: bool
  sv_show :: "fnox_error \<Rightarrow> string"
  sv_non_interactive :: bool
  sv_rank :: "string \<Rightarrow> nat"

subsection \<open>Templates and references of a default\<close>

definition has_marker :: "string \<Rightarrow> bool" where
  "has_marker input \<longleftrightarrow>
     find_sub ''{{'' input \<noteq> None \<or> find_sub ''{%'' input \<noteq> None \<or> find_sub ''{#'' input \<noteq> None"

definition template_context :: "string list \<Rightarrow> string \<times> string list" where
  "template_context profiles =
     (if profiles = [] then (''default'', [''default'']) else (last profiles, profiles))"

definition rendered_default ::
  "('p, 'w) services \<Rightarrow> string list \<Rightarrow> string \<Rightarrow> string \<Rightarrow> fnox_error + string" where
  "rendered_default S ps key dflt =
     (if \<not> has_marker dflt then Inr dflt
      else case sv_tera S dflt (template_context ps) of
             Some out \<Rightarrow> Inr out
           | None \<Rightarrow> Inl (ConfigError (TemplateFailed key)))"

definition default_references ::
  "('p, 'w) services \<Rightarrow> string list \<Rightarrow> string \<Rightarrow> string \<Rightarrow> string list" where
  "default_references S ps key dflt =
     (case rendered_default S ps key dflt of
        Inr rendered \<Rightarrow> extract_default_references rendered
      | Inl _ \<Rightarrow> [])"

definition the_default_provider :: "('p, 'w) services \<Rightarrow> ('p, 'l) config \<Rightarrow> string list \<Rightarrow> string option" where
  \<comment> \<open>\<open>get_default_provider(...).ok().flatten()\<close>\<close>
  "the_default_provider S c ps =
     (case get_default_provider (sv_sources S) c ps of Inr p \<Rightarrow> p | Inl _ \<Rightarrow> None)"

definition default_can_be_used_in_batch ::
  "('p, 'w) services \<Rightarrow> ('p, 'l) config \<Rightarrow> string list \<Rightarrow> secret_config \<Rightarrow> bool" where
  "default_can_be_used_in_batch S c ps sc =
     (if s_sync sc \<noteq> None then False
      else if secret_value sc = None then True
      else secret_provider sc = None \<and> the_default_provider S c ps = None)"

subsection \<open>The interpolation closure of one secret\<close>

type_synonym secrets = "(string, secret_config) imap"

definition interpolation_refs ::
  "('p, 'w) services \<Rightarrow> ('p, 'l) config \<Rightarrow> string list \<Rightarrow> string \<Rightarrow> string \<Rightarrow> secret_config \<Rightarrow> string list" where
  "interpolation_refs S c ps root key sc =
     (case s_default sc of
        Some dflt \<Rightarrow>
          if key = root \<or> default_can_be_used_in_batch S c ps sc
          then default_references S ps key dflt else []
      | None \<Rightarrow> [])"

definition off_path :: "secrets \<Rightarrow> string list \<Rightarrow> nat" where
  "off_path secrets path = card (set (im_keys secrets) - set path)"

lemma off_path_less:
  assumes "im_get secrets key = Some sc" and "key \<notin> set path"
  shows "off_path secrets (path @ [key]) < off_path secrets path"
proof -
  have "key \<in> set (im_keys secrets)" using assms(1) by (auto simp: im_has_iff simp flip: im_has_def)
  with assms(2) show ?thesis unfolding off_path_def by (intro psubset_card_mono) auto
qed

text \<open>\<open>refs\<close> is \<open>interpolation_refs\<close> of the root; \<open>path\<close> holds the secrets being visited.\<close>

function visit_secret ::
  "(string \<Rightarrow> secret_config \<Rightarrow> string list) \<Rightarrow> secrets \<Rightarrow> string list \<Rightarrow> string \<Rightarrow> secrets \<Rightarrow> fnox_error + secrets"
  and visit_refs ::
  "(string \<Rightarrow> secret_config \<Rightarrow> string list) \<Rightarrow> secrets \<Rightarrow> string list \<Rightarrow> string \<Rightarrow> string list \<Rightarrow> secrets \<Rightarrow> fnox_error + secrets"
  where
  "visit_secret refs secrets path key sub =
     (if im_has sub key then Inr sub
      else if key \<in> set path then Inl (ConfigError (InterpolationCycle key))
      else (case im_get secrets key of
              None \<Rightarrow> Inl (ConfigError (SecretNotInProfile key))
            | Some sc \<Rightarrow>
                bind_sum (visit_refs refs secrets (path @ [key]) key (refs key sc) sub)
                  (\<lambda>sub. Inr (im_insert key sc sub))))"
| "visit_refs refs secrets path key [] sub = Inr sub"
| "visit_refs refs secrets path key (r # rs) sub =
     (if \<not> im_has secrets r then Inl (default_reference_error key r)
      else bind_sum (visit_secret refs secrets path r sub)
             (\<lambda>sub. visit_refs refs secrets path key rs sub))"
  by pat_completeness auto
termination
  by (relation "measures [\<lambda>x. case x of Inl (_, secrets, path, _) \<Rightarrow> off_path secrets path
                                      | Inr (_, secrets, path, _) \<Rightarrow> off_path secrets path,
                          \<lambda>x. case x of Inl _ \<Rightarrow> 1 | Inr (_, _, _, _, rs, _) \<Rightarrow> 2 * length rs]")
     (auto simp: off_path_less)

declare visit_secret.simps [simp del]

definition collect_interpolation_closure ::
  "('p, 'w) services \<Rightarrow> ('p, 'l) config \<Rightarrow> string list \<Rightarrow> string \<Rightarrow> secrets \<Rightarrow> fnox_error + secrets" where
  "collect_interpolation_closure S c ps key secrets =
     visit_secret (interpolation_refs S c ps key) secrets [] key []"

subsection \<open>The dependency closure of a batch\<close>

definition provider_of :: "string option \<Rightarrow> secret_config \<Rightarrow> string option" where
  "provider_of default_provider sc =
     (case s_sync sc of
        Some sync \<Rightarrow> Some (sy_provider sync)
      | None \<Rightarrow>
          if secret_value sc \<noteq> None
          then (case secret_provider sc of Some p \<Rightarrow> Some p | None \<Rightarrow> default_provider)
          else None)"

definition provider_env :: "('p, 'w) services \<Rightarrow> (string, 'p) imap \<Rightarrow> string \<Rightarrow> string list" where
  "provider_env S providers name =
     (case im_get providers name of Some p \<Rightarrow> sv_env_dependencies S p | None \<Rightarrow> [])"

definition closure_deps ::
  "('p, 'w) services \<Rightarrow> string list \<Rightarrow> (string, 'p) imap \<Rightarrow> string option \<Rightarrow> string \<Rightarrow> secret_config \<Rightarrow> string list" where
  "closure_deps S ps providers default_provider key sc =
     (case s_default sc of Some d \<Rightarrow> default_references S ps key d | None \<Rightarrow> []) @
     (case provider_of default_provider sc of Some n \<Rightarrow> provider_env S providers n | None \<Rightarrow> [])"

definition enqueue :: "secrets \<Rightarrow> string \<Rightarrow> string set \<times> string list \<Rightarrow> string set \<times> string list" where
  "enqueue all dep = (\<lambda>(visited, queue).
     if im_has all dep \<and> dep \<notin> visited then (insert dep visited, queue @ [dep]) else (visited, queue))"

definition enqueue_all :: "secrets \<Rightarrow> string list \<Rightarrow> string set \<times> string list \<Rightarrow> string set \<times> string list" where
  "enqueue_all all deps vq = fold (enqueue all) deps vq"

lemma enqueue_all_simps [simp]:
  "enqueue_all all [] vq = vq"
  "enqueue_all all (d # ds) vq = enqueue_all all ds (enqueue all d vq)"
  by (simp_all add: enqueue_all_def)

lemma enqueue_all_effect:
  "enqueue_all all deps (v, q) = (v', q') \<Longrightarrow>
   \<exists>new. q' = q @ new \<and> v' = v \<union> set new \<and> set new \<inter> v = {} \<and> set new = (set deps \<inter> set (im_keys all)) - v"
proof (induction deps arbitrary: v q)
  case (Cons d deps)
  show ?case
  proof (cases "im_has all d \<and> d \<notin> v")
    case True
    then have "enqueue_all all deps (insert d v, q @ [d]) = (v', q')"
      using Cons.prems by (simp add: enqueue_def)
    from Cons.IH [OF this] obtain new where
      "q' = q @ d # new" "v' = insert d v \<union> set new" "set new \<inter> insert d v = {}"
      "set new = (set deps \<inter> set (im_keys all)) - insert d v" by auto
    with True show ?thesis by (intro exI [of _ "d # new"]) (auto simp: im_has_def)
  next
    case False
    then have "enqueue_all all deps (v, q) = (v', q')" using Cons.prems by (auto simp: enqueue_def)
    from Cons.IH [OF this] False show ?thesis by (auto simp: im_has_def)
  qed
qed simp

function closure_loop ::
  "(string \<Rightarrow> secret_config \<Rightarrow> string list) \<Rightarrow> secrets \<Rightarrow> string set \<Rightarrow> string list \<Rightarrow> string set" where
  "closure_loop deps all visited [] = visited"
| "closure_loop deps all visited (key # queue) =
     (case im_get all key of
        None \<Rightarrow> closure_loop deps all visited queue
      | Some sc \<Rightarrow>
          let (visited', queue') = enqueue_all all (deps key sc) (visited, queue)
          in closure_loop deps all visited' queue')"
  by pat_completeness auto
termination
proof (relation "measures [\<lambda>(_, all, v, _). card (set (im_keys all) - v), \<lambda>(_, _, _, q). length q]", simp, simp)
  fix deps :: "string \<Rightarrow> secret_config \<Rightarrow> string list" and all v key queue sc vq v' q'
  assume "im_get all key = Some sc" and vq: "vq = enqueue_all all (deps key sc) (v, queue)"
    and "(v', q') = vq"
  then obtain new where new: "q' = queue @ new" "v' = v \<union> set new" "set new \<inter> v = {}"
    "set new \<subseteq> set (im_keys all)"
    using enqueue_all_effect [of all "deps key sc" v queue v' q'] by auto
  show "((deps, all, v', q'), (deps, all, v, key # queue))
    \<in> measures [\<lambda>(_, all, v, _). card (set (im_keys all) - v), \<lambda>(_, _, _, q). length q]"
  proof (cases "new = []")
    case True
    then show ?thesis using new by simp
  next
    case False
    then have "card (set (im_keys all) - v') < card (set (im_keys all) - v)"
      using new by (intro psubset_card_mono) (auto simp: neq_Nil_conv)
    then show ?thesis by simp
  qed
qed

definition dependency_closure ::
  "('p, 'w) services \<Rightarrow> ('p, 'l) config \<Rightarrow> string list \<Rightarrow> secrets \<Rightarrow> string list \<Rightarrow> fnox_error + secrets" where
  "dependency_closure S c ps all roots =
     bind_sum (get_providers c ps) (\<lambda>providers.
       let deps = closure_deps S ps providers (the_default_provider S c ps);
           (visited, queue) = enqueue_all all roots ({}, []);
           visited = closure_loop deps all visited queue
       in Inr (filter (\<lambda>(key, _). key \<in> visited) all))"


definition read_deps ::
  "('p, 'w) services \<Rightarrow> string list \<Rightarrow> (string, 'p) imap \<Rightarrow> string option \<Rightarrow> (string \<Rightarrow> bool) \<Rightarrow>
   string \<Rightarrow> secret_config \<Rightarrow> string list" where
  "read_deps S ps providers default_provider served key sc =
     (if served key then []
      else case provider_of default_provider sc of
             Some name \<Rightarrow> provider_env S providers name
           | None \<Rightarrow> (case s_default sc of Some d \<Rightarrow> default_references S ps key d | None \<Rightarrow> []))"

definition add_read :: "secrets \<Rightarrow> string \<Rightarrow> secrets \<times> string list \<Rightarrow> secrets \<times> string list" where
  "add_read all dep = (\<lambda>(out, queue).
     case im_get all dep of
       Some dc \<Rightarrow> if \<not> im_has out dep then (im_insert dep dc out, queue @ [dep]) else (out, queue)
     | None \<Rightarrow> (out, queue))"

definition add_reads :: "secrets \<Rightarrow> string list \<Rightarrow> secrets \<times> string list \<Rightarrow> secrets \<times> string list" where
  "add_reads all deps oq = fold (add_read all) deps oq"

lemma add_reads_simps [simp]:
  "add_reads all [] oq = oq"
  "add_reads all (d # ds) oq = add_reads all ds (add_read all d oq)"
  by (simp_all add: add_reads_def)

lemma add_reads_effect:
  "add_reads all deps (out, q) = (out', q') \<Longrightarrow>
   \<exists>new. out' = out @ new \<and> q' = q @ map fst new \<and> set (map fst new) = (set deps \<inter> set (im_keys all)) - set (im_keys out)
     \<and> distinct (map fst new) \<and> (\<forall>(k, sc) \<in> set new. im_get all k = Some sc)"
proof (induction deps arbitrary: out q)
  case (Cons d deps)
  show ?case
  proof (cases "im_has all d \<and> \<not> im_has out d")
    case True
    then obtain dc where dc: "im_get all d = Some dc" by (auto simp: im_has_iff)
    then have "add_reads all deps (out @ [(d, dc)], q @ [d]) = (out', q')"
      using Cons.prems True by (simp add: add_read_def im_insert_new)
    from Cons.IH [OF this] obtain new where
      "out' = out @ (d, dc) # new" "q' = q @ d # map fst new" "distinct (map fst new)"
      "set (map fst new) = (set deps \<inter> set (im_keys all)) - set (im_keys (out @ [(d, dc)]))"
      "\<forall>(k, sc) \<in> set new. im_get all k = Some sc" by auto
    moreover have "im_keys (out @ [(d, dc)]) = im_keys out @ [d]" by (simp add: im_keys_def)
    ultimately show ?thesis
      using True dc by (intro exI [of _ "(d, dc) # new"]) (auto simp: im_has_def)
  next
    case False
    then have "add_reads all deps (out, q) = (out', q')"
      using Cons.prems by (auto simp: add_read_def im_has_iff split: option.splits)
    from Cons.IH [OF this] False show ?thesis by (auto simp: im_has_def)
  qed
qed simp

function read_loop ::
  "(string \<Rightarrow> secret_config \<Rightarrow> string list) \<Rightarrow> secrets \<Rightarrow> secrets \<Rightarrow> string list \<Rightarrow> secrets" where
  \<comment> \<open>the queue is a stack: \<open>pop\<close> takes the last element\<close>
  "read_loop deps all out queue =
     (if queue = [] then out
      else (case im_get out (last queue) of
              None \<Rightarrow> read_loop deps all out (butlast queue)
            | Some sc \<Rightarrow>
                let (out', queue') = add_reads all (deps (last queue) sc) (out, butlast queue)
                in read_loop deps all out' queue'))"
  by pat_completeness auto
termination
proof (relation "measures [\<lambda>(_, all, out, _). card (set (im_keys all) - set (im_keys out)), \<lambda>(_, _, _, q). length q]", simp, simp)
  fix deps :: "string \<Rightarrow> secret_config \<Rightarrow> string list" and all out queue sc oq out' q'
  assume "queue \<noteq> []" and "im_get out (last queue) = Some sc"
    and oq: "oq = add_reads all (deps (last queue) sc) (out, butlast queue)" and "(out', q') = oq"
  then obtain new where new: "out' = out @ new" "q' = butlast queue @ map fst new"
    "set (map fst new) = (set (deps (last queue) sc) \<inter> set (im_keys all)) - set (im_keys out)"
    using add_reads_effect [of all "deps (last queue) sc" out "butlast queue" out' q'] by auto
  show "((deps, all, out', q'), (deps, all, out, queue))
    \<in> measures [\<lambda>(_, all, out, _). card (set (im_keys all) - set (im_keys out)), \<lambda>(_, _, _, q). length q]"
  proof (cases "new = []")
    case True
    then show ?thesis using new \<open>queue \<noteq> []\<close> by simp
  next
    case False
    have "im_keys out' = im_keys out @ map fst new" by (simp add: new(1) im_keys_def)
    moreover obtain k where "k \<in> set (map fst new)" using False by (cases new) auto
    ultimately have "card (set (im_keys all) - set (im_keys out')) < card (set (im_keys all) - set (im_keys out))"
      using new(3) by (intro psubset_card_mono) auto
    then show ?thesis by simp
  qed
qed

declare read_loop.simps [simp del]

definition with_read_dependencies ::
  "('p, 'w) services \<Rightarrow> ('p, 'l) config \<Rightarrow> string list \<Rightarrow> secrets \<Rightarrow> (string \<Rightarrow> bool) \<Rightarrow> secrets" where
  "with_read_dependencies S c ps secrets served =
     (case get_secrets_with_no_defaults c ps (sv_no_defaults S) of
        Inl _ \<Rightarrow> secrets
      | Inr all \<Rightarrow>
          let providers = (case get_providers c ps of Inr m \<Rightarrow> m | Inl _ \<Rightarrow> [])
          in read_loop (read_deps S ps providers (the_default_provider S c ps) served) all secrets
               (im_keys secrets))"

subsection \<open>Closures are reachability\<close>

definition refers :: "(string \<Rightarrow> secret_config \<Rightarrow> string list) \<Rightarrow> secrets \<Rightarrow> string \<Rightarrow> string list" where
  "refers deps all k = (case im_get all k of Some sc \<Rightarrow> deps k sc | None \<Rightarrow> [])"

definition dep_edge :: "(string \<Rightarrow> secret_config \<Rightarrow> string list) \<Rightarrow> secrets \<Rightarrow> string \<Rightarrow> string \<Rightarrow> bool" where
  \<comment> \<open>only secrets that are defined are followed\<close>
  "dep_edge deps all k d \<longleftrightarrow> d \<in> set (refers deps all k) \<and> im_has all d"

definition closed_reach :: "(string \<Rightarrow> secret_config \<Rightarrow> string list) \<Rightarrow> secrets \<Rightarrow> string set \<Rightarrow> string set" where
  "closed_reach deps all roots =
     {k. \<exists>r \<in> roots. im_has all r \<and> (dep_edge deps all)\<^sup>*\<^sup>* r k}"

lemma closed_reachI:
  assumes "roots \<inter> set (im_keys all) \<subseteq> V" and "\<And>k d. k \<in> V \<Longrightarrow> dep_edge deps all k d \<Longrightarrow> d \<in> V"
  shows "closed_reach deps all roots \<subseteq> V"
proof
  fix k assume "k \<in> closed_reach deps all roots"
  then obtain r where "r \<in> roots" "im_has all r" and path: "(dep_edge deps all)\<^sup>*\<^sup>* r k"
    by (auto simp: closed_reach_def)
  then have "r \<in> V" using assms(1) by (auto simp: im_has_def)
  with path show "k \<in> V" by (induction rule: rtranclp_induct) (auto intro: assms(2))
qed

lemma closure_loop_closed:
  "(\<And>k d. k \<in> visited - set queue \<Longrightarrow> dep_edge deps all k d \<Longrightarrow> d \<in> visited) \<Longrightarrow>
   visited \<subseteq> closure_loop deps all visited queue \<and>
   (\<forall>k \<in> closure_loop deps all visited queue. \<forall>d. dep_edge deps all k d \<longrightarrow> d \<in> closure_loop deps all visited queue)"
proof (induction deps all visited queue rule: closure_loop.induct)
  case (2 deps all visited key queue)
  show ?case
  proof (cases "im_get all key")
    case None
    then have key: "\<not> dep_edge deps all key d" for d by (simp add: dep_edge_def refers_def)
    have "d \<in> visited" if "k \<in> visited - set queue" "dep_edge deps all k d" for k d
      using 2(3) [of k d] that key by (cases "k = key") auto
    from 2(1) [OF None this] None show ?thesis by simp
  next
    case (Some sc)
    obtain v' q' where vq: "enqueue_all all (deps key sc) (visited, queue) = (v', q')" by fastforce
    from enqueue_all_effect [OF vq] obtain new where new: "q' = queue @ new" "v' = visited \<union> set new"
      "set new = (set (deps key sc) \<inter> set (im_keys all)) - visited" by blast
    have "d \<in> v'" if "k \<in> v' - set q'" "dep_edge deps all k d" for k d
    proof (cases "k = key")
      case True
      then show ?thesis using that new Some by (auto simp: dep_edge_def refers_def im_has_def)
    next
      case False
      then show ?thesis using that new 2(3) [of k d] by auto
    qed
    from 2(2) [OF Some vq [symmetric] refl this] show ?thesis
      using new(2) by (simp add: Some vq)
  qed
qed auto

lemma closure_loop_reach:
  assumes "\<And>k. k \<in> set queue \<Longrightarrow> im_has all k"
  shows "closure_loop deps all visited queue \<subseteq> visited \<union> closed_reach deps all (set queue)"
  using assms
proof (induction deps all visited queue rule: closure_loop.induct)
  case (2 deps all visited key queue)
  have "im_has all key" using 2(3) by simp
  then obtain sc where sc: "im_get all key = Some sc" by (auto simp: im_has_iff)
  obtain v' q' where vq: "enqueue_all all (deps key sc) (visited, queue) = (v', q')" by fastforce
  from enqueue_all_effect [OF vq] obtain new where new: "q' = queue @ new" "v' = visited \<union> set new"
    "set new = (set (deps key sc) \<inter> set (im_keys all)) - visited" by blast
  have edge: "dep_edge deps all key d" if "d \<in> set new" for d
    using that new sc by (auto simp: dep_edge_def refers_def im_has_def)
  have "closure_loop deps all v' q' \<subseteq> v' \<union> closed_reach deps all (set q')"
    using 2(2) [OF sc vq [symmetric] refl] 2(3) edge new(1) by (auto simp: dep_edge_def)
  moreover have "set new \<subseteq> closed_reach deps all (set (key # queue))"
    using edge 2(3) by (auto simp: closed_reach_def)
  moreover have "closed_reach deps all (set q') \<subseteq> closed_reach deps all (set (key # queue))"
  proof -
    have "(dep_edge deps all)\<^sup>*\<^sup>* key k" if "r \<in> set new" "(dep_edge deps all)\<^sup>*\<^sup>* r k" for r k
      using edge [OF that(1)] that(2) by (rule converse_rtranclp_into_rtranclp)
    then show ?thesis using new(1) 2(3) by (fastforce simp: closed_reach_def)
  qed
  ultimately show ?case using new(2) by (auto simp: sc vq)
qed auto

lemma enqueue_roots:
  "enqueue_all all roots ({}, []) = (v, q) \<Longrightarrow> v = set q \<and> set q = set roots \<inter> set (im_keys all)"
  using enqueue_all_effect [of all roots "{}" "[]" v q] by auto

text \<open>C36: The dependency closure of some secrets is exactly what is reachable from them through the
  references of defaults and the environment dependencies of providers, restricted to defined
  secrets, and it keeps the entries and the order of the configuration.\<close>

theorem dependency_closure_is_reachability:
  assumes "dependency_closure S c ps all roots = Inr sub" and "get_providers c ps = Inr providers"
  shows "sub = filter (\<lambda>(key, _). key \<in> closed_reach
                 (closure_deps S ps providers (the_default_provider S c ps)) all (set roots)) all"
proof -
  let ?deps = "closure_deps S ps providers (the_default_provider S c ps)"
  obtain v q where vq: "enqueue_all all roots ({}, []) = (v, q)" by fastforce
  note roots = enqueue_roots [OF vq]
  have "closure_loop ?deps all v q \<subseteq> v \<union> closed_reach ?deps all (set q)"
    by (rule closure_loop_reach) (use roots in \<open>auto simp: im_has_def\<close>)
  also have "\<dots> \<subseteq> closed_reach ?deps all (set roots)"
    using roots by (auto simp: closed_reach_def im_has_def)
  finally have "closure_loop ?deps all v q \<subseteq> closed_reach ?deps all (set roots)" .
  moreover have "closed_reach ?deps all (set roots) \<subseteq> closure_loop ?deps all v q"
    using closure_loop_closed [of v q ?deps all] roots by (intro closed_reachI) auto
  ultimately have "closure_loop ?deps all v q = closed_reach ?deps all (set roots)" by blast
  with assms show ?thesis by (simp add: dependency_closure_def vq)
qed


subsection \<open>A services record for the witnesses\<close>

definition toy_provider :: "unit provider" where
  "toy_provider =
     \<lparr>pv_auth_command = None,
      pv_get_secret = (\<lambda>v. ok (''plain:'' @ v)),
      pv_get_secrets_batch = (\<lambda>ps. ok (map (\<lambda>(k, v). (k, Inr (''plain:'' @ v))) ps)),
      pv_encryption = False, pv_encrypt = (\<lambda>_. err (ProviderError ''read only''))\<rparr>"

definition toy_services :: "(string, unit) services" where
  "toy_services =
     \<lparr>sv_env_dependencies = (\<lambda>p. if p = ''op'' then [''TOKEN''] else []),
      sv_interactive = (\<lambda>_. False), sv_default_auth_command = (\<lambda>_ _. None),
      sv_open = (\<lambda>_ _ _. ok toy_provider), sv_confirm = (\<lambda>_. ok False), sv_run = (\<lambda>_. ok None),
      sv_tera = (\<lambda>_ _. None), sv_json = toy_library, sv_suggest = (\<lambda>_ _. None),
      sv_sources = [], sv_settings = Some (None, None), sv_env_prompt_auth = None, sv_stdin_tty = True,
      sv_no_defaults = False, sv_show = (\<lambda>_. ''error''),
      sv_non_interactive = False, sv_rank = length\<rparr>"

definition default_secret :: "string \<Rightarrow> secret_config" where
  "default_secret d = new_secret\<lparr>s_default := Some d\<rparr>"

definition toy_config :: "(string, unit) config" where
  "toy_config = new_config\<lparr>
     c_providers := [(''age'', ''age''), (''op'', ''op'')],
     c_secrets :=
       [(''URL'', default_secret ''db://${USER}@${HOST}''),
        (''HOST'', default_secret ''localhost''),
        (''USER'', (plain_secret ''u'')\<lparr>s_provider := Some (without_span ''op'')\<rparr>),
        (''OTHER'', default_secret ''x''),
        (''TOKEN'', (plain_secret ''t'')\<lparr>s_provider := Some (without_span ''age'')\<rparr>)]\<rparr>"

theorem dependency_closure_is_reachability_witness:
  "im_retain (\<lambda>k _. k \<noteq> ''OTHER'') (c_secrets toy_config) =
     filter (\<lambda>(key, _). key \<in> closed_reach
       (closure_deps toy_services [''default''] (c_providers toy_config)
          (the_default_provider toy_services toy_config [''default''])) (c_secrets toy_config) (set [''URL'']))
       (c_secrets toy_config)"
  by (rule dependency_closure_is_reachability) code_simp+

subsection \<open>The interpolation closure\<close>

fun deps_first :: "(string \<Rightarrow> string list) \<Rightarrow> string set \<Rightarrow> string list \<Rightarrow> bool" where
  "deps_first f before [] \<longleftrightarrow> True"
| "deps_first f before (k # ks) \<longleftrightarrow> set (f k) \<subseteq> before \<and> deps_first f (insert k before) ks"

lemma deps_first_append:
  "deps_first f b (xs @ ys) \<longleftrightarrow> deps_first f b xs \<and> deps_first f (b \<union> set xs) ys"
  by (induction xs arbitrary: b) auto

lemma deps_first_closed: "deps_first f b ks \<Longrightarrow> k \<in> set ks \<Longrightarrow> set (f k) \<subseteq> b \<union> set ks"
  by (induction ks arbitrary: b) auto

definition grows :: "(string \<Rightarrow> string list) \<Rightarrow> secrets \<Rightarrow> string list \<Rightarrow> secrets \<Rightarrow> secrets \<Rightarrow> bool" where
  \<comment> \<open>what visiting adds: defined secrets, each after its references, none on the path\<close>
  "grows f secrets path sub sub' \<longleftrightarrow>
     (\<exists>new. sub' = sub @ new \<and> deps_first f (set (im_keys sub)) (im_keys new) \<and>
            (\<forall>(k, sc) \<in> set new. im_get secrets k = Some sc \<and> k \<notin> set path))"

lemma im_keys_append [simp]: "im_keys (m @ n) = im_keys m @ im_keys n"
  by (simp add: im_keys_def)

lemma grows_refl [simp]: "grows f secrets path sub sub"
  by (simp add: grows_def)

lemma grows_trans:
  "grows f secrets path a b \<Longrightarrow> grows f secrets path b d \<Longrightarrow> grows f secrets path a d"
  unfolding grows_def by (elim exE conjE, rule_tac x = "new @ newa" in exI) (auto simp: deps_first_append)

lemma grows_keys: "grows f secrets path a b \<Longrightarrow> set (im_keys a) \<subseteq> set (im_keys b)"
  by (auto simp: grows_def)

lemma grows_path: "grows f secrets path a b \<Longrightarrow> k \<in> set path \<Longrightarrow> \<not> im_has a k \<Longrightarrow> \<not> im_has b k"
  by (force simp: grows_def im_has_def im_keys_def)

lemma grows_shorter: "grows f secrets (path @ ks) a b \<Longrightarrow> grows f secrets path a b"
  unfolding grows_def by fastforce

lemma grows_add:
  assumes "im_get secrets k = Some sc" and "k \<notin> set path" and "\<not> im_has sub k" and "set (f k) \<subseteq> set (im_keys sub)"
  shows "grows f secrets path sub (im_insert k sc sub)"
  using assms unfolding grows_def by (intro exI [of _ "[(k, sc)]"]) (simp add: im_insert_new im_keys_def)

lemma visit_secret_grows:
  shows "visit_secret refs secrets path key sub = Inr sub' \<Longrightarrow>
           grows (refers refs secrets) secrets path sub sub' \<and> im_has sub' key"
    and "visit_refs refs secrets path key rs sub = Inr sub'' \<Longrightarrow>
           grows (refers refs secrets) secrets path sub sub'' \<and> set rs \<subseteq> set (im_keys sub'')"
proof (induction refs secrets path key sub and refs secrets path key rs sub arbitrary: sub' and sub''
    rule: visit_secret_visit_refs.induct)
  case (1 refs secrets path key sub)
  show ?case
  proof (cases "im_has sub key")
    case True
    then show ?thesis using 1(2) by (simp add: visit_secret.simps)
  next
    case False
    then have path: "key \<notin> set path" using 1(2) by (auto simp: visit_secret.simps)
    with False obtain sc where sc: "im_get secrets key = Some sc"
      using 1(2) by (auto simp: visit_secret.simps split: option.splits)
    with False path obtain s2 where
      s2: "visit_refs refs secrets (path @ [key]) key (refs key sc) sub = Inr s2"
      and sub': "sub' = im_insert key sc s2"
      using 1(2) by (auto simp: visit_secret.simps bind_sum_Inr)
    note IH = 1(1) [OF False path sc s2]
    then have new: "\<not> im_has s2 key"
      using False grows_path [of _ secrets "path @ [key]" sub s2 key] by auto
    have "grows (refers refs secrets) secrets path s2 sub'"
      unfolding sub' by (rule grows_add [OF sc path new]) (use IH in \<open>simp add: refers_def sc\<close>)
    moreover have "grows (refers refs secrets) secrets path sub s2"
      by (rule grows_shorter [where ks = "[key]"]) (use IH in simp)
    ultimately show ?thesis
      using grows_trans [of _ secrets path sub s2 sub'] by (simp add: sub' im_has_insert)
  qed
next
  case (3 refs secrets path key r rs sub)
  then have "im_has secrets r" by (auto split: if_splits)
  with 3(3) obtain s1 where s1: "visit_secret refs secrets path r sub = Inr s1"
    and s2: "visit_refs refs secrets path key rs s1 = Inr sub''" by (auto simp: bind_sum_Inr)
  have a: "grows (refers refs secrets) secrets path sub s1" "im_has s1 r"
    using 3(1) [OF _ s1] \<open>im_has secrets r\<close> by auto
  have b: "grows (refers refs secrets) secrets path s1 sub''" "set rs \<subseteq> set (im_keys sub'')"
    using 3(2) [OF _ s2] \<open>im_has secrets r\<close> by auto
  then show ?case using a grows_trans grows_keys [OF b(1)] by (auto simp: im_has_def)
qed simp


abbreviation reads :: "(string \<Rightarrow> secret_config \<Rightarrow> string list) \<Rightarrow> secrets \<Rightarrow> string \<Rightarrow> string \<Rightarrow> bool" where
  "reads refs secrets \<equiv> (\<lambda>k d. d \<in> set (refers refs secrets k))"

lemma visit_secret_reach:
  shows "visit_secret refs secrets path key sub = Inr sub' \<Longrightarrow>
           set (im_keys sub') \<subseteq> set (im_keys sub) \<union> {d. (reads refs secrets)\<^sup>*\<^sup>* key d}"
    and "visit_refs refs secrets path key rs sub = Inr sub'' \<Longrightarrow>
           set (im_keys sub'') \<subseteq> set (im_keys sub) \<union> {d. \<exists>r \<in> set rs. (reads refs secrets)\<^sup>*\<^sup>* r d}"
proof (induction refs secrets path key sub and refs secrets path key rs sub arbitrary: sub' and sub''
    rule: visit_secret_visit_refs.induct)
  case (1 refs secrets path key sub)
  show ?case
  proof (cases "im_has sub key")
    case True
    then show ?thesis using 1(2) by (simp add: visit_secret.simps)
  next
    case False
    then have path: "key \<notin> set path" using 1(2) by (auto simp: visit_secret.simps)
    with False obtain sc where sc: "im_get secrets key = Some sc"
      using 1(2) by (auto simp: visit_secret.simps split: option.splits)
    with False path obtain s2 where
      s2: "visit_refs refs secrets (path @ [key]) key (refs key sc) sub = Inr s2"
      and sub': "sub' = im_insert key sc s2"
      using 1(2) by (auto simp: visit_secret.simps bind_sum_Inr)
    have "(reads refs secrets)\<^sup>*\<^sup>* key d" if "r \<in> set (refs key sc)" "(reads refs secrets)\<^sup>*\<^sup>* r d" for r d
      using that by (intro converse_rtranclp_into_rtranclp [of "reads refs secrets" key r d]) (simp add: refers_def sc)
    then show ?thesis
      using 1(1) [OF False path sc s2] by (auto simp: sub' im_keys_insert)
  qed
next
  case (3 refs secrets path key r rs sub)
  then have "im_has secrets r" by (auto split: if_splits)
  with 3(3) obtain s1 where s1: "visit_secret refs secrets path r sub = Inr s1"
    and s2: "visit_refs refs secrets path key rs s1 = Inr sub''" by (auto simp: bind_sum_Inr)
  from 3(1) [OF _ s1] 3(2) [OF _ s2] \<open>im_has secrets r\<close> show ?case by auto
qed simp

text \<open>The interpolation closure of a secret is exactly what its default reaches through
  references, following the root and otherwise only secrets whose default is their source; it holds
  the configured entries, each after everything it refers to, so a circle is never returned.\<close>

lemma interpolation_closure_is_reachability:
  assumes "collect_interpolation_closure S c ps key secrets = Inr sub"
  shows "set (im_keys sub) = {d. (reads (interpolation_refs S c ps key) secrets)\<^sup>*\<^sup>* key d} \<and>
         deps_first (refers (interpolation_refs S c ps key) secrets) {} (im_keys sub) \<and>
         map (im_get secrets) (im_keys sub) = map Some (map snd sub)"
proof -
  let ?refs = "interpolation_refs S c ps key"
  have run: "visit_secret ?refs secrets [] key [] = Inr sub"
    using assms by (simp add: collect_interpolation_closure_def)
  have sub: "deps_first (refers ?refs secrets) {} (im_keys sub)"
    "\<forall>(k, sc) \<in> set sub. im_get secrets k = Some sc" "key \<in> set (im_keys sub)"
    using visit_secret_grows(1) [OF run] by (auto simp: grows_def im_has_def)
  have "d \<in> set (im_keys sub)" if "(reads ?refs secrets)\<^sup>*\<^sup>* key d" for d
    using that
  proof (induction rule: rtranclp_induct)
    case (step k d)
    then show ?case using deps_first_closed [OF sub(1)] by auto
  qed (rule sub(3))
  moreover have "set (im_keys sub) \<subseteq> {d. (reads ?refs secrets)\<^sup>*\<^sup>* key d}"
    using visit_secret_reach(1) [OF run] by simp
  moreover have "map (im_get secrets) (im_keys sub) = map Some (map snd sub)"
    using sub(2) by (auto simp: im_keys_def)
  ultimately show ?thesis using sub(1) by blast
qed

subsection \<open>Read dependencies\<close>

lemma read_loop_extends:
  "\<exists>new. read_loop deps all out queue = out @ new \<and> (\<forall>(k, sc) \<in> set new. im_get all k = Some sc)"
proof (induction deps all out queue rule: read_loop.induct)
  case (1 deps all out queue)
  show ?case
  proof (cases "queue = []")
    case False
    show ?thesis
    proof (cases "im_get out (last queue)")
      case None
      then show ?thesis using 1(1) [OF False None] by (subst read_loop.simps) (simp add: False)
    next
      case (Some sc)
      obtain out' q' where oq: "add_reads all (deps (last queue) sc) (out, butlast queue) = (out', q')"
        by fastforce
      from add_reads_effect [OF oq] obtain new where "out' = out @ new"
        "\<forall>(k, sc) \<in> set new. im_get all k = Some sc" by blast
      then show ?thesis
        using 1(2) [OF False Some oq [symmetric] refl]
        by (subst read_loop.simps) (auto simp: False Some oq)
    qed
  qed (simp add: read_loop.simps)
qed

lemma read_loop_closed:
  assumes "\<And>k sc. k \<notin> set queue \<Longrightarrow> im_get out k = Some sc \<Longrightarrow> set (deps k sc) \<inter> set (im_keys all) \<subseteq> set (im_keys out)"
    and "im_get (read_loop deps all out queue) k = Some sc"
  shows "set (deps k sc) \<inter> set (im_keys all) \<subseteq> set (im_keys (read_loop deps all out queue))"
  using assms
proof (induction deps all out queue rule: read_loop.induct)
  case (1 deps all out queue)
  show ?case
  proof (cases "queue = []")
    case True
    then show ?thesis using 1(3,4) by (simp add: read_loop.simps)
  next
    case False
    have queue: "set queue = insert (last queue) (set (butlast queue))"
      using False by (metis append_butlast_last_id list.simps(15) rotate1.simps(2) set_rotate1)
    show ?thesis
    proof (cases "im_get out (last queue)")
      case None
      have loop: "read_loop deps all out queue = read_loop deps all out (butlast queue)"
        by (subst read_loop.simps) (simp add: False None)
      have "set (deps j sc) \<inter> set (im_keys all) \<subseteq> set (im_keys out)"
        if "j \<notin> set (butlast queue)" "im_get out j = Some sc" for j sc
        using 1(3) [of j sc] that None queue by (cases "j = last queue") auto
      from 1(1) [OF False None this] 1(4) show ?thesis unfolding loop by blast
    next
      case (Some sd)
      obtain out' q' where oq: "add_reads all (deps (last queue) sd) (out, butlast queue) = (out', q')"
        by fastforce
      from add_reads_effect [OF oq] obtain new where new: "out' = out @ new" "q' = butlast queue @ map fst new"
        "set (map fst new) = (set (deps (last queue) sd) \<inter> set (im_keys all)) - set (im_keys out)" by blast
      have loop: "read_loop deps all out queue = read_loop deps all out' q'"
        by (subst read_loop.simps) (simp add: False Some oq)
      have "set (deps j sc) \<inter> set (im_keys all) \<subseteq> set (im_keys out')"
        if j: "j \<notin> set q'" "im_get out' j = Some sc" for j sc
      proof -
        have "j \<notin> set (map fst new)" using j(1) new(2) by simp
        then have get: "im_get out j = Some sc"
          using j(2) map_of_eq_None_iff [of new j]
          by (auto simp: new(1) im_get_def map_add_def split: option.splits)
        show ?thesis
        proof (cases "j = last queue")
          case True
          then show ?thesis using get Some new by (auto simp: im_keys_def)
        next
          case False
          then have "j \<notin> set queue" using j(1) new(2) queue by simp
          from 1(3) [OF this get] show ?thesis by (auto simp: new(1))
        qed
      qed
      from 1(2) [OF False Some oq [symmetric] refl this] 1(4) show ?thesis unfolding loop by blast
    qed
  qed
qed

text \<open>The read dependencies of a set of secrets keep the secrets and add only configured ones,
  and they are closed: for every secret that is not served without its provider, each defined secret
  it reads (the environment of the provider it uses, or the references of the default that is its
  source) is listed as well.\<close>

lemma read_dependencies_closed:
  assumes "get_secrets_with_no_defaults c ps (sv_no_defaults S) = Inr all" and "get_providers c ps = Inr providers"
    and "im_get (with_read_dependencies S c ps secrets served) k = Some sc"
  shows "set (read_deps S ps providers (the_default_provider S c ps) served k sc) \<inter> set (im_keys all)
           \<subseteq> set (im_keys (with_read_dependencies S c ps secrets served)) \<and>
         (\<exists>new. with_read_dependencies S c ps secrets served = secrets @ new \<and>
                map (im_get all) (im_keys new) = map Some (map snd new))"
proof -
  let ?deps = "read_deps S ps providers (the_default_provider S c ps) served"
  have run: "with_read_dependencies S c ps secrets served = read_loop ?deps all secrets (im_keys secrets)"
    using assms(1,2) by (simp add: with_read_dependencies_def)
  obtain new where "read_loop ?deps all secrets (im_keys secrets) = secrets @ new"
    and "\<forall>(k, sc) \<in> set new. im_get all k = Some sc"
    using read_loop_extends by blast
  then have "\<exists>new. with_read_dependencies S c ps secrets served = secrets @ new \<and>
      map (im_get all) (im_keys new) = map Some (map snd new)"
    unfolding run by (intro exI [of _ new]) (auto simp: im_keys_def)
  moreover have "set (?deps k sc) \<inter> set (im_keys all) \<subseteq> set (im_keys (read_loop ?deps all secrets (im_keys secrets)))"
  proof (rule read_loop_closed)
    show "set (?deps j sd) \<inter> set (im_keys all) \<subseteq> set (im_keys secrets)"
      if "j \<notin> set (im_keys secrets)" "im_get secrets j = Some sd" for j sd
      using that by (auto simp: im_has_iff simp flip: im_has_def)
  qed (use assms(3) run in simp)
  ultimately show ?thesis unfolding run by blast
qed

end
