(* ===== verification/Levels.thy ===== *)
theory Levels
  imports Prelude "HOL-Library.Multiset"
begin

text \<open>
  The order in which a batch of secrets is resolved: \<open>compute_resolution_levels\<close>, Kahn's
  algorithm over the dependency lists of the secrets. The maps and the set of remaining keys are
  hash tables in the code; the order in which the set is walked is given by \<open>rank\<close>, a parameter
  about which nothing is assumed. \<open>level_spec\<close> says which secrets stand in which level without
  any degrees or dependents, and the loop is shown to satisfy it, for every order.
\<close>

type_synonym deps = "(string, string list) imap"

definition counts :: "string list \<Rightarrow> string \<Rightarrow> string \<Rightarrow> bool" where
  \<comment> \<open>the test of the inner loop: the dependency is a secret of the batch, and another one\<close>
  "counts all_keys key dep_env \<longleftrightarrow> dep_env \<in> set all_keys \<and> dep_env \<noteq> key"

definition dependents_of :: "deps \<Rightarrow> string \<Rightarrow> string list" where
  "dependents_of dependents k = (case im_get dependents k of Some ks \<Rightarrow> ks | None \<Rightarrow> [])"

definition add_dependency ::
  "string list \<Rightarrow> string \<Rightarrow> string \<Rightarrow> nat \<times> deps \<Rightarrow> nat \<times> deps" where
  "add_dependency all_keys key dep_env = (\<lambda>(degree, dependents).
     if counts all_keys key dep_env
     then (degree + 1, im_insert dep_env (dependents_of dependents dep_env @ [key]) dependents)
     else (degree, dependents))"

definition add_secret ::
  "string list \<Rightarrow> string \<times> string list \<Rightarrow> (string, nat) imap \<times> deps \<Rightarrow> (string, nat) imap \<times> deps" where
  "add_secret all_keys = (\<lambda>(key, deps) (in_degree, dependents).
     let (degree, dependents') = fold (add_dependency all_keys key) deps (0, dependents)
     in (im_insert key degree in_degree, dependents'))"

definition dependency_graph :: "string list \<Rightarrow> deps \<Rightarrow> (string, nat) imap \<times> deps" where
  "dependency_graph all_keys deps_for_secret = fold (add_secret all_keys) deps_for_secret ([], [])"

definition add_no_provider :: "string set \<Rightarrow> string list \<Rightarrow> (string, nat) imap \<Rightarrow> (string, nat) imap" where
  "add_no_provider no_provider all_keys in_degree =
     fold (\<lambda>key m. if key \<in> no_provider \<and> \<not> im_has m key then im_insert key 0 m else m) all_keys in_degree"

definition degree_of :: "(string, nat) imap \<Rightarrow> string \<Rightarrow> nat" where
  "degree_of in_degree k = (case im_get in_degree k of Some d \<Rightarrow> d | None \<Rightarrow> 0)"

definition decrement :: "string \<Rightarrow> (string, nat) imap \<Rightarrow> (string, nat) imap" where
  \<comment> \<open>\<open>saturating_sub(1)\<close> is subtraction of natural numbers\<close>
  "decrement dep m = (case im_get m dep of Some d \<Rightarrow> im_insert dep (d - 1) m | None \<Rightarrow> m)"

definition release :: "deps \<Rightarrow> string list \<Rightarrow> (string, nat) imap \<Rightarrow> (string, nat) imap" where
  "release dependents ready m = fold (\<lambda>key. fold decrement (dependents_of dependents key)) ready m"

function kahn_loop ::
  "(string \<Rightarrow> nat) \<Rightarrow> deps \<Rightarrow> string list \<Rightarrow> (string, nat) imap \<Rightarrow> string list list \<Rightarrow>
   string list list \<times> string list" where
  "kahn_loop rank dependents remaining in_degree levels =
     (let ready = filter (\<lambda>k. degree_of in_degree k = 0) (sort_key rank remaining)
      in if ready = [] then (levels, sort_key rank remaining)
         else kahn_loop rank dependents (filter (\<lambda>k. k \<notin> set ready) remaining)
                (release dependents ready in_degree) (levels @ [ready]))"
  by pat_completeness auto
termination
proof (relation "measure (\<lambda>(r, d, remaining, i, l). length remaining)", simp)
  fix rank dependents remaining in_degree and levels :: "string list list" and ready
  assume ready: "ready = filter (\<lambda>k. degree_of in_degree k = 0) (sort_key rank remaining)"
    and nonempty: "ready \<noteq> []"
  from nonempty obtain k where "k \<in> set ready" by (cases ready) auto
  moreover have "k \<in> set remaining" using calculation ready by simp
  ultimately have "length (filter (\<lambda>k. k \<notin> set ready) remaining) < length remaining"
    by (auto intro: length_filter_less)
  then show "((rank, dependents, filter (\<lambda>k. k \<notin> set ready) remaining,
        release dependents ready in_degree, levels @ [ready]),
      (rank, dependents, remaining, in_degree, levels))
      \<in> measure (\<lambda>(r, d, remaining, i, l). length remaining)" by simp
qed

declare kahn_loop.simps [simp del]

definition compute_resolution_levels ::
  "(string \<Rightarrow> nat) \<Rightarrow> string list \<Rightarrow> deps \<Rightarrow> string set \<Rightarrow> string list list \<times> string list" where
  "compute_resolution_levels rank all_keys deps_for_secret no_provider =
     (let (degrees, dependents) = dependency_graph all_keys deps_for_secret;
          in_degree = add_no_provider no_provider all_keys degrees
      in kahn_loop rank dependents (im_keys in_degree) in_degree [])"

subsection \<open>What the levels are\<close>

definition depends :: "string list \<Rightarrow> deps \<Rightarrow> string \<Rightarrow> string set" where
  "depends all_keys deps_for_secret k =
     {d \<in> set (dependents_of deps_for_secret k). counts all_keys k d}"

fun level_spec ::
  "(string \<Rightarrow> string set) \<Rightarrow> string set \<Rightarrow> string set \<Rightarrow> string list list \<Rightarrow> string set \<Rightarrow> bool" where
  "level_spec D remaining resolved [] leftover \<longleftrightarrow>
     leftover = remaining \<and> (\<forall>k \<in> remaining. \<not> D k \<subseteq> resolved)"
| "level_spec D remaining resolved (l # ls) leftover \<longleftrightarrow>
     l \<noteq> [] \<and> distinct l \<and> set l = {k \<in> remaining. D k \<subseteq> resolved} \<and>
     level_spec D (remaining - set l) (resolved \<union> set l) ls leftover"

subsection \<open>The graph\<close>

lemma dependents_of_insert [simp]:
  "dependents_of (im_insert k v m) j = (if j = k then v else dependents_of m j)"
  by (simp add: dependents_of_def im_get_insert)

lemma add_dependency_simps:
  "counts all key d \<Longrightarrow> add_dependency all key d (n, g) = (Suc n, im_insert d (dependents_of g d @ [key]) g)"
  "\<not> counts all key d \<Longrightarrow> add_dependency all key d (n, g) = (n, g)"
  by (simp_all add: add_dependency_def)

lemma add_dependencies:
  "fold (add_dependency all key) ds (n, g) = (n', g') \<Longrightarrow>
   n' = n + length (filter (counts all key) ds) \<and>
   count_list (dependents_of g' d) k =
     count_list (dependents_of g d) k + (if k = key then count_list (filter (counts all key) ds) d else 0)"
proof (induction ds arbitrary: n g)
  case (Cons x ds)
  show ?case
  proof (cases "counts all key x")
    case True
    then show ?thesis
      using Cons.IH [of "Suc n" "im_insert x (dependents_of g x @ [key]) g"] Cons.prems
      by (simp add: add_dependency_simps)
  next
    case False
    then show ?thesis using Cons.IH [of n g] Cons.prems by (simp add: add_dependency_simps)
  qed
qed simp

lemma dependency_graph_correct:
  assumes "im_wf deps" and "dependency_graph all deps = (m, g)"
  shows "set (im_keys m) = set (im_keys deps) \<and> im_wf m \<and>
         degree_of m k = length (filter (counts all k) (dependents_of deps k)) \<and>
         count_list (dependents_of g d) k = count_list (filter (counts all k) (dependents_of deps k)) d"
  using assms
proof (induction deps arbitrary: m g rule: rev_induct)
  case Nil
  then show ?case by (simp add: dependency_graph_def degree_of_def dependents_of_def)
next
  case (snoc x deps)
  obtain key ds where x: "x = (key, ds)" by fastforce
  obtain m0 g0 where prev: "dependency_graph all deps = (m0, g0)" by fastforce
  obtain n g1 where step: "fold (add_dependency all key) ds (0, g0) = (n, g1)" by fastforce
  have m: "m = im_insert key n m0" and g: "g = g1"
    using snoc.prems(2) prev step by (simp_all add: dependency_graph_def add_secret_def x)
  have wf: "im_wf deps" "key \<notin> set (im_keys deps)"
    using snoc.prems(1) by (auto simp: im_wf_def im_keys_def x)
  note IH = snoc.IH [OF wf(1) prev]
  note added = add_dependencies [OF step, of d k]
  have "im_get deps key = None" using wf(2) im_has_None [of deps key] by (simp add: im_has_def)
  then have deps: "dependents_of (deps @ [x]) j = (if j = key then ds else dependents_of deps j)" for j
    by (auto simp: dependents_of_def im_get_def x map_add_def split: option.splits)
  have "dependents_of deps key = []" using \<open>im_get deps key = None\<close> by (simp add: dependents_of_def)
  then have "k = key \<Longrightarrow> count_list (dependents_of g0 d) k = 0" using IH by auto
  moreover have "set (im_keys m) = set (im_keys (deps @ [x]))"
  proof -
    have "im_keys (deps @ [x]) = im_keys deps @ [key]" by (simp add: x im_keys_def)
    moreover have "set (im_keys m) = insert key (set (im_keys m0))"
      unfolding m by (auto simp: im_keys_insert im_has_def)
    ultimately show ?thesis using IH by simp
  qed
  moreover have "im_wf m" using IH by (simp add: m im_wf_insert)
  moreover have "count_list (dependents_of g' d) k = count_list (filter (counts all k) (dependents_of (deps @ [x]) k)) d"
    if "g' = g1" for g'
    using IH added \<open>dependents_of deps key = []\<close> unfolding deps that by (cases "k = key") simp_all
  moreover have "degree_of m k = length (filter (counts all k) (dependents_of (deps @ [x]) k))"
    using IH added unfolding deps by (simp add: m degree_of_def im_get_insert)
  ultimately show ?case unfolding g by blast
qed

lemma add_no_provider_correct:
  "im_wf m \<Longrightarrow>
   im_wf (add_no_provider np all m) \<and>
   set (im_keys (add_no_provider np all m)) = set (im_keys m) \<union> (set all \<inter> np) \<and>
   degree_of (add_no_provider np all m) k = degree_of m k"
proof (induction all arbitrary: m)
  case (Cons a all)
  let ?m = "if a \<in> np \<and> \<not> im_has m a then im_insert a 0 m else m"
  have wf: "im_wf ?m" using Cons.prems by (simp add: im_wf_insert)
  have keys: "set (im_keys ?m) = set (im_keys m) \<union> ({a} \<inter> np)"
    by (auto simp: im_keys_insert im_has_def)
  have "degree_of ?m k = degree_of m k"
    using im_has_None [of m a] by (auto simp: degree_of_def im_get_insert)
  then show ?case
    using Cons.IH [OF wf] keys by (auto simp: add_no_provider_def)
qed (simp add: add_no_provider_def)

lemma degree_decrement: "degree_of (decrement d m) k = degree_of m k - (if k = d then 1 else 0)"
  by (auto simp: decrement_def degree_of_def im_get_insert split: option.splits)

lemma degree_decrements: "degree_of (fold decrement ds m) k = degree_of m k - count_list ds k"
  by (induction ds arbitrary: m) (auto simp: degree_decrement)

lemma degree_release:
  "degree_of (release g ready m) k = degree_of m k - sum_list (map (\<lambda>r. count_list (dependents_of g r) k) ready)"
  by (induction ready arbitrary: m) (auto simp: release_def degree_decrements)

lemma count_list_members:
  "distinct rs \<Longrightarrow> sum_list (map (count_list xs) rs) = length (filter (\<lambda>x. x \<in> set rs) xs)"
proof (induction rs)
  case (Cons r rs)
  have "count_list xs r + length (filter (\<lambda>x. x \<in> set rs) xs) = length (filter (\<lambda>x. x = r \<or> x \<in> set rs) xs)"
    using Cons.prems by (induction xs) auto
  with Cons show ?case by simp
qed simp

lemma filter_remove_length:
  "length (filter (\<lambda>x. P x \<and> x \<notin> A) xs) - length (filter (\<lambda>x. P x \<and> x \<notin> A \<and> x \<in> R) xs)
   = length (filter (\<lambda>x. P x \<and> x \<notin> A \<union> R) xs)"
proof -
  have "length (filter (\<lambda>x. P x \<and> x \<notin> A) xs) =
      length (filter (\<lambda>x. P x \<and> x \<notin> A \<union> R) xs) + length (filter (\<lambda>x. P x \<and> x \<notin> A \<and> x \<in> R) xs)"
    by (induction xs) auto
  then show ?thesis by simp
qed

subsection \<open>The loop\<close>

definition kahn_inv :: "string list \<Rightarrow> deps \<Rightarrow> deps \<Rightarrow> (string, nat) imap \<Rightarrow> string set \<Rightarrow> bool" where
  "kahn_inv all deps g m resolved \<longleftrightarrow>
     (\<forall>k. degree_of m k = length (filter (\<lambda>d. counts all k d \<and> d \<notin> resolved) (dependents_of deps k))) \<and>
     (\<forall>d k. count_list (dependents_of g d) k = count_list (filter (counts all k) (dependents_of deps k)) d)"

lemma kahn_inv_ready:
  "kahn_inv all deps g m resolved \<Longrightarrow> degree_of m k = 0 \<longleftrightarrow> depends all deps k \<subseteq> resolved"
  by (auto simp: kahn_inv_def depends_def filter_empty_conv)

lemma kahn_inv_release:
  assumes "kahn_inv all deps g m resolved" and "distinct ready" and "set ready \<inter> resolved = {}"
  shows "kahn_inv all deps g (release g ready m) (resolved \<union> set ready)"
proof -
  have "degree_of (release g ready m) k =
      length (filter (\<lambda>d. counts all k d \<and> d \<notin> resolved \<union> set ready) (dependents_of deps k))" for k
  proof -
    have "map (\<lambda>r. count_list (dependents_of g r) k) ready
        = map (count_list (filter (counts all k) (dependents_of deps k))) ready"
      using assms(1) by (simp add: kahn_inv_def)
    then have "sum_list (map (\<lambda>r. count_list (dependents_of g r) k) ready)
        = length (filter (\<lambda>x. x \<in> set ready) (filter (counts all k) (dependents_of deps k)))"
      using count_list_members [OF assms(2)] by metis
    also have "filter (\<lambda>x. x \<in> set ready) (filter (counts all k) (dependents_of deps k))
        = filter (\<lambda>d. counts all k d \<and> d \<notin> resolved \<and> d \<in> set ready) (dependents_of deps k)"
      unfolding filter_filter by (rule filter_cong) (use assms(3) in auto)
    finally show ?thesis
      using assms(1) filter_remove_length [of "counts all k" resolved "dependents_of deps k" "set ready"]
      by (simp add: degree_release kahn_inv_def)
  qed
  with assms(1) show ?thesis by (simp add: kahn_inv_def)
qed

lemma kahn_loop_levels:
  assumes "kahn_inv all deps g m resolved" and "distinct remaining" and "set remaining \<inter> resolved = {}"
    and "kahn_loop rank g remaining m levels = (levels', cycle)"
  shows "\<exists>new. levels' = levels @ new \<and> distinct cycle \<and>
           level_spec (depends all deps) (set remaining) resolved new (set cycle)"
  using assms
proof (induction rank g remaining m levels arbitrary: resolved rule: kahn_loop.induct)
  case (1 rank g remaining m levels)
  define ready where "ready = filter (\<lambda>k. degree_of m k = 0) (sort_key rank remaining)"
  have set_ready: "set ready = {k \<in> set remaining. depends all deps k \<subseteq> resolved}"
    using kahn_inv_ready [OF 1(2)] by (auto simp: ready_def)
  have "distinct ready" using 1(3) by (simp add: ready_def)
  show ?case
  proof (cases "ready = []")
    case True
    then have "levels' = levels" "cycle = sort_key rank remaining"
      using 1(5) by (simp_all add: kahn_loop.simps [of rank g remaining m levels] Let_def ready_def)
    moreover have "\<not> depends all deps k \<subseteq> resolved" if "k \<in> set remaining" for k
      using set_ready that True by auto
    ultimately show ?thesis using 1(3) by auto
  next
    case False
    let ?rest = "filter (\<lambda>k. k \<notin> set ready) remaining"
    have rec: "kahn_loop rank g ?rest (release g ready m) (levels @ [ready]) = (levels', cycle)"
      using 1(5) False by (simp add: kahn_loop.simps [of rank g remaining m levels] Let_def ready_def)
    have "set ready \<inter> resolved = {}" using set_ready 1(4) by auto
    then have "kahn_inv all deps g (release g ready m) (resolved \<union> set ready)"
      using kahn_inv_release [OF 1(2) \<open>distinct ready\<close>] by simp
    moreover have "distinct ?rest" using 1(3) by simp
    moreover have "set ?rest \<inter> (resolved \<union> set ready) = {}" using 1(4) by auto
    ultimately obtain new where "levels' = (levels @ [ready]) @ new" "distinct cycle"
      and "level_spec (depends all deps) (set ?rest) (resolved \<union> set ready) new (set cycle)"
      using 1(1) [OF ready_def False _ _ _ rec] by blast
    moreover have "set ?rest = set remaining - set ready" by auto
    ultimately have "levels' = levels @ ready # new \<and> distinct cycle \<and>
        level_spec (depends all deps) (set remaining) resolved (ready # new) (set cycle)"
      using set_ready False \<open>distinct ready\<close> by simp
    then show ?thesis by blast
  qed
qed

lemma compute_levels_spec:
  assumes "im_wf deps"
    and "compute_resolution_levels rank all deps np = (levels, cycle)"
  shows "level_spec (depends all deps) (set (im_keys deps) \<union> (set all \<inter> np)) {} levels (set cycle) \<and> distinct cycle"
proof -
  obtain m g where graph: "dependency_graph all deps = (m, g)" by fastforce
  note m = dependency_graph_correct [OF assms(1) graph]
  then have wf: "im_wf m" by blast
  note np = add_no_provider_correct [OF wf, of np all]
  have "kahn_inv all deps g (add_no_provider np all m) {}"
    using m np by (simp add: kahn_inv_def)
  moreover have "distinct (im_keys (add_no_provider np all m))" using np by (simp add: im_wf_def)
  moreover have "kahn_loop rank g (im_keys (add_no_provider np all m)) (add_no_provider np all m) [] = (levels, cycle)"
    using assms(2) by (simp add: compute_resolution_levels_def graph Let_def)
  ultimately show ?thesis
    using kahn_loop_levels [of all deps g "add_no_provider np all m" "{}" _ rank "[]"] m np by fastforce
qed


subsection \<open>Consequences\<close>

definition covered :: "string list \<Rightarrow> deps \<Rightarrow> string set \<Rightarrow> bool" where
  \<comment> \<open>how the caller fills the maps: every secret either has a provider, and then an entry among
     the dependency lists, or none; only secrets have entries\<close>
  "covered all_keys deps_for_secret no_provider \<longleftrightarrow>
     im_wf deps_for_secret \<and> distinct all_keys \<and>
     set all_keys = set (im_keys deps_for_secret) \<union> (set all_keys \<inter> no_provider)"

lemma level_spec_ConsD:
  assumes "level_spec D rem res (l # ls) left"
  shows "l \<noteq> []" "distinct l" "set l \<subseteq> rem" "\<forall>k \<in> set l. D k \<subseteq> res"
    "set l = {k \<in> rem. D k \<subseteq> res}" "level_spec D (rem - set l) (res \<union> set l) ls left"
  using assms unfolding level_spec.simps by blast+

lemma level_spec_partition:
  "level_spec D rem res levels left \<Longrightarrow> rem \<inter> res = {} \<Longrightarrow>
   distinct (concat levels) \<and> set (concat levels) \<union> left = rem \<and> set (concat levels) \<inter> left = {}"
proof (induction levels arbitrary: rem res)
  case (Cons l ls)
  note l = level_spec_ConsD [OF Cons.prems(1)]
  from Cons.IH [OF l(6)] Cons.prems(2) have
    "distinct (concat ls) \<and> set (concat ls) \<union> left = rem - set l \<and> set (concat ls) \<inter> left = {}" by blast
  with l(2,3) show ?case by auto
qed simp

lemma level_spec_before:
  "level_spec D rem res levels left \<Longrightarrow> i < length levels \<Longrightarrow> k \<in> set (levels ! i) \<Longrightarrow>
   D k \<subseteq> res \<union> set (concat (take i levels))"
proof (induction levels arbitrary: rem res i)
  case (Cons l ls)
  note l = level_spec_ConsD [OF Cons.prems(1)]
  show ?case
  proof (cases i)
    case 0
    then show ?thesis using Cons.prems(3) l(4) by auto
  next
    case (Suc j)
    then have "D k \<subseteq> (res \<union> set l) \<union> set (concat (take j ls))"
      using Cons.prems(2,3) by (intro Cons.IH [OF l(6)]) auto
    then show ?thesis using Suc by auto
  qed
qed simp

lemma level_spec_blocked:
  "level_spec D rem res levels left \<Longrightarrow> k \<in> left \<Longrightarrow> \<not> D k \<subseteq> res \<union> set (concat levels)"
proof (induction levels arbitrary: rem res)
  case (Cons l ls)
  from Cons.IH [OF level_spec_ConsD(6) [OF Cons.prems(1)] Cons.prems(2)]
  show ?case by (simp add: Un_assoc)
qed simp

lemma level_spec_unique:
  "level_spec D rem res l1 left1 \<Longrightarrow> level_spec D rem res l2 left2 \<Longrightarrow>
   map set l1 = map set l2 \<and> left1 = left2"
proof (induction l1 arbitrary: rem res l2)
  case Nil
  then show ?case
  proof (cases l2)
    case (Cons l ls)
    note l = level_spec_ConsD [OF Nil.prems(2) [unfolded Cons]]
    from l(1) obtain k where "k \<in> set l" by (cases l) auto
    then have False using l(3,4) Nil.prems(1) unfolding level_spec.simps by blast
    then show ?thesis ..
  qed auto
next
  case (Cons a l1)
  note a = level_spec_ConsD [OF Cons.prems(1)]
  show ?case
  proof (cases l2)
    case Nil
    from a(1) obtain k where "k \<in> set a" by (cases a) auto
    then have False using a(3,4) Cons.prems(2) unfolding Nil level_spec.simps by blast
    then show ?thesis ..
  next
    case (Cons b l2')
    note b = level_spec_ConsD [OF Cons.prems(2) [unfolded Cons]]
    have ab: "set a = set b" unfolding a(5) b(5) ..
    from b(6) have "level_spec D (rem - set a) (res \<union> set a) l2' left2" unfolding ab .
    from Cons.IH [OF a(6) this] show ?thesis using Cons ab by simp
  qed
qed

lemma covered_levels:
  assumes "covered all deps np" and "compute_resolution_levels rank all deps np = (levels, cycle)"
  shows "level_spec (depends all deps) (set all) {} levels (set cycle)" and "distinct cycle"
proof -
  have "set (im_keys deps) \<union> (set all \<inter> np) = set all" and wf: "im_wf deps"
    using assms(1) unfolding covered_def by blast+
  then show "level_spec (depends all deps) (set all) {} levels (set cycle)" and "distinct cycle"
    using compute_levels_spec [OF wf assms(2)] by auto
qed

text \<open>C15: A batch is resolved in an order that respects its dependencies, for every hash order:
  the levels and the leftover list partition the secrets of the batch, every secret stands in a
  level after all the secrets it depends on, and every leftover secret depends on another leftover
  secret.\<close>

theorem levels_respect_dependencies:
  assumes "covered all deps np" and "compute_resolution_levels rank all deps np = (levels, cycle)"
  shows "mset (concat levels @ cycle) = mset all \<and>
         {(i, k, d). i < length levels \<and> k \<in> set (levels ! i) \<and> d \<in> depends all deps k
                     \<and> d \<notin> set (concat (take i levels))} = {} \<and>
         {k \<in> set cycle. depends all deps k \<inter> set cycle = {}} = {}"
proof -
  note spec = covered_levels(1) [OF assms] and part = level_spec_partition [OF covered_levels(1) [OF assms]]
  have "distinct (concat levels @ cycle)" using part covered_levels(2) [OF assms] by simp
  moreover have "set (concat levels @ cycle) = set all" using part by auto
  ultimately have "mset (concat levels @ cycle) = mset all"
    using assms(1) set_eq_iff_mset_eq_distinct unfolding covered_def by blast
  moreover have "depends all deps k \<subseteq> set all" for k by (auto simp: depends_def counts_def)
  then have "{k \<in> set cycle. depends all deps k \<inter> set cycle = {}} = {}"
    using level_spec_blocked [OF spec] part by fastforce
  ultimately show ?thesis using level_spec_before [OF spec] by fastforce
qed

definition demo_deps :: deps where
  "demo_deps = [(''OP'', []), (''DB'', [''OP_TOKEN'']), (''URL'', [''DB'', ''HOME'']), (''A'', [''B'']), (''B'', [''A'', ''A''])]"

definition demo_keys :: "string list" where
  "demo_keys = [''OP'', ''OP_TOKEN'', ''DB'', ''URL'', ''A'', ''B'']"

lemma demo_covered: "covered demo_keys demo_deps {''OP_TOKEN''}"
  by code_simp

theorem levels_respect_dependencies_witness:
  "mset (concat [[''OP'', ''OP_TOKEN''], [''DB''], [''URL'']] @ [''A'', ''B'']) = mset demo_keys \<and>
   {(i, k, d). i < length [[''OP'', ''OP_TOKEN''], [''DB''], [''URL'']] \<and>
      k \<in> set ([[''OP'', ''OP_TOKEN''], [''DB''], [''URL'']] ! i) \<and> d \<in> depends demo_keys demo_deps k \<and>
      d \<notin> set (concat (take i [[''OP'', ''OP_TOKEN''], [''DB''], [''URL'']]))} = {} \<and>
   {k \<in> set [''A'', ''B'']. depends demo_keys demo_deps k \<inter> set [''A'', ''B''] = {}} = {}"
  by (rule levels_respect_dependencies [OF demo_covered, where rank = length]) code_simp

lemma spec_without_leftovers_acyclic:
  assumes "level_spec D all {} levels {}"
  shows "acyclic {(k, d). k \<in> all \<and> d \<in> D k}"
proof -
  define idx where "idx k = (LEAST i. i < length levels \<and> k \<in> set (levels ! i))" for k
  have "(d, k) \<in> measure idx" if "k \<in> all" "d \<in> D k" for k d
  proof -
    have "k \<in> set (concat levels)" using level_spec_partition [OF assms] that(1) by auto
    then obtain l where "l \<in> set levels" "k \<in> set l" by auto
    then have "\<exists>i. i < length levels \<and> k \<in> set (levels ! i)" by (metis in_set_conv_nth)
    then have i: "idx k < length levels \<and> k \<in> set (levels ! idx k)"
      unfolding idx_def by (rule LeastI_ex)
    then have "d \<in> set (concat (take (idx k) levels))"
      using level_spec_before [OF assms, of "idx k" k] that(2) by auto
    then obtain l where l: "l \<in> set (take (idx k) levels)" "d \<in> set l" by auto
    then obtain j where "j < idx k" "j < length levels" "d \<in> set (levels ! j)"
      using in_set_conv_nth [of l "take (idx k) levels"] by auto
    then have "idx d \<le> j" unfolding idx_def by (intro Least_le) simp
    with \<open>j < idx k\<close> show ?thesis by simp
  qed
  then have "{(k, d). k \<in> all \<and> d \<in> D k}\<inverse> \<subseteq> measure idx" by auto
  then have "acyclic ({(k, d). k \<in> all \<and> d \<in> D k}\<inverse>)"
    using wf_subset [OF wf_measure] wf_acyclic by blast
  then show ?thesis by simp
qed

lemma spec_leftovers_cyclic:
  assumes "level_spec D all {} levels left" and "left \<noteq> {}" and "finite all" and "\<And>k. D k \<subseteq> all"
  shows "\<not> acyclic {(k, d). k \<in> all \<and> d \<in> D k}"
proof
  let ?R = "{(k, d). k \<in> all \<and> d \<in> D k}"
  assume "acyclic ?R"
  moreover have "?R \<subseteq> all \<times> all" using assms(4) by auto
  then have "finite ?R" using assms(3) finite_subset by blast
  ultimately have "wf (?R\<inverse>)" using finite_acyclic_wf_converse by blast
  obtain q where "q \<in> left" using assms(2) by auto
  with \<open>wf (?R\<inverse>)\<close> obtain k where k: "k \<in> left" "\<And>d. (d, k) \<in> ?R\<inverse> \<Longrightarrow> d \<notin> left"
    by (rule wfE_min) blast
  note part = level_spec_partition [OF assms(1)]
  have "\<not> D k \<subseteq> set (concat levels)" using level_spec_blocked [OF assms(1) k(1)] by simp
  then obtain d where d: "d \<in> D k" "d \<in> left" using part assms(4) [of k] by blast
  moreover have "k \<in> all" using part k(1) by blast
  ultimately have "(d, k) \<in> ?R\<inverse>" by simp
  with k(2) d(2) show False by blast
qed

text \<open>Secrets are left over exactly when some secrets depend on each other in a circle, and
  neither the members of a level nor the leftover secrets depend on the order of a hash table.\<close>

lemma leftovers_are_cycles:
  assumes "covered all deps np"
  shows "(snd (compute_resolution_levels rank all deps np) = [] \<longleftrightarrow>
           acyclic {(k, d). k \<in> set all \<and> d \<in> depends all deps k}) \<and>
         map set (fst (compute_resolution_levels rank all deps np))
           = map set (fst (compute_resolution_levels rank' all deps np)) \<and>
         set (snd (compute_resolution_levels rank all deps np))
           = set (snd (compute_resolution_levels rank' all deps np))"
proof -
  obtain ls c ls' c' where runs: "compute_resolution_levels rank all deps np = (ls, c)"
    "compute_resolution_levels rank' all deps np = (ls', c')" by fastforce
  note spec = covered_levels(1) [OF assms runs(1)] and spec' = covered_levels(1) [OF assms runs(2)]
  have "depends all deps k \<subseteq> set all" for k by (auto simp: depends_def counts_def)
  then have "set c \<noteq> {} \<Longrightarrow> \<not> acyclic {(k, d). k \<in> set all \<and> d \<in> depends all deps k}"
    using spec_leftovers_cyclic [OF spec] by simp
  moreover have "set c = {} \<Longrightarrow> acyclic {(k, d). k \<in> set all \<and> d \<in> depends all deps k}"
    using spec by (intro spec_without_leftovers_acyclic [of _ _ ls]) simp
  ultimately have "c = [] \<longleftrightarrow> acyclic {(k, d). k \<in> set all \<and> d \<in> depends all deps k}"
    unfolding set_empty [symmetric, of c] by blast
  with level_spec_unique [OF spec spec'] show ?thesis by (simp add: runs)
qed

end
