(* ===== verification/Resolver.thy ===== *)
theory Resolver
  imports Closure Levels
begin

text \<open>
  The resolution of secrets: one secret with its provider, default and environment, and a batch in
  dependency levels with one provider call per level and provider. Hash tables are walked in the
  order of \<open>sv_rank\<close>. Work that the code runs concurrently (the provider batches of a level, and
  its secrets without provider) is run to the end one after the other, in that order: every such
  task finishes before the first error is returned, as the collected stream does. Log output is
  not modelled. \<open>with_decrypt_scope\<close> only groups age prompts and is transparent here.
\<close>

subsection \<open>Missing secrets\<close>

definition lower_char :: "char \<Rightarrow> char" where
  "lower_char ch =
     (if is_upper ch \<or> (of_char ch \<in> {0xC0..0xDE :: nat} \<and> of_char ch \<noteq> (0xD7 :: nat))
      then char_of (of_char ch + 32 :: nat) else ch)"

definition to_lowercase :: "string \<Rightarrow> string" where
  "to_lowercase s = map lower_char s"

definition parse_if_missing :: "string \<Rightarrow> if_missing" where
  "parse_if_missing value =
     (let v = to_lowercase value
      in if v = ''error'' then IfError else if v = ''warn'' then IfWarn
         else if v = ''ignore'' then IfIgnore else IfWarn)"

definition resolve_if_missing_behavior ::
  "('p, 'w) services \<Rightarrow> secret_config \<Rightarrow> ('p, 'l) config \<Rightarrow> if_missing" where
  "resolve_if_missing_behavior S sc c =
     (let flag = (case sv_settings S of Some (v, _) \<Rightarrow> map_option parse_if_missing v | None \<Rightarrow> None);
          dflt = (case sv_settings S of Some (_, d) \<Rightarrow> map_option parse_if_missing d | None \<Rightarrow> None)
      in case or_else flag (or_else (s_if_missing sc) (or_else (c_if_missing c) dflt)) of
           Some m \<Rightarrow> m
         | None \<Rightarrow> IfWarn)"

definition handle_provider_error :: "fnox_error \<Rightarrow> if_missing \<Rightarrow> fnox_error option" where
  "handle_provider_error e m = (case m of IfError \<Rightarrow> Some e | IfWarn \<Rightarrow> None | IfIgnore \<Rightarrow> None)"

definition handle_missing_secret ::
  "('p, 'w) services \<Rightarrow> string \<Rightarrow> secret_config \<Rightarrow> ('p, 'l) config \<Rightarrow> fnox_error + string option" where
  "handle_missing_secret S key sc c =
     (case resolve_if_missing_behavior S sc c of
        IfError \<Rightarrow> Inl (ConfigError (SecretNotFound key))
      | IfWarn \<Rightarrow> Inr None
      | IfIgnore \<Rightarrow> Inr None)"

definition create_provider_not_configured_error ::
  "('p, 'w) services \<Rightarrow> string \<Rightarrow> string list \<Rightarrow> secret_config \<Rightarrow> ('p, 'l) config \<Rightarrow> fnox_error" where
  "create_provider_not_configured_error S name ps sc c =
     (let providers = (case get_providers c ps of Inr m \<Rightarrow> m | Inl _ \<Rightarrow> []);
          suggestion = sv_suggest S name (im_keys providers);
          span = (case s_provider sc of Some p \<Rightarrow> sv_span p | None \<Rightarrow> None);
          basic = ProviderNotConfigured name (join '','' ps) (s_source_path sc) suggestion
      in case (s_source_path sc, span) of
           (Some path, Some sp) \<Rightarrow>
             (if get_named_source (sv_sources S) path \<noteq> None
              then ProviderNotConfiguredWithSource name (join '','' ps) suggestion path sp
              else basic)
         | _ \<Rightarrow> basic)"

subsection \<open>Defaults\<close>

definition resolve_default_value ::
  "('p, 'w) services \<Rightarrow> string list \<Rightarrow> string \<Rightarrow> secret_config \<Rightarrow> vals \<Rightarrow> fnox_error + string option" where
  "resolve_default_value S ps key sc resolved_so_far =
     (case s_default sc of
        None \<Rightarrow> Inr None
      | Some dflt \<Rightarrow>
          bind_sum (rendered_default S ps key dflt) (\<lambda>dflt.
          bind_sum (if has_default_interpolation dflt
                    then render_default_template key dflt resolved_so_far else Inr dflt) (\<lambda>v.
          bind_sum (apply_post_processing (sv_json S) v sc) (\<lambda>v. Inr (Some v)))))"

definition index :: "secrets \<Rightarrow> string \<Rightarrow> fnox_error + secret_config" where
  \<comment> \<open>\<open>&secrets[key]\<close>\<close>
  "index secrets key = (case im_get secrets key of Some sc \<Rightarrow> Inr sc | None \<Rightarrow> Inl (Panicked key))"

fun index_all :: "secrets \<Rightarrow> string list \<Rightarrow> fnox_error + (string \<times> secret_config) list" where
  "index_all secrets [] = Inr []"
| "index_all secrets (k # ks) =
     bind_sum (index secrets k) (\<lambda>sc. bind_sum (index_all secrets ks) (\<lambda>r. Inr ((k, sc) # r)))"

record fallback_state =
  fb_context :: vals
  fb_results :: vals
  fb_resolved :: "string list"
  fb_progressed :: bool
  fb_next :: "(string \<times> secret_config) list"

definition fallback_refs :: "('p, 'w) services \<Rightarrow> string list \<Rightarrow> string \<times> secret_config \<Rightarrow> string list" where
  "fallback_refs S ps = (\<lambda>(key, sc).
     case s_default sc of Some dflt \<Rightarrow> default_references S ps key dflt | None \<Rightarrow> [])"

definition fallback_step ::
  "('p, 'w) services \<Rightarrow> string list \<Rightarrow> string list \<Rightarrow> string \<times> secret_config \<Rightarrow> fallback_state \<Rightarrow>
   fnox_error + fallback_state" where
  "fallback_step S ps pending_set entry st =
     (let refs = fallback_refs S ps entry; ctx = fb_context st
      in if list_ex (\<lambda>r. \<not> im_has ctx r \<and> r \<notin> set pending_set) refs then Inr st
         else if list_ex (\<lambda>r. r \<in> set pending_set \<and> \<not> im_has ctx r) refs
         then Inr (st\<lparr>fb_next := fb_next st @ [entry]\<rparr>)
         else bind_sum (resolve_default_value S ps (fst entry) (snd entry) ctx) (\<lambda>v.
                case v of
                  None \<Rightarrow> Inr st
                | Some v \<Rightarrow> Inr (st\<lparr>fb_results := im_insert (fst entry) (Some v) (fb_results st),
                                    fb_context := im_insert (fst entry) (Some v) ctx,
                                    fb_resolved := fb_resolved st @ [fst entry],
                                    fb_progressed := True\<rparr>)))"

fun fallback_pass ::
  "('p, 'w) services \<Rightarrow> string list \<Rightarrow> string list \<Rightarrow> (string \<times> secret_config) list \<Rightarrow> fallback_state \<Rightarrow>
   fnox_error + fallback_state" where
  "fallback_pass S ps pending_set [] st = Inr st"
| "fallback_pass S ps pending_set (e # es) st =
     bind_sum (fallback_step S ps pending_set e st) (fallback_pass S ps pending_set es)"

lemma three_ways: "(if A then a else if B then b else m) = c \<Longrightarrow> A \<and> a = c \<or> B \<and> b = c \<or> \<not> A \<and> \<not> B \<and> m = c"
  by (simp split: if_splits)

lemma fallback_step_cases:
  assumes "fallback_step S ps pset e st = Inr st'"
  shows "st' = st \<or> st' = st\<lparr>fb_next := fb_next st @ [e]\<rparr> \<or>
    (\<exists>v. resolve_default_value S ps (fst e) (snd e) (fb_context st) = Inr (Some v) \<and>
         list_all (im_has (fb_context st)) (fallback_refs S ps e) \<and>
         st' = st\<lparr>fb_results := im_insert (fst e) (Some v) (fb_results st),
                   fb_context := im_insert (fst e) (Some v) (fb_context st),
                   fb_resolved := fb_resolved st @ [fst e], fb_progressed := True\<rparr>)"
  using three_ways [OF assms [unfolded fallback_step_def Let_def]]
proof (elim disjE)
  assume h: "\<not> list_ex (\<lambda>r. \<not> im_has (fb_context st) r \<and> r \<notin> set pset) (fallback_refs S ps e) \<and>
    \<not> list_ex (\<lambda>r. r \<in> set pset \<and> \<not> im_has (fb_context st) r) (fallback_refs S ps e) \<and>
    bind_sum (resolve_default_value S ps (fst e) (snd e) (fb_context st)) (\<lambda>v. case v of None \<Rightarrow> Inr st
      | Some v \<Rightarrow> Inr (st\<lparr>fb_results := im_insert (fst e) (Some v) (fb_results st),
                   fb_context := im_insert (fst e) (Some v) (fb_context st),
                   fb_resolved := fb_resolved st @ [fst e], fb_progressed := True\<rparr>)) = Inr st'"
  then have "list_all (im_has (fb_context st)) (fallback_refs S ps e)"
    unfolding list_ex_iff list_all_iff by blast
  note refs = this
  note m = conjunct2 [OF conjunct2 [OF h]]
  show ?thesis
  proof (cases "resolve_default_value S ps (fst e) (snd e) (fb_context st)")
    case (Inr v)
    with m refs show ?thesis by (cases v) simp_all
  qed (use m in simp)
qed simp_all

lemma fallback_step_next:
  "fallback_step S ps pset e st = Inr st' \<Longrightarrow>
   length (fb_next st') + (if fb_progressed st' \<and> \<not> fb_progressed st then 1 else 0) \<le> Suc (length (fb_next st)) \<and>
   (fb_progressed st \<longrightarrow> fb_progressed st')"
  by (drule fallback_step_cases) auto

lemma fallback_pass_next:
  "fallback_pass S ps pset es st = Inr st' \<Longrightarrow>
   length (fb_next st') + (if fb_progressed st' \<and> \<not> fb_progressed st then 1 else 0)
     \<le> length es + length (fb_next st) \<and> (fb_progressed st \<longrightarrow> fb_progressed st')"
proof (induction es arbitrary: st)
  case (Cons e es)
  then obtain s1 where s1: "fallback_step S ps pset e st = Inr s1"
    and rest: "fallback_pass S ps pset es s1 = Inr st'" by (auto simp: bind_sum_Inr)
  note a = fallback_step_next [OF s1] and b = Cons.IH [OF rest]
  show ?case
    by (cases "fb_progressed st"; cases "fb_progressed s1"; cases "fb_progressed st'") (use a b in simp_all)
qed simp

function fallback_loop ::
  "('p, 'w) services \<Rightarrow> string list \<Rightarrow> (string \<times> secret_config) list \<Rightarrow> vals \<Rightarrow> vals \<Rightarrow> string list \<Rightarrow>
   fnox_error + string list \<times> vals" where
  "fallback_loop S ps pending ctx results resolved =
     (if pending = [] then Inr (resolved, results)
      else case fallback_pass S ps (map fst pending) pending
             \<lparr>fb_context = ctx, fb_results = results, fb_resolved = resolved,
              fb_progressed = False, fb_next = []\<rparr> of
        Inl e \<Rightarrow> Inl e
      | Inr st \<Rightarrow>
          if \<not> fb_progressed st \<and> fb_next st \<noteq> []
          then Inl (ConfigError (FallbackCycle (join '', '' (map fst (fb_next st)))))
          else fallback_loop S ps (fb_next st) (fb_context st) (fb_results st) (fb_resolved st))"
  by pat_completeness auto
termination
proof (relation "measure (\<lambda>(_, _, pending, _). length pending)", simp)
  fix S :: "('p, 'w) services" and ps pending ctx results resolved st
  assume "pending \<noteq> []"
    and "fallback_pass S ps (map fst pending) pending
           \<lparr>fb_context = ctx, fb_results = results, fb_resolved = resolved,
            fb_progressed = False, fb_next = []\<rparr> = Inr st"
    and "\<not> (\<not> fb_progressed st \<and> fb_next st \<noteq> [])"
  then show "((S, ps, fb_next st, fb_context st, fb_results st, fb_resolved st),
      (S, ps, pending, ctx, results, resolved)) \<in> measure (\<lambda>(_, _, pending, _). length pending)"
    by (auto dest!: fallback_pass_next split: if_splits)
qed

declare fallback_loop.simps [simp del]

definition default_context :: "vals \<Rightarrow> vals \<Rightarrow> vals" where
  "default_context resolved_so_far results = im_extend resolved_so_far results"

definition resolve_default_fallbacks ::
  "('p, 'w) services \<Rightarrow> string list \<Rightarrow> string list \<Rightarrow> secrets \<Rightarrow> vals \<Rightarrow> vals \<Rightarrow> fnox_error + string list \<times> vals" where
  "resolve_default_fallbacks S ps keys secrets resolved_so_far results =
     bind_sum (index_all secrets keys) (\<lambda>entries.
       fallback_loop S ps (filter (\<lambda>(_, sc). s_default sc \<noteq> None) entries)
         (default_context resolved_so_far results) results [])"

subsection \<open>One call to a provider\<close>

definition prompt_and_run_auth ::
  "('p, 'w) services \<Rightarrow> ('p, 'l) config \<Rightarrow> 'p \<Rightarrow> string option \<Rightarrow> fnox_error \<Rightarrow> ('w, bool) effect" where
  "prompt_and_run_auth S c pc auth_command e =
     (if \<not> is_auth_error e then ok False
      else if \<not> should_prompt_auth (sv_env_prompt_auth S) (sv_non_interactive S) (sv_stdin_tty S) c then ok False
      else case sv_default_auth_command S pc auth_command of
             None \<Rightarrow> ok False
           | Some cmd \<Rightarrow>
               andThen (sv_confirm S cmd) (\<lambda>confirmed.
                 if \<not> confirmed then ok False
                 else andThen (sv_run S cmd) (\<lambda>code.
                        if code = Some 0 then ok True
                        else err (AuthCommandFailed (case code of Some n \<Rightarrow> n | None \<Rightarrow> - 1)))))"

definition attempt :: "('w, 'a) effect \<Rightarrow> ('w, fnox_error + 'a) effect" where
  "attempt m = (\<lambda>s. case m s of (r, s') \<Rightarrow> (Inr r, s'))"

definition try_get_secret ::
  "('p, 'w) services \<Rightarrow> string list \<Rightarrow> string \<Rightarrow> 'p \<Rightarrow> string \<Rightarrow> ('w, string option \<times> (fnox_error + string)) effect" where
  \<comment> \<open>the result with the auth command that the call stored\<close>
  "try_get_secret S ps name pc v =
     (if sv_non_interactive S \<and> sv_interactive S pc then ok (None, Inl (InteractiveAuthRequired name))
      else andThen (attempt (sv_open S ps name pc)) (\<lambda>opened.
        case opened of
          Inl e \<Rightarrow> ok (None, Inl e)
        | Inr provider \<Rightarrow>
            andThen (attempt (pv_get_secret provider v)) (\<lambda>r. ok (pv_auth_command provider, r))))"

definition try_resolve_with_auth_retry ::
  "('p, 'w) services \<Rightarrow> ('p, 'l) config \<Rightarrow> string list \<Rightarrow> string \<Rightarrow> 'p \<Rightarrow> string \<Rightarrow> ('w, string option) effect" where
  "try_resolve_with_auth_retry S c ps name pc v =
     andThen (try_get_secret S ps name pc v) (\<lambda>(auth_command, r).
       case r of
         Inr secret \<Rightarrow> ok (Some secret)
       | Inl e \<Rightarrow>
           andThen (prompt_and_run_auth S c pc auth_command e) (\<lambda>authenticated.
             if authenticated
             then andThen (try_get_secret S ps name pc v) (\<lambda>(_, r). andThen (lift_sum r) (\<lambda>x. ok (Some x)))
             else err e))"

definition try_resolve_from_provider ::
  "('p, 'w) services \<Rightarrow> ('p, 'l) config \<Rightarrow> string list \<Rightarrow> secret_config \<Rightarrow> ('w, string option) effect" where
  "try_resolve_from_provider S c ps sc =
     (let call = (\<lambda>name v.
        andThen (lift_sum (get_providers c ps)) (\<lambda>providers.
          case im_get providers name of
            None \<Rightarrow> err (create_provider_not_configured_error S name ps sc c)
          | Some pc \<Rightarrow> try_resolve_with_auth_retry S c ps name pc v))
      in case s_sync sc of
           Some sync \<Rightarrow> call (sy_provider sync) (sy_value sync)
         | None \<Rightarrow>
             (case secret_value sc of
                None \<Rightarrow> ok None
              | Some pv \<Rightarrow>
                  (case secret_provider sc of
                     Some name \<Rightarrow> call name pv
                   | None \<Rightarrow>
                       andThen (lift_sum (get_default_provider (sv_sources S) c ps)) (\<lambda>dp.
                         case dp of Some name \<Rightarrow> call name pv | None \<Rightarrow> ok None))))"

subsection \<open>A secret: provider, default, environment\<close>

definition resolve_secret_with ::
  "('p, 'w) services \<Rightarrow> (string \<Rightarrow> secret_config \<Rightarrow> ('w, string option) effect) \<Rightarrow> ('p, 'l) config \<Rightarrow>
   string list \<Rightarrow> string \<Rightarrow> secret_config \<Rightarrow> ('w, string option) effect" where
  \<comment> \<open>\<open>resolve_secret_raw\<close>, with the resolution of interpolated defaults as an argument\<close>
  "resolve_secret_with S interpolated c ps key sc =
     andThen (attempt (try_resolve_from_provider S c ps sc)) (\<lambda>r.
     andThen (case r of
                Inr v \<Rightarrow> ok v
              | Inl e \<Rightarrow> if s_default sc \<noteq> None then ok None else err e) (\<lambda>provider_value.
       case provider_value of
         Some v \<Rightarrow> andThen (lift_sum (apply_post_processing (sv_json S) v sc)) (\<lambda>v. ok (Some v))
       | None \<Rightarrow>
           andThen
             (case s_default sc of
                None \<Rightarrow> ok None
              | Some dflt \<Rightarrow>
                  andThen (lift_sum (rendered_default S ps key dflt)) (\<lambda>rendered.
                    if has_default_interpolation rendered then interpolated key sc else ok None))
             (\<lambda>v. case v of
                Some v \<Rightarrow> ok (Some v)
              | None \<Rightarrow>
                  andThen (lift_sum (resolve_default_value S ps key sc [])) (\<lambda>v.
                    case v of
                      Some v \<Rightarrow> ok (Some v)
                    | None \<Rightarrow>
                        andThen get_state (\<lambda>st.
                          case im_get (rs_env st) key of
                            Some v \<Rightarrow> andThen (lift_sum (apply_post_processing (sv_json S) v sc)) (\<lambda>v. ok (Some v))
                          | None \<Rightarrow> lift_sum (handle_missing_secret S key sc c))))))"

definition resolve_no_provider_secret ::
  "('p, 'w) services \<Rightarrow> ('p, 'l) config \<Rightarrow> string list \<Rightarrow> string \<Rightarrow> secret_config \<Rightarrow> vals \<Rightarrow>
   ('w, string option) effect" where
  \<comment> \<open>the call of \<open>resolve_secret_raw\<close> is reached only without a default, where interpolation is unused\<close>
  "resolve_no_provider_secret S c ps key sc resolved_so_far =
     andThen (lift_sum (resolve_default_value S ps key sc resolved_so_far)) (\<lambda>v.
       case v of
         Some v \<Rightarrow> ok (Some v)
       | None \<Rightarrow> resolve_secret_with S (\<lambda>_ _. ok None) c ps key sc)"


subsection \<open>One provider batch\<close>

definition fail_missing ::
  "('p, 'w) services \<Rightarrow> ('p, 'l) config \<Rightarrow> (string \<times> secret_config \<times> fnox_error) list \<Rightarrow> string list \<times> vals \<Rightarrow>
   fnox_error + vals" where
  \<comment> \<open>the loop after the fallbacks: a key without fallback gets no value, or its error is returned\<close>
  "fail_missing S c failed = (\<lambda>(fallback_resolved, results).
     fold (\<lambda>(key, sc, e) acc.
        bind_sum acc (\<lambda>results.
          if key \<in> set fallback_resolved then Inr results
          else case handle_provider_error e (resolve_if_missing_behavior S sc c) of
                 Some e \<Rightarrow> Inl e
               | None \<Rightarrow> Inr (im_insert key None results)))
       failed (Inr results))"

definition fail_all ::
  "('p, 'w) services \<Rightarrow> ('p, 'l) config \<Rightarrow> string list \<Rightarrow> secrets \<Rightarrow> (string \<times> fnox_error) list \<Rightarrow> vals \<Rightarrow> vals \<Rightarrow>
   fnox_error + vals" where
  "fail_all S c ps secrets failed resolved_so_far results =
     bind_sum (resolve_default_fallbacks S ps (map fst failed) secrets resolved_so_far results) (\<lambda>fr.
     bind_sum (index_all secrets (map fst failed)) (\<lambda>entries.
       fail_missing S c (map2 (\<lambda>(key, sc) (_, e). (key, sc, e)) entries failed) fr))"

definition handle_batch_error ::
  "('p, 'w) services \<Rightarrow> ('p, 'l) config \<Rightarrow> string list \<Rightarrow> secrets \<Rightarrow> (string \<times> string) list \<Rightarrow> fnox_error \<Rightarrow> vals \<Rightarrow> vals \<Rightarrow>
   fnox_error + vals" where
  "handle_batch_error S c ps secrets provider_secrets e resolved_so_far results =
     fail_all S c ps secrets (map (\<lambda>(key, _). (key, ProviderError (sv_show S e))) provider_secrets)
       resolved_so_far results"

type_synonym batch_results = "(string, fnox_error + string) imap"

definition in_hash_order :: "('p, 'w) services \<Rightarrow> (string, 'v) imap \<Rightarrow> (string, 'v) imap" where
  "in_hash_order S m = sort_key (\<lambda>(k, _). sv_rank S k) m"

fun split_results ::
  "json_library \<Rightarrow> secrets \<Rightarrow> batch_results \<Rightarrow> vals \<Rightarrow> (string \<times> fnox_error) list \<Rightarrow>
   fnox_error + vals \<times> (string \<times> fnox_error) list" where
  "split_results J secrets [] results failed = Inr (results, failed)"
| "split_results J secrets ((key, r) # rest) results failed =
     bind_sum (index secrets key) (\<lambda>sc.
       case r of
         Inr v \<Rightarrow>
           bind_sum (apply_post_processing J v sc) (\<lambda>processed.
             split_results J secrets rest (im_insert key (Some processed) results) failed)
       | Inl e \<Rightarrow> split_results J secrets rest results (failed @ [(key, e)]))"

definition process_batch_results ::
  "('p, 'w) services \<Rightarrow> ('p, 'l) config \<Rightarrow> string list \<Rightarrow> secrets \<Rightarrow> batch_results \<Rightarrow> vals \<Rightarrow> vals \<Rightarrow> fnox_error + vals" where
  "process_batch_results S c ps secrets batch resolved_so_far results =
     bind_sum (split_results (sv_json S) secrets (in_hash_order S batch) results []) (\<lambda>(results, failed).
       fail_all S c ps secrets failed resolved_so_far results)"

definition extract_auth_error_from_batch :: "('p, 'w) services \<Rightarrow> batch_results \<Rightarrow> fnox_error option" where
  "extract_auth_error_from_batch S batch =
     (case filter (\<lambda>r. case r of Inl e \<Rightarrow> is_auth_error e | Inr _ \<Rightarrow> False) (map snd (in_hash_order S batch)) of
        Inl e # _ \<Rightarrow> Some e
      | _ \<Rightarrow> None)"

definition try_get_secrets_batch ::
  "('p, 'w) services \<Rightarrow> string list \<Rightarrow> string \<Rightarrow> 'p \<Rightarrow> (string \<times> string) list \<Rightarrow>
   ('w, string option \<times> (fnox_error + batch_results)) effect" where
  "try_get_secrets_batch S ps name pc provider_secrets =
     andThen (attempt (sv_open S ps name pc)) (\<lambda>opened.
       case opened of
         Inl e \<Rightarrow> ok (None, Inl e)
       | Inr provider \<Rightarrow>
           andThen (attempt (pv_get_secrets_batch provider provider_secrets)) (\<lambda>r.
             ok (pv_auth_command provider, r)))"

definition finish_batch ::
  "('p, 'w) services \<Rightarrow> ('p, 'l) config \<Rightarrow> string list \<Rightarrow> secrets \<Rightarrow> vals \<Rightarrow> (string \<times> string) list \<Rightarrow>
   fnox_error + batch_results \<Rightarrow> ('w, vals) effect" where
  "finish_batch S c ps secrets resolved_so_far provider_secrets r =
     (case r of
        Inr batch \<Rightarrow> lift_sum (process_batch_results S c ps secrets batch resolved_so_far [])
      | Inl e \<Rightarrow> lift_sum (handle_batch_error S c ps secrets provider_secrets e resolved_so_far []))"

definition retry_batch ::
  "('p, 'w) services \<Rightarrow> ('p, 'l) config \<Rightarrow> string list \<Rightarrow> secrets \<Rightarrow> string \<Rightarrow> 'p \<Rightarrow> vals \<Rightarrow> (string \<times> string) list \<Rightarrow>
   string option \<Rightarrow> fnox_error \<Rightarrow> fnox_error + batch_results \<Rightarrow> ('w, vals) effect" where
  \<comment> \<open>ask the user once, and call the provider again or keep the first result\<close>
  "retry_batch S c ps secrets name pc resolved_so_far provider_secrets auth_command e first =
     andThen (prompt_and_run_auth S c pc auth_command e) (\<lambda>authenticated.
       if authenticated
       then andThen (try_get_secrets_batch S ps name pc provider_secrets) (\<lambda>(_, r).
              finish_batch S c ps secrets resolved_so_far provider_secrets r)
       else finish_batch S c ps secrets resolved_so_far provider_secrets first)"

definition try_batch_with_auth_retry ::
  "('p, 'w) services \<Rightarrow> ('p, 'l) config \<Rightarrow> string list \<Rightarrow> secrets \<Rightarrow> string \<Rightarrow> 'p \<Rightarrow> vals \<Rightarrow> (string \<times> string) list \<Rightarrow>
   ('w, vals) effect" where
  "try_batch_with_auth_retry S c ps secrets name pc resolved_so_far provider_secrets =
     andThen (try_get_secrets_batch S ps name pc provider_secrets) (\<lambda>(auth_command, r).
       case (case r of Inr batch \<Rightarrow> extract_auth_error_from_batch S batch | Inl e \<Rightarrow> Some e) of
         Some e \<Rightarrow> retry_batch S c ps secrets name pc resolved_so_far provider_secrets auth_command e r
       | None \<Rightarrow> finish_batch S c ps secrets resolved_so_far provider_secrets r)"

definition resolve_provider_batch ::
  "('p, 'w) services \<Rightarrow> ('p, 'l) config \<Rightarrow> string list \<Rightarrow> secrets \<Rightarrow> string \<Rightarrow> (string \<times> string) list \<Rightarrow> vals \<Rightarrow>
   ('w, vals) effect" where
  "resolve_provider_batch S c ps secrets name provider_secrets resolved_so_far =
     andThen (lift_sum (get_providers c ps)) (\<lambda>providers.
       case im_get providers name of
         None \<Rightarrow>
           lift_sum (fail_all S c ps secrets
             (map (\<lambda>(key, _). (key, ProviderNotConfigured name (join '','' ps)
                                      (im_get (c_provider_sources c) name)
                                      (sv_suggest S name (im_keys providers)))) provider_secrets)
             resolved_so_far [])
       | Some pc \<Rightarrow>
           if sv_non_interactive S \<and> sv_interactive S pc
           then lift_sum (fail_all S c ps secrets
                  (map (\<lambda>(key, _). (key, InteractiveAuthRequired name)) provider_secrets) resolved_so_far [])
           else try_batch_with_auth_retry S c ps secrets name pc resolved_so_far provider_secrets)"

subsection \<open>One level\<close>

fun run_all :: "('w, 'a) effect list \<Rightarrow> 'w rstate \<Rightarrow> (fnox_error + 'a) list \<times> 'w rstate" where
  "run_all [] s = ([], s)"
| "run_all (m # ms) s =
     (let (r, s1) = m s; (rs, s2) = run_all ms s1 in (r # rs, s2))"

fun first_error :: "(fnox_error + 'a) list \<Rightarrow> fnox_error + 'a list" where
  "first_error [] = Inr []"
| "first_error (r # rs) = bind_sum r (\<lambda>a. bind_sum (first_error rs) (\<lambda>as. Inr (a # as)))"

definition collect_all :: "('w, 'a) effect list \<Rightarrow> ('w, 'a list) effect" where
  \<comment> \<open>every task runs to its end, then the first error is returned\<close>
  "collect_all ms = (\<lambda>s. case run_all ms s of (rs, s') \<Rightarrow> (first_error rs, s'))"

type_synonym provider_map = "(string, string \<times> string) imap"

definition group_by_provider ::
  "provider_map \<Rightarrow> string list \<Rightarrow> (string, (string \<times> string) list) imap" where
  "group_by_provider assigned ready =
     fold (\<lambda>key m. case im_get assigned key of
              Some (name, v) \<Rightarrow>
                im_insert name ((case im_get m name of Some xs \<Rightarrow> xs | None \<Rightarrow> []) @ [(key, v)]) m
            | None \<Rightarrow> m) ready []"

definition resolve_level ::
  "('p, 'w) services \<Rightarrow> ('p, 'l) config \<Rightarrow> string list \<Rightarrow> secrets \<Rightarrow> provider_map \<Rightarrow> string list \<Rightarrow> string list \<Rightarrow> vals \<Rightarrow>
   ('w, vals) effect" where
  "resolve_level S c ps secrets assigned no_provider ready resolved_so_far =
     (let by_provider = group_by_provider assigned ready;
          level_no_provider = filter (\<lambda>k. im_get assigned k = None \<and> k \<in> set no_provider) ready
      in andThen (collect_all (map (\<lambda>(name, xs). resolve_provider_batch S c ps secrets name xs resolved_so_far)
                                 (in_hash_order S by_provider))) (\<lambda>provider_results.
         let temp_results = fold (\<lambda>m acc. im_extend acc m) provider_results []
         in andThen (collect_all (map (\<lambda>key.
                        andThen (lift_sum (index secrets key)) (\<lambda>sc.
                        andThen (resolve_no_provider_secret S c ps key sc resolved_so_far)
                          (\<lambda>v. ok (key, v)))) level_no_provider)) (\<lambda>no_provider_results.
              ok (fold (\<lambda>(key, v). im_insert key v) no_provider_results temp_results))))"

subsection \<open>A batch\<close>

definition classify ::
  "('p, 'w) services \<Rightarrow> ('p, 'l) config \<Rightarrow> string list \<Rightarrow> secrets \<Rightarrow> provider_map \<times> string list" where
  "classify S c ps secrets =
     fold (\<lambda>(key, sc) (assigned, no_provider).
       case s_sync sc of
         Some sync \<Rightarrow> (im_insert key (sy_provider sync, sy_value sync) assigned, no_provider)
       | None \<Rightarrow>
           (case secret_value sc of
              Some v \<Rightarrow>
                (case (case secret_provider sc of Some n \<Rightarrow> Some n | None \<Rightarrow> the_default_provider S c ps) of
                   Some name \<Rightarrow> (im_insert key (name, v) assigned, no_provider)
                 | None \<Rightarrow> (assigned, no_provider @ [key]))
            | None \<Rightarrow> (assigned, no_provider @ [key])))
       secrets ([], [])"


definition hard_default :: "provider_map \<Rightarrow> string list \<Rightarrow> (string, 'p) imap \<Rightarrow> string \<Rightarrow> bool" where
  "hard_default assigned no_provider providers key \<longleftrightarrow>
     key \<in> set no_provider \<or>
     (case im_get assigned key of Some (name, _) \<Rightarrow> \<not> im_has providers name | None \<Rightarrow> False)"

fun known_refs :: "string set \<Rightarrow> bool \<Rightarrow> string \<Rightarrow> string list \<Rightarrow> fnox_error + string list" where
  \<comment> \<open>the inner loop: references outside the batch are dropped, or refused for a hard default\<close>
  "known_refs secret_keys hard key [] = Inr []"
| "known_refs secret_keys hard key (r # rs) =
     (if r \<in> secret_keys then bind_sum (known_refs secret_keys hard key rs) (\<lambda>deps. Inr (r # deps))
      else if hard then Inl (default_reference_error key r)
      else known_refs secret_keys hard key rs)"

fun default_deps ::
  "('p, 'w) services \<Rightarrow> string list \<Rightarrow> (string \<Rightarrow> bool) \<Rightarrow> string set \<Rightarrow> secrets \<Rightarrow> fnox_error + deps \<times> deps" where
  \<comment> \<open>\<open>default_deps\<close> and \<open>hard_default_deps\<close>, in the order of the secrets\<close>
  "default_deps S ps hard secret_keys [] = Inr ([], [])"
| "default_deps S ps hard secret_keys ((key, sc) # secrets) =
     (case s_default sc of
        None \<Rightarrow> default_deps S ps hard secret_keys secrets
      | Some dflt \<Rightarrow>
          let refs = default_references S ps key dflt
          in if hard key \<and> key \<in> set refs then Inl (ConfigError (InterpolationSelfCycle key))
             else bind_sum (known_refs secret_keys (hard key) key refs) (\<lambda>deps.
                  bind_sum (default_deps S ps hard secret_keys secrets) (\<lambda>(all, hards).
                    if deps = [] then Inr (all, hards)
                    else Inr ((key, deps) # all, if hard key then (key, deps) # hards else hards))))"

definition merge_deps :: "deps \<Rightarrow> deps \<Rightarrow> deps" where
  "merge_deps provider_deps defaults =
     fold (\<lambda>(key, refs) m.
        case im_get m key of
          Some deps \<Rightarrow>
            im_insert key (fold (\<lambda>r ds. if r \<in> set ds then ds else ds @ [r]) refs deps) m
        | None \<Rightarrow> im_insert key refs m) defaults provider_deps"

definition set_env :: "string \<Rightarrow> string \<Rightarrow> ('w, unit) effect" where
  "set_env key v = modify (\<lambda>st. st\<lparr>rs_env := im_insert key v (rs_env st)\<rparr>)"

definition set_env_all :: "vals \<Rightarrow> ('w, unit) effect" where
  "set_env_all values =
     foldM (\<lambda>_ (key, v). case v of Some v \<Rightarrow> set_env key v | None \<Rightarrow> ok ()) () values"

definition resolve_levels ::
  "(string list \<Rightarrow> vals \<Rightarrow> ('w, vals) effect) \<Rightarrow> string list list \<Rightarrow> vals \<Rightarrow> ('w, vals) effect" where
  "resolve_levels level levels temp_results =
     foldM (\<lambda>temp ready.
        andThen (level ready temp) (\<lambda>level_results.
        andThen (set_env_all level_results) (\<lambda>_. ok (im_extend temp level_results))))
       temp_results levels"

definition resolve_secrets_batch_in_scope ::
  "('p, 'w) services \<Rightarrow> ('p, 'l) config \<Rightarrow> string list \<Rightarrow> secrets \<Rightarrow> vals \<Rightarrow> ('w, vals) effect" where
  "resolve_secrets_batch_in_scope S c ps secrets pre_resolved =
     andThen (lift_sum (get_providers c ps)) (\<lambda>providers.
     let (assigned, no_provider) = classify S c ps secrets;
         all_keys = im_keys secrets;
         secret_keys = set all_keys \<union> set (im_keys pre_resolved)
     in andThen (lift_sum (default_deps S ps (hard_default assigned no_provider providers)
                             secret_keys secrets)) (\<lambda>(all_deps, hard_deps).
     let provider_deps = im_map (\<lambda>_ (name, _). provider_env S providers name) assigned;
         provider_env_dependencies = set (concat (map snd provider_deps));
         (levels, cycle) = compute_resolution_levels (sv_rank S) all_keys
                             (merge_deps provider_deps all_deps) (set no_provider);
         level = resolve_level S c ps secrets assigned no_provider
     in andThen (set_env_all (filter (\<lambda>(key, _). key \<in> provider_env_dependencies) pre_resolved)) (\<lambda>_.
        andThen (resolve_levels level levels pre_resolved) (\<lambda>temp_results.
        andThen
          (if cycle = [] then ok temp_results
           else if list_ex (\<lambda>key. case im_get hard_deps key of
                                    Some refs \<Rightarrow> list_ex (\<lambda>r. r \<in> set cycle) refs | None \<Rightarrow> False) cycle
           then err (ConfigError (InterpolationCycle (join '', '' (sort cycle))))
           else andThen (level cycle temp_results) (\<lambda>level_results. ok (im_extend temp_results level_results)))
          (\<lambda>temp_results.
             ok (concat (map (\<lambda>key. case im_get temp_results key of
                                      Some v \<Rightarrow> [(key, v)] | None \<Rightarrow> []) all_keys)))))))"

definition resolve_secrets_batch_with_pre_resolved ::
  "('p, 'w) services \<Rightarrow> ('p, 'l) config \<Rightarrow> string list \<Rightarrow> secrets \<Rightarrow> vals \<Rightarrow> ('w, vals) effect" where
  "resolve_secrets_batch_with_pre_resolved S c ps secrets pre_resolved =
     resolve_secrets_batch_in_scope S c ps secrets pre_resolved"

definition resolve_secrets_batch ::
  "('p, 'w) services \<Rightarrow> ('p, 'l) config \<Rightarrow> string list \<Rightarrow> secrets \<Rightarrow> ('w, vals) effect" where
  "resolve_secrets_batch S c ps secrets = resolve_secrets_batch_with_pre_resolved S c ps secrets []"

subsection \<open>A single secret with interpolation\<close>

definition without_source :: "string \<Rightarrow> secrets \<Rightarrow> secrets" where
  \<comment> \<open>the root of the closure without provider, value and sync cache\<close>
  "without_source key sub =
     im_map (\<lambda>k sc. if k = key then (set_value None (set_provider None sc))\<lparr>s_sync := None\<rparr> else sc) sub"

definition resolve_interpolated_default_value ::
  "('p, 'w) services \<Rightarrow> ('p, 'l) config \<Rightarrow> string list \<Rightarrow> string \<Rightarrow> secret_config \<Rightarrow> ('w, string option) effect" where
  "resolve_interpolated_default_value S c ps key sc =
     (case s_default sc of
        None \<Rightarrow> ok None
      | Some dflt \<Rightarrow>
          andThen (lift_sum (rendered_default S ps key dflt)) (\<lambda>dflt.
          if \<not> has_default_interpolation dflt then ok None
          else andThen (lift_sum (get_secrets_with_no_defaults c ps (sv_no_defaults S))) (\<lambda>secrets.
            if \<not> im_has secrets key then ok None
            else andThen (lift_sum (collect_interpolation_closure S c ps key secrets)) (\<lambda>sub.
                 andThen (resolve_secrets_batch S c ps (without_source key sub)) (\<lambda>resolved.
                   case im_get resolved key of
                     Some (Some v) \<Rightarrow> ok (Some v)
                   | _ \<Rightarrow>
                       andThen (lift_sum (render_default_template key dflt (im_remove key resolved))) (\<lambda>v.
                       andThen (lift_sum (apply_post_processing (sv_json S) v sc)) (\<lambda>v. ok (Some v))))))))"

definition resolve_secret_raw ::
  "('p, 'w) services \<Rightarrow> ('p, 'l) config \<Rightarrow> string list \<Rightarrow> string \<Rightarrow> secret_config \<Rightarrow> ('w, string option) effect" where
  "resolve_secret_raw S c ps key sc =
     resolve_secret_with S (resolve_interpolated_default_value S c ps) c ps key sc"

definition resolve_secret ::
  "('p, 'w) services \<Rightarrow> ('p, 'l) config \<Rightarrow> string list \<Rightarrow> string \<Rightarrow> secret_config \<Rightarrow> ('w, string option) effect" where
  "resolve_secret S c ps key sc = resolve_secret_raw S c ps key sc"

text \<open>Without a default the interpolation argument is unused, so the call that a batch makes for a
  secret without provider is the code's recursive call.\<close>

lemma resolve_secret_with_no_default:
  assumes "s_default sc = None"
  shows "resolve_secret_with S f c ps key sc = resolve_secret_with S g c ps key sc"
  unfolding resolve_secret_with_def assms option.case by (rule refl)

lemma resolve_no_provider_secret_recursion:
  "resolve_no_provider_secret S c ps key sc resolved =
     andThen (lift_sum (resolve_default_value S ps key sc resolved)) (\<lambda>v.
       case v of Some v \<Rightarrow> ok (Some v) | None \<Rightarrow> resolve_secret_raw S c ps key sc)"
proof (cases "s_default sc")
  case None
  note raw = resolve_secret_with_no_default [OF None, of S "\<lambda>_ _. ok None" c ps key
      "resolve_interpolated_default_value S c ps"]
  show ?thesis unfolding resolve_no_provider_secret_def resolve_secret_raw_def raw by (rule refl)
next
  case (Some d)
  then have "resolve_default_value S ps key sc resolved \<noteq> Inr None"
    by (auto simp: resolve_default_value_def bind_sum_Inr)
  then show ?thesis
    unfolding resolve_no_provider_secret_def andThen_def
    by (auto simp: fun_eq_iff split: sum.splits option.splits)
qed

end
