(* ===== verification/ResolverFacts.thy ===== *)
theory ResolverFacts
  imports Resolver
begin

text \<open>
  What resolution promises. A single secret takes its value from its provider, else from its default,
  else from the environment; a batch answers the secrets it was given, in their order, exports what
  it resolved and changes no other variable; failures follow the missing-secret policy; and without
  a terminal nothing prompts.
\<close>

subsection \<open>Sources of one secret\<close>

definition plain_default :: "secret_config \<Rightarrow> bool" where
  "plain_default sc =
     (case s_default sc of Some d \<Rightarrow> \<not> has_marker d \<and> \<not> has_default_interpolation d | None \<Rightarrow> True)"

definition finish_value :: "json_library \<Rightarrow> secret_config \<Rightarrow> string \<Rightarrow> fnox_error + string option" where
  "finish_value J sc v = bind_sum (apply_post_processing J v sc) (\<lambda>v. Inr (Some v))"

lemma plain_default_value:
  "plain_default sc \<Longrightarrow> s_default sc = Some d \<Longrightarrow>
   rendered_default S ps key d = Inr d \<and> \<not> has_default_interpolation d \<and>
   resolve_default_value S ps key sc m = finish_value (sv_json S) sc d"
  by (simp add: plain_default_def rendered_default_def resolve_default_value_def finish_value_def)

lemma effect_simps [simp]:
  "andThen (ok a) f = f a" "andThen (err e) f = err e"
  "lift_sum (Inr a) = ok a" "lift_sum (Inl e) = err e"
  "andThen (Pair (Inr a)) f = f a" "andThen (Pair (Inl e)) f = Pair (Inl e)"
  by (simp_all add: fun_eq_iff andThen_def)

lemma andThen_attempt: "m s = (r, s') \<Longrightarrow> andThen (attempt m) f s = f r s'"
  by (simp add: attempt_def andThen_def)

lemma andThen_get_state: "andThen get_state f s = f s s"
  by (simp add: andThen_def)

lemma finish_value_effect:
  "andThen (lift_sum (apply_post_processing J v sc)) (\<lambda>v. ok (Some v)) s = (finish_value J sc v, s)"
  by (cases "apply_post_processing J v sc") (simp_all add: finish_value_def)

lemma finish_value_not_None: "finish_value J sc v \<noteq> Inr None"
  by (cases "apply_post_processing J v sc") (simp_all add: finish_value_def)

lemma default_effect:
  assumes "plain_default sc" and "s_default sc = Some d"
  shows "andThen (andThen (lift_sum (rendered_default S ps key d)) (\<lambda>rendered.
             if has_default_interpolation rendered then i key sc else ok None)) (\<lambda>v.
           case v of
             Some v \<Rightarrow> ok (Some v)
           | None \<Rightarrow> andThen (lift_sum (resolve_default_value S ps key sc m)) (\<lambda>v.
               case v of Some v \<Rightarrow> ok (Some v) | None \<Rightarrow> n)) s
         = (finish_value (sv_json S) sc d, s)"
  using finish_value_not_None [of "sv_json S" sc d]
  by (cases "finish_value (sv_json S) sc d")
     (auto simp: plain_default_value [OF assms] split: option.split)

text \<open>A secret with a default that is neither a template nor interpolated is resolved from the first source
  that has a value: its provider (or sync cache), then its default, then the environment variable of its
  name; a failing provider is ignored exactly when there is a default, and only when nothing is left does the
  missing-secret policy decide.\<close>

lemma secret_sources_in_order:
  assumes "plain_default sc"
  shows "resolve_secret S c ps key sc s =
    (case try_resolve_from_provider S c ps sc s of
       (Inr (Some v), s') \<Rightarrow> (finish_value (sv_json S) sc v, s')
     | (r, s') \<Rightarrow>
         (case s_default sc of
            Some d \<Rightarrow> (finish_value (sv_json S) sc d, s')
          | None \<Rightarrow>
              (case r of
                 Inl e \<Rightarrow> (Inl e, s')
               | Inr _ \<Rightarrow>
                   (case im_get (rs_env s') key of
                      Some v \<Rightarrow> (finish_value (sv_json S) sc v, s')
                    | None \<Rightarrow> (handle_missing_secret S key sc c, s')))))"
proof -
  obtain r s' where prov: "try_resolve_from_provider S c ps sc s = (r, s')" by fastforce
  show ?thesis
  proof (cases "s_default sc")
    case None
    then show ?thesis
      unfolding resolve_secret_def resolve_secret_raw_def resolve_secret_with_def andThen_attempt [where m = "try_resolve_from_provider S c ps sc", OF prov] prov
      by (auto simp: finish_value_effect andThen_get_state resolve_default_value_def
          split: sum.split option.split)
  next
    case (Some d)
    note dflt = default_effect [OF assms Some]
    show ?thesis
      unfolding resolve_secret_def resolve_secret_raw_def resolve_secret_with_def andThen_attempt [where m = "try_resolve_from_provider S c ps sc", OF prov] prov Some
      by (auto simp: finish_value_effect dflt split: sum.split option.split)
  qed
qed

subsection \<open>Without a terminal\<close>

text \<open>In non-interactive mode no authentication is offered, and a provider that needs the user is
  not even opened: the state is left as it was, and the failure of each secret follows its policy.\<close>

lemma non_interactive_is_silent:
  assumes "sv_non_interactive S"
  shows "prompt_and_run_auth S c pc cmd e s = (Inr False, s) \<and>
         (if sv_interactive S pc
          then try_get_secret S ps name pc v s = (Inr (None, Inl (InteractiveAuthRequired name)), s) \<and>
               (case get_providers c ps of
                  Inr providers \<Rightarrow>
                    if im_get providers name = Some pc
                    then snd (resolve_provider_batch S c ps secrets name xs resolved s) = s else True
                | Inl _ \<Rightarrow> True)
          else True)"
  using assms
  by (auto simp: prompt_and_run_auth_def should_prompt_auth_def try_get_secret_def resolve_provider_batch_def
      andThen_def split: sum.split)

subsection \<open>Every secret of a batch is answered\<close>

lemma set_keys_insert [simp]: "set (im_keys (im_insert k v m)) = insert k (set (im_keys m))"
  by (auto simp: im_keys_insert im_has_def)

lemma set_keys_extend [simp]: "set (im_keys (im_extend m n)) = set (im_keys m) \<union> set (im_keys n)"
  using im_has_extend [of m n] by (auto simp: im_has_def)

lemma index_all_keys: "index_all secrets ks = Inr entries \<Longrightarrow> map fst entries = ks"
  by (induction ks arbitrary: entries) (auto simp: bind_sum_Inr)

definition fb_adds :: "string set \<Rightarrow> fallback_state \<Rightarrow> fallback_state \<Rightarrow> bool" where
  "fb_adds keys st st' \<longleftrightarrow>
     (\<exists>new. fb_resolved st' = fb_resolved st @ new \<and> set new \<subseteq> keys \<and>
            set (im_keys (fb_results st')) = set (im_keys (fb_results st)) \<union> set new)"

lemma fb_adds_refl: "fb_adds ks st st"
  by (simp add: fb_adds_def)

lemma fb_adds_trans: "fb_adds a st st1 \<Longrightarrow> fb_adds b st1 st2 \<Longrightarrow> fb_adds (a \<union> b) st st2"
  unfolding fb_adds_def by (elim exE conjE, rule_tac x = "new @ newa" in exI) auto

lemma fb_adds_step:
  assumes "fallback_step S ps pset e st = Inr st'"
  shows "fb_adds {fst e} st st' \<and> set (fb_next st') \<subseteq> insert e (set (fb_next st))"
  using fallback_step_cases [OF assms]
proof (elim disjE exE conjE)
  fix v
  assume st': "st' = st\<lparr>fb_results := im_insert (fst e) (Some v) (fb_results st),
                   fb_context := im_insert (fst e) (Some v) (fb_context st),
                   fb_resolved := fb_resolved st @ [fst e], fb_progressed := True\<rparr>"
  show ?thesis unfolding fb_adds_def by (rule conjI, rule exI [of _ "[fst e]"]) (auto simp: st')
qed (auto simp: fb_adds_def)

lemma fb_adds_pass:
  "fallback_pass S ps pset es st = Inr st' \<Longrightarrow>
   fb_adds (fst ` set es) st st' \<and> set (fb_next st') \<subseteq> set es \<union> set (fb_next st)"
proof (induction es arbitrary: st)
  case (Cons e es)
  then obtain s1 where s1: "fallback_step S ps pset e st = Inr s1"
    and rest: "fallback_pass S ps pset es s1 = Inr st'" by (auto simp: bind_sum_Inr)
  from fb_adds_step [OF s1] Cons.IH [OF rest] show ?case
    using fb_adds_trans [of "{fst e}" st s1 "fst ` set es" st'] by auto
qed (simp add: fb_adds_refl)

lemma fallback_loop_keys:
  "fallback_loop S ps pending ctx results resolved = Inr (resolved', results') \<Longrightarrow>
   \<exists>new. resolved' = resolved @ new \<and> set new \<subseteq> fst ` set pending \<and>
         set (im_keys results') = set (im_keys results) \<union> set new"
proof (induction S ps pending ctx results resolved rule: fallback_loop.induct)
  case (1 S ps pending ctx results resolved)
  let ?st0 = "\<lparr>fb_context = ctx, fb_results = results, fb_resolved = resolved,
              fb_progressed = False, fb_next = []\<rparr>"
  show ?case
  proof (cases "pending = []")
    case True
    then show ?thesis using 1(2) by (simp add: fallback_loop.simps)
  next
    case False
    then obtain st where st: "fallback_pass S ps (map fst pending) pending ?st0 = Inr st"
      and go: "\<not> (\<not> fb_progressed st \<and> fb_next st \<noteq> [])"
      and rec: "fallback_loop S ps (fb_next st) (fb_context st) (fb_results st) (fb_resolved st) = Inr (resolved', results')"
      using 1(2) by (subst (asm) fallback_loop.simps) (auto split: sum.splits if_splits)
    obtain a where a: "fb_resolved st = resolved @ a" "set a \<subseteq> fst ` set pending"
      "set (im_keys (fb_results st)) = set (im_keys results) \<union> set a" "set (fb_next st) \<subseteq> set pending"
      using fb_adds_pass [OF st] by (auto simp: fb_adds_def)
    obtain b where "resolved' = fb_resolved st @ b" "set b \<subseteq> fst ` set (fb_next st)"
      "set (im_keys results') = set (im_keys (fb_results st)) \<union> set b"
      using 1(1) [OF False st go rec] by blast
    moreover have "fst ` set (fb_next st) \<subseteq> fst ` set pending" using a(4) by (rule image_mono)
    ultimately show ?thesis using a(1-3) by (intro exI [of _ "a @ b"]) auto
  qed
qed

lemma fail_missing_keys:
  "fail_missing S c failed (resolved, results) = Inr results' \<Longrightarrow>
   set (im_keys results') = set (im_keys results) \<union> (fst ` set failed - set resolved)"
proof -
  let ?f = "\<lambda>(key, sc, e) acc. bind_sum acc (\<lambda>results.
      if key \<in> set resolved then Inr results
      else case handle_provider_error e (resolve_if_missing_behavior S sc c) of
             Some e \<Rightarrow> Inl e | None \<Rightarrow> Inr (im_insert key None results))"
  have err: "fold ?f failed (Inl e) = Inl e" for failed e
    by (induction failed) auto
  have "fold ?f failed (Inr results) = Inr results' \<Longrightarrow>
      set (im_keys results') = set (im_keys results) \<union> (fst ` set failed - set resolved)" for results
  proof (induction failed arbitrary: results)
    case (Cons x failed)
    obtain key sc e where x: "x = (key, sc, e)" by (cases x) auto
    show ?case
    proof (cases "key \<in> set resolved")
      case True
      with Cons show ?thesis by (simp add: x)
    next
      case False
      then have h: "handle_provider_error e (resolve_if_missing_behavior S sc c) = None"
        using Cons.prems by (auto simp: x err split: option.splits)
      then have "fold ?f failed (Inr (im_insert key None results)) = Inr results'"
        using Cons.prems False by (simp add: x)
      from Cons.IH [OF this] False show ?thesis by (auto simp: x)
    qed
  qed simp
  then show "fail_missing S c failed (resolved, results) = Inr results' \<Longrightarrow> ?thesis"
    by (simp add: fail_missing_def)
qed

lemma map2_keys:
  "map fst entries = map fst failed \<Longrightarrow>
   map fst (map2 (\<lambda>(key, sc) (_, e). (key, sc, e)) entries failed) = map fst failed"
  by (induction entries failed rule: list_induct2') auto

lemma fail_all_keys:
  assumes "fail_all S c ps secrets failed resolved results = Inr results'"
  shows "set (im_keys results') = set (im_keys results) \<union> fst ` set failed"
proof -
  obtain fr entries where fallbacks: "resolve_default_fallbacks S ps (map fst failed) secrets resolved results = Inr fr"
    and entries: "index_all secrets (map fst failed) = Inr entries"
    and missing: "fail_missing S c (map2 (\<lambda>(key, sc) (_, e). (key, sc, e)) entries failed) fr = Inr results'"
    using assms by (auto simp: fail_all_def bind_sum_Inr)
  obtain rs r1 where fr: "fr = (rs, r1)" by fastforce
  have "set rs \<subseteq> fst ` set failed \<and> set (im_keys r1) = set (im_keys results) \<union> set rs"
  proof -
    obtain new where new: "rs = [] @ new" "set new \<subseteq> fst ` set (filter (\<lambda>(_, sc). s_default sc \<noteq> None) entries)"
      "set (im_keys r1) = set (im_keys results) \<union> set new"
      using fallbacks fallback_loop_keys by (fastforce simp: resolve_default_fallbacks_def bind_sum_Inr fr entries)
    moreover have "fst ` set entries = fst ` set failed"
      using index_all_keys [OF entries] by (metis set_map)
    moreover have "fst ` set (filter (\<lambda>(_, sc). s_default sc \<noteq> None) entries) \<subseteq> fst ` set entries"
      by (rule image_mono) simp
    ultimately show ?thesis by auto
  qed
  moreover have "map fst (map2 (\<lambda>(key, sc) (_, e). (key, sc, e)) entries failed) = map fst failed"
    by (rule map2_keys) (rule index_all_keys [OF entries])
  then have "fst ` set (map2 (\<lambda>(key, sc) (_, e). (key, sc, e)) entries failed) = fst ` set failed"
    by (metis set_map)
  ultimately show ?thesis
    using fail_missing_keys [OF missing [unfolded fr]] by auto
qed

lemma split_results_keys:
  "split_results J secrets batch results failed = Inr (results', failed') \<Longrightarrow>
   set (im_keys results') \<union> fst ` set failed' = set (im_keys results) \<union> fst ` set failed \<union> set (im_keys batch)"
proof (induction J secrets batch results failed rule: split_results.induct)
  case (2 J secrets key r rest results failed)
  then obtain sc where sc: "index secrets key = Inr sc" by (auto simp: bind_sum_Inr)
  show ?case
  proof (cases r)
    case (Inl e)
    then show ?thesis using 2(3) 2(1) [OF Inl] sc by simp
  next
    case (Inr v)
    then obtain p where "apply_post_processing J v sc = Inr p"
      and "split_results J secrets rest (im_insert key (Some p) results) failed = Inr (results', failed')"
      using 2(3) sc by (auto simp: bind_sum_Inr)
    with 2(2) [OF Inr] show ?thesis by auto
  qed
qed simp

lemma in_hash_order_keys [simp]: "set (im_keys (in_hash_order S m)) = set (im_keys m)"
  by (auto simp: in_hash_order_def im_keys_def)

lemma process_batch_results_keys:
  "process_batch_results S c ps secrets batch resolved results = Inr results' \<Longrightarrow>
   set (im_keys results') = set (im_keys results) \<union> set (im_keys batch)"
  by (auto simp: process_batch_results_def bind_sum_Inr dest!: split_results_keys fail_all_keys)


definition configured :: "('p, 'l) config \<Rightarrow> string list \<Rightarrow> string \<Rightarrow> 'p \<Rightarrow> bool" where
  "configured c ps name pc \<longleftrightarrow> (\<exists>providers. get_providers c ps = Inr providers \<and> im_get providers name = Some pc)"

definition left_out :: "('p, 'w) services \<Rightarrow> ('p, 'l) config \<Rightarrow> string list \<Rightarrow> string \<Rightarrow> bool" where
  \<comment> \<open>some configured provider can be asked for the key in a batch and give an answer without it\<close>
  "left_out S c ps k \<longleftrightarrow>
     (\<exists>name pc s h s1 xs s2 m s3.
        configured c ps name pc \<and> sv_open S ps name pc s = (Inr h, s1) \<and> pv_get_secrets_batch h xs s2 = (Inr m, s3) \<and>
        k \<in> fst ` set xs \<and> k \<notin> set (im_keys m))"

definition answers :: "('p, 'w) services \<Rightarrow> ('p, 'l) config \<Rightarrow> string list \<Rightarrow> string set \<Rightarrow> vals \<Rightarrow> bool" where
  "answers S c ps ks m \<longleftrightarrow> ks \<subseteq> set (im_keys m) \<union> {k. left_out S c ps k}"

lemma answers_keys: "ks \<subseteq> set (im_keys m) \<Longrightarrow> answers S c ps ks m"
  by (auto simp: answers_def)

lemma andThen_InrE:
  assumes "andThen m f s = (Inr b, s'')"
  obtains a s' where "m s = (Inr a, s')" and "f a s' = (Inr b, s'')"
  using assms unfolding andThen_Inr by blast

lemma attempt_Inr: "attempt m s = (Inr r, s') \<longleftrightarrow> m s = (r, s')"
  by (auto simp: attempt_def split: prod.splits)

lemma batch_call_keys:
  assumes "configured c ps name pc" and "try_get_secrets_batch S ps name pc xs s = (Inr (cmd, Inr m), s')"
  shows "fst ` set xs \<subseteq> set (im_keys m) \<union> {k. left_out S c ps k}"
proof -
  obtain opened s1 where o: "sv_open S ps name pc s = (opened, s1)"
    and rest: "(case opened of Inl e \<Rightarrow> ok (None, Inl e)
      | Inr provider \<Rightarrow> andThen (attempt (pv_get_secrets_batch provider xs)) (\<lambda>r. ok (pv_auth_command provider, r))) s1
      = (Inr (cmd, Inr m), s')"
    using assms(2) unfolding try_get_secrets_batch_def by (elim andThen_InrE) (simp add: attempt_Inr)
  then obtain h where h: "opened = Inr h" by (cases opened) auto
  then have "pv_get_secrets_batch h xs s1 = (Inr m, s')"
    using rest by (auto simp: attempt_Inr elim!: andThen_InrE)
  then show ?thesis using assms(1) o h unfolding left_out_def by blast
qed

lemma handle_batch_error_keys:
  "handle_batch_error S c ps secrets xs e resolved results = Inr m \<Longrightarrow>
   set (im_keys m) = set (im_keys results) \<union> fst ` set xs"
  unfolding handle_batch_error_def by (drule fail_all_keys) (force simp: image_image case_prod_beta)

lemma finish_batch_keys:
  assumes "configured c ps name pc" and "try_get_secrets_batch S ps name pc xs s1 = (Inr (cmd, r), s2)"
    and "finish_batch S c ps secrets resolved xs r s3 = (Inr m, s4)"
  shows "answers S c ps (fst ` set xs) m"
proof (cases r)
  case (Inl e)
  with assms(3) have "handle_batch_error S c ps secrets xs e resolved [] = Inr m"
    by (simp add: finish_batch_def)
  from handle_batch_error_keys [OF this] show ?thesis by (simp add: answers_keys)
next
  case (Inr b)
  with assms(3) have "process_batch_results S c ps secrets b resolved [] = Inr m"
    by (simp add: finish_batch_def)
  from process_batch_results_keys [OF this] batch_call_keys [OF assms(1) assms(2) [unfolded Inr]]
  show ?thesis by (auto simp: answers_def)
qed

lemma retry_batch_keys:
  assumes "configured c ps name pc" and "try_get_secrets_batch S ps name pc xs s1 = (Inr (cmd, r), s2)"
    and "retry_batch S c ps secrets name pc resolved xs cmd e r s3 = (Inr m, s4)"
  shows "answers S c ps (fst ` set xs) m"
proof -
  obtain authenticated s5 where step: "(if authenticated
      then andThen (try_get_secrets_batch S ps name pc xs) (\<lambda>(_, r). finish_batch S c ps secrets resolved xs r)
      else finish_batch S c ps secrets resolved xs r) s5 = (Inr m, s4)"
    using assms(3) unfolding retry_batch_def by (rule andThen_InrE)
  show ?thesis
  proof (cases authenticated)
    case True
    with step obtain a s6 where "try_get_secrets_batch S ps name pc xs s5 = (Inr a, s6)"
      and "(\<lambda>(_, r). finish_batch S c ps secrets resolved xs r) a s6 = (Inr m, s4)"
      by (auto elim: andThen_InrE)
    then show ?thesis using finish_batch_keys [OF assms(1)] by (cases a) simp
  next
    case False
    with step have "finish_batch S c ps secrets resolved xs r s5 = (Inr m, s4)" by simp
    then show ?thesis by (rule finish_batch_keys [OF assms(1,2)])
  qed
qed

lemma try_batch_keys:
  assumes "configured c ps name pc"
    and "try_batch_with_auth_retry S c ps secrets name pc resolved xs s = (Inr m, s')"
  shows "answers S c ps (fst ` set xs) m"
proof -
  obtain a s1 where first: "try_get_secrets_batch S ps name pc xs s = (Inr a, s1)"
    and rest: "(\<lambda>(auth_command, r).
       case (case r of Inr b \<Rightarrow> extract_auth_error_from_batch S b | Inl e \<Rightarrow> Some e) of
         Some e \<Rightarrow> retry_batch S c ps secrets name pc resolved xs auth_command e r
       | None \<Rightarrow> finish_batch S c ps secrets resolved xs r) a s1 = (Inr m, s')"
    using assms(2) unfolding try_batch_with_auth_retry_def by (rule andThen_InrE)
  obtain cmd r where a: "a = (cmd, r)" by (cases a)
  note call = first [unfolded a]
  show ?thesis
  proof (cases "case r of Inr b \<Rightarrow> extract_auth_error_from_batch S b | Inl e \<Rightarrow> Some e")
    case None
    with rest have "finish_batch S c ps secrets resolved xs r s1 = (Inr m, s')" by (simp add: a)
    then show ?thesis by (rule finish_batch_keys [OF assms(1) call])
  next
    case (Some e)
    with rest have "retry_batch S c ps secrets name pc resolved xs cmd e r s1 = (Inr m, s')" by (simp add: a)
    then show ?thesis by (rule retry_batch_keys [OF assms(1) call])
  qed
qed

lemma resolve_provider_batch_keys:
  assumes "resolve_provider_batch S c ps secrets name xs resolved s = (Inr m, s')"
  shows "answers S c ps (fst ` set xs) m"
proof -
  obtain providers where providers: "get_providers c ps = Inr providers"
    using assms by (cases "get_providers c ps") (simp_all add: resolve_provider_batch_def)
  have fail: "answers S c ps (fst ` set xs) m"
    if "fail_all S c ps secrets (map (\<lambda>(key, _). (key, e)) xs) resolved [] = Inr m" for e
    by (rule answers_keys) (use fail_all_keys [OF that] in \<open>force simp: image_image case_prod_beta\<close>)
  show ?thesis
  proof (cases "im_get providers name")
    case None
    then show ?thesis
      using assms fail [of "ProviderNotConfigured name (join '','' ps) (im_get (c_provider_sources c) name)
          (sv_suggest S name (im_keys providers))"]
      by (simp add: resolve_provider_batch_def providers)
  next
    case (Some pc)
    show ?thesis
    proof (cases "sv_non_interactive S \<and> sv_interactive S pc")
      case True
      then show ?thesis
        using assms fail [of "InteractiveAuthRequired name"] Some
        by (simp add: resolve_provider_batch_def providers)
    next
      case False
      then have "try_batch_with_auth_retry S c ps secrets name pc resolved xs s = (Inr m, s')"
        using assms Some unfolding resolve_provider_batch_def providers by (auto split: if_splits)
      moreover have "configured c ps name pc" using providers Some by (simp add: configured_def)
      ultimately show ?thesis by (intro try_batch_keys)
    qed
  qed
qed


lemma first_error_Inr: "first_error rs = Inr as \<longleftrightarrow> rs = map Inr as"
proof (induction rs arbitrary: "as")
  case (Cons r rs)
  then show ?case by (cases "as") (auto simp: bind_sum_Inr)
qed auto

lemma collect_all_Inr:
  "collect_all ms s = (Inr rs, s') \<Longrightarrow> length rs = length ms \<and>
   (\<forall>i < length ms. \<exists>s1 s2. (ms ! i) s1 = (Inr (rs ! i), s2))"
proof -
  have "run_all ms s = (map Inr rs, s') \<Longrightarrow> length rs = length ms \<and>
      (\<forall>i < length ms. \<exists>s1 s2. (ms ! i) s1 = (Inr (rs ! i), s2))" for rs
  proof (induction ms arbitrary: s rs)
    case (Cons m ms)
    then obtain r s1 rs' where "m s = (Inr r, s1)" "run_all ms s1 = (map Inr rs', s')" "rs = r # rs'"
      by (cases rs) (auto simp: Let_def split: prod.splits)
    with Cons.IH show ?case by (auto simp: nth_Cons split: nat.split)
  qed simp
  then show "collect_all ms s = (Inr rs, s') \<Longrightarrow> ?thesis"
    by (auto simp: collect_all_def first_error_Inr split: prod.splits)
qed

lemma collect_all_list_all2:
  assumes "collect_all (map f xs) s = (Inr rs, s')" and "\<And>x s1 r s2. x \<in> set xs \<Longrightarrow> f x s1 = (Inr r, s2) \<Longrightarrow> Q x r"
  shows "list_all2 Q xs rs"
proof (rule list_all2_all_nthI)
  note c = collect_all_Inr [OF assms(1)]
  then show "length xs = length rs" by simp
  fix i assume i: "i < length xs"
  then obtain s1 s2 where "f (xs ! i) s1 = (Inr (rs ! i), s2)" using c by auto
  from assms(2) [OF nth_mem [OF i] this] show "Q (xs ! i) (rs ! i)" .
qed

lemma collect_all_forall:
  assumes "collect_all (map f xs) s = (Inr rs, s')" and "\<And>x s1 r s2. x \<in> set xs \<Longrightarrow> f x s1 = (Inr r, s2) \<Longrightarrow> g r = h x"
  shows "map g rs = map h xs"
proof (rule nth_equalityI)
  note c = collect_all_Inr [OF assms(1)]
  then show "length (map g rs) = length (map h xs)" by simp
  fix i assume "i < length (map g rs)"
  then have i: "i < length xs" "i < length rs" using c by simp_all
  then obtain s1 s2 where "f (xs ! i) s1 = (Inr (rs ! i), s2)" using c by auto
  from assms(2) [OF nth_mem [OF i(1)] this] show "map g rs ! i = map h xs ! i" using i by simp
qed

definition group_keys :: "(string, (string \<times> string) list) imap \<Rightarrow> string set" where
  "group_keys m = (\<Union>(_, xs) \<in> set m. fst ` set xs)"

lemma group_keys_insert:
  "group_keys (im_insert name ((case im_get m name of Some xs \<Rightarrow> xs | None \<Rightarrow> []) @ [(k, v)]) m)
     = insert k (group_keys m)"
proof (induction m)
  case (Cons p m)
  obtain n xs where p: "p = (n, xs)" by fastforce
  show ?case
  proof (cases "n = name")
    case True
    then show ?thesis by (auto simp: p group_keys_def im_insert_def)
  next
    case False
    then show ?thesis using Cons.IH by (auto simp: p group_keys_def im_insert_def)
  qed
qed (simp add: group_keys_def im_insert_def)

lemma group_by_provider_keys:
  "group_keys (group_by_provider assigned ready) = {k \<in> set ready. im_get assigned k \<noteq> None}"
proof -
  let ?f = "\<lambda>key m. case im_get assigned key of
      Some (name, v) \<Rightarrow> im_insert name ((case im_get m name of Some xs \<Rightarrow> xs | None \<Rightarrow> []) @ [(key, v)]) m
    | None \<Rightarrow> m"
  have "group_keys (fold ?f ready m) = group_keys m \<union> {k \<in> set ready. im_get assigned k \<noteq> None}" for m
  proof (induction ready arbitrary: m)
    case (Cons k ready)
    show ?case
    proof (cases "im_get assigned k")
      case None
      then show ?thesis using Cons.IH [of m] by auto
    next
      case (Some nv)
      obtain n v where nv: "nv = (n, v)" by (cases nv)
      show ?thesis using Cons.IH [of "?f k m"] Some by (auto simp: nv group_keys_insert simp del: not_None_eq)
    qed
  qed simp
  from this [of "[]"] show ?thesis by (simp add: group_by_provider_def group_keys_def)
qed

lemma fold_extend_keys: "set (im_keys (fold (\<lambda>m acc. im_extend acc m) ms acc)) = set (im_keys acc) \<union> (\<Union>m \<in> set ms. set (im_keys m))"
  by (induction ms arbitrary: acc) auto

lemma fold_insert_keys: "set (im_keys (fold (\<lambda>(k, v). im_insert k v) kvs acc)) = set (im_keys acc) \<union> fst ` set kvs"
  by (induction kvs arbitrary: acc) auto

lemma resolve_level_keys:
  assumes "resolve_level S c ps secrets assigned no_provider ready resolved s = (Inr m, s')"
  shows "answers S c ps {k \<in> set ready. im_get assigned k \<noteq> None} m \<and>
    {k \<in> set ready. im_get assigned k = None \<and> k \<in> set no_provider} \<subseteq> set (im_keys m)"
proof -
  let ?groups = "in_hash_order S (group_by_provider assigned ready)"
  let ?rest = "filter (\<lambda>k. im_get assigned k = None \<and> k \<in> set no_provider) ready"
  obtain ms s1 where ms: "collect_all (map (\<lambda>(name, xs). resolve_provider_batch S c ps secrets name xs resolved) ?groups) s = (Inr ms, s1)"
    and rest: "andThen (collect_all (map (\<lambda>key.
                        andThen (lift_sum (index secrets key)) (\<lambda>sc.
                        andThen (resolve_no_provider_secret S c ps key sc resolved)
                          (\<lambda>v. ok (key, v)))) ?rest)) (\<lambda>kvs.
              ok (fold (\<lambda>(key, v). im_insert key v) kvs (fold (\<lambda>m acc. im_extend acc m) ms []))) s1 = (Inr m, s')"
    using assms unfolding resolve_level_def Let_def by (rule andThen_InrE)
  from rest obtain kvs s2 where kvs: "collect_all (map (\<lambda>key.
                        andThen (lift_sum (index secrets key)) (\<lambda>sc.
                        andThen (resolve_no_provider_secret S c ps key sc resolved)
                          (\<lambda>v. ok (key, v)))) ?rest) s1 = (Inr kvs, s2)"
    and m: "m = fold (\<lambda>(key, v). im_insert key v) kvs (fold (\<lambda>m acc. im_extend acc m) ms [])"
    by (rule andThen_InrE) simp
  have each: "list_all2 (\<lambda>(_, xs) m. answers S c ps (fst ` set xs) m) ?groups ms"
    by (rule collect_all_list_all2 [OF ms]) (auto dest: resolve_provider_batch_keys)
  have "fst ` set xs \<subseteq> (\<Union>m \<in> set ms. set (im_keys m)) \<union> {k. left_out S c ps k}" if "(n, xs) \<in> set ?groups" for n xs
    using each that by (fastforce simp: answers_def list_all2_conv_all_nth in_set_conv_nth)
  then have "group_keys ?groups \<subseteq> (\<Union>m \<in> set ms. set (im_keys m)) \<union> {k. left_out S c ps k}"
    by (fastforce simp: group_keys_def)
  moreover have "group_keys ?groups = group_keys (group_by_provider assigned ready)"
    by (simp add: group_keys_def in_hash_order_def)
  then have "group_keys ?groups = {k \<in> set ready. im_get assigned k \<noteq> None}"
    by (simp only: group_by_provider_keys)
  ultimately have a: "{k \<in> set ready. im_get assigned k \<noteq> None} \<subseteq> (\<Union>m \<in> set ms. set (im_keys m)) \<union> {k. left_out S c ps k}"
    by simp
  have "map fst kvs = map id ?rest"
    by (rule collect_all_forall [OF kvs]) (auto elim!: andThen_InrE)
  then have "set (map fst kvs) = set ?rest" by simp
  then have b: "fst ` set kvs = {k \<in> set ready. im_get assigned k = None \<and> k \<in> set no_provider}"
    by auto
  show ?thesis
    unfolding answers_def m fold_insert_keys fold_extend_keys b using a by blast
qed


lemma classify_keys:
  "classify S c ps secrets = (assigned, no_provider) \<Longrightarrow>
   set (im_keys assigned) \<union> set no_provider = set (im_keys secrets) \<and> im_wf assigned"
proof -
  let ?f = "\<lambda>(key, sc) (assigned, no_provider).
       case s_sync sc of
         Some sync \<Rightarrow> (im_insert key (sy_provider sync, sy_value sync) assigned, no_provider)
       | None \<Rightarrow>
           (case secret_value sc of
              Some v \<Rightarrow>
                (case (case secret_provider sc of Some n \<Rightarrow> Some n | None \<Rightarrow> the_default_provider S c ps) of
                   Some name \<Rightarrow> (im_insert key (name, v) assigned, no_provider)
                 | None \<Rightarrow> (assigned, no_provider @ [key]))
            | None \<Rightarrow> (assigned, no_provider @ [key]))"
  have step: "?f kv an = (im_insert (fst kv) nv (fst an), snd an) \<or> ?f kv an = (fst an, snd an @ [fst kv])
      \<or> False" if "nv = (case s_sync (snd kv) of Some sync \<Rightarrow> (sy_provider sync, sy_value sync)
        | None \<Rightarrow> (the (case secret_provider (snd kv) of Some n \<Rightarrow> Some n | None \<Rightarrow> the_default_provider S c ps), the (secret_value (snd kv))))"
    for kv nv and an :: "provider_map \<times> string list"
    using that by (cases kv; cases an) (auto split: option.splits)
  have "fold ?f secrets (a, n) = (assigned, no_provider) \<Longrightarrow> im_wf a \<Longrightarrow>
      set (im_keys assigned) \<union> set no_provider = set (im_keys a) \<union> set n \<union> set (im_keys secrets) \<and> im_wf assigned"
    for a n
  proof (induction secrets arbitrary: a n)
    case (Cons kv secrets)
    obtain a1 n1 where an: "?f kv (a, n) = (a1, n1)" by fastforce
    then have "set (im_keys a1) \<union> set n1 = set (im_keys a) \<union> set n \<union> {fst kv} \<and> im_wf a1"
      using step [OF refl, of kv "(a, n)"] Cons.prems(2) by (auto simp: im_wf_insert)
    moreover have "fold ?f secrets (a1, n1) = (assigned, no_provider)" using Cons.prems(1) an by simp
    ultimately show ?case using Cons.IH [of a1 n1] by (simp add: im_keys_def Un_assoc)
  qed simp
  from this [of "[]" "[]"] show "classify S c ps secrets = (assigned, no_provider) \<Longrightarrow> ?thesis"
    by (simp add: classify_def)
qed

lemma merge_deps_keys:
  "im_wf m \<Longrightarrow> im_wf (merge_deps m defaults) \<and>
   set (im_keys (merge_deps m defaults)) = set (im_keys m) \<union> set (im_keys defaults)"
proof (induction defaults arbitrary: m)
  case (Cons d defaults)
  obtain k rs where d: "d = (k, rs)" by fastforce
  let ?m = "case im_get m k of
          Some deps \<Rightarrow> im_insert k (fold (\<lambda>r ds. if r \<in> set ds then ds else ds @ [r]) rs deps) m
        | None \<Rightarrow> im_insert k rs m"
  have "merge_deps m (d # defaults) = merge_deps ?m defaults" by (simp add: merge_deps_def d)
  moreover have "im_wf ?m \<and> set (im_keys ?m) = insert k (set (im_keys m))"
    using Cons.prems by (auto simp: im_wf_insert split: option.split)
  ultimately show ?case using Cons.IH [of ?m] by (simp add: d)
qed (simp add: merge_deps_def)

lemma default_deps_keys:
  "default_deps S ps hard secret_keys secrets = Inr (all, hards) \<Longrightarrow> set (im_keys all) \<subseteq> set (im_keys secrets)"
proof (induction S ps hard secret_keys secrets arbitrary: all hards rule: default_deps.induct)
  case (2 S ps hard secret_keys key sc secrets)
  show ?case
  proof (cases "s_default sc")
    case None
    then show ?thesis using 2 by auto
  next
    case (Some dflt)
    then obtain deps all' hards' where "default_deps S ps hard secret_keys secrets = Inr (all', hards')"
      and "all = all' \<or> all = (key, deps) # all'"
      using 2(3) by (auto simp: Let_def bind_sum_Inr split: if_splits)
    moreover from this(1) have "set (im_keys all') \<subseteq> set (im_keys secrets)"
      using 2(2) [OF Some refl] 2(3) Some by (auto simp: Let_def bind_sum_Inr split: if_splits)
    ultimately show ?thesis by auto
  qed
qed simp

lemma resolve_levels_keys:
  assumes "\<And>ready temp s m s'. level ready temp s = (Inr m, s') \<Longrightarrow> set ready \<subseteq> A \<Longrightarrow> set ready \<subseteq> set (im_keys m) \<union> D"
  shows "set (concat levels) \<subseteq> A \<Longrightarrow> resolve_levels level levels temp s = (Inr m, s') \<Longrightarrow>
    set (im_keys temp) \<union> set (concat levels) \<subseteq> set (im_keys m) \<union> D"
proof (induction levels arbitrary: temp s)
  case Nil
  then show ?case by (simp add: resolve_levels_def)
next
  case (Cons l levels)
  then obtain r s1 s2 where r: "level l temp s = (Inr r, s1)"
    and rest: "resolve_levels level levels (im_extend temp r) s2 = (Inr m, s')"
    unfolding resolve_levels_def foldM.simps by (auto elim!: andThen_InrE)
  have "set l \<subseteq> set (im_keys r) \<union> D" using assms [OF r] Cons.prems(1) by simp
  with Cons.IH [OF _ rest] Cons.prems(1) show ?case by auto
qed

definition provider_backed :: "('p, 'w) services \<Rightarrow> ('p, 'l) config \<Rightarrow> string list \<Rightarrow> secret_config \<Rightarrow> bool" where
  \<comment> \<open>the value of the secret is with a provider: a sync cache, or a value with a provider of its own or by default\<close>
  "provider_backed S c ps sc \<longleftrightarrow>
     s_sync sc \<noteq> None \<or>
     (secret_value sc \<noteq> None \<and> (secret_provider sc \<noteq> None \<or> the_default_provider S c ps \<noteq> None))"

lemma classify_backed:
  assumes "classify S c ps secrets = (assigned, no_provider)" and "im_get assigned k \<noteq> None"
  shows "\<exists>sc. (k, sc) \<in> set secrets \<and> provider_backed S c ps sc"
proof -
  let ?f = "\<lambda>(key, sc) (assigned, no_provider).
       case s_sync sc of
         Some sync \<Rightarrow> (im_insert key (sy_provider sync, sy_value sync) assigned, no_provider)
       | None \<Rightarrow>
           (case secret_value sc of
              Some v \<Rightarrow>
                (case (case secret_provider sc of Some n \<Rightarrow> Some n | None \<Rightarrow> the_default_provider S c ps) of
                   Some name \<Rightarrow> (im_insert key (name, v) assigned, no_provider)
                 | None \<Rightarrow> (assigned, no_provider @ [key]))
            | None \<Rightarrow> (assigned, no_provider @ [key]))"
  have "fold ?f es (a, n) = (a', n') \<Longrightarrow> im_get a' k \<noteq> None \<Longrightarrow>
      im_get a k \<noteq> None \<or> (\<exists>sc. (k, sc) \<in> set es \<and> provider_backed S c ps sc)" for es a n a' n'
  proof (induction es arbitrary: a n)
    case (Cons e es)
    obtain j sc where e: "e = (j, sc)" by (cases e)
    obtain a1 n1 where step: "?f (j, sc) (a, n) = (a1, n1)" by fastforce
    have added: "im_get a k \<noteq> None \<or> j = k \<and> provider_backed S c ps sc" if "im_get a1 k \<noteq> None"
    proof (cases "s_sync sc")
      case None
      show ?thesis
      proof (cases "secret_value sc")
        case no_value: None
        with None step that show ?thesis by simp
      next
        case (Some v)
        show ?thesis
        proof (cases "case secret_provider sc of Some n \<Rightarrow> Some n | None \<Rightarrow> the_default_provider S c ps")
          case no_provider: None
          with None Some step that show ?thesis by simp
        next
          case provider: (Some name)
          then have "provider_backed S c ps sc" using Some by (auto simp: provider_backed_def split: option.splits)
          moreover have "a1 = im_insert j (name, v) a" using None Some provider step by simp
          ultimately show ?thesis using that by (auto simp: im_get_insert split: if_splits)
        qed
      qed
    next
      case (Some sync)
      then have "provider_backed S c ps sc" by (simp add: provider_backed_def)
      moreover have "a1 = im_insert j (sy_provider sync, sy_value sync) a" using Some step by simp
      ultimately show ?thesis using that by (auto simp: im_get_insert split: if_splits)
    qed
    have "fold ?f es (a1, n1) = (a', n')" using Cons.prems(1) step by (simp add: e)
    from Cons.IH [OF this Cons.prems(2)] added show ?case by (auto simp: e)
  qed simp
  from this [of secrets "[]" "[]"] assms show ?thesis by (simp add: classify_def)
qed

lemma batch_results_order:
  "im_keys (concat (map (\<lambda>key. case im_get m key of Some v \<Rightarrow> [(key, v)] | None \<Rightarrow> []) ks)) = filter (im_has m) ks"
  by (induction ks) (auto simp: im_has_iff im_keys_def)

text \<open>C14: A batch that succeeds answers the secrets it was given, each at most once and in the order of the
  configuration, whatever mix of providers, defaults, fallbacks, dependency levels and cycles it contains;
  a secret without a value is answered with none rather than dropped. Nothing is assumed of the providers:
  the only secret that can be without an answer is one whose value is with a provider, where a configured
  provider may leave a key out of the batch it is asked for.\<close>

theorem batch_answers_every_secret:
  assumes "im_wf secrets"
    and "resolve_secrets_batch_with_pre_resolved S c ps secrets pre s = (Inr results, s')"
  shows "im_keys results = filter (im_has results) (im_keys secrets) \<and>
    list_all (\<lambda>(k, sc). im_has results k \<or> (provider_backed S c ps sc \<and> left_out S c ps k)) secrets"
proof -
  obtain providers where providers: "get_providers c ps = Inr providers"
    using assms(2) by (cases "get_providers c ps")
      (simp_all add: resolve_secrets_batch_with_pre_resolved_def resolve_secrets_batch_in_scope_def)
  obtain assigned no_provider where cl: "classify S c ps secrets = (assigned, no_provider)" by fastforce
  note classes = classify_keys [OF cl]
  define keys where "keys = im_keys secrets"
  obtain all_deps hard_deps where dd: "default_deps S ps (hard_default assigned no_provider providers)
      (set keys \<union> set (im_keys pre)) secrets = Inr (all_deps, hard_deps)"
    using assms(2)
    by (cases "default_deps S ps (hard_default assigned no_provider providers) (set keys \<union> set (im_keys pre)) secrets")
       (auto simp: resolve_secrets_batch_with_pre_resolved_def resolve_secrets_batch_in_scope_def providers
          cl keys_def)
  define pdeps where "pdeps = im_map (\<lambda>_ (name, _). provider_env S providers name) assigned"
  obtain levels cycle where lv: "compute_resolution_levels (sv_rank S) keys (merge_deps pdeps all_deps) (set no_provider)
      = (levels, cycle)" by fastforce
  let ?level = "resolve_level S c ps secrets assigned no_provider"
  obtain s1 s2 s3 temp temp' where
    levels: "resolve_levels ?level levels pre s1 = (Inr temp, s2)"
    and left: "(if cycle = [] then ok temp
           else if list_ex (\<lambda>key. case im_get hard_deps key of
                                    Some refs \<Rightarrow> list_ex (\<lambda>r. r \<in> set cycle) refs | None \<Rightarrow> False) cycle
           then err (ConfigError (InterpolationCycle (join '', '' (sort cycle))))
           else andThen (?level cycle temp) (\<lambda>level_results. ok (im_extend temp level_results))) s2 = (Inr temp', s3)"
    and results: "results = concat (map (\<lambda>key. case im_get temp' key of
                                      Some v \<Rightarrow> [(key, v)] | None \<Rightarrow> []) keys)"
    using assms(2)
    unfolding resolve_secrets_batch_with_pre_resolved_def resolve_secrets_batch_in_scope_def
    by (simp only: providers cl dd lv effect_simps Let_def case_prod_conv flip: keys_def pdeps_def)
       (elim andThen_InrE, simp)
  have wf: "im_wf (merge_deps pdeps all_deps)"
    "set (im_keys (merge_deps pdeps all_deps)) = set (im_keys assigned) \<union> set (im_keys all_deps)"
    using merge_deps_keys [of pdeps all_deps] classes by (simp_all add: pdeps_def im_wf_map)
  have cov: "covered keys (merge_deps pdeps all_deps) (set no_provider)"
    using wf classes default_deps_keys [OF dd] assms(1) by (auto simp: covered_def keys_def im_wf_def)
  note spec = covered_levels(1) [OF cov lv] and part = level_spec_partition [OF covered_levels(1) [OF cov lv]]
  let ?D = "{k. left_out S c ps k \<and> im_get assigned k \<noteq> None}"
  have level: "set ready \<subseteq> set (im_keys m) \<union> ?D" if "?level ready t sa = (Inr m, sb)" "set ready \<subseteq> set keys"
    for ready t sa m sb
  proof
    fix k assume k: "k \<in> set ready"
    note lk = resolve_level_keys [OF that(1), unfolded answers_def]
    have "k \<in> set (im_keys assigned) \<or> k \<in> set no_provider" using k that(2) classes by (auto simp: keys_def)
    then have "im_get assigned k \<noteq> None \<or> im_get assigned k = None \<and> k \<in> set no_provider"
      using im_has_iff [of assigned k] by (auto simp: im_has_def)
    then show "k \<in> set (im_keys m) \<union> ?D" using lk k by blast
  qed
  have t: "set (im_keys pre) \<union> set (concat levels) \<subseteq> set (im_keys temp) \<union> ?D"
    by (rule resolve_levels_keys [OF level _ levels, where A = "set keys"]) (use part in auto)
  have all: "set keys \<subseteq> set (im_keys temp') \<union> ?D"
  proof (cases "cycle = []")
    case True
    then show ?thesis using left t part by auto
  next
    case False
    with left obtain m s4 where m: "?level cycle temp s2 = (Inr m, s4)" and temp': "temp' = im_extend temp m"
      by (auto split: if_splits elim!: andThen_InrE)
    have "set cycle \<subseteq> set keys" using part by auto
    from level [OF m this] have c: "set cycle \<subseteq> set (im_keys temp') \<union> ?D" by (auto simp: temp')
    from t have l: "set (concat levels) \<subseteq> set (im_keys temp') \<union> ?D" unfolding temp' set_keys_extend by blast
    show ?thesis
    proof
      fix k assume "k \<in> set keys"
      with part have "k \<in> set cycle \<or> k \<in> set (concat levels)" by auto
      with c l show "k \<in> set (im_keys temp') \<union> ?D" by blast
    qed
  qed
  have has: "im_has results k \<longleftrightarrow> k \<in> set keys \<and> im_has temp' k" for k
    unfolding im_has_def results batch_results_order by auto
  have order: "im_keys results = filter (im_has results) (im_keys secrets)"
    unfolding keys_def [symmetric] by (subst results, subst batch_results_order) (auto simp: has intro!: filter_cong)
  have "im_has results k \<or> provider_backed S c ps sc \<and> left_out S c ps k" if "(k, sc) \<in> set secrets" for k sc
  proof -
    have "k \<in> set keys" using that by (force simp: keys_def im_keys_def)
    moreover have "provider_backed S c ps sc" if assigned: "im_get assigned k \<noteq> None"
    proof -
      obtain sc' where "(k, sc') \<in> set secrets" "provider_backed S c ps sc'" using classify_backed [OF cl assigned] by blast
      with \<open>(k, sc) \<in> set secrets\<close> assms(1) show ?thesis by (metis im_get_of_in option.inject)
    qed
    moreover have "im_has results k \<longleftrightarrow> k \<in> set (im_keys temp')"
      using has [of k] \<open>k \<in> set keys\<close> by (simp add: im_has_def)
    ultimately show ?thesis using all by blast
  qed
  with order show ?thesis by (auto simp: list_all_iff)
qed


definition start_state :: "unit rstate" where
  "start_state = \<lparr>rs_env = [], rs_world = ()\<rparr>"

definition toy_answers :: vals where
  "toy_answers = [(''URL'', Some ''db://plain:u@localhost''), (''HOST'', Some ''localhost''),
     (''USER'', Some ''plain:u''), (''OTHER'', Some ''x''), (''TOKEN'', Some ''plain:t'')]"

lemma toy_run:
  "resolve_secrets_batch_with_pre_resolved toy_services toy_config [''default''] (c_secrets toy_config) [] start_state
     = (Inr toy_answers,
        snd (resolve_secrets_batch_with_pre_resolved toy_services toy_config [''default''] (c_secrets toy_config) [] start_state))"
  by code_simp

theorem batch_answers_every_secret_witness:
  "im_keys toy_answers = filter (im_has toy_answers) (im_keys (c_secrets toy_config)) \<and>
    list_all (\<lambda>(k, sc). im_has toy_answers k \<or>
      (provider_backed toy_services toy_config [''default''] sc \<and> left_out toy_services toy_config [''default''] k))
      (c_secrets toy_config)"
  by (rule batch_answers_every_secret [OF _ toy_run]) code_simp

text \<open>A provider that leaves out what it could not read, as the comment on \<open>get_secrets_batch\<close> says, makes a
  secret vanish: the batch succeeds without it although its policy for a missing value is to fail.\<close>

definition forgetful_services :: "(string, unit) services" where
  "forgetful_services = toy_services\<lparr>sv_open := (\<lambda>_ _ _. ok (toy_provider\<lparr>pv_get_secrets_batch := (\<lambda>_. ok [])\<rparr>))\<rparr>"

definition needed_secret :: secrets where
  "needed_secret = [(''TOKEN'', (default_secret ''unused'')\<lparr>s_default := None, s_value := Some (without_span ''t''),
     s_provider := Some (without_span ''age''), s_if_missing := Some IfError\<rparr>)]"

lemma left_out_secret_vanishes:
  "fst (resolve_secrets_batch_with_pre_resolved forgetful_services toy_config [''default''] needed_secret [] start_state) = Inr []"
  by code_simp


subsection \<open>Failures follow the policy\<close>

lemma fallback_none: "resolve_default_fallbacks S ps keys secrets m r =
    (if list_all (\<lambda>k. case im_get secrets k of Some sc \<Rightarrow> s_default sc = None | None \<Rightarrow> False) keys
     then Inr ([], r) else resolve_default_fallbacks S ps keys secrets m r)"
proof -
  have "\<exists>es. index_all secrets keys = Inr es \<and> filter (\<lambda>(_, sc). s_default sc \<noteq> None) es = []"
    if "list_all (\<lambda>k. case im_get secrets k of Some sc \<Rightarrow> s_default sc = None | None \<Rightarrow> False) keys"
    using that by (induction keys) (auto simp: index_def split: option.splits)
  then show ?thesis by (auto simp: resolve_default_fallbacks_def fallback_loop.simps)
qed

definition fails_hard :: "('p, 'w) services \<Rightarrow> ('p, 'l) config \<Rightarrow> secrets \<Rightarrow> string \<Rightarrow> bool" where
  "fails_hard S c secrets k =
     (case im_get secrets k of Some sc \<Rightarrow> resolve_if_missing_behavior S sc c = IfError | None \<Rightarrow> False)"

lemma fail_missing_policy:
  assumes "index_all secrets (map fst failed) = Inr entries" and "distinct (map fst acc @ map fst failed)"
    and "\<forall>(_, x) \<in> set failed. x = e"
  shows "fail_missing S c (map2 (\<lambda>(key, sc) (_, e). (key, sc, e)) entries failed) ([], acc) =
    (if list_ex (fails_hard S c secrets) (map fst failed) then Inl e
     else Inr (acc @ map (\<lambda>(k, _). (k, None)) failed))"
  using assms
proof (induction failed arbitrary: entries acc)
  case (Cons f failed)
  obtain k where f: "f = (k, e)" using Cons.prems(3) by (cases f) auto
  obtain sc es where sc: "im_get secrets k = Some sc" and es: "index_all secrets (map fst failed) = Inr es"
    and entries: "entries = (k, sc) # es"
    using Cons.prems(1) by (auto simp: f bind_sum_Inr index_def split: option.splits)
  have acc: "im_insert k None acc = acc @ [(k, None)]"
    using Cons.prems(2) by (intro im_insert_new) (auto simp: f im_has_def im_keys_def)
  show ?case
  proof (cases "resolve_if_missing_behavior S sc c = IfError")
    case True
    have "fold (\<lambda>(key, sc, e) acc.
        bind_sum acc (\<lambda>results.
          if key \<in> set [] then Inr results
          else case handle_provider_error e (resolve_if_missing_behavior S sc c) of
                 Some e \<Rightarrow> Inl e
               | None \<Rightarrow> Inr (im_insert key None results))) l (Inl e) = Inl e" for l
      by (induction l) auto
    moreover have "fails_hard S c secrets k" using True by (simp add: fails_hard_def sc)
    ultimately show ?thesis using True
      by (simp add: fail_missing_def entries f handle_provider_error_def)
  next
    case False
    then have h: "handle_provider_error e (resolve_if_missing_behavior S sc c) = None"
      by (cases "resolve_if_missing_behavior S sc c") (simp_all add: handle_provider_error_def)
    have "fail_missing S c (map2 (\<lambda>(key, sc) (_, e). (key, sc, e)) es failed) ([], acc @ [(k, None)]) =
        (if list_ex (fails_hard S c secrets) (map fst failed) then Inl e
         else Inr ((acc @ [(k, None)]) @ map (\<lambda>(k, _). (k, None)) failed))"
      using Cons.prems by (intro Cons.IH es) (auto simp: f)
    moreover have "\<not> fails_hard S c secrets k" using False by (simp add: fails_hard_def sc)
    ultimately show ?thesis using False h acc by (simp add: fail_missing_def entries f)
  qed
qed (simp add: fail_missing_def)

text \<open>When a provider fails a whole batch and there is no default to fall back on, the
  missing-secret policy decides: one secret that must not be missing fails the batch with the
  provider's error, and otherwise every secret of the batch is answered with no value.\<close>

lemma batch_failure_follows_policy:
  assumes "distinct (map fst xs)"
    and "list_all (\<lambda>(k, _). case im_get secrets k of Some sc \<Rightarrow> s_default sc = None | None \<Rightarrow> False) xs"
  shows "handle_batch_error S c ps secrets xs e resolved [] =
    (if list_ex (\<lambda>(k, _). fails_hard S c secrets k) xs then Inl (ProviderError (sv_show S e))
     else Inr (map (\<lambda>(k, _). (k, None)) xs))"
proof -
  let ?failed = "map (\<lambda>(k, _). (k, ProviderError (sv_show S e))) xs"
  have keys: "map fst ?failed = map fst xs" by (simp add: case_prod_beta comp_def)
  have "\<exists>es. index_all secrets (map fst xs) = Inr es"
    using assms(2) by (induction xs) (auto simp: index_def split: option.splits)
  then obtain es where es: "index_all secrets (map fst ?failed) = Inr es" unfolding keys by blast
  have "resolve_default_fallbacks S ps (map fst ?failed) secrets resolved [] = Inr ([], [])"
    using assms(2) unfolding keys by (subst fallback_none) (simp add: list_all_iff case_prod_beta)
  then have "handle_batch_error S c ps secrets xs e resolved [] =
      fail_missing S c (map2 (\<lambda>(key, sc) (_, e). (key, sc, e)) es ?failed) ([], [])"
    using es by (simp add: handle_batch_error_def fail_all_def)
  also have "\<dots> = (if list_ex (fails_hard S c secrets) (map fst ?failed) then Inl (ProviderError (sv_show S e))
     else Inr ([] @ map (\<lambda>(k, _). (k, None)) ?failed))"
    using assms(1) by (intro fail_missing_policy [OF es]) (simp_all only: keys list.map append_Nil, auto)
  finally show ?thesis
    unfolding keys by (simp add: list_ex_iff case_prod_beta comp_def)
qed

end
