(* ===== verification/Utf8.thy ===== *)
theory Utf8
  imports Names "HOL-Library.Word"
begin

text \<open>
  The bytes of a text: bytes are \<open>8 word\<close>, and a character below U+0100 has the one or two bytes of its
  UTF-8 form. \<open>latin_utf8\<close> reads them back.
\<close>

type_synonym byte = "8 word"
type_synonym bytes = "byte list"

definition utf8_char :: "char \<Rightarrow> bytes" where
  "utf8_char c =
     (let n = of_char c :: nat
      in if n < 128 then [of_nat n] else [of_nat (192 + n div 64), of_nat (128 + n mod 64)])"

definition as_bytes :: "string \<Rightarrow> bytes" where
  "as_bytes s = concat (map utf8_char s)"

subsection \<open>Reading back\<close>

fun latin_utf8 :: "bytes \<Rightarrow> string option" where
  \<comment> \<open>UTF-8, of the characters that the model has\<close>
  "latin_utf8 [] = Some []"
| "latin_utf8 (b # bs) =
     (if unat b < 128 then map_option ((#) (char_of (unat b))) (latin_utf8 bs)
      else case bs of
             [] \<Rightarrow> None
           | c # bs \<Rightarrow>
               if (unat b = 194 \<or> unat b = 195) \<and> 128 \<le> unat c \<and> unat c < 192
               then map_option ((#) (char_of ((unat b - 192) * 64 + (unat c - 128)))) (latin_utf8 bs)
               else None)"

lemma utf8_low: "n < 128 \<Longrightarrow> utf8_char (char_of n) = [of_nat n]"
  by (simp add: utf8_char_def Let_def)

lemma utf8_high: "128 \<le> n \<Longrightarrow> n < 256 \<Longrightarrow> utf8_char (char_of n) = [of_nat (192 + n div 64), of_nat (128 + n mod 64)]"
  by (simp add: utf8_char_def Let_def)

lemma as_bytes_Cons: "as_bytes (c # s) = utf8_char c @ as_bytes s"
  by (simp add: as_bytes_def)

lemma latin_utf8_sound: "latin_utf8 bs = Some s \<Longrightarrow> as_bytes s = bs"
proof (induction bs arbitrary: s rule: latin_utf8.induct)
  case (2 b bs)
  show ?case
  proof (cases "unat b < 128")
    case True
    with 2 show ?thesis by (auto simp: as_bytes_Cons utf8_low)
  next
    case False
    with "2.prems" obtain c bs' s' where bs: "bs = c # bs'" "latin_utf8 bs' = Some s'"
      and b: "unat b = 194 \<or> unat b = 195" and c: "128 \<le> unat c" "unat c < 192"
      and s: "s = char_of ((unat b - 192) * 64 + (unat c - 128)) # s'"
      by (auto split: list.splits if_splits)
    let ?n = "(unat b - 192) * 64 + (unat c - 128)"
    have m: "unat c - 128 < 64" using c by simp
    then have n: "128 \<le> ?n" "?n < 256" "?n div 64 = unat b - 192" "?n mod 64 = unat c - 128"
      using b by (auto simp only: mod_mult_self3 mod_less div_mult_self3)
    have "192 + (unat b - 192) = unat b" "128 + (unat c - 128) = unat c" using b c by auto
    then have "utf8_char (char_of ?n) = [of_nat (unat b), of_nat (unat c)]"
      unfolding utf8_high [OF n(1,2)] n(3,4) by (simp only:)
    moreover have "as_bytes s' = bs'" using "2.IH" False bs b c by auto
    ultimately show ?thesis by (simp add: s bs as_bytes_Cons)
  qed
qed (simp add: as_bytes_def)

lemma latin_utf8_complete: "latin_utf8 (as_bytes s) = Some s"
proof (induction s)
  case (Cons c s)
  define n where "n = (of_char c :: nat)"
  have c: "c = char_of n" and n: "n < 256" by (simp_all add: n_def)
  show ?case
  proof (cases "n < 128")
    case True
    with n Cons show ?thesis by (simp add: as_bytes_Cons c utf8_low unat_of_nat)
  next
    case False
    let ?b = "of_nat (192 + n div 64) :: byte" and ?c = "of_nat (128 + n mod 64) :: byte"
    have small: "x < 256 \<Longrightarrow> unat (of_nat x :: byte) = x" for x by (simp add: unat_of_nat)
    have k: "n div 64 = 2 \<or> n div 64 = 3" using False n by auto
    then have b: "unat ?b = 192 + n div 64" by (intro small) auto
    have y: "unat ?c = 128 + n mod 64" by (intro small) (simp add: less_le_trans [OF mod_less_divisor])
    have "n div 64 * 64 + n mod 64 = n" "n mod 64 < 64" by simp_all
    with b y k False n Cons show ?thesis
      by (auto simp: as_bytes_Cons c utf8_high simp del: of_nat_add mod_mult_self1 div_mult_mod_eq)
  qed
qed (simp add: as_bytes_def)

subsection \<open>Zero bytes\<close>

lemma byte_not_zero:
  assumes "0 < k" and "k < 256"
  shows "(of_nat k :: byte) \<noteq> 0"
proof
  assume "(of_nat k :: byte) = 0"
  then have "unat (of_nat k :: byte) = 0" by simp
  then show False using assms by (simp add: unat_of_nat)
qed

lemma utf8_char_no_zero:
  assumes "c \<noteq> CHR 0x00"
  shows "0 \<notin> set (utf8_char c)"
proof -
  have n: "0 < (of_char c :: nat)" using assms by (cases c) auto
  have "192 + k div 64 < 256" and "128 + k mod 64 < 256" if "k < 256" for k :: nat
    using that less_mult_imp_div_less [of k 4 64] mod_less_divisor [of 64 k] by simp_all
  moreover have "(of_char c :: nat) < 256" by simp
  ultimately have "192 + (of_char c :: nat) div 64 < 256" and "128 + (of_char c :: nat) mod 64 < 256" by blast+
  with \<open>(of_char c :: nat) < 256\<close>
  have "(of_nat (192 + of_char c div 64) :: byte) \<noteq> 0" and "(of_nat (128 + of_char c mod 64) :: byte) \<noteq> 0"
    and "(of_nat (of_char c) :: byte) \<noteq> 0"
    using n by (simp_all only: byte_not_zero not_False_eq_True zero_less_numeral add_pos_nonneg le0)
  then show ?thesis
    unfolding utf8_char_def Let_def
    by (cases "(of_char c :: nat) < 128")
       (simp_all only: if_True if_False list.set insert_iff empty_iff eq_commute [of 0] not_False_eq_True de_Morgan_disj)
qed

lemma as_bytes_no_zero:
  assumes "CHR 0x00 \<notin> set s"
  shows "0 \<notin> set (as_bytes s)"
proof -
  have "0 \<notin> set (utf8_char c)" if "c \<in> set s" for c
  proof (rule utf8_char_no_zero)
    show "c \<noteq> CHR 0x00" using assms that by blast
  qed
  then show ?thesis unfolding as_bytes_def set_concat set_map by blast
qed

end
