(* ===== verification/Redact.thy ===== *)
theory Redact
  imports Utf8 "HOL-Library.List_Lexorder"
begin

text \<open>
  Streaming redaction of the secrets in a child's output (\<open>src/redact.rs\<close>). The Aho-Corasick automaton
  of the \<open>aho_corasick\<close> crate is the parameter \<open>automata\<close>: it is only known to find the leftmost-longest matches and to replace them, which
  is the hypothesis \<open>leftmost_longest_laws\<close>. A stream, fed in any chunks, prints what the
  redaction of the whole input prints, and never holds back more than the longest secret.
\<close>

definition MARKER :: bytes where
  "MARKER = as_bytes ''[REDACTED]''"

definition MIN_REDACT_LENGTH :: nat where
  "MIN_REDACT_LENGTH = 3"

definition redactable :: "string \<Rightarrow> string option" where
  "redactable value = (let v = trim value in if length (as_bytes v) \<ge> MIN_REDACT_LENGTH then Some v else None)"

subsection \<open>The automaton\<close>

record 'a automata =
  ac_build :: "bytes list \<Rightarrow> 'a option"
  ac_find_iter :: "'a \<Rightarrow> bytes \<Rightarrow> (nat \<times> nat) list"
  ac_replace_all :: "'a \<Rightarrow> bytes \<Rightarrow> bytes list \<Rightarrow> bytes"

definition longest :: "bytes list \<Rightarrow> bytes \<Rightarrow> nat" where
  "longest ps d = foldr max (map length (filter (\<lambda>p. prefix p d) ps)) 0"

lemma foldr_max_ge: "n \<in> set ns \<Longrightarrow> n \<le> foldr max ns (0 :: nat)"
  by (induction ns) auto

lemma foldr_max_in: "foldr max ns (0 :: nat) \<in> insert 0 (set ns)"
  by (induction ns) (auto simp: max_def)

lemma longest_ge: "p \<in> set ps \<Longrightarrow> prefix p d \<Longrightarrow> length p \<le> longest ps d"
  unfolding longest_def by (rule foldr_max_ge) simp

lemma longest_le: "longest ps d \<le> length d"
  using foldr_max_in [of "map length (filter (\<lambda>p. prefix p d) ps)"]
  by (auto simp: longest_def dest: prefix_length_le)

function matches_from :: "bytes list \<Rightarrow> nat \<Rightarrow> bytes \<Rightarrow> (nat \<times> nat) list" where
  "matches_from ps k [] = []"
| "matches_from ps k (x # xs) =
     (let n = longest ps (x # xs)
      in if n = 0 then matches_from ps (Suc k) xs
         else (k, k + n) # matches_from ps (k + n) (drop n (x # xs)))"
  by pat_completeness auto
termination by (relation "measure (\<lambda>(_, _, d). length d)") auto

fun splice :: "bytes \<Rightarrow> bytes \<Rightarrow> nat \<Rightarrow> (nat \<times> nat) list \<Rightarrow> bytes" where
  "splice r d pos [] = drop pos d"
| "splice r d pos ((s, e) # ms) = take (s - pos) (drop pos d) @ r @ splice r d e ms"

definition leftmost_longest_laws :: "'a automata \<Rightarrow> bool" where
  "leftmost_longest_laws A \<longleftrightarrow>
     (\<forall>ps ac d r. ac_build A ps = Some ac \<and> [] \<notin> set ps \<longrightarrow>
        ac_find_iter A ac d = matches_from ps 0 d \<and>
        ac_replace_all A ac d (replicate (length ps) r) = splice r d 0 (ac_find_iter A ac d))"

subsection \<open>The redactor\<close>

record 'a redactor =
  rd_ac :: 'a
  rd_patterns :: "bytes list"
  rd_max_len :: nat

definition new_redactor :: "'a automata \<Rightarrow> string list \<Rightarrow> 'a redactor option" where
  "new_redactor A values =
     (let patterns = remdups_adj (sort (map as_bytes (List.map_filter redactable values)))
      in if patterns = [] then None
         else case ac_build A patterns of
                None \<Rightarrow> None
              | Some ac \<Rightarrow> Some \<lparr>rd_ac = ac, rd_patterns = patterns,
                               rd_max_len = foldr max (map length patterns) 0\<rparr>)"

definition redact_all :: "'a automata \<Rightarrow> 'a redactor \<Rightarrow> bytes \<Rightarrow> bytes" where
  "redact_all A r d = ac_replace_all A (rd_ac r) d (replicate (length (rd_patterns r)) MARKER)"

record 'a stream =
  st_redactor :: "'a redactor"
  st_pending :: bytes

definition new_stream :: "'a redactor \<Rightarrow> 'a stream" where
  "new_stream r = \<lparr>st_redactor = r, st_pending = []\<rparr>"

definition could_grow :: "bytes list \<Rightarrow> bytes \<Rightarrow> bool" where
  "could_grow ps tl_bytes = list_ex (\<lambda>p. length p \<ge> length tl_bytes \<and> prefix tl_bytes p) ps"

definition safe_end :: "'a redactor \<Rightarrow> bytes \<Rightarrow> nat" where
  "safe_end r pending =
     (let len = length pending; hold_from = len - (rd_max_len r - 1)
      in case List.find (\<lambda>i. could_grow (rd_patterns r) (drop i pending)) [hold_from..<len] of
           Some i \<Rightarrow> i
         | None \<Rightarrow> len)"

fun emit :: "nat \<Rightarrow> bytes \<Rightarrow> (nat \<times> nat) list \<Rightarrow> nat \<Rightarrow> bytes \<Rightarrow> bytes \<times> nat" where
  "emit safe d [] pos out = (out, pos)"
| "emit safe d ((s, e) # ms) pos out =
     (if s \<ge> safe then (out, pos)
      else emit safe d ms e (out @ take (s - pos) (drop pos d) @ MARKER))"

definition push :: "'a automata \<Rightarrow> 'a stream \<Rightarrow> bytes \<Rightarrow> bytes \<times> 'a stream" where
  "push A st chunk =
     (let pending = st_pending st @ chunk;
          safe = safe_end (st_redactor st) pending;
          (out, pos) = emit safe pending (ac_find_iter A (rd_ac (st_redactor st)) pending) 0 [];
          (out, pos) = (if pos < safe then (out @ take (safe - pos) (drop pos pending), safe) else (out, pos))
      in (out, st\<lparr>st_pending := drop pos pending\<rparr>))"

definition finish :: "'a automata \<Rightarrow> 'a stream \<Rightarrow> bytes \<times> 'a stream" where
  "finish A st = (redact_all A (st_redactor st) (st_pending st), st\<lparr>st_pending := []\<rparr>)"

text \<open>A reader is the list of the results of its \<open>read\<close> calls (after them it is at its end); a
  writer collects what is written, or fails.\<close>

datatype read_result = Bytes bytes | Interrupted | ReadFailed string

fun copy_loop ::
  "'a automata \<Rightarrow> (bytes \<Rightarrow> bytes \<Rightarrow> string + bytes) \<Rightarrow> 'a stream \<Rightarrow> read_result list \<Rightarrow> bytes \<Rightarrow> string + bytes" where
  "copy_loop A write st [] w = write w (fst (finish A st))"
| "copy_loop A write st (e # es) w =
     (case e of
        Interrupted \<Rightarrow> copy_loop A write st es w
      | ReadFailed m \<Rightarrow> Inl m
      | Bytes chunk \<Rightarrow>
          if chunk = [] then write w (fst (finish A st))
          else case push A st chunk of (out, st) \<Rightarrow>
            if out = [] then copy_loop A write st es w
            else bind_sum (write w out) (copy_loop A write st es))"

definition copy :: "'a automata \<Rightarrow> (bytes \<Rightarrow> bytes \<Rightarrow> string + bytes) \<Rightarrow> 'a redactor \<Rightarrow> read_result list \<Rightarrow> bytes \<Rightarrow> string + bytes" where
  "copy A write r events w = copy_loop A write (new_stream r) events w"

subsection \<open>Streaming agrees with the redaction of the whole input\<close>

function cut :: "bytes list \<Rightarrow> bytes \<Rightarrow> bytes" where
  \<comment> \<open>the reference: at each position the longest secret there is replaced\<close>
  "cut ps [] = []"
| "cut ps (x # xs) =
     (let n = longest ps (x # xs)
      in if n = 0 then x # cut ps xs else MARKER @ cut ps (drop n (x # xs)))"
  by pat_completeness auto
termination by (relation "measure (\<lambda>(_, d). length d)") auto

declare cut.simps(2) [simp del] matches_from.simps(2) [simp del]

lemma at_position:
  assumes "k < length d"
  shows "longest ps (drop k d @ rest) = 0 \<Longrightarrow> cut ps (drop k d @ rest) = d ! k # cut ps (drop (Suc k) d @ rest)"
    and "longest ps (drop k d @ rest) = n \<Longrightarrow> n \<noteq> 0 \<Longrightarrow> k + n \<le> length d \<Longrightarrow>
      cut ps (drop k d @ rest) = MARKER @ cut ps (drop (k + n) d @ rest)"
    and "longest ps (drop k d) = 0 \<Longrightarrow> matches_from ps k (drop k d) = matches_from ps (Suc k) (drop (Suc k) d)"
    and "longest ps (drop k d) = n \<Longrightarrow> n \<noteq> 0 \<Longrightarrow>
      matches_from ps k (drop k d) = (k, k + n) # matches_from ps (k + n) (drop (k + n) d)"
proof -
  have d: "drop k d = d ! k # drop (Suc k) d" using assms by (simp add: Cons_nth_drop_Suc)
  have dn: "drop n (d ! k # drop (Suc k) d) = drop (k + n) d" for n
    unfolding d [symmetric] by (simp add: add.commute)
  show "longest ps (drop k d @ rest) = 0 \<Longrightarrow> cut ps (drop k d @ rest) = d ! k # cut ps (drop (Suc k) d @ rest)"
    using d by (simp add: cut.simps(2))
  show "longest ps (drop k d) = 0 \<Longrightarrow> matches_from ps k (drop k d) = matches_from ps (Suc k) (drop (Suc k) d)"
    using d by (simp add: matches_from.simps(2))
  have drops: "drop n (drop k d @ rest) = drop (k + n) d @ rest" if "k + n \<le> length d" for n
    using that by (simp add: add.commute)
  show "longest ps (drop k d @ rest) = n \<Longrightarrow> n \<noteq> 0 \<Longrightarrow> k + n \<le> length d \<Longrightarrow>
      cut ps (drop k d @ rest) = MARKER @ cut ps (drop (k + n) d @ rest)"
    using d drops [of n] cut.simps(2) [of ps "d ! k" "drop (Suc k) d @ rest"] by (simp add: Let_def)
  show "longest ps (drop k d) = n \<Longrightarrow> n \<noteq> 0 \<Longrightarrow>
      matches_from ps k (drop k d) = (k, k + n) # matches_from ps (k + n) (drop (k + n) d)"
    using d dn [of n] matches_from.simps(2) [of ps k "d ! k" "drop (Suc k) d"] by (simp add: Let_def)
qed

lemma match_bounds: "k < length d \<Longrightarrow> k + longest ps (drop k d) \<le> length d"
  using longest_le [of ps "drop k d"] by simp

lemma take_Suc_drop:
  "pos \<le> k \<Longrightarrow> k < length d \<Longrightarrow> take (Suc k - pos) (drop pos d) = take (k - pos) (drop pos d) @ [d ! k]"
  by (simp add: Suc_diff_le take_Suc_conv_app_nth)

lemma splice_matches:
  "pos \<le> k \<Longrightarrow> k \<le> length d \<Longrightarrow>
   splice MARKER d pos (matches_from ps k (drop k d)) = take (k - pos) (drop pos d) @ cut ps (drop k d)"
proof (induction "length d - k" arbitrary: k pos rule: less_induct)
  case less
  show ?case
  proof (cases "k = length d")
    case False
    with less.prems have k: "k < length d" by simp
    note at = at_position(1,2) [OF k, where rest = "[]", simplified] at_position(3,4) [OF k]
    define n where "n = longest ps (drop k d)"
    have n: "k + n \<le> length d" unfolding n_def by (rule match_bounds [OF k])
    show ?thesis
    proof (cases "n = 0")
      case True
      have "splice MARKER d pos (matches_from ps (Suc k) (drop (Suc k) d)) =
          take (Suc k - pos) (drop pos d) @ cut ps (drop (Suc k) d)"
        using k less.prems by (intro less.hyps) auto
      with True at(1,3) show ?thesis by (simp add: n_def take_Suc_drop [OF less.prems(1) k])
    next
      case nz: False
      have "splice MARKER d (k + n) (matches_from ps (k + n) (drop (k + n) d)) = cut ps (drop (k + n) d)"
        using less.hyps [of "k + n" "k + n"] k n nz by simp
      with nz n at(2) [of ps n] at(4) [of ps n] show ?thesis by (simp add: n_def)
    qed
  qed simp
qed

lemma first_match_not_before: "matches_from ps k d = (s, e) # ms \<Longrightarrow> k \<le> s"
proof (induction ps k d arbitrary: ms rule: matches_from.induct)
  case (2 ps k x xs)
  then show ?case by (fastforce simp: matches_from.simps(2) Let_def split: if_splits)
qed simp

lemma emit_stops: "safe \<le> k \<Longrightarrow> emit safe d (matches_from ps k d') pos out = (out, pos)"
  by (cases "matches_from ps k d'") (auto dest: first_match_not_before)

lemma emit_matches:
  assumes "\<And>i. i < safe \<Longrightarrow> longest ps (drop i d @ rest) = longest ps (drop i d)"
    and "safe \<le> length d" and "pos \<le> k" and "pos = k \<or> k \<le> safe" and "k \<le> length d"
    and "emit safe d (matches_from ps k (drop k d)) pos out = (out', pos')"
  shows "pos' \<le> length d \<and> (out' @ take (safe - pos') (drop pos' d)) @ cut ps (drop (max pos' safe) d @ rest) =
    out @ take (k - pos) (drop pos d) @ cut ps (drop k d @ rest)"
  using assms(3-6)
proof (induction "length d - k" arbitrary: k pos out rule: less_induct)
  case less
  show ?case
  proof (cases "safe \<le> k")
    case True
    with less.prems show ?thesis
      by (auto simp: emit_stops max_def)
  next
    case False
    with assms(2) have k: "k < length d" by simp
    define n where "n = longest ps (drop k d)"
    have n: "k + n \<le> length d" unfolding n_def by (rule match_bounds [OF k])
    have later: "longest ps (drop k d @ rest) = n" unfolding n_def using False by (intro assms(1)) simp
    show ?thesis
    proof (cases "n = 0")
      case True
      have "pos' \<le> length d \<and> (out' @ take (safe - pos') (drop pos' d)) @ cut ps (drop (max pos' safe) d @ rest) =
          out @ take (Suc k - pos) (drop pos d) @ cut ps (drop (Suc k) d @ rest)"
        using less.prems k False at_position(3) [OF k, of ps] True by (intro less.hyps) (auto simp: n_def)
      with True later show ?thesis
        by (simp add: at_position(1) [OF k] take_Suc_drop [OF less.prems(1) k])
    next
      case nz: False
      have "pos' \<le> length d \<and> (out' @ take (safe - pos') (drop pos' d)) @ cut ps (drop (max pos' safe) d @ rest) =
          (out @ take (k - pos) (drop pos d) @ MARKER) @ take (k + n - (k + n)) (drop (k + n) d) @
            cut ps (drop (k + n) d @ rest)"
        using less.prems k n False nz at_position(4) [OF k, of ps n] by (intro less.hyps) (auto simp: n_def)
      with nz later n show ?thesis by (simp add: at_position(2) [OF k])
    qed
  qed
qed

lemma find_first:
  "case List.find P [a..<b] of Some i \<Rightarrow> a \<le> i \<and> i < b \<and> P i \<and> (\<forall>j. a \<le> j \<and> j < i \<longrightarrow> \<not> P j)
   | None \<Rightarrow> \<forall>j. a \<le> j \<and> j < b \<longrightarrow> \<not> P j"
proof (cases "List.find P [a..<b]")
  case (Some i)
  then obtain n where n: "n < b - a" "P (a + n)" "i = a + n" "\<forall>m < n. \<not> P (a + m)"
    by (auto simp: find_Some_iff)
  have "\<not> P j" if "a \<le> j" "j < i" for j
    using n(3,4) that by (metis le_add_diff_inverse nat_add_left_cancel_less)
  with n Some show ?thesis by auto
next
  case None
  then have "\<forall>j. a \<le> j \<and> j < b \<longrightarrow> \<not> P j" by (auto simp: find_None_iff)
  with None show ?thesis by simp
qed

lemma safe_end_bounds:
  "length d - (rd_max_len r - 1) \<le> safe_end r d \<and> safe_end r d \<le> length d"
  using find_first [where P = "\<lambda>i. could_grow (rd_patterns r) (drop i d)"
      and a = "length d - (rd_max_len r - 1)" and b = "length d"]
  by (auto simp: safe_end_def Let_def split: option.splits)

lemma safe_end_decided:
  assumes "i < safe_end r d" and "\<forall>p \<in> set (rd_patterns r). length p \<le> rd_max_len r"
  shows "longest (rd_patterns r) (drop i d @ rest) = longest (rd_patterns r) (drop i d)"
proof -
  have i: "i < length d" using assms(1) safe_end_bounds [of d r] by simp
  have undecided: "\<not> could_grow (rd_patterns r) (drop i d)" if "length d - (rd_max_len r - 1) \<le> i"
    using find_first [where P = "\<lambda>i. could_grow (rd_patterns r) (drop i d)"
      and a = "length d - (rd_max_len r - 1)" and b = "length d"]
      assms(1) that i by (auto simp: safe_end_def Let_def split: option.splits)
  have "prefix p (drop i d @ rest) = prefix p (drop i d)" if p: "p \<in> set (rd_patterns r)" for p
  proof
    assume pre: "prefix p (drop i d @ rest)"
    show "prefix p (drop i d)"
    proof (rule ccontr)
      assume no: "\<not> prefix p (drop i d)"
      with pre have grow: "prefix (drop i d) p" and "length p > length (drop i d)"
        using prefix_same_cases [of p "drop i d @ rest" "drop i d"] prefix_length_le [of "drop i d" p]
        by (auto simp: prefix_def)
      then have "length d - (rd_max_len r - 1) \<le> i" using assms(2) p i by fastforce
      from undecided [OF this] show False
        using p grow prefix_length_le [OF grow] by (auto simp: could_grow_def list_ex_iff)
    qed
  qed (simp add: prefix_prefix)
  then show ?thesis by (simp add: longest_def cong: filter_cong)
qed

definition usable :: "'a automata \<Rightarrow> 'a redactor \<Rightarrow> bool" where
  \<comment> \<open>what \<open>new_redactor\<close> builds\<close>
  "usable A r \<longleftrightarrow> ac_build A (rd_patterns r) = Some (rd_ac r) \<and> rd_patterns r \<noteq> [] \<and>
     list_all (\<lambda>p. p \<noteq> []) (rd_patterns r) \<and> rd_max_len r = foldr max (map length (rd_patterns r)) 0"

lemma redactable_length: "redactable v = Some x \<Longrightarrow> as_bytes x \<noteq> []"
  by (auto simp: redactable_def Let_def MIN_REDACT_LENGTH_def split: if_splits)

lemma patterns_nonempty: "p \<in> set (map as_bytes (List.map_filter redactable vs)) \<Longrightarrow> p \<noteq> []"
  by (induction vs) (auto dest: redactable_length split: option.splits)

lemma new_redactor_usable: "new_redactor A values = Some r \<Longrightarrow> usable A r"
  by (auto simp: new_redactor_def usable_def Let_def list_all_iff simp del: set_map
      dest: patterns_nonempty split: if_splits option.splits)

lemma usable_max_len: "usable A r \<Longrightarrow> p \<in> set (rd_patterns r) \<Longrightarrow> length p \<le> rd_max_len r"
  by (auto simp: usable_def intro!: foldr_max_ge)

lemma usable_positive: "usable A r \<Longrightarrow> 0 < rd_max_len r"
  by (cases "rd_patterns r") (auto simp: usable_def less_max_iff_disj)

lemma lawful:
  assumes "leftmost_longest_laws A" and "usable A r"
  shows "ac_find_iter A (rd_ac r) d = matches_from (rd_patterns r) 0 d"
    and "redact_all A r d = cut (rd_patterns r) d"
proof -
  have nonempty: "[] \<notin> set (rd_patterns r)" using assms(2) by (auto simp: usable_def list_all_iff)
  with assms show find: "ac_find_iter A (rd_ac r) d = matches_from (rd_patterns r) 0 d"
    by (simp add: leftmost_longest_laws_def usable_def)
  from nonempty assms have "redact_all A r d = splice MARKER d 0 (ac_find_iter A (rd_ac r) d)"
    by (simp add: leftmost_longest_laws_def usable_def redact_all_def)
  then show "redact_all A r d = cut (rd_patterns r) d"
    using splice_matches [of 0 0 d "rd_patterns r"] by (simp add: find)
qed

lemma push_emits:
  assumes "leftmost_longest_laws A" and "usable A (st_redactor st)" and "push A st chunk = (out, st')"
  shows "st_redactor st' = st_redactor st" and "length (st_pending st') < rd_max_len (st_redactor st)"
    and "redact_all A (st_redactor st) (st_pending st @ chunk @ rest) =
      out @ redact_all A (st_redactor st) (st_pending st' @ rest)"
proof -
  let ?r = "st_redactor st" and ?d = "st_pending st @ chunk"
  obtain out' pos where e: "emit (safe_end ?r ?d) ?d (matches_from (rd_patterns ?r) 0 (drop 0 ?d)) 0 [] = (out', pos)"
    by (metis surj_pair)
  have len: "\<forall>p \<in> set (rd_patterns ?r). length p \<le> rd_max_len ?r" using assms(2) usable_max_len by blast
  have out: "out = out' @ take (safe_end ?r ?d - pos) (drop pos ?d)"
    "st' = st\<lparr>st_pending := drop (max pos (safe_end ?r ?d)) ?d\<rparr>"
    using assms(3) e by (auto simp: push_def lawful [OF assms(1,2)] Let_def max_def split: if_splits)
  show "st_redactor st' = ?r" using out(2) by simp
  have "length (st_pending st') \<le> length ?d - safe_end ?r ?d" by (simp add: out(2))
  also have "\<dots> < rd_max_len ?r"
    using safe_end_bounds [of ?d ?r] usable_positive [OF assms(2)] by linarith
  finally show "length (st_pending st') < rd_max_len ?r" .
  have "(out' @ take (safe_end ?r ?d - pos) (drop pos ?d)) @
      cut (rd_patterns ?r) (drop (max pos (safe_end ?r ?d)) ?d @ rest) =
      [] @ take (0 - 0) (drop 0 ?d) @ cut (rd_patterns ?r) (drop 0 ?d @ rest)"
    using emit_matches [OF safe_end_decided [OF _ len] _ _ _ _ e, of rest] safe_end_bounds [of ?d ?r] by blast
  then show "redact_all A ?r (st_pending st @ chunk @ rest) = out @ redact_all A ?r (st_pending st' @ rest)"
    by (simp add: lawful [OF assms(1,2)] out)
qed

text \<open>What an incremental transformer promises: an accepted state prints, for each chunk, a part of
  what the transformation of the whole remaining input is.\<close>

locale incremental =
  fixes accepted :: "'s \<Rightarrow> bool"
    and feed :: "'s \<Rightarrow> 'b list \<Rightarrow> 'b list \<times> 's"
    and whole :: "'s \<Rightarrow> 'b list \<Rightarrow> 'b list"
  assumes feed_accepted: "accepted s \<Longrightarrow> feed s c = (out, s') \<Longrightarrow> accepted s'"
    and feed_whole: "accepted s \<Longrightarrow> feed s c = (out, s') \<Longrightarrow> whole s (c @ rest) = out @ whole s' rest"
begin

fun feed_all :: "'s \<Rightarrow> 'b list list \<Rightarrow> 'b list \<times> 's" where
  "feed_all s [] = ([], s)"
| "feed_all s (c # cs) = (case feed s c of (out, s') \<Rightarrow> case feed_all s' cs of (outs, s'') \<Rightarrow> (out @ outs, s''))"

lemma feed_all_whole:
  "accepted s \<Longrightarrow> feed_all s cs = (out, s') \<Longrightarrow> accepted s' \<and> whole s (concat cs @ rest) = out @ whole s' rest"
proof (induction cs arbitrary: s out)
  case (Cons c cs)
  obtain o1 s1 o2 where step: "feed s c = (o1, s1)" "feed_all s1 cs = (o2, s')" "out = o1 @ o2"
    using Cons.prems(2) by (auto split: prod.splits)
  with Cons.IH [OF feed_accepted [OF Cons.prems(1) step(1)] step(2)]
    feed_whole [OF Cons.prems(1) step(1), of "concat cs @ rest"] show ?case by simp
qed simp

end

definition live :: "'a automata \<Rightarrow> 'a stream \<Rightarrow> bool" where
  "live A st \<longleftrightarrow> leftmost_longest_laws A \<and> usable A (st_redactor st) \<and>
     length (st_pending st) < rd_max_len (st_redactor st)"

definition rest_of :: "'a automata \<Rightarrow> 'a stream \<Rightarrow> bytes \<Rightarrow> bytes" where
  "rest_of A st later = redact_all A (st_redactor st) (st_pending st @ later)"

interpretation redaction: incremental "live A" "push A" "rest_of A" for A
proof
  fix A :: "'a automata" and s c out s' rest
  assume "live A s" and push: "push A s c = (out, s')"
  then have "leftmost_longest_laws A" "usable A (st_redactor s)" by (auto simp: live_def)
  note emits = push_emits [OF this push]
  show "live A s'" using \<open>live A s\<close> emits(1,2) by (simp add: live_def)
  show "rest_of A s (c @ rest) = out @ rest_of A s' rest" using emits(1) emits(3) [of rest] by (simp add: rest_of_def)
qed

lemma new_stream_live: "leftmost_longest_laws A \<Longrightarrow> usable A r \<Longrightarrow> live A (new_stream r)"
  by (simp add: live_def new_stream_def usable_positive)

fun read_bytes :: "read_result list \<Rightarrow> bytes" where
  \<comment> \<open>what the reader delivers before its end\<close>
  "read_bytes [] = []"
| "read_bytes (e # es) = (case e of Bytes c \<Rightarrow> if c = [] then [] else c @ read_bytes es | _ \<Rightarrow> read_bytes es)"

fun read_fails :: "read_result list \<Rightarrow> bool" where
  "read_fails [] = False"
| "read_fails (e # es) = (case e of Bytes c \<Rightarrow> c \<noteq> [] \<and> read_fails es | Interrupted \<Rightarrow> read_fails es | ReadFailed _ \<Rightarrow> True)"

lemma finish_rest: "fst (finish A st) = rest_of A st []"
  by (simp add: finish_def rest_of_def)

lemma copy_loop_whole:
  assumes "live A st" and "\<not> read_fails events"
  shows "copy_loop A (\<lambda>w out. Inr (w @ out)) st events w = Inr (w @ rest_of A st (read_bytes events))"
  using assms
proof (induction events arbitrary: st w)
  case (Cons e es)
  show ?case
  proof (cases e)
    case (Bytes c)
    obtain out st' where p: "push A st c = (out, st')" by (metis surj_pair)
    with Cons Bytes redaction.feed_accepted [OF Cons.prems(1) p] redaction.feed_whole [OF Cons.prems(1) p]
    show ?thesis by (cases "c = []") (simp_all add: finish_rest)
  qed (use Cons in simp_all)
qed (simp add: finish_rest)

text \<open>C11: Copying a reader through the redactor writes exactly the redaction of everything that was
  read, however the input was cut into chunks and whichever reads were interrupted.\<close>

theorem streaming_is_whole_redaction:
  assumes "leftmost_longest_laws A" and "new_redactor A values = Some r" and "\<not> read_fails events"
  shows "copy A (\<lambda>w out. Inr (w @ out)) r events [] = Inr (redact_all A r (read_bytes events))"
  using copy_loop_whole [OF new_stream_live [OF assms(1) new_redactor_usable [OF assms(2)]] assms(3), of "[]"]
  by (simp add: copy_def rest_of_def new_stream_def)

definition occurs_at :: "bytes \<Rightarrow> nat \<Rightarrow> bytes \<Rightarrow> bool" where
  "occurs_at p i d \<longleftrightarrow> i < length d \<and> prefix p (drop i d)"

lemma longest_is_pattern: "longest ps d \<noteq> 0 \<Longrightarrow> \<exists>p \<in> set ps. prefix p d \<and> longest ps d = length p"
  using foldr_max_in [of "map length (filter (\<lambda>p. prefix p d) ps)"] by (auto simp: longest_def)

definition only_secrets :: "bytes set \<Rightarrow> bytes \<Rightarrow> (nat \<times> nat) list \<Rightarrow> bool" where
  \<comment> \<open>each span is the text of a secret\<close>
  "only_secrets P d spans = list_all (\<lambda>(s, e). \<exists>p \<in> P. e = s + length p \<and> occurs_at p s d) spans"

definition all_secrets_from :: "nat \<Rightarrow> bytes set \<Rightarrow> bytes \<Rightarrow> (nat \<times> nat) list \<Rightarrow> bool" where
  \<comment> \<open>where a secret occurs, at or after a position, its first byte lies in a span\<close>
  "all_secrets_from k P d spans \<longleftrightarrow>
     (\<forall>p \<in> P. \<forall>i. k \<le> i \<and> occurs_at p i d \<longrightarrow> list_ex (\<lambda>(s, e). s \<le> i \<and> i < e) spans)"

lemma matches_exact:
  assumes "list_all (\<lambda>p. p \<noteq> []) ps"
  shows "k \<le> length d \<Longrightarrow> only_secrets (set ps) d (matches_from ps k (drop k d)) \<and>
    all_secrets_from k (set ps) d (matches_from ps k (drop k d))"
proof (induction "length d - k" arbitrary: k rule: less_induct)
  case less
  show ?case
  proof (cases "k = length d")
    case False
    with less.prems have k: "k < length d" by simp
    define n where "n = longest ps (drop k d)"
    have n: "k + n \<le> length d" unfolding n_def by (rule match_bounds [OF k])
    show ?thesis
    proof (cases "n = 0")
      case True
      have none: "\<not> occurs_at p k d" if "p \<in> set ps" for p
      proof
        assume "occurs_at p k d"
        then have "length p \<le> n" unfolding n_def using that by (intro longest_ge) (auto simp: occurs_at_def)
        with True that assms show False by (auto simp: list_all_iff)
      qed
      have eq: "matches_from ps k (drop k d) = matches_from ps (Suc k) (drop (Suc k) d)"
        using at_position(3) [OF k, of ps] True by (simp add: n_def)
      have ih: "only_secrets (set ps) d (matches_from ps (Suc k) (drop (Suc k) d)) \<and>
          all_secrets_from (Suc k) (set ps) d (matches_from ps (Suc k) (drop (Suc k) d))"
        using k by (intro less.hyps) auto
      have "p \<in> set ps \<Longrightarrow> k \<le> i \<and> occurs_at p i d \<Longrightarrow> Suc k \<le> i" for p i
        using none by (cases "k = i") auto
      with ih show ?thesis unfolding eq all_secrets_from_def by blast
    next
      case nz: False
      obtain p where p: "p \<in> set ps" "occurs_at p k d" "n = length p"
        using longest_is_pattern [of ps "drop k d"] nz k by (auto simp: occurs_at_def n_def)
      have eq: "matches_from ps k (drop k d) = (k, k + n) # matches_from ps (k + n) (drop (k + n) d)"
        using at_position(4) [OF k, of ps n] nz by (simp add: n_def)
      have ih: "only_secrets (set ps) d (matches_from ps (k + n) (drop (k + n) d)) \<and>
          all_secrets_from (k + n) (set ps) d (matches_from ps (k + n) (drop (k + n) d))"
        using k n nz by (intro less.hyps) auto
      have "only_secrets (set ps) d (matches_from ps k (drop k d))"
        using ih p by (auto simp: eq only_secrets_def)
      moreover have "all_secrets_from k (set ps) d (matches_from ps k (drop k d))"
        unfolding all_secrets_from_def eq
      proof (intro ballI allI impI)
        fix q i assume "q \<in> set ps" and "k \<le> i \<and> occurs_at q i d"
        with ih show "list_ex (\<lambda>(s, e). s \<le> i \<and> i < e) ((k, k + n) # matches_from ps (k + n) (drop (k + n) d))"
          by (cases "k + n \<le> i") (auto simp: all_secrets_from_def)
      qed
      ultimately show ?thesis by blast
    qed
  qed (auto simp: occurs_at_def only_secrets_def all_secrets_from_def)
qed

definition secret_texts :: "string list \<Rightarrow> bytes set" where
  "secret_texts values = set (map as_bytes (List.map_filter redactable values))"

lemma patterns_of: "new_redactor A vs = Some r \<Longrightarrow> set (rd_patterns r) = secret_texts vs"
  by (auto simp: secret_texts_def new_redactor_def Let_def simp del: set_map split: if_splits option.splits)

text \<open>Redaction replaces exactly the texts of secrets: the output is the input with a marker in
  place of some spans, each span is the text of a secret, and wherever a secret occurs in the input,
  its first byte lies in a replaced span.\<close>

lemma every_secret_is_replaced:
  assumes "leftmost_longest_laws A" and "new_redactor A values = Some r"
  shows "\<exists>spans. redact_all A r d = splice MARKER d 0 spans \<and>
    only_secrets (secret_texts values) d spans \<and> all_secrets_from 0 (secret_texts values) d spans"
proof (intro exI conjI)
  note usable = new_redactor_usable [OF assms(2)] and ps = patterns_of [OF assms(2)]
  let ?spans = "matches_from (rd_patterns r) 0 d"
  show "redact_all A r d = splice MARKER d 0 ?spans"
    using lawful(2) [OF assms(1) usable, of d] splice_matches [of 0 0 d "rd_patterns r"] by simp
  have "only_secrets (set (rd_patterns r)) d ?spans \<and> all_secrets_from 0 (set (rd_patterns r)) d ?spans"
    using matches_exact [of "rd_patterns r" 0 d] usable by (simp add: usable_def)
  then show "only_secrets (secret_texts values) d ?spans" and "all_secrets_from 0 (secret_texts values) d ?spans"
    unfolding ps by auto
qed

definition toy_automata :: "bytes list automata" where
  "toy_automata =
     \<lparr>ac_build = Some, ac_find_iter = (\<lambda>ps. matches_from ps 0),
      ac_replace_all = (\<lambda>ps d rs. splice (if rs = [] then [] else hd rs) d 0 (matches_from ps 0 d))\<rparr>"

lemma no_pattern_no_match: "matches_from [] k d = []"
  by (induction "[] :: bytes list" k d rule: matches_from.induct) (simp_all add: matches_from.simps(2) longest_def)

lemma toy_automata_lawful: "leftmost_longest_laws toy_automata"
proof -
  have "splice (if replicate (length ps) r = [] then [] else hd (replicate (length ps) r)) d 0 (matches_from ps 0 d) =
      splice r d 0 (matches_from ps 0 d)" for ps :: "bytes list" and d r
    by (cases ps) (simp_all add: no_pattern_no_match)
  then show ?thesis by (auto simp: leftmost_longest_laws_def toy_automata_def)
qed

definition toy_redactor :: "bytes list redactor" where
  "toy_redactor = the (new_redactor toy_automata ['' token '', ''to'', ''ken''])"

definition toy_reads :: "read_result list" where
  "toy_reads = [Bytes (as_bytes ''a=to''), Interrupted, Bytes (as_bytes ''ken;k''), Bytes (as_bytes ''e'')]"

lemma toy_redactor_new: "new_redactor toy_automata ['' token '', ''to'', ''ken''] = Some toy_redactor"
  by code_simp

theorem streaming_is_whole_redaction_witness:
  "copy toy_automata (\<lambda>w out. Inr (w @ out)) toy_redactor toy_reads [] =
     Inr (redact_all toy_automata toy_redactor (read_bytes toy_reads)) \<and>
   redact_all toy_automata toy_redactor (read_bytes toy_reads) = as_bytes ''a=[REDACTED];ke''"
proof
  show "copy toy_automata (\<lambda>w out. Inr (w @ out)) toy_redactor toy_reads [] =
     Inr (redact_all toy_automata toy_redactor (read_bytes toy_reads))"
    by (rule streaming_is_whole_redaction [OF toy_automata_lawful toy_redactor_new]) code_simp
qed code_simp

end
