(* ===== verification/LeaseLedger.thy ===== *)
theory LeaseLedger
  imports Closure "HOL-Library.Word"
begin

text \<open>
  Leases of short-lived credentials: the ledger of \<open>crates/fnox-core/src/lease.rs\<close>, the
  selection of records by \<open>src/commands/lease.rs\<close>, and the two duration parsers
  (\<open>lease.rs\<close> and \<open>src/daemon.rs\<close>). Instants are nanoseconds since the epoch; each
  operation reads the clock once, and \<open>max_utc\<close> is \<open>DateTime::MAX_UTC\<close>.
\<close>

subsection \<open>Durations\<close>

definition units :: "(char \<times> nat) list" where
  "units = [(CHR ''s'', 1), (CHR ''m'', 60), (CHR ''h'', 3600), (CHR ''d'', 86400)]"

definition digits_value :: "string \<Rightarrow> nat" where
  "digits_value ds = foldl (\<lambda>n c. 10 * n + (of_char c - 48)) 0 ds"

definition parse_u64 :: "string \<Rightarrow> 64 word option" where
  \<comment> \<open>\<open>str::parse::<u64>\<close> of a run of digits\<close>
  "parse_u64 ds =
     (if ds = [] then None
      else if digits_value ds < 2 ^ 64 then Some (of_nat (digits_value ds)) else None)"

fun duration_loop :: "string \<Rightarrow> string \<Rightarrow> 64 word \<Rightarrow> string \<Rightarrow> fnox_error + 64 word \<times> string" where
  "duration_loop s [] acc num = Inr (acc, num)"
| "duration_loop s (c # cs) acc num =
     (if is_digit c then duration_loop s cs acc (num @ [c])
      else case parse_u64 num of
             None \<Rightarrow> Inl (ConfigError (InvalidDuration s))
           | Some n \<Rightarrow>
               (case map_of units c of
                  None \<Rightarrow> Inl (ConfigError (InvalidDurationUnit c s))
                | Some k \<Rightarrow> duration_loop s cs (acc + n * of_nat k) []))"

definition parse_duration :: "string \<Rightarrow> fnox_error + 64 word" where
  "parse_duration s =
     (let s = trim s
      in bind_sum (duration_loop s s 0 []) (\<lambda>(acc, num).
         bind_sum (if num = [] then Inr acc
                   else case parse_u64 num of
                          None \<Rightarrow> Inl (ConfigError (InvalidDuration s))
                        | Some n \<Rightarrow> Inr (acc + n)) (\<lambda>acc.
           if acc = 0 then Inl (ConfigError DurationZero) else Inr acc)))"

definition checked_mul :: "64 word \<Rightarrow> 64 word \<Rightarrow> 64 word option" where
  "checked_mul a b = (if unat a * unat b < 2 ^ 64 then Some (a * b) else None)"

definition checked_add :: "64 word \<Rightarrow> 64 word \<Rightarrow> 64 word option" where
  "checked_add a b = (if unat a + unat b < 2 ^ 64 then Some (a + b) else None)"

definition or_too_large :: "string \<Rightarrow> 64 word option \<Rightarrow> fnox_error + 64 word" where
  "or_too_large s r = (case r of Some n \<Rightarrow> Inr n | None \<Rightarrow> Inl (ConfigError (DurationTooLarge s)))"

fun daemon_duration_loop :: "string \<Rightarrow> string \<Rightarrow> 64 word \<Rightarrow> string \<Rightarrow> fnox_error + 64 word \<times> string" where
  "daemon_duration_loop s [] acc num = Inr (acc, num)"
| "daemon_duration_loop s (c # cs) acc num =
     (if is_digit c then daemon_duration_loop s cs acc (num @ [c])
      else case parse_u64 num of
             None \<Rightarrow> Inl (ConfigError (InvalidDuration s))
           | Some n \<Rightarrow>
               (case map_of units c of
                  None \<Rightarrow> Inl (ConfigError (InvalidDurationUnit c s))
                | Some k \<Rightarrow>
                    bind_sum (or_too_large s (checked_mul n (of_nat k))) (\<lambda>seconds.
                    bind_sum (or_too_large s (checked_add acc seconds)) (\<lambda>acc.
                      daemon_duration_loop s cs acc []))))"

definition daemon_parse_duration :: "string \<Rightarrow> fnox_error + 64 word" where
  "daemon_parse_duration s =
     (let s = trim s
      in if s = [] then Inl (ConfigError DurationEmpty)
         else bind_sum (daemon_duration_loop s s 0 []) (\<lambda>(acc, num).
              bind_sum (if num = [] then Inr acc
                        else case parse_u64 num of
                               None \<Rightarrow> Inl (ConfigError (InvalidDuration s))
                             | Some n \<Rightarrow> or_too_large s (checked_add acc n)) (\<lambda>acc.
                if acc = 0 then Inl (ConfigError DurationZero) else Inr acc)))"

text \<open>The exact number of seconds that a text denotes, over unbounded numbers.\<close>

definition number :: "string \<Rightarrow> nat option" where
  "number ds = (if ds = [] \<or> digits_value ds \<ge> 2 ^ 64 then None else Some (digits_value ds))"

fun seconds_from :: "string \<Rightarrow> string \<Rightarrow> nat option" where
  "seconds_from [] num = (if num = [] then Some 0 else number num)"
| "seconds_from (c # cs) num =
     (if is_digit c then seconds_from cs (num @ [c])
      else case (number num, map_of units c) of
             (Some n, Some k) \<Rightarrow> map_option ((+) (n * k)) (seconds_from cs [])
           | _ \<Rightarrow> None)"

definition duration_seconds :: "string \<Rightarrow> nat option" where
  "duration_seconds s = seconds_from (trim s) []"

lemma parse_u64_number: "parse_u64 ds = map_option of_nat (number ds)"
  by (simp add: parse_u64_def number_def)

lemma number_bound: "number ds = Some n \<Longrightarrow> n < 2 ^ 64"
  by (auto simp: number_def split: if_splits)

definition wrap_finish :: "string \<Rightarrow> 64 word \<times> string \<Rightarrow> fnox_error + 64 word" where
  "wrap_finish s = (\<lambda>(acc, num).
     if num = [] then Inr acc
     else case parse_u64 num of None \<Rightarrow> Inl (ConfigError (InvalidDuration s)) | Some n \<Rightarrow> Inr (acc + n))"

definition checked_finish :: "string \<Rightarrow> 64 word \<times> string \<Rightarrow> fnox_error + 64 word" where
  "checked_finish s = (\<lambda>(acc, num).
     if num = [] then Inr acc
     else case parse_u64 num of None \<Rightarrow> Inl (ConfigError (InvalidDuration s))
       | Some n \<Rightarrow> or_too_large s (checked_add acc n))"

lemma wrapping_value:
  "bind_sum (duration_loop s cs acc num) (wrap_finish s) = Inr d \<longleftrightarrow>
   (\<exists>n. seconds_from cs num = Some n \<and> d = acc + of_nat n)"
proof (induction s cs acc num arbitrary: d rule: duration_loop.induct)
  case (2 s c cs acc num)
  then show ?case
    by (cases "number num"; cases "map_of units c") (auto simp: parse_u64_number algebra_simps)
qed (auto simp: wrap_finish_def parse_u64_number split: option.splits)

lemma unat_nat: "n < 2 ^ 64 \<Longrightarrow> unat (of_nat n :: 64 word) = n"
  by (simp add: unat_of_nat)

lemma checked_mul_nat:
  "n < 2 ^ 64 \<Longrightarrow> k < 2 ^ 64 \<Longrightarrow>
   checked_mul (of_nat n) (of_nat k) = (if n * k < 2 ^ 64 then Some (of_nat (n * k)) else None)"
  by (simp add: checked_mul_def unat_nat)

lemma checked_add_nat:
  "n < 2 ^ 64 \<Longrightarrow> checked_add a (of_nat n) = (if unat a + n < 2 ^ 64 then Some (a + of_nat n) else None)"
  by (simp add: checked_add_def unat_nat)

lemma unat_add_nat: "unat (a :: 64 word) + n < 2 ^ 64 \<Longrightarrow> unat (a + of_nat n) = unat a + n"
  by (simp add: unat_word_ariths unat_of_nat mod_add_right_eq)

lemma unit_bound: "map_of units c = Some k \<Longrightarrow> k < 2 ^ 64"
  by (auto simp: units_def split: if_splits)

lemma checked_value:
  "bind_sum (daemon_duration_loop s cs acc num) (checked_finish s) = Inr d \<longleftrightarrow>
   (\<exists>n. seconds_from cs num = Some n \<and> unat acc + n < 2 ^ 64 \<and> d = acc + of_nat n)"
proof (induction s cs acc num arbitrary: d rule: daemon_duration_loop.induct)
  case (1 s acc num)
  show ?case
  proof (cases "num = [] \<or> number num = None")
    case False
    then obtain n where n: "num \<noteq> []" "number num = Some n" by auto
    with number_bound [of num n] show ?thesis
      by (auto simp: checked_finish_def parse_u64_number checked_add_nat or_too_large_def)
  qed (use unsigned_less [of acc] in \<open>auto simp: checked_finish_def parse_u64_number\<close>)
next
  case (2 s c cs acc num)
  show ?case
  proof (cases "is_digit c \<or> number num = None \<or> map_of units c = None")
    case True
    with 2(1) show ?thesis by (auto simp: parse_u64_number split: option.splits)
  next
    case False
    then obtain n k where nk: "\<not> is_digit c" "number num = Some n" "map_of units c = Some k" by auto
    note bounds = number_bound [OF nk(2)] unit_bound [OF nk(3)]
    have step: "daemon_duration_loop s (c # cs) acc num =
        (if unat acc + n * k < 2 ^ 64 then daemon_duration_loop s cs (acc + of_nat (n * k)) []
         else Inl (ConfigError (DurationTooLarge s)))"
      using nk bounds
      by (cases "n * k < 2 ^ 64")
        (simp_all add: parse_u64_number checked_mul_nat checked_add_nat or_too_large_def del: of_nat_mult)
    show ?thesis
    proof (cases "unat acc + n * k < 2 ^ 64")
      case True
      have mul: "or_too_large s (checked_mul (of_nat n) (of_nat k)) = Inr (of_nat (n * k))"
        using True bounds by (simp add: checked_mul_nat or_too_large_def)
      have add: "or_too_large s (checked_add acc (of_nat (n * k))) = Inr (acc + of_nat (n * k))"
        using True by (simp add: checked_add_nat or_too_large_def del: of_nat_mult)
      have "bind_sum (daemon_duration_loop s cs (acc + of_nat (n * k)) []) (checked_finish s) = Inr d \<longleftrightarrow>
          (\<exists>m. seconds_from cs [] = Some m \<and> unat (acc + of_nat (n * k)) + m < 2 ^ 64 \<and>
               d = acc + of_nat (n * k) + of_nat m)"
        by (rule 2(2) [OF nk(1) _ nk(3)]) (use nk in \<open>simp_all add: parse_u64_number\<close>)
      then have "bind_sum (daemon_duration_loop s (c # cs) acc num) (checked_finish s) = Inr d \<longleftrightarrow>
          (\<exists>m. seconds_from cs [] = Some m \<and> unat acc + (n * k + m) < 2 ^ 64 \<and> d = acc + of_nat (n * k + m))"
        unfolding step if_P [OF True] unat_add_nat [OF True] of_nat_add add.assoc .
      moreover have "seconds_from (c # cs) num = map_option ((+) (n * k)) (seconds_from cs [])" using nk by simp
      ultimately show ?thesis by (cases "seconds_from cs []") simp_all
    qed (use step nk in auto)
  qed
qed

lemma bind_sum_assoc: "bind_sum (bind_sum m f) g = bind_sum m (\<lambda>a. bind_sum (f a) g)"
  by (cases m) simp_all

lemma parse_duration_value:
  "parse_duration s = Inr d \<longleftrightarrow> (\<exists>n. duration_seconds s = Some n \<and> d = of_nat n \<and> d \<noteq> 0)"
proof -
  have "parse_duration s = bind_sum (bind_sum (duration_loop (trim s) (trim s) 0 []) (wrap_finish (trim s)))
      (\<lambda>acc. if acc = 0 then Inl (ConfigError DurationZero) else Inr acc)"
    by (simp add: parse_duration_def Let_def wrap_finish_def bind_sum_assoc split_def)
  then show ?thesis using wrapping_value [of "trim s" "trim s" 0 "[]"]
    by (auto simp: bind_sum_Inr duration_seconds_def split: if_splits)
qed

lemma daemon_parse_duration_value:
  "daemon_parse_duration s = Inr d \<longleftrightarrow> (\<exists>n. duration_seconds s = Some n \<and> 0 < n \<and> n < 2 ^ 64 \<and> d = of_nat n)"
proof -
  have "daemon_parse_duration s = (if trim s = [] then Inl (ConfigError DurationEmpty) else
      bind_sum (bind_sum (daemon_duration_loop (trim s) (trim s) 0 []) (checked_finish (trim s)))
        (\<lambda>acc. if acc = 0 then Inl (ConfigError DurationZero) else Inr acc))"
    by (simp add: daemon_parse_duration_def Let_def checked_finish_def bind_sum_assoc split_def)
  note run = this
  have zero: "of_nat n \<noteq> (0 :: 64 word) \<longleftrightarrow> 0 < n" if "n < 2 ^ 64" for n
    using that by (auto simp: word_of_nat_eq_0_iff dest: nat_dvd_not_less intro: gr0I)
  have ok_iff: "(\<exists>acc. m = Inr acc \<and> (if acc = 0 then Inl e else Inr acc) = Inr d) \<longleftrightarrow> m = Inr d \<and> d \<noteq> 0"
    for m :: "fnox_error + 64 word" and e by auto
  show ?thesis
  proof (cases "trim s = []")
    case False
    then have "daemon_parse_duration s = Inr d \<longleftrightarrow>
        (\<exists>n. duration_seconds s = Some n \<and> n < 2 ^ 64 \<and> d = of_nat n) \<and> d \<noteq> 0"
      unfolding run if_not_P [OF False] bind_sum_Inr [of "bind_sum _ _"] ok_iff checked_value duration_seconds_def
      by auto
    with zero show ?thesis by blast
  qed (simp add: run duration_seconds_def)
qed

text \<open>C38: The daemon accepts exactly the durations of between one second and 2^64 - 1 seconds, as their
  number of seconds; the lease parser reads the same texts, but reduces the number of seconds modulo
  2^64 and refuses those that become zero. On what the daemon accepts the two agree.\<close>

theorem duration_parsers_agree:
  "(daemon_parse_duration s = Inr d \<longleftrightarrow>
     (case duration_seconds s of Some n \<Rightarrow> n \<in> {0<..<2 ^ 64} \<and> d = of_nat n | None \<Rightarrow> False)) \<and>
   (parse_duration s = Inr d \<longleftrightarrow>
     (case duration_seconds s of Some n \<Rightarrow> n mod 2 ^ 64 \<noteq> 0 \<and> d = of_nat n | None \<Rightarrow> False))"
proof -
  have "of_nat n = (0 :: 64 word) \<longleftrightarrow> n mod 2 ^ 64 = 0" for n
    using word_of_nat_eq_0_iff [where ?'a = 64] by (simp add: mod_eq_0_iff_dvd)
  then show ?thesis
    by (cases "duration_seconds s") (auto simp: daemon_parse_duration_value parse_duration_value)
qed

lemma long_duration_wraps:
  "parse_duration ''307445734561825861m'' = Inr 44 \<and>
   daemon_parse_duration ''307445734561825861m'' = Inl (ConfigError (DurationTooLarge ''307445734561825861m''))"
  by (simp add: parse_duration_def daemon_parse_duration_def trim_def trim_start_def is_whitespace_def is_digit_def
      parse_u64_def digits_value_def units_def checked_mul_def or_too_large_def)

theorem duration_parsers_agree_witness:
  "(daemon_parse_duration ''2h30m'' = Inr 9000 \<longleftrightarrow>
     (case duration_seconds ''2h30m'' of Some n \<Rightarrow> n \<in> {0<..<2 ^ 64} \<and> (9000 :: 64 word) = of_nat n | None \<Rightarrow> False)) \<and>
   (parse_duration ''2h30m'' = Inr 9000 \<longleftrightarrow>
     (case duration_seconds ''2h30m'' of Some n \<Rightarrow> n mod 2 ^ 64 \<noteq> 0 \<and> (9000 :: 64 word) = of_nat n | None \<Rightarrow> False))"
  by (rule duration_parsers_agree)

subsection \<open>The ledger\<close>

definition LEASE_REUSE_BUFFER_SECS :: int where
  "LEASE_REUSE_BUFFER_SECS = 300"

definition seconds :: "int \<Rightarrow> int" where
  "seconds n = n * 1000000000"

definition day :: int where
  "day = seconds (24 * 3600)"

record lease_record =
  lr_lease_id :: string
  lr_backend_name :: string
  lr_label :: string
  lr_created_at :: int
  lr_expires_at :: "int option"
  lr_revoked :: bool
  lr_cached_credentials :: "(string, string) imap option"
  lr_encryption_provider :: "string option"
  lr_config_hash :: "string option"

type_synonym ledger = "lease_record list"

definition kept_until :: "lease_record \<Rightarrow> int" where
  "kept_until r = (case lr_expires_at r of Some e \<Rightarrow> e | None \<Rightarrow> lr_created_at r)"

definition compact :: "int \<Rightarrow> ledger \<Rightarrow> ledger" where
  \<comment> \<open>what \<open>save\<close> writes\<close>
  "compact now l =
     filter (\<lambda>r. if lr_revoked r
                 then (case lr_expires_at r of Some e \<Rightarrow> e > now - day | None \<Rightarrow> lr_created_at r > now - day)
                 else (case lr_expires_at r of Some e \<Rightarrow> e > now - day | None \<Rightarrow> lr_created_at r > now - day)) l"

definition add :: "lease_record \<Rightarrow> ledger \<Rightarrow> ledger" where
  "add r l = l @ [r]"

definition revoke_record :: "lease_record \<Rightarrow> lease_record" where
  "revoke_record r = r\<lparr>lr_revoked := True, lr_cached_credentials := None, lr_encryption_provider := None\<rparr>"

definition mark_revoked_at :: "nat \<Rightarrow> ledger \<Rightarrow> ledger option" where
  \<comment> \<open>\<open>None\<close> is the panic of an index out of range\<close>
  "mark_revoked_at i l = (if i < length l then Some (l[i := revoke_record (l ! i)]) else None)"

fun position :: "('a \<Rightarrow> bool) \<Rightarrow> 'a list \<Rightarrow> nat option" where
  "position P [] = None"
| "position P (x # xs) = (if P x then Some 0 else map_option Suc (position P xs))"

definition mark_revoked :: "string \<Rightarrow> ledger \<Rightarrow> (bool \<times> ledger) option" where
  "mark_revoked lease_id l =
     (case position (\<lambda>r. lr_lease_id r = lease_id) l of
        Some i \<Rightarrow> map_option (\<lambda>l. (True, l)) (mark_revoked_at i l)
      | None \<Rightarrow> Some (False, l))"

definition is_active :: "int \<Rightarrow> lease_record \<Rightarrow> bool" where
  "is_active now r \<longleftrightarrow> \<not> lr_revoked r \<and> (case lr_expires_at r of Some e \<Rightarrow> e > now | None \<Rightarrow> True)"

definition is_expired :: "int \<Rightarrow> lease_record \<Rightarrow> bool" where
  "is_expired now r \<longleftrightarrow> \<not> lr_revoked r \<and> (case lr_expires_at r of Some e \<Rightarrow> e \<le> now | None \<Rightarrow> False)"

definition active_leases :: "int \<Rightarrow> ledger \<Rightarrow> ledger" where
  "active_leases now l = filter (is_active now) l"

definition expired_leases :: "int \<Rightarrow> ledger \<Rightarrow> ledger" where
  "expired_leases now l = filter (is_expired now) l"

definition find_lease :: "string \<Rightarrow> ledger \<Rightarrow> lease_record option" where
  "find_lease lease_id l = List.find (\<lambda>r. lr_lease_id r = lease_id) l"

definition is_reusable :: "int \<Rightarrow> lease_record \<Rightarrow> bool" where
  "is_reusable now r =
     (if lr_revoked r \<or> lr_cached_credentials r = None then False
      else case lr_expires_at r of
             Some e \<Rightarrow> e - seconds LEASE_REUSE_BUFFER_SECS > now
           | None \<Rightarrow> True)"

fun max_by_key :: "('a \<Rightarrow> int) \<Rightarrow> 'a list \<Rightarrow> 'a option" where
  \<comment> \<open>\<open>Iterator::max_by_key\<close>: the last of several largest elements\<close>
  "max_by_key f [] = None"
| "max_by_key f (x # xs) =
     (case max_by_key f xs of None \<Rightarrow> Some x | Some y \<Rightarrow> if f x > f y then Some x else Some y)"

definition expiry_key :: "int \<Rightarrow> lease_record \<Rightarrow> int" where
  "expiry_key max_utc r = (case lr_expires_at r of None \<Rightarrow> max_utc | Some e \<Rightarrow> e)"

definition find_reusable :: "int \<Rightarrow> int \<Rightarrow> string \<Rightarrow> string \<Rightarrow> ledger \<Rightarrow> lease_record option" where
  "find_reusable max_utc now backend_name config_hash l =
     max_by_key (expiry_key max_utc)
       (filter (\<lambda>r. lr_backend_name r = backend_name \<and> is_reusable now r \<and>
          (case lr_config_hash r of None \<Rightarrow> True | Some h \<Rightarrow> h = config_hash)) l)"

record cached_entry =
  ce_credentials :: "(string, string) imap"
  ce_encryption_provider :: "string option"
  ce_lease_id :: string

definition find_cached_entry :: "int \<Rightarrow> int \<Rightarrow> ledger \<Rightarrow> string \<Rightarrow> string \<Rightarrow> cached_entry option" where
  "find_cached_entry max_utc now l name config_hash =
     (case find_reusable max_utc now name config_hash l of
        None \<Rightarrow> None
      | Some r \<Rightarrow>
          map_option (\<lambda>creds. \<lparr>ce_credentials = creds, ce_encryption_provider = lr_encryption_provider r,
                               ce_lease_id = lr_lease_id r\<rparr>) (lr_cached_credentials r))"

lemma max_by_key_None [simp]: "max_by_key f xs = None \<longleftrightarrow> xs = []"
  by (cases xs) (auto split: option.splits)

lemma max_by_key_Some: "max_by_key f xs = Some y \<Longrightarrow> y \<in> set xs \<and> (\<forall>x \<in> set xs. f x \<le> f y)"
  by (induction xs arbitrary: y) (force split: option.splits if_splits)+

definition usable_lease :: "int \<Rightarrow> string \<Rightarrow> string \<Rightarrow> lease_record \<Rightarrow> bool" where
  "usable_lease now name config_hash r \<longleftrightarrow>
     lr_backend_name r = name \<and> \<not> lr_revoked r \<and> lr_cached_credentials r \<noteq> None \<and>
     lr_config_hash r \<in> {None, Some config_hash} \<and>
     (case lr_expires_at r of Some e \<Rightarrow> now + 300 * 1000000000 < e | None \<Rightarrow> True)"

lemma reusable_is_usable:
  "lr_backend_name r = name \<and> is_reusable now r \<and> (case lr_config_hash r of None \<Rightarrow> True | Some h \<Rightarrow> h = hash) \<longleftrightarrow>
   usable_lease now name hash r"
  by (auto simp: usable_lease_def is_reusable_def seconds_def LEASE_REUSE_BUFFER_SECS_def split: option.splits)

text \<open>The ledger answers a lookup exactly when it holds a lease of that backend which is not
  revoked, was created for the same configuration and is valid for five more minutes; it then
  answers the credentials of such a lease, and of one that no other outlives.\<close>

lemma cached_lease_is_valid:
  "(case find_cached_entry max_utc now l name config_hash of
      None \<Rightarrow> \<not> list_ex (usable_lease now name config_hash) l
    | Some entry \<Rightarrow> \<exists>r \<in> set l. usable_lease now name config_hash r \<and>
        lr_cached_credentials r = Some (ce_credentials entry) \<and>
        lr_encryption_provider r = ce_encryption_provider entry \<and> lr_lease_id r = ce_lease_id entry \<and>
        list_all (\<lambda>r'. expiry_key max_utc r' \<le> expiry_key max_utc r) (filter (usable_lease now name config_hash) l))"
proof -
  have eq: "find_reusable max_utc now name config_hash l =
      max_by_key (expiry_key max_utc) (filter (usable_lease now name config_hash) l)"
    by (simp add: find_reusable_def reusable_is_usable)
  show ?thesis
  proof (cases "find_reusable max_utc now name config_hash l")
    case None
    with eq have "filter (usable_lease now name config_hash) l = []" by (metis max_by_key_None)
    with None show ?thesis by (auto simp: find_cached_entry_def list_ex_iff filter_empty_conv)
  next
    case (Some r)
    with eq max_by_key_Some [of "expiry_key max_utc" "filter (usable_lease now name config_hash) l" r]
    have r: "r \<in> set l" "usable_lease now name config_hash r"
      "list_all (\<lambda>r'. expiry_key max_utc r' \<le> expiry_key max_utc r) (filter (usable_lease now name config_hash) l)"
      by (auto simp: list_all_iff)
    then obtain creds where creds: "lr_cached_credentials r = Some creds" by (auto simp: usable_lease_def)
    with Some r show ?thesis by (auto simp: find_cached_entry_def)
  qed
qed

subsection \<open>Listing and revoking\<close>

definition lease_status :: "int \<Rightarrow> lease_record \<Rightarrow> string" where
  "lease_status now r =
     (if lr_revoked r then ''revoked''
      else if (case lr_expires_at r of Some e \<Rightarrow> e \<le> now | None \<Rightarrow> False) then ''expired'' else ''active'')"

definition shorten :: "string \<Rightarrow> nat \<Rightarrow> string" where
  "shorten v n = (if length v > n then take (n - 3) v @ ''...'' else v)"

function trim_end_dots :: "string \<Rightarrow> string" where
  \<comment> \<open>\<open>trim_end_matches("...")\<close>\<close>
  "trim_end_dots s = (if suffix ''...'' s then trim_end_dots (take (length s - 3) s) else s)"
  by pat_completeness auto
termination
proof (relation "measure length")
  fix s :: string
  assume "suffix ''...'' s"
  then show "(take (length s - 3) s, s) \<in> measure length" by (auto dest: suffix_length_le)
qed simp

declare trim_end_dots.simps [simp del]

definition active_indices :: "int \<Rightarrow> (lease_record \<Rightarrow> bool) \<Rightarrow> ledger \<Rightarrow> nat list" where
  "active_indices now P l = map fst (filter (\<lambda>(_, r). is_active now r \<and> P r) (enumerate 0 l))"

definition with_id :: "ledger \<Rightarrow> string \<Rightarrow> fnox_error + nat list" where
  "with_id l ident =
     (let found = filter (\<lambda>(_, r). lr_lease_id r = ident) (enumerate 0 l);
          backends = first_occurrences (map (\<lambda>(_, r). lr_backend_name r) found) []
      in if length backends > 1 then Inl (ConfigError (LeaseIdAmbiguous ident backends))
         else Inr (map fst found))"

definition prefix_ids :: "ledger \<Rightarrow> string \<Rightarrow> string list" where
  "prefix_ids l target =
     (let pre = trim_end_dots target
      in if pre = [] then []
         else first_occurrences (map lr_lease_id (filter (\<lambda>r. prefix pre (lr_lease_id r)) l)) [])"

definition resolve_target :: "int \<Rightarrow> ledger \<Rightarrow> string \<Rightarrow> bool \<Rightarrow> fnox_error + nat list" where
  "resolve_target now l target configured_backend =
     (if list_ex (\<lambda>r. lr_lease_id r = target) l then with_id l target
      else if configured_backend \<or> list_ex (\<lambda>r. lr_backend_name r = target) l
      then Inr (active_indices now (\<lambda>r. lr_backend_name r = target) l)
      else case prefix_ids l target of
             [] \<Rightarrow> Inl (ConfigError (LeaseNotFound target))
           | [ident] \<Rightarrow> with_id l ident
           | _ \<Rightarrow> Inl (ConfigError (LeasePrefixAmbiguous target (prefix_ids l target))))"

fun revoke_selected :: "nat list \<Rightarrow> ledger \<Rightarrow> (nat list \<times> ledger) option" where
  \<comment> \<open>the loop over the selected positions: the positions it revoked and the ledger in memory\<close>
  "revoke_selected [] l = Some ([], l)"
| "revoke_selected (i # is) l =
     (if i \<ge> length l then None
      else if lr_revoked (l ! i) then revoke_selected is l
      else case mark_revoked_at i l of
             None \<Rightarrow> None
           | Some l' \<Rightarrow> map_option (\<lambda>(revoked, l''). (i # revoked, l'')) (revoke_selected is l'))"

definition select_leases :: "int \<Rightarrow> string option \<Rightarrow> bool \<Rightarrow> bool \<Rightarrow> ledger \<Rightarrow> fnox_error + nat list" where
  \<comment> \<open>\<open>configured_backend\<close>: the target names a lease backend of the profile\<close>
  "select_leases now target all configured_backend l =
     (case (target, all) of
        (Some _, True) \<Rightarrow> Inl (ConfigError LeaseAllWithTarget)
      | (None, False) \<Rightarrow> Inl (ConfigError LeaseNoTarget)
      | (None, True) \<Rightarrow> Inr (active_indices now (\<lambda>_. True) l)
      | (Some t, False) \<Rightarrow> resolve_target now l t configured_backend)"

definition lease_revoke :: "int \<Rightarrow> string option \<Rightarrow> bool \<Rightarrow> bool \<Rightarrow> ledger \<Rightarrow> fnox_error + (nat list \<times> ledger)" where
  \<comment> \<open>the revoked positions and the ledger file after the last save\<close>
  "lease_revoke now target all configured_backend l =
     bind_sum (select_leases now target all configured_backend l) (\<lambda>selected.
       case revoke_selected selected l of
         None \<Rightarrow> Inl (Panicked ''index out of bounds'')
       | Some (revoked, l') \<Rightarrow> Inr (revoked, if revoked = [] then l else compact now l'))"

definition lease_cleanup :: "int \<Rightarrow> ledger \<Rightarrow> ledger option" where
  "lease_cleanup now l =
     (let expired = map fst (filter (\<lambda>(_, r). is_expired now r) (enumerate 0 l))
      in if expired = [] then Some l
         else map_option (compact now) (fold (\<lambda>i acc. Option.bind acc (mark_revoked_at i)) expired (Some l)))"

lemma compact_kept: "compact now l = filter (\<lambda>r. kept_until r > now - day) l"
  by (simp add: compact_def kept_until_def option.case_eq_if cong: filter_cong)

lemma set_enumerate: "(i, x) \<in> set (enumerate 0 l) \<longleftrightarrow> i < length l \<and> x = l ! i"
  by (auto simp: in_set_enumerate_eq)

lemma with_id_Inr:
  assumes "with_id l ident = Inr is"
  shows "set is = {i. i < length l \<and> lr_lease_id (l ! i) = ident} \<and> distinct is \<and>
    (\<forall>i \<in> set is. \<forall>j \<in> set is. lr_backend_name (l ! i) = lr_backend_name (l ! j))"
proof -
  define found where "found = filter (\<lambda>(_, r). lr_lease_id r = ident) (enumerate 0 l)"
  define names where "names = first_occurrences (map (\<lambda>(_, r). lr_backend_name r) found) []"
  have names: "set names = (\<lambda>(_, r). lr_backend_name r) ` set found" "distinct names"
    by (auto simp: names_def)
  have "is": "is = map fst found" "length names \<le> 1"
    using assms by (auto simp: with_id_def Let_def found_def names_def split: if_splits)
  then have one: "b \<in> set names \<Longrightarrow> b' \<in> set names \<Longrightarrow> b = b'" for b b'
    by (cases names; cases "tl names") auto
  have found: "(i, r) \<in> set found \<longleftrightarrow> i < length l \<and> r = l ! i \<and> lr_lease_id r = ident" for i r
    by (auto simp: found_def set_enumerate)
  have "distinct is"
    unfolding "is" found_def by (metis distinct_enumerate distinct_map_filter map_fst_enumerate distinct_upt)
  moreover have "set is = {i. i < length l \<and> lr_lease_id (l ! i) = ident}"
    unfolding "is" using found by (force simp: image_iff)
  moreover have "lr_backend_name (l ! i) \<in> set names" if "i \<in> set is" for i
    using that found unfolding "is" names(1) by force
  ultimately show ?thesis using one by blast
qed

text \<open>The records of a ledger after some of them were marked as revoked.\<close>

definition marked :: "ledger \<Rightarrow> ledger \<Rightarrow> bool" where
  "marked l l' = list_all2 (\<lambda>r r'. r' = r \<or> r' = revoke_record r) l l'"

lemma revoke_record_idem [simp]: "revoke_record (revoke_record r) = revoke_record r"
  by (simp add: revoke_record_def)

lemma revoke_record_simps [simp]:
  "kept_until (revoke_record r) = kept_until r" "lr_revoked (revoke_record r)"
  "lr_cached_credentials (revoke_record r) = None" "lr_encryption_provider (revoke_record r) = None"
  by (simp_all add: revoke_record_def kept_until_def split: option.split)

lemma marked_refl [simp, intro]: "marked l l"
  by (simp add: marked_def list.rel_refl)

lemma marked_trans: "marked l l' \<Longrightarrow> marked l' l'' \<Longrightarrow> marked l l''"
  unfolding marked_def
  by (rule list_all2_trans [of "\<lambda>r r'. r' = r \<or> r' = revoke_record r" "\<lambda>r r'. r' = r \<or> r' = revoke_record r"]) auto

lemma marked_length: "marked l l' \<Longrightarrow> length l' = length l"
  by (simp add: marked_def list_all2_lengthD)

lemma mark_revoked_at_marks: "mark_revoked_at i l = Some l' \<Longrightarrow> marked l l'"
  by (auto simp: mark_revoked_at_def marked_def list_all2_conv_all_nth nth_list_update split: if_splits)

lemma revoke_selected_runs:
  "list_all (\<lambda>i. i < length l) is \<Longrightarrow> \<exists>revoked l'. revoke_selected is l = Some (revoked, l')"
proof (induction "is" arbitrary: l)
  case (Cons i "is")
  show ?case
  proof (cases "lr_revoked (l ! i)")
    case False
    from Cons.prems have "mark_revoked_at i l = Some (l[i := revoke_record (l ! i)])" by (simp add: mark_revoked_at_def)
    with Cons.prems Cons.IH [of "l[i := revoke_record (l ! i)]"] False show ?thesis by (auto simp: list_all_iff)
  qed (use Cons in auto)
qed simp

definition revoked_at :: "nat list \<Rightarrow> ledger \<Rightarrow> ledger" where
  "revoked_at is l = map (\<lambda>i. if i \<in> set is then revoke_record (l ! i) else l ! i) [0..<length l]"

lemma marked_revoked_at [simp]: "marked l (revoked_at is l)"
  by (simp add: marked_def revoked_at_def list_all2_conv_all_nth)

lemma revoked_at_Nil [simp]: "revoked_at [] l = l"
  by (simp add: revoked_at_def map_nth)

lemma revoked_at_Cons: "i < length l \<Longrightarrow> revoked_at is (l[i := revoke_record (l ! i)]) = revoked_at (i # is) l"
  by (rule nth_equalityI) (auto simp: revoked_at_def nth_list_update)

lemma revoke_selected_marks:
  "revoke_selected is l = Some (revoked, l') \<Longrightarrow> l' = revoked_at revoked l \<and> set revoked \<subseteq> set is"
proof (induction "is" arbitrary: l revoked l')
  case (Cons i "is")
  show ?case
  proof (cases "lr_revoked (l ! i)")
    case False
    with Cons.prems obtain revoked1 where i: "i < length l"
      "revoke_selected is (l[i := revoke_record (l ! i)]) = Some (revoked1, l')" "revoked = i # revoked1"
      by (auto simp: mark_revoked_at_def split: if_splits)
    from Cons.IH [OF i(2)] i show ?thesis by (auto simp: revoked_at_Cons)
  qed (use Cons in \<open>auto split: if_splits\<close>)
qed simp

lemma mark_all_marks:
  "fold (\<lambda>i acc. Option.bind acc (mark_revoked_at i)) is (Some l) = Some l' \<Longrightarrow> marked l l'"
proof (induction "is" arbitrary: l)
  case (Cons i "is")
  have "fold (\<lambda>i acc. Option.bind acc (mark_revoked_at i)) is None = None" for "is"
    by (induction "is") simp_all
  with Cons.prems obtain l1 where "mark_revoked_at i l = Some l1"
    "fold (\<lambda>i acc. Option.bind acc (mark_revoked_at i)) is (Some l1) = Some l'"
    by (cases "mark_revoked_at i l") auto
  with Cons.IH [of l1] show ?case by (auto intro: marked_trans mark_revoked_at_marks)
qed simp

lemma active_indices_valid:
  "i \<in> set (active_indices now P l) \<longleftrightarrow> i < length l \<and> is_active now (l ! i) \<and> P (l ! i)"
  by (force simp: active_indices_def set_enumerate)

lemma resolve_target_one_backend:
  assumes "resolve_target now l target c = Inr is"
  shows "(\<forall>i \<in> set is. i < length l) \<and>
    (\<forall>i \<in> set is. \<forall>j \<in> set is. lr_backend_name (l ! i) = lr_backend_name (l ! j))"
proof -
  have "(\<exists>ident. with_id l ident = Inr is) \<or> is = active_indices now (\<lambda>r. lr_backend_name r = target) l"
  proof (cases "list_ex (\<lambda>r. lr_lease_id r = target) l \<or> c \<or> list_ex (\<lambda>r. lr_backend_name r = target) l")
    case True
    with assms show ?thesis by (simp add: resolve_target_def split: if_splits) blast
  next
    case False
    from False assms have "(case prefix_ids l target of [] \<Rightarrow> Inl (ConfigError (LeaseNotFound target)) | [ident] \<Rightarrow> with_id l ident
        | _ \<Rightarrow> Inl (ConfigError (LeasePrefixAmbiguous target (prefix_ids l target)))) = Inr is"
      by (simp add: resolve_target_def)
    then show ?thesis by (simp split: list.splits) blast
  qed
  then show ?thesis
  proof
    assume "\<exists>ident. with_id l ident = Inr is"
    then obtain ident where "with_id l ident = Inr is" ..
    from with_id_Inr [OF this] show ?thesis by blast
  qed (simp add: active_indices_valid)
qed

lemma select_leases_valid: "select_leases now target all c l = Inr is \<Longrightarrow> list_all (\<lambda>i. i < length l) is"
  by (auto simp: select_leases_def list_all_iff active_indices_valid dest: resolve_target_one_backend
      split: option.splits bool.splits)

text \<open>Revoking never fails on an index, and a target revokes records of one backend only: the
  revoked positions are records of the ledger that share their backend, and what is written is the
  ledger with exactly these marked as revoked.\<close>

lemma revoke_addresses_one_backend:
  "case lease_revoke now (Some target) all configured l of
     Inl e \<Rightarrow> \<nexists>m. e = Panicked m
   | Inr (revoked, l') \<Rightarrow> l' = (if revoked = [] then l else compact now (revoked_at revoked l)) \<and>
       card ((\<lambda>i. lr_backend_name (l ! i)) ` set revoked) \<le> 1 \<and> set revoked \<subseteq> {..<length l}"
proof (cases "select_leases now (Some target) all configured l")
  case (Inl e)
  then show ?thesis
    by (auto simp: lease_revoke_def select_leases_def resolve_target_def with_id_def Let_def
        split: bool.splits if_splits list.splits)
next
  case (Inr sel)
  then have sel: "resolve_target now l target configured = Inr sel" by (auto simp: select_leases_def split: bool.splits)
  note valid = select_leases_valid [OF Inr] and same = resolve_target_one_backend [OF sel]
  obtain revoked l'' where run: "revoke_selected sel l = Some (revoked, l'')"
    using revoke_selected_runs [OF valid] by blast
  note marks = revoke_selected_marks [OF run]
  have "(\<lambda>i. lr_backend_name (l ! i)) ` set revoked \<subseteq> {lr_backend_name (l ! hd revoked)}"
    using marks same by (cases revoked) auto
  then have "card ((\<lambda>i. lr_backend_name (l ! i)) ` set revoked) \<le> 1"
    by (metis card.empty card_mono finite.emptyI finite.insertI card_insert_disjoint insert_absorb
        One_nat_def empty_iff)
  moreover have "set revoked \<subseteq> {..<length l}" using marks same by auto
  ultimately show ?thesis using Inr run marks by (auto simp: lease_revoke_def)
qed

subsection \<open>The ledger over time\<close>

text \<open>The critical sections under the ledger lock: each loads the file, changes it and saves it. The
  state is the clock, the ledger file and the records issued so far.\<close>

inductive ledger_run :: "int \<Rightarrow> ledger \<Rightarrow> ledger \<Rightarrow> bool" where
  start: "ledger_run now [] []"
| tick: "ledger_run now l issued \<Longrightarrow> now \<le> now' \<Longrightarrow> ledger_run now' l issued"
| issue: "ledger_run now l issued \<Longrightarrow> \<not> lr_revoked r \<Longrightarrow> ledger_run now (compact now (add r l)) (issued @ [r])"
| revoke: "ledger_run now l issued \<Longrightarrow> lease_revoke now target all c l = Inr (revoked, l') \<Longrightarrow> ledger_run now l' issued"
| cleanup: "ledger_run now l issued \<Longrightarrow> lease_cleanup now l = Some l' \<Longrightarrow> ledger_run now l' issued"

definition copy_of :: "lease_record \<Rightarrow> lease_record \<Rightarrow> bool" where
  "copy_of r r' \<longleftrightarrow> r' = r \<or> r' = revoke_record r"

definition ledger_inv :: "int \<Rightarrow> ledger \<Rightarrow> ledger \<Rightarrow> bool" where
  "ledger_inv now l issued \<longleftrightarrow>
     list_all (\<lambda>r'. list_ex (\<lambda>r. \<not> lr_revoked r \<and> copy_of r r') issued) l \<and>
     list_all (\<lambda>r. kept_until r \<le> now - day \<or> list_ex (copy_of r) l) issued"

lemma copy_of_trans: "copy_of r r' \<Longrightarrow> copy_of r' r'' \<Longrightarrow> copy_of r r''"
  by (auto simp: copy_of_def)

lemma copy_of_kept [simp]: "copy_of r r' \<Longrightarrow> kept_until r' = kept_until r"
  by (auto simp: copy_of_def)

lemma marked_copies:
  "marked l l' \<Longrightarrow> (\<forall>r \<in> set l. \<exists>r' \<in> set l'. copy_of r r') \<and> (\<forall>r' \<in> set l'. \<exists>r \<in> set l. copy_of r r')"
  unfolding marked_def by (induction rule: list_all2_induct) (auto simp: copy_of_def)

lemma ledger_inv_marked:
  assumes "ledger_inv now l issued" and "marked l l'"
  shows "ledger_inv now l' issued"
  using assms(1) marked_copies [OF assms(2)] unfolding ledger_inv_def list_all_iff list_ex_iff
  by (meson copy_of_trans)

lemma ledger_inv_compact:
  assumes "ledger_inv now l issued"
  shows "ledger_inv now (compact now l) issued"
proof -
  have "kept_until r \<le> now - day \<or> (\<exists>r' \<in> set (compact now l). copy_of r r')" if "r \<in> set issued" for r
  proof (cases "kept_until r \<le> now - day")
    case False
    with assms that obtain r' where "r' \<in> set l" "copy_of r r'" by (auto simp: ledger_inv_def list_all_iff list_ex_iff)
    with False show ?thesis by (intro disjI2 bexI [of _ r']) (simp_all add: compact_kept)
  qed simp
  moreover have "set (compact now l) \<subseteq> set l" by (auto simp: compact_kept)
  ultimately show ?thesis
    using assms by (auto simp: ledger_inv_def list_all_iff list_ex_iff subset_iff)
qed

lemma lease_revoke_saves:
  "lease_revoke now target all c l = Inr (revoked, l') \<Longrightarrow> l' = l \<or> (\<exists>l''. marked l l'' \<and> l' = compact now l'')"
proof -
  assume "lease_revoke now target all c l = Inr (revoked, l')"
  then obtain sel where "(case revoke_selected sel l of None \<Rightarrow> Inl (Panicked ''index out of bounds'')
      | Some (revoked, l') \<Rightarrow> Inr (revoked, if revoked = [] then l else compact now l')) = Inr (revoked, l')"
    by (auto simp: lease_revoke_def bind_sum_Inr)
  then obtain l'' where "revoke_selected sel l = Some (revoked, l'')"
    and "l' = (if revoked = [] then l else compact now l'')" by (auto split: option.splits)
  moreover from this have "marked l l''" using revoke_selected_marks marked_revoked_at by blast
  ultimately show ?thesis by (cases "revoked = []") auto
qed

lemma lease_cleanup_saves:
  "lease_cleanup now l = Some l' \<Longrightarrow> l' = l \<or> (\<exists>l''. marked l l'' \<and> l' = compact now l'')"
  by (auto simp: lease_cleanup_def Let_def split: if_splits dest: mark_all_marks)

lemma ledger_run_inv: "ledger_run now l issued \<Longrightarrow> ledger_inv now l issued"
proof (induction rule: ledger_run.induct)
  case (start now)
  show ?case by (simp add: ledger_inv_def)
next
  case (tick now l issued now')
  then show ?case by (fastforce simp: ledger_inv_def list_all_iff)
next
  case (issue now l issued r)
  then have "ledger_inv now (add r l) (issued @ [r])"
    by (auto simp: ledger_inv_def add_def copy_of_def list_all_iff list_ex_iff)
  then show ?case by (rule ledger_inv_compact)
next
  case (revoke now l issued target all c revoked l')
  from lease_revoke_saves [OF revoke(2)] revoke(3) show ?case
    by (auto intro: ledger_inv_compact ledger_inv_marked)
next
  case (cleanup now l issued l')
  from lease_cleanup_saves [OF cleanup(2)] cleanup(3) show ?case
    by (auto intro: ledger_inv_compact ledger_inv_marked)
qed

text \<open>C32: However leases are issued, revoked and cleaned up, the ledger holds only issued leases, a
  revoked one keeps no credentials, and no issued lease is lost before a day has passed since its
  expiry (or its creation, when it does not expire).\<close>

theorem ledger_tracks_leases:
  assumes "ledger_run now l issued"
  shows "list_all (\<lambda>r'. (if lr_revoked r' then lr_cached_credentials r' = None \<and> lr_encryption_provider r' = None
        else r' \<in> set issued) \<and> list_ex (\<lambda>r. copy_of r r') issued) l \<and>
    list_all (\<lambda>r. kept_until r \<le> now - day \<or> list_ex (copy_of r) l) issued"
  using ledger_run_inv [OF assms] unfolding ledger_inv_def list_all_iff list_ex_iff
  by (auto simp: copy_of_def)

definition demo_lease :: lease_record where
  "demo_lease = \<lparr>lr_lease_id = ''sts-1'', lr_backend_name = ''aws'', lr_label = ''ci'', lr_created_at = 0,
     lr_expires_at = Some (seconds 3600), lr_revoked = False,
     lr_cached_credentials = Some [(''AWS_TOKEN'', ''t'')], lr_encryption_provider = None,
     lr_config_hash = Some ''h''\<rparr>"

theorem ledger_tracks_leases_witness:
  "list_all (\<lambda>r'. (if lr_revoked r' then lr_cached_credentials r' = None \<and> lr_encryption_provider r' = None
        else r' \<in> set [demo_lease]) \<and> list_ex (\<lambda>r. copy_of r r') [demo_lease]) (compact 0 [demo_lease]) \<and>
    list_all (\<lambda>r. kept_until r \<le> 0 - day \<or> list_ex (copy_of r) (compact 0 [demo_lease])) [demo_lease]"
proof (rule ledger_tracks_leases)
  have "ledger_run 0 (compact 0 (add demo_lease [])) ([] @ [demo_lease])"
    by (intro ledger_run.start ledger_run.issue) (simp add: demo_lease_def)
  then show "ledger_run 0 (compact 0 [demo_lease]) [demo_lease]" by (simp add: add_def)
qed

end
