(* ===== verification/Text.thy ===== *)
theory Text
  imports Names
begin

text \<open>
  The operations of Rust's \<open>str\<close> that the command line side of the program uses: substrings and
  their non-overlapping occurrences, splitting at the first or last separator, words, ASCII case, and
  decimal numbers. Characters stand for scalar values below U+0100 as in \<open>Names\<close>.
\<close>

subsection \<open>Substrings\<close>

definition contains :: "string \<Rightarrow> string \<Rightarrow> bool" where
  "contains s pat \<longleftrightarrow> find_sub pat s \<noteq> None"

lemma find_sub_Nil [simp]: "find_sub [] s = Some ([], s)"
  by (cases s) (simp_all add: strip_prefix_def)

lemma find_sub_shorter: "pat \<noteq> [] \<Longrightarrow> find_sub pat s = Some (a, b) \<Longrightarrow> length b < length s"
  by (drule find_sub_split) (cases pat, auto)

lemma contains_iff: "contains s pat \<longleftrightarrow> (\<exists>a b. s = a @ pat @ b)"
  unfolding contains_def
  by (metis find_sub_None find_sub_split option.exhaust surj_pair)

function match_count :: "string \<Rightarrow> string \<Rightarrow> nat" where
  \<comment> \<open>\<open>s.matches(pat).count()\<close>: occurrences that do not overlap, from the left\<close>
  "match_count s pat =
     (if pat = [] then length s + 1
      else case find_sub pat s of None \<Rightarrow> 0 | Some (_, rest) \<Rightarrow> Suc (match_count rest pat))"
  by pat_completeness auto
termination by (relation "measure (\<lambda>(s, _). length s)") (auto dest: find_sub_shorter)

declare match_count.simps [simp del]

lemma match_count_0: "match_count s pat = 0 \<longleftrightarrow> \<not> contains s pat"
  by (subst match_count.simps) (auto simp: contains_def split: option.splits)

lemma match_count_pos: "match_count s pat > 0 \<longleftrightarrow> contains s pat"
  using match_count_0 [of s pat] by auto

definition replacen1 :: "string \<Rightarrow> string \<Rightarrow> string \<Rightarrow> string" where
  "replacen1 s pat to = (case find_sub pat s of None \<Rightarrow> s | Some (a, b) \<Rightarrow> a @ to @ b)"

subsection \<open>Splitting\<close>

fun split_once :: "char \<Rightarrow> string \<Rightarrow> (string \<times> string) option" where
  "split_once d [] = None"
| "split_once d (c # cs) =
     (if c = d then Some ([], cs) else map_option (\<lambda>(a, b). (c # a, b)) (split_once d cs))"

definition rsplit_once :: "char \<Rightarrow> string \<Rightarrow> (string \<times> string) option" where
  "rsplit_once d s = map_option (\<lambda>(a, b). (rev b, rev a)) (split_once d (rev s))"

lemma split_once_Some: "split_once d s = Some (a, b) \<longleftrightarrow> s = a @ d # b \<and> d \<notin> set a"
proof (induction s arbitrary: a)
  case (Cons c s)
  then show ?case by (cases a) (auto 0 3)
qed simp

lemma split_once_None: "split_once d s = None \<longleftrightarrow> d \<notin> set s"
  by (induction s) auto

lemma rsplit_once_Some: "rsplit_once d s = Some (a, b) \<longleftrightarrow> s = a @ d # b \<and> d \<notin> set b"
proof -
  have "rsplit_once d s = Some (a, b) \<longleftrightarrow> split_once d (rev s) = Some (rev b, rev a)"
    by (auto simp: rsplit_once_def)
  also have "\<dots> \<longleftrightarrow> s = a @ d # b \<and> d \<notin> set b"
    by (auto simp: split_once_Some) (metis rev_append rev_rev_ident rev.simps(2) append.assoc append_Cons append_Nil)
  finally show ?thesis .
qed

fun words_from :: "(char \<Rightarrow> bool) \<Rightarrow> string \<Rightarrow> string \<Rightarrow> string list" where
  "words_from sep w [] = (if w = [] then [] else [rev w])"
| "words_from sep w (c # cs) =
     (if sep c then (if w = [] then words_from sep [] cs else rev w # words_from sep [] cs)
      else words_from sep (c # w) cs)"

definition split_whitespace :: "string \<Rightarrow> string list" where
  "split_whitespace s = words_from is_whitespace [] s"

definition trim_matches :: "(char \<Rightarrow> bool) \<Rightarrow> string \<Rightarrow> string" where
  "trim_matches P s = rev (dropWhile P (rev (dropWhile P s)))"

subsection \<open>ASCII case\<close>

definition ascii_lower :: "char \<Rightarrow> char" where
  "ascii_lower c = (if is_upper c then char_of (of_char c + 32 :: nat) else c)"

definition ascii_upper :: "char \<Rightarrow> char" where
  "ascii_upper c = (if is_lower c then char_of (of_char c - 32 :: nat) else c)"

definition to_ascii_lowercase :: "string \<Rightarrow> string" where
  "to_ascii_lowercase s = map ascii_lower s"

definition to_ascii_uppercase :: "string \<Rightarrow> string" where
  "to_ascii_uppercase s = map ascii_upper s"

definition eq_ignore_ascii_case :: "string \<Rightarrow> string \<Rightarrow> bool" where
  "eq_ignore_ascii_case a b \<longleftrightarrow> to_ascii_lowercase a = to_ascii_lowercase b"

subsection \<open>Numbers\<close>

fun digits_of :: "nat \<Rightarrow> string" where
  "digits_of n = (if n < 10 then [char_of (48 + n)] else digits_of (n div 10) @ [char_of (48 + n mod 10)])"

declare digits_of.simps [simp del]

definition parse_bounded :: "nat \<Rightarrow> string \<Rightarrow> nat option" where
  \<comment> \<open>\<open>str::parse\<close> of an unsigned integer below a bound: an optional plus sign, then digits\<close>
  "parse_bounded bound s =
     (let ds = (case s of c # cs \<Rightarrow> if c = CHR ''+'' then cs else s | [] \<Rightarrow> [])
      in if ds = [] \<or> \<not> list_all is_digit ds then None
         else (let n = foldl (\<lambda>n c. 10 * n + (of_char c - 48)) 0 ds in if n < bound then Some n else None))"

end
