(* ===== verification/LeaseBackend.thy ===== *)
theory LeaseBackend
  imports Text Errors
begin

text \<open>
  The lease backends of a configuration (\<open>crates/fnox-core/src/lease_backends/mod.rs\<close>): what each
  needs from the environment, what it produces, and its limits, with the tables that the backend
  modules beside it declare. Creating and revoking leases talks to the services and is a parameter
  elsewhere. The environment and the files of the machine are the record \<open>machine\<close>.
\<close>

datatype cloudflare_token_type = UserToken | AccountToken
datatype cloudflare_effect = Allow | Deny
datatype client_auth_method = Basic | Post

record cloudflare_policy =
  cp_effect :: cloudflare_effect
  cp_permission_groups :: "(string \<times> string option) list"
  cp_resources :: "(string, string) imap"

text \<open>The fields stand in the order of the source: \<open>AwsSts\<close> region, profile, role ARN, endpoint,
  duration; \<open>GcpIam\<close> account, scopes, variable, duration; \<open>Vault\<close> address, token, credential
  command, secret path, namespace, variable map, duration, method; \<open>AzureToken\<close> scope, variable,
  duration, auth, managed identity; \<open>Cloudflare\<close> token type, account, policies, variable, duration;
  \<open>GithubApp\<close> app, installation, key file, variable, permissions, repositories, API base, duration;
  \<open>GithubOauth\<close> client, scope, variable, keyring service, keyring cache, open browser, auth base,
  API base, duration; \<open>Gitlab\<close> URL, project, group, scopes, access level, variable, duration;
  \<open>Kubernetes\<close> service account, namespace, audiences, context, kubeconfig, variable, duration;
  \<open>Oauth2ClientCredentials\<close> token URL, client, scope, audience, variable, auth method, parameters,
  revocation URL, duration; \<open>Tailscale\<close> tailnet, API base, tags, reusable, ephemeral,
  preauthorized, variable, duration; \<open>Command\<close> create and revoke command, duration, timeout.\<close>

datatype lease_backend =
    AwsSts string "string option" string "string option"
      "string option"
  | GcpIam string "string list" string "string option"
  | Vault "string option" "string option" "string option"
      string "string option" "(string, string) imap"
      "string option" string
  | AzureToken string string "string option" "string option"
      "string option"
  | Cloudflare cloudflare_token_type "string option"
      "cloudflare_policy list option" string "string option"
  | GithubApp string string "string option" string
      "(string, string) imap option" "string list option"
      "string option" "string option"
  | GithubOauth string string string string
      bool bool string string "string option"
  | Gitlab "string option" "string option" "string option" "string list"
      string string "string option"
  | Kubernetes string "string option" "string list"
      "string option" "string option" string "string option"
  | Oauth2ClientCredentials string string "string option"
      "string option" string client_auth_method
      "(string, string) imap" "string option" "string option"
  | Tailscale string "string option" "string list" bool
      bool bool string "string option"
  | Command string "string option" "string option"
      string

subsection \<open>Variables\<close>

definition AWS_PRODUCED :: "string list" where
  "AWS_PRODUCED = [''AWS_ACCESS_KEY_ID'', ''AWS_SECRET_ACCESS_KEY'', ''AWS_SESSION_TOKEN'']"

definition AWS_CONSUMED :: "string list" where
  "AWS_CONSUMED =
     [''AWS_ACCESS_KEY_ID'', ''AWS_SECRET_ACCESS_KEY'', ''AWS_SESSION_TOKEN'', ''AWS_PROFILE'',
      ''AWS_SSO_SESSION'', ''AWS_CONFIG_FILE'', ''AWS_SHARED_CREDENTIALS_FILE'', ''AWS_DEFAULT_REGION'',
      ''AWS_REGION'', ''AWS_WEB_IDENTITY_TOKEN_FILE'', ''AWS_ROLE_ARN'', ''AWS_ROLE_SESSION_NAME'',
      ''AWS_CONTAINER_CREDENTIALS_RELATIVE_URI'', ''AWS_CONTAINER_CREDENTIALS_FULL_URI'',
      ''AWS_CONTAINER_AUTHORIZATION_TOKEN'', ''AWS_CONTAINER_AUTHORIZATION_TOKEN_FILE'',
      ''AWS_EC2_METADATA_SERVICE_ENDPOINT'', ''AWS_EC2_METADATA_SERVICE_ENDPOINT_MODE'',
      ''AWS_EC2_METADATA_DISABLED'']"

definition VAULT_CONSUMED :: "string list" where
  "VAULT_CONSUMED =
     [''VAULT_ADDR'', ''FNOX_VAULT_ADDR'', ''VAULT_TOKEN'', ''FNOX_VAULT_TOKEN'', ''VAULT_NAMESPACE'',
      ''FNOX_VAULT_NAMESPACE'', ''VAULT_CACERT'', ''VAULT_CAPATH'', ''VAULT_SKIP_VERIFY'',
      ''VAULT_CLIENT_CERT'', ''VAULT_CLIENT_KEY'', ''VAULT_TLS_SERVER_NAME'']"

definition SERVICE_PRINCIPAL_ENV_VARS :: "string list" where
  "SERVICE_PRINCIPAL_ENV_VARS = [''AZURE_TENANT_ID'', ''AZURE_CLIENT_ID'', ''AZURE_CLIENT_SECRET'']"

definition azure_consumed :: "string option \<Rightarrow> string list" where
  "azure_consumed a = (if a = Some ''managed-identity'' then [] else SERVICE_PRINCIPAL_ENV_VARS)"

fun consumed_env_vars :: "lease_backend \<Rightarrow> string list" where
  "consumed_env_vars (AwsSts _ _ _ _ _) = AWS_CONSUMED"
| "consumed_env_vars (GcpIam _ _ _ _) = [''GOOGLE_APPLICATION_CREDENTIALS'', ''GCP_SERVICE_ACCOUNT_KEY'']"
| "consumed_env_vars (Vault _ _ _ _ _ _ _ _) = VAULT_CONSUMED"
| "consumed_env_vars (AzureToken _ _ _ a _) = azure_consumed a"
| "consumed_env_vars (Command _ _ _ _) = []"
| "consumed_env_vars (Cloudflare _ _ _ _ _) = [''CLOUDFLARE_API_TOKEN'', ''CF_API_TOKEN'']"
| "consumed_env_vars (GithubApp _ _ _ _ _ _ _ _) = [''FNOX_GITHUB_APP_PRIVATE_KEY'']"
| "consumed_env_vars (GithubOauth _ _ _ _ _ _ _ _ _) = []"
| "consumed_env_vars (Gitlab _ _ _ _ _ _ _) = [''GITLAB_TOKEN'']"
| "consumed_env_vars (Kubernetes _ _ _ _ _ _ _) = [''KUBECONFIG'']"
| "consumed_env_vars (Oauth2ClientCredentials _ _ _ _ _ _ _ _ _) = [''OAUTH2_CLIENT_SECRET'']"
| "consumed_env_vars (Tailscale _ _ _ _ _ _ _ _) =
     [''TAILSCALE_API_KEY'', ''TAILSCALE_OAUTH_CLIENT_ID'', ''TAILSCALE_OAUTH_CLIENT_SECRET'']"

fun has_known_inputs :: "lease_backend \<Rightarrow> bool" where
  "has_known_inputs (Command _ _ _ _) = False"
| "has_known_inputs _ = True"

fun produced_env_vars :: "lease_backend \<Rightarrow> string list" where
  "produced_env_vars (AwsSts _ _ _ _ _) = AWS_PRODUCED"
| "produced_env_vars (GcpIam _ _ v _) = [v]"
| "produced_env_vars (AzureToken _ v _ _ _) = [v]"
| "produced_env_vars (Cloudflare _ _ _ v _) = [v]"
| "produced_env_vars (GithubApp _ _ _ v _ _ _ _) = [v]"
| "produced_env_vars (GithubOauth _ _ v _ _ _ _ _ _) = [v]"
| "produced_env_vars (Gitlab _ _ _ _ _ v _) = [v]"
| "produced_env_vars (Kubernetes _ _ _ _ _ v _) = [v]"
| "produced_env_vars (Oauth2ClientCredentials _ _ _ _ v _ _ _ _) = [v]"
| "produced_env_vars (Tailscale _ _ _ _ _ _ v _) = [v]"
| "produced_env_vars (Vault _ _ _ _ _ m _ _) = map snd m"
| "produced_env_vars (Command _ _ _ _) = []"

fun produces_env_var :: "lease_backend \<Rightarrow> string \<Rightarrow> bool" where
  "produces_env_var (AwsSts _ _ _ _ _) key = (key \<in> set AWS_PRODUCED)"
| "produces_env_var (GcpIam _ _ v _) key = (v = key)"
| "produces_env_var (Vault _ _ _ _ _ m _ _) key = list_ex (\<lambda>v. v = key) (map snd m)"
| "produces_env_var (AzureToken _ v _ _ _) key = (v = key)"
| "produces_env_var (Command _ _ _ _) key = False"
| "produces_env_var (Cloudflare _ _ _ v _) key = (v = key)"
| "produces_env_var (GithubApp _ _ _ v _ _ _ _) key = (v = key)"
| "produces_env_var (GithubOauth _ _ v _ _ _ _ _ _) key = (v = key)"
| "produces_env_var (Gitlab _ _ _ _ _ v _) key = (v = key)"
| "produces_env_var (Kubernetes _ _ _ _ _ v _) key = (v = key)"
| "produces_env_var (Oauth2ClientCredentials _ _ _ _ v _ _ _ _) key = (v = key)"
| "produces_env_var (Tailscale _ _ _ _ _ _ v _) key = (v = key)"

lemma produces_iff: "produces_env_var lb key \<longleftrightarrow> key \<in> set (produced_env_vars lb)"
  by (cases lb) (auto simp: list_ex_iff)

subsection \<open>Prerequisites\<close>

record machine =
  mc_env :: "string \<Rightarrow> string option"
  mc_exists :: "string \<Rightarrow> bool"
  mc_home :: "string option"
  mc_config_dir :: "string option"
  mc_tilde :: "string \<Rightarrow> string"
  mc_has_az :: bool

definition is_set :: "machine \<Rightarrow> string \<Rightarrow> bool" where
  "is_set m name \<longleftrightarrow> mc_env m name \<noteq> None"

definition env_credential :: "machine \<Rightarrow> string \<Rightarrow> string option" where
  "env_credential m name = (case mc_env m name of Some v \<Rightarrow> if trim v \<noteq> [] then Some v else None | None \<Rightarrow> None)"

datatype azure_auth = AzureDefault | ManagedIdentity "string option"

definition azure_from_config :: "string option \<Rightarrow> string option \<Rightarrow> string + azure_auth" where
  "azure_from_config a client =
     (let client = (case client of Some [] \<Rightarrow> None | c \<Rightarrow> c);
          a = (case a of Some [] \<Rightarrow> None | a \<Rightarrow> a)
      in if a \<in> {None, Some ''default''}
         then (if client \<noteq> None then Inl ''managed_identity_client_id requires auth = managed-identity''
               else Inr AzureDefault)
         else if a = Some ''managed-identity'' then Inr (ManagedIdentity client)
         else Inl ''unknown Azure auth'')"

definition service_principal_env :: "machine \<Rightarrow> bool" where
  \<comment> \<open>whether all three variables are set and not empty\<close>
  "service_principal_env m =
     list_all (\<lambda>n. case mc_env m n of Some v \<Rightarrow> v \<noteq> [] | None \<Rightarrow> False) SERVICE_PRINCIPAL_ENV_VARS"

datatype prerequisite =
    AwsCredentialsMissing | GcpCredentialsMissing | VaultAddressAndTokenMissing | VaultAddressMissing
  | VaultTokenMissing | AzureCredentialsMissing | CloudflareTokenMissing | GithubAppKeyMissing
  | GitlabTokenMissing | Oauth2SecretMissing | TailscaleCredentialsMissing

fun prerequisite_message :: "prerequisite \<Rightarrow> string" where
  "prerequisite_message AwsCredentialsMissing =
     ''AWS credentials not found. Run 'aws sso login' or set AWS_ACCESS_KEY_ID/AWS_SECRET_ACCESS_KEY.''"
| "prerequisite_message GcpCredentialsMissing =
     ''GCP credentials not found. Run 'gcloud auth application-default login' or set GOOGLE_APPLICATION_CREDENTIALS.''"
| "prerequisite_message VaultAddressAndTokenMissing = ''Vault address and token not found. Set VAULT_ADDR and VAULT_TOKEN.''"
| "prerequisite_message VaultAddressMissing = ''Vault address not found. Set VAULT_ADDR.''"
| "prerequisite_message VaultTokenMissing = ''Vault token not found. Set VAULT_TOKEN.''"
| "prerequisite_message AzureCredentialsMissing =
     ''Azure credentials not found. Run 'az login' or set AZURE_CLIENT_ID/AZURE_CLIENT_SECRET/AZURE_TENANT_ID.''"
| "prerequisite_message CloudflareTokenMissing =
     ''Cloudflare API token not found. Set CLOUDFLARE_API_TOKEN with a token that has 'API Tokens: Edit' permission.''"
| "prerequisite_message GithubAppKeyMissing =
     ''GitHub App private key not found. Set FNOX_GITHUB_APP_PRIVATE_KEY or configure private_key_file pointing to a PEM file.''"
| "prerequisite_message GitlabTokenMissing =
     ''GitLab token not found. Set GITLAB_TOKEN to a token with the 'api' scope and the Maintainer role on the project or group.''"
| "prerequisite_message Oauth2SecretMissing = ''OAuth2 client secret not found. Set OAUTH2_CLIENT_SECRET to the client's secret.''"
| "prerequisite_message TailscaleCredentialsMissing =
     ''Tailscale credentials not found. Set TAILSCALE_OAUTH_CLIENT_ID and TAILSCALE_OAUTH_CLIENT_SECRET (an OAuth client with the 'auth_keys' scope), or TAILSCALE_API_KEY.''"

definition vault_prerequisites :: "machine \<Rightarrow> string option \<Rightarrow> string option \<Rightarrow> string option \<Rightarrow> prerequisite option" where
  "vault_prerequisites m addr tok cmd =
     (let has_addr = (addr \<noteq> None \<or> is_set m ''VAULT_ADDR'' \<or> is_set m ''FNOX_VAULT_ADDR'');
          has_token = (tok \<noteq> None \<or> is_set m ''VAULT_TOKEN'' \<or> is_set m ''FNOX_VAULT_TOKEN'' \<or> cmd \<noteq> None)
      in case (has_addr, has_token) of
           (False, False) \<Rightarrow> Some VaultAddressAndTokenMissing
         | (False, True) \<Rightarrow> Some VaultAddressMissing
         | (True, False) \<Rightarrow> Some VaultTokenMissing
         | (True, True) \<Rightarrow> None)"

definition aws_prerequisites :: "machine \<Rightarrow> string option \<Rightarrow> prerequisite option" where
  "aws_prerequisites m prof =
     (let has_env = ((is_set m ''AWS_ACCESS_KEY_ID'' \<and> is_set m ''AWS_SECRET_ACCESS_KEY'') \<or> is_set m ''AWS_PROFILE'');
          has_creds_file = (case mc_home m of
            Some h \<Rightarrow> mc_exists m (h @ ''/.aws/credentials'') \<or> mc_exists m (h @ ''/.aws/config'')
          | None \<Rightarrow> False)
      in if has_env \<or> prof \<noteq> None \<or> is_set m ''AWS_SSO_SESSION'' \<or> has_creds_file then None
         else Some AwsCredentialsMissing)"

definition gcp_prerequisites :: "machine \<Rightarrow> prerequisite option" where
  "gcp_prerequisites m =
     (if is_set m ''GOOGLE_APPLICATION_CREDENTIALS'' \<or> is_set m ''GCP_SERVICE_ACCOUNT_KEY'' \<or>
         (case mc_config_dir m of
            Some c \<Rightarrow> mc_exists m (c @ ''/gcloud/application_default_credentials.json'') | None \<Rightarrow> False)
      then None else Some GcpCredentialsMissing)"

definition azure_prerequisites :: "machine \<Rightarrow> string option \<Rightarrow> string option \<Rightarrow> prerequisite option" where
  "azure_prerequisites m a client =
     (case azure_from_config a client of
        Inr (ManagedIdentity _) \<Rightarrow> None
      | Inl _ \<Rightarrow> None
      | Inr AzureDefault \<Rightarrow>
          if service_principal_env m then None else if mc_has_az m then None else Some AzureCredentialsMissing)"

definition tailscale_from_env :: "machine \<Rightarrow> bool" where
  "tailscale_from_env m \<longleftrightarrow>
     env_credential m ''TAILSCALE_API_KEY'' \<noteq> None \<or>
     (env_credential m ''TAILSCALE_OAUTH_CLIENT_ID'' \<noteq> None \<and> env_credential m ''TAILSCALE_OAUTH_CLIENT_SECRET'' \<noteq> None)"

fun check_prerequisites :: "machine \<Rightarrow> lease_backend \<Rightarrow> prerequisite option" where
  "check_prerequisites m (AwsSts _ p _ _ _) = aws_prerequisites m p"
| "check_prerequisites m (GcpIam _ _ _ _) = gcp_prerequisites m"
| "check_prerequisites m (Vault a t c _ _ _ _ _) = vault_prerequisites m a t c"
| "check_prerequisites m (AzureToken _ _ _ a c) = azure_prerequisites m a c"
| "check_prerequisites m (Cloudflare _ _ _ _ _) =
     (if is_set m ''CLOUDFLARE_API_TOKEN'' \<or> is_set m ''CF_API_TOKEN'' then None else Some CloudflareTokenMissing)"
| "check_prerequisites m (GithubApp _ _ f _ _ _ _ _) =
     (if is_set m ''FNOX_GITHUB_APP_PRIVATE_KEY'' \<or>
         (case f of Some f \<Rightarrow> mc_exists m (mc_tilde m f) | None \<Rightarrow> False)
      then None else Some GithubAppKeyMissing)"
| "check_prerequisites m (GithubOauth _ _ _ _ _ _ _ _ _) = None"
| "check_prerequisites m (Gitlab _ _ _ _ _ _ _) =
     (if env_credential m ''GITLAB_TOKEN'' \<noteq> None then None else Some GitlabTokenMissing)"
| "check_prerequisites m (Kubernetes _ _ _ _ _ _ _) = None"
| "check_prerequisites m (Oauth2ClientCredentials _ _ _ _ _ _ _ _ _) =
     (if env_credential m ''OAUTH2_CLIENT_SECRET'' \<noteq> None then None else Some Oauth2SecretMissing)"
| "check_prerequisites m (Tailscale _ _ _ _ _ _ _ _) =
     (if tailscale_from_env m then None else Some TailscaleCredentialsMissing)"
| "check_prerequisites m (Command _ _ _ _) = None"

definition vault_required :: "string option \<Rightarrow> string option \<Rightarrow> string option \<Rightarrow> string list" where
  "vault_required addr tok cmd =
     (if addr = None then [''VAULT_ADDR''] else []) @ (if tok = None \<and> cmd = None then [''VAULT_TOKEN''] else [])"

fun required_env_vars :: "lease_backend \<Rightarrow> string list" where
  \<comment> \<open>the names, without the descriptions shown with the prompt\<close>
  "required_env_vars (AwsSts _ _ _ _ _) = [''AWS_ACCESS_KEY_ID'', ''AWS_SECRET_ACCESS_KEY'', ''AWS_SESSION_TOKEN'']"
| "required_env_vars (GcpIam _ _ _ _) = [''GOOGLE_APPLICATION_CREDENTIALS'']"
| "required_env_vars (Vault a t c _ _ _ _ _) = vault_required a t c"
| "required_env_vars (AzureToken _ _ _ a _) =
     (if a = Some ''managed-identity'' then [] else [''AZURE_CLIENT_ID'', ''AZURE_CLIENT_SECRET'', ''AZURE_TENANT_ID''])"
| "required_env_vars (Cloudflare _ _ _ _ _) = [''CLOUDFLARE_API_TOKEN'']"
| "required_env_vars (GithubApp _ _ _ _ _ _ _ _) = []"
| "required_env_vars (GithubOauth _ _ _ _ _ _ _ _ _) = []"
| "required_env_vars (Gitlab _ _ _ _ _ _ _) = [''GITLAB_TOKEN'']"
| "required_env_vars (Kubernetes _ _ _ _ _ _ _) = []"
| "required_env_vars (Oauth2ClientCredentials _ _ _ _ _ _ _ _ _) = [''OAUTH2_CLIENT_SECRET'']"
| "required_env_vars (Tailscale _ _ _ _ _ _ _ _) = [''TAILSCALE_OAUTH_CLIENT_ID'', ''TAILSCALE_OAUTH_CLIENT_SECRET'']"
| "required_env_vars (Command _ _ _ _) = []"

subsection \<open>Limits\<close>

fun max_lease_duration :: "lease_backend \<Rightarrow> nat" where
  "max_lease_duration (AwsSts _ _ _ _ _) = 12 * 3600"
| "max_lease_duration (GcpIam _ _ _ _) = 3600"
| "max_lease_duration (Vault _ _ _ _ _ _ _ _) = 24 * 3600"
| "max_lease_duration (AzureToken _ _ _ _ _) = 3600"
| "max_lease_duration (Cloudflare _ _ _ _ _) = 24 * 3600"
| "max_lease_duration (GithubApp _ _ _ _ _ _ _ _) = 3600"
| "max_lease_duration (GithubOauth _ _ _ _ _ _ _ _ _) = 8 * 60 * 60"
| "max_lease_duration (Gitlab _ _ _ _ _ _ _) = 24 * 3600"
| "max_lease_duration (Kubernetes _ _ _ _ _ _ _) = 24 * 3600"
| "max_lease_duration (Oauth2ClientCredentials _ _ _ _ _ _ _ _ _) = 24 * 3600"
| "max_lease_duration (Tailscale _ _ _ _ _ _ _ _) = 90 * 24 * 3600"
| "max_lease_duration (Command _ _ _ _) = 24 * 3600"

fun cacheable :: "lease_backend \<Rightarrow> bool" where
  "cacheable (Tailscale _ _ _ r _ _ _ _) = r"
| "cacheable _ = True"

text \<open>The variables that the interactive prompt asks for are read by the backend, and setting them
  all meets its prerequisites.\<close>

lemma prompted_are_consumed: "set (required_env_vars lb) \<subseteq> set (consumed_env_vars lb)"
  by (cases lb) (auto simp: AWS_CONSUMED_def VAULT_CONSUMED_def vault_required_def azure_consumed_def
      SERVICE_PRINCIPAL_ENV_VARS_def)

lemma credential_is_set: "env_credential m n \<noteq> None \<Longrightarrow> is_set m n"
  by (auto simp: env_credential_def is_set_def split: option.splits)

lemma credential_not_empty:
  "env_credential m n \<noteq> None \<Longrightarrow> (case mc_env m n of Some v \<Rightarrow> v \<noteq> [] | None \<Rightarrow> False)"
  by (auto simp: env_credential_def trim_def trim_start_def split: option.splits if_splits)

lemma prompting_suffices:
  assumes "required_env_vars lb \<noteq> []" and "list_all (\<lambda>n. env_credential m n \<noteq> None) (required_env_vars lb)"
  shows "check_prerequisites m lb = None"
proof -
  have set: "is_set m n" if "n \<in> set (required_env_vars lb)" for n
    using assms(2) that by (auto simp: list_all_iff intro: credential_is_set)
  have filled: "case mc_env m n of Some v \<Rightarrow> v \<noteq> [] | None \<Rightarrow> False" if "n \<in> set (required_env_vars lb)" for n
    using assms(2) that by (intro credential_not_empty) (auto simp: list_all_iff)
  show ?thesis
  proof (cases lb)
    case (AzureToken s v d a c)
    with assms(1) filled show ?thesis
      by (auto simp: azure_prerequisites_def service_principal_env_def SERVICE_PRINCIPAL_ENV_VARS_def
          split: sum.splits azure_auth.splits if_splits)
  next
    case (Vault a t c sp n m' d h)
    with assms(1) set show ?thesis by (auto simp: vault_prerequisites_def vault_required_def split: if_splits bool.split)
  qed (use assms set in \<open>auto simp: aws_prerequisites_def gcp_prerequisites_def tailscale_from_env_def\<close>)
qed


subsection \<open>The duration, the hash and the checks of a configuration\<close>

fun lease_duration :: "lease_backend \<Rightarrow> string option" where
  "lease_duration (AwsSts _ _ _ _ d) = d"
| "lease_duration (GcpIam _ _ _ d) = d"
| "lease_duration (Vault _ _ _ _ _ _ d _) = d"
| "lease_duration (AzureToken _ _ d _ _) = d"
| "lease_duration (Cloudflare _ _ _ _ d) = d"
| "lease_duration (GithubApp _ _ _ _ _ _ _ d) = d"
| "lease_duration (GithubOauth _ _ _ _ _ _ _ _ d) = d"
| "lease_duration (Gitlab _ _ _ _ _ _ d) = d"
| "lease_duration (Kubernetes _ _ _ _ _ _ d) = d"
| "lease_duration (Oauth2ClientCredentials _ _ _ _ _ _ _ _ d) = d"
| "lease_duration (Tailscale _ _ _ _ _ _ _ d) = d"
| "lease_duration (Command _ _ d _) = d"

text \<open>What the backends use of other libraries: the JSON object of a configuration and its text
  (\<open>serde_json\<close>), BLAKE3, the URL parser of \<open>reqwest\<close> (scheme and host) and the loopback
  test of \<open>std::net::IpAddr\<close>.\<close>

record backend_library =
  bl_fields :: "lease_backend \<Rightarrow> (string \<times> string) list"
  bl_to_string :: "(string \<times> string) list \<Rightarrow> string"
  bl_blake3_hex :: "string \<Rightarrow> string"
  bl_url :: "string \<Rightarrow> (string \<times> string option) option"
  bl_loopback_ip :: "string \<Rightarrow> bool"

definition config_hash :: "backend_library \<Rightarrow> lease_backend \<Rightarrow> string" where
  "config_hash L lb =
     take 16 (bl_blake3_hex L (bl_to_string L
       (filter (\<lambda>(k, _). k \<noteq> ''duration'' \<and> k \<noteq> ''timeout'') (bl_fields L lb))))"

definition trim_brackets :: "string \<Rightarrow> string" where
  "trim_brackets s =
     (let b = (\<lambda>c. c = CHR ''['' \<or> c = CHR '']'') in rev (dropWhile b (rev (dropWhile b s))))"

definition require_secure_url :: "backend_library \<Rightarrow> string \<Rightarrow> string \<Rightarrow> fnox_error + unit" where
  "require_secure_url L field url =
     (case bl_url L url of
        None \<Rightarrow> Inl (ConfigError (UrlInvalid field url))
      | Some (scheme, host) \<Rightarrow>
          let host = trim_brackets (case host of Some h \<Rightarrow> h | None \<Rightarrow> []);
              is_loopback = (map ascii_lower host = ''localhost'' \<or> bl_loopback_ip L host)
          in if scheme = ''https'' \<or> (scheme = ''http'' \<and> is_loopback) then Inr ()
             else Inl (ConfigError (UrlInsecure field url)))"

definition check_vault :: "machine \<Rightarrow> string option \<Rightarrow> string option \<Rightarrow> string option \<Rightarrow> (string, string) imap \<Rightarrow> fnox_error + unit" where
  "check_vault m addr tok cmd env_map =
     (let addr = (case addr of Some a \<Rightarrow> Some a | None \<Rightarrow>
            (case mc_env m ''FNOX_VAULT_ADDR'' of Some a \<Rightarrow> Some a | None \<Rightarrow> mc_env m ''VAULT_ADDR''));
          tok = (case tok of Some t \<Rightarrow> Some t | None \<Rightarrow>
            (case mc_env m ''FNOX_VAULT_TOKEN'' of Some t \<Rightarrow> Some t | None \<Rightarrow> mc_env m ''VAULT_TOKEN''))
      in if addr = None then Inl (ConfigError (BackendMessage ''Vault address not configured.''))
         else if tok = None \<and> cmd = None
         then Inl (ProviderAuthFailed ''Vault'' ''VAULT_TOKEN not set''
                ''Set 'token' in lease config, VAULT_TOKEN env var, or credential_command'' ''https://fnox.jdx.dev/leases/vault'')
         else if env_map = [] then Inl (ConfigError (BackendMessage ''Vault backend: 'env_map' must contain at least one entry''))
         else Inr ())"

definition check_azure :: "string option \<Rightarrow> string option \<Rightarrow> fnox_error + unit" where
  "check_azure a client =
     (if client = Some [] then Inl (ConfigError (BackendMessage ''managed_identity_client_id must not be empty''))
      else case azure_from_config a client of
             Inl msg \<Rightarrow> Inl (ConfigError (BackendMessage msg))
           | Inr _ \<Rightarrow> Inr ())"

definition access_level_value :: "string \<Rightarrow> fnox_error + nat" where
  "access_level_value name =
     (case map_of [(''guest'', 10), (''reporter'', 20), (''developer'', 30), (''maintainer'', 40), (''owner'', 50)] name of
        Some n \<Rightarrow> Inr n
      | None \<Rightarrow> Inl (ConfigError (BackendMessage (''GitLab backend: invalid access_level '' @ name))))"

definition trim_slashes :: "string \<Rightarrow> string" where
  "trim_slashes s = rev (dropWhile (\<lambda>c. c = CHR ''/'') (rev s))"

definition check_gitlab ::
  "backend_library \<Rightarrow> string option \<Rightarrow> string option \<Rightarrow> string option \<Rightarrow> string list \<Rightarrow> string \<Rightarrow> fnox_error + unit" where
  "check_gitlab L url project grp scopes access_level =
     (if (project = None) = (grp = None)
      then Inl (ConfigError (BackendMessage ''GitLab backend: set exactly one of 'project' or 'group'.''))
      else if scopes = [] then Inl (ConfigError (BackendMessage ''GitLab backend: 'scopes' must contain at least one scope.''))
      else let base = trim_slashes (case url of Some u \<Rightarrow> u | None \<Rightarrow> ''https://gitlab.com'')
           in bind_sum (require_secure_url L ''url'' base) (\<lambda>_.
                bind_sum (access_level_value access_level) (\<lambda>_. Inr ())))"

definition check_oauth2 :: "backend_library \<Rightarrow> string \<Rightarrow> string option \<Rightarrow> fnox_error + unit" where
  "check_oauth2 L token_url revocation_url =
     bind_sum (require_secure_url L ''token_url'' token_url) (\<lambda>_.
       case revocation_url of Some u \<Rightarrow> require_secure_url L ''revocation_url'' u | None \<Rightarrow> Inr ())"

definition check_tailscale :: "backend_library \<Rightarrow> string option \<Rightarrow> fnox_error + unit" where
  "check_tailscale L api_base =
     require_secure_url L ''api_base''
       (trim_slashes (case api_base of Some b \<Rightarrow> b | None \<Rightarrow> ''https://api.tailscale.com''))"

end
