(* ===== verification/LeaseResolve.thy ===== *)
theory LeaseResolve
  imports LeaseLedger LeaseBackend Resolver
begin

text \<open>
  Leases for a run (\<open>crates/fnox-core/src/lease.rs\<close>): the encryption provider of the cache,
  encrypting and decrypting credentials, and \<open>resolve_lease\<close>, which reuses a cached lease or
  creates and records a new one. The state is the state of the resolver with the ledger file beside it.
  Creating a lease talks to a service and is a parameter, as are the lock and the file system.
\<close>

record lease =
  le_credentials :: "(string, string) imap"
  le_expires_at :: "int option"
  le_lease_id :: string

text \<open>\<open>lc_lock\<close> and \<open>lc_save\<close> say whether the ledger can be locked and loaded, and saved;
  \<open>lc_now\<close> is the clock, \<open>lc_max_utc\<close> the largest time stamp of \<open>chrono\<close>.
  \<open>lc_others\<close> is what other processes do to the ledger between the two critical sections of
  \<open>resolve_lease\<close>, while no lock is held.\<close>

record 'w lease_services =
  lc_library :: backend_library
  lc_machine :: "'w rstate \<Rightarrow> machine"
  lc_create :: "lease_backend \<Rightarrow> 64 word \<Rightarrow> string \<Rightarrow> ('w, lease) effect"
  lc_now :: int
  lc_max_utc :: int
  lc_lock :: bool
  lc_save :: bool
  lc_others :: "ledger \<Rightarrow> ledger"

record 'w lstate =
  ls_run :: "'w rstate"
  ls_ledger :: ledger

type_synonym ('w, 'a) lease_effect = "('w lstate, fnox_error, 'a) comp"

definition on_run :: "('w, 'a) effect \<Rightarrow> ('w, 'a) lease_effect" where
  "on_run m = (\<lambda>s. case m (ls_run s) of (r, run) \<Rightarrow> (r, s\<lparr>ls_run := run\<rparr>))"

subsection \<open>Instances of the backends\<close>

fun create_backend :: "backend_library \<Rightarrow> machine \<Rightarrow> lease_backend \<Rightarrow> fnox_error + unit" where
  \<comment> \<open>the checks of the constructors; the instance holds the fields of its configuration\<close>
  "create_backend L m (AwsSts _ _ _ _ _) = Inr ()"
| "create_backend L m (GcpIam _ _ _ _) = Inr ()"
| "create_backend L m (Vault a t c _ _ e _ _) = check_vault m a t c e"
| "create_backend L m (AzureToken _ _ _ a c) = check_azure a c"
| "create_backend L m (Cloudflare tt acc _ _ _) =
     (if tt = AccountToken \<and> acc = None
      then Inl (ConfigError (BackendMessage ''Cloudflare backend: 'account_id' is required when token_type is 'account'.''))
      else Inr ())"
| "create_backend L m (GithubApp _ _ _ _ _ _ _ _) = Inr ()"
| "create_backend L m (GithubOauth _ _ _ _ _ _ _ _ _) = Inr ()"
| "create_backend L m (Gitlab url project grp scopes access_level _ _) = check_gitlab L url project grp scopes access_level"
| "create_backend L m (Kubernetes _ _ _ _ _ _ _) = Inr ()"
| "create_backend L m (Oauth2ClientCredentials u _ _ _ _ _ _ r _) = check_oauth2 L u r"
| "create_backend L m (Tailscale _ b _ _ _ _ _ _) = check_tailscale L b"
| "create_backend L m (Command _ _ _ t) = bind_sum (parse_duration t) (\<lambda>_. Inr ())"

subsection \<open>The encryption of cached credentials\<close>

datatype 'w encryption_provider_result =
    NotConfigured
  | Available string "'w provider"
  | Unavailable string fnox_error

definition find_encryption_provider ::
  "('p, 'w) services \<Rightarrow> ('p, 'l) config \<Rightarrow> string list \<Rightarrow> ('w, 'w encryption_provider_result) effect" where
  "find_encryption_provider S c ps =
     (case get_default_provider (sv_sources S) c ps of
        Inl _ \<Rightarrow> ok NotConfigured
      | Inr None \<Rightarrow> ok NotConfigured
      | Inr (Some name) \<Rightarrow>
          (case get_providers c ps of
             Inl e \<Rightarrow> ok (Unavailable name e)
           | Inr providers \<Rightarrow>
               (case im_get providers name of
                  None \<Rightarrow> ok NotConfigured
                | Some pc \<Rightarrow>
                    andThen (attempt (sv_open S ps name pc)) (\<lambda>opened.
                      case opened of
                        Inl e \<Rightarrow> ok (Unavailable name e)
                      | Inr provider \<Rightarrow>
                          if pv_encryption provider then ok (Available name provider) else ok NotConfigured))))"

definition encrypt_credentials :: "'w provider \<Rightarrow> (string, string) imap \<Rightarrow> ('w, (string, string) imap) effect" where
  "encrypt_credentials provider credentials =
     foldM (\<lambda>encrypted (key, v). andThen (pv_encrypt provider v) (\<lambda>enc. ok (im_insert key enc encrypted)))
       [] credentials"

definition decrypt_credentials :: "'w provider \<Rightarrow> (string, string) imap \<Rightarrow> ('w, (string, string) imap) effect" where
  "decrypt_credentials provider cached =
     foldM (\<lambda>decrypted (key, v). andThen (pv_get_secret provider v) (\<lambda>dec. ok (im_insert key dec decrypted)))
       [] cached"

definition cache_credentials ::
  "('p, 'w) services \<Rightarrow> ('p, 'l) config \<Rightarrow> string list \<Rightarrow> (string, string) imap \<Rightarrow>
   ('w, (string, string) imap option \<times> string option) effect" where
  "cache_credentials S c ps credentials =
     andThen (find_encryption_provider S c ps) (\<lambda>found.
       case found of
         Available name provider \<Rightarrow>
           andThen (attempt (encrypt_credentials provider credentials)) (\<lambda>r.
             case r of
               Inr encrypted \<Rightarrow> ok (Some encrypted, Some name)
             | Inl _ \<Rightarrow> ok (None, None))
       | Unavailable _ _ \<Rightarrow> ok (None, None)
       | NotConfigured \<Rightarrow> ok (Some credentials, None))"

definition try_decrypt_cached ::
  "('p, 'w) services \<Rightarrow> ('p, 'l) config \<Rightarrow> string list \<Rightarrow> string \<Rightarrow> (string, string) imap \<Rightarrow>
   ('w, (string, string) imap option) effect" where
  "try_decrypt_cached S c ps enc_provider_name cached_creds =
     andThen (find_encryption_provider S c ps) (\<lambda>found.
       case found of
         Available name provider \<Rightarrow>
           if name = enc_provider_name
           then andThen (attempt (decrypt_credentials provider cached_creds)) (\<lambda>r.
                  case r of Inr decrypted \<Rightarrow> ok (Some decrypted) | Inl _ \<Rightarrow> ok None)
           else ok None
       | _ \<Rightarrow> ok None)"

definition resolve_cached_entry ::
  "('p, 'w) services \<Rightarrow> ('p, 'l) config \<Rightarrow> string list \<Rightarrow> cached_entry \<Rightarrow> ('w, (string, string) imap option) effect" where
  "resolve_cached_entry S c ps entry =
     (case ce_encryption_provider entry of
        Some name \<Rightarrow> try_decrypt_cached S c ps name (ce_credentials entry)
      | None \<Rightarrow> ok (Some (ce_credentials entry)))"

subsection \<open>Creating and recording a lease\<close>

definition new_record :: "int \<Rightarrow> lease \<Rightarrow> string \<Rightarrow> string \<Rightarrow> string \<Rightarrow> (string, string) imap option \<Rightarrow> string option \<Rightarrow> lease_record" where
  "new_record now result backend_name label hash cached_credentials encryption_provider =
     \<lparr>lr_lease_id = le_lease_id result, lr_backend_name = backend_name, lr_label = label,
      lr_created_at = now, lr_expires_at = le_expires_at result, lr_revoked = False,
      lr_cached_credentials = cached_credentials, lr_encryption_provider = encryption_provider,
      lr_config_hash = Some hash\<rparr>"

definition record_lease :: "'w lease_services \<Rightarrow> lease_record \<Rightarrow> ledger \<Rightarrow> ledger" where
  \<comment> \<open>the file after \<open>add\<close> and \<open>save\<close>; a save that fails leaves it as it was\<close>
  "record_lease C r l = (if lc_save C then compact (lc_now C) (add r l) else l)"

definition cached_for_backend ::
  "('p, 'w) services \<Rightarrow> ('p, 'l) config \<Rightarrow> string list \<Rightarrow> lease_backend \<Rightarrow> lease \<Rightarrow>
   ('w, (string, string) imap option \<times> string option) effect" where
  "cached_for_backend S c ps lb result =
     (if cacheable lb then cache_credentials S c ps (le_credentials result) else ok (None, None))"

definition create_and_record_lease ::
  "('p, 'w) services \<Rightarrow> 'w lease_services \<Rightarrow> ('p, 'l) config \<Rightarrow> string list \<Rightarrow> lease_backend \<Rightarrow> string \<Rightarrow> string \<Rightarrow>
   64 word \<Rightarrow> string \<Rightarrow> ('w, lease) lease_effect" where
  \<comment> \<open>the caller holds the lock\<close>
  "create_and_record_lease S C c ps lb backend_name label duration hash =
     andThen (on_run (lc_create C lb duration label)) (\<lambda>result.
     andThen (on_run (cached_for_backend S c ps lb result)) (\<lambda>(cached, enc).
     andThen (modify (\<lambda>s. s\<lparr>ls_ledger :=
       record_lease C (new_record (lc_now C) result backend_name label hash cached enc) (ls_ledger s)\<rparr>)) (\<lambda>_.
       ok result)))"

definition DEFAULT_LEASE_DURATION :: string where
  "DEFAULT_LEASE_DURATION = ''15m''"

definition locked :: "'w lease_services \<Rightarrow> ('w, 'a) lease_effect \<Rightarrow> ('w, 'a) lease_effect" where
  \<comment> \<open>a critical section: lock the ledger and load it\<close>
  "locked C m = (if lc_lock C then m else err (ConfigError LedgerLockFailed))"

definition cached_lease ::
  "('p, 'w) services \<Rightarrow> 'w lease_services \<Rightarrow> ('p, 'l) config \<Rightarrow> string list \<Rightarrow> string \<Rightarrow> string \<Rightarrow>
   ('w, (string, string) imap option) lease_effect" where
  "cached_lease S C c ps name hash =
     andThen (locked C (andThen get_state (\<lambda>s. ok (find_cached_entry (lc_max_utc C) (lc_now C) (ls_ledger s) name hash)))) (\<lambda>entry.
       case entry of
         Some entry \<Rightarrow> on_run (resolve_cached_entry S c ps entry)
       | None \<Rightarrow> ok None)"

definition lease_span :: "string \<Rightarrow> lease_backend \<Rightarrow> fnox_error + 64 word" where
  "lease_span name lb =
     (let text = (case lease_duration lb of Some d \<Rightarrow> d | None \<Rightarrow> DEFAULT_LEASE_DURATION)
      in bind_sum (parse_duration text) (\<lambda>duration.
           if unat duration > max_lease_duration lb then Inl (ConfigError (LeaseDurationTooLong text name))
           else Inr duration))"

definition fresh_lease ::
  "('p, 'w) services \<Rightarrow> 'w lease_services \<Rightarrow> ('p, 'l) config \<Rightarrow> string list \<Rightarrow> string \<Rightarrow> lease_backend \<Rightarrow>
   string option \<Rightarrow> string \<Rightarrow> string \<Rightarrow> ('w, (string, string) imap) lease_effect" where
  "fresh_lease S C c ps name lb prereq_missing label_prefix hash =
     (case prereq_missing of
        Some missing \<Rightarrow> err (ConfigError (LeasePrerequisitesMissing name missing))
      | None \<Rightarrow>
          andThen get_state (\<lambda>s.
          andThen (lift_sum (create_backend (lc_library C) (lc_machine C (ls_run s)) lb)) (\<lambda>_.
          andThen (lift_sum (lease_span name lb)) (\<lambda>duration.
          let label = ''fnox-'' @ label_prefix @ ''-'' @ name
          in andThen (on_run (lc_create C lb duration label)) (\<lambda>result.
             andThen (on_run (cached_for_backend S c ps lb result)) (\<lambda>(cached, enc).
             andThen (modify (\<lambda>s. s\<lparr>ls_ledger := lc_others C (ls_ledger s)\<rparr>)) (\<lambda>_.
             andThen (locked C (modify (\<lambda>s. s\<lparr>ls_ledger :=
               record_lease C (new_record (lc_now C) result name label hash cached enc) (ls_ledger s)\<rparr>))) (\<lambda>_.
               ok (le_credentials result)))))))))"

definition resolve_lease ::
  "('p, 'w) services \<Rightarrow> 'w lease_services \<Rightarrow> ('p, 'l) config \<Rightarrow> string list \<Rightarrow> string \<Rightarrow> lease_backend \<Rightarrow>
   string option \<Rightarrow> string \<Rightarrow> bool \<Rightarrow> ('w, (string, string) imap) lease_effect" where
  "resolve_lease S C c ps name lb prereq_missing label_prefix skip_cache =
     (let hash = config_hash (lc_library C) lb
      in andThen (if skip_cache then ok None else cached_lease S C c ps name hash) (\<lambda>cached.
           case cached of
             Some creds \<Rightarrow> ok creds
           | None \<Rightarrow> fresh_lease S C c ps name lb prereq_missing label_prefix hash))"


subsection \<open>Secrets in the environment of a backend\<close>

definition set_secret_as_env ::
  "(string \<Rightarrow> string \<Rightarrow> fnox_error + string) \<Rightarrow> secrets \<Rightarrow> string list \<Rightarrow> string \<times> string option \<Rightarrow> ('w, string list) effect" where
  \<comment> \<open>the first argument writes a temporary file and gives its path; the list is the guard's\<close>
  "set_secret_as_env write_file secrets guard kv =
     (case kv of
        (key, None) \<Rightarrow> ok guard
      | (key, Some v) \<Rightarrow>
          andThen (lift_sum
            (case im_get secrets key of
               Some sc \<Rightarrow> if s_as_file sc then write_file key v else Inr v
             | None \<Rightarrow> Inr v)) (\<lambda>env_value.
          andThen (modify (\<lambda>s. s\<lparr>rs_env := im_insert key env_value (rs_env s)\<rparr>)) (\<lambda>_.
            ok (guard @ [key]))))"

definition set_secrets_as_env ::
  "(string \<Rightarrow> string \<Rightarrow> fnox_error + string) \<Rightarrow> vals \<Rightarrow> secrets \<Rightarrow> string list \<Rightarrow> ('w, string list) effect" where
  "set_secrets_as_env write_file resolved secrets guard = foldM (set_secret_as_env write_file secrets) guard resolved"

definition drop_env_guard :: "string list \<Rightarrow> 'w rstate \<Rightarrow> 'w rstate" where
  "drop_env_guard guard s = s\<lparr>rs_env := fold im_remove guard (rs_env s)\<rparr>"

definition backend_roots :: "('p, 'w) services \<Rightarrow> ('p, 'l) config \<Rightarrow> string list \<Rightarrow> lease_backend \<Rightarrow> fnox_error + string list" where
  "backend_roots S c ps lb =
     (case get_default_provider (sv_sources S) c ps of
        Inr (Some dp) \<Rightarrow>
          bind_sum (get_providers c ps) (\<lambda>providers.
            Inr (consumed_env_vars lb @
              (case im_get providers dp of Some pc \<Rightarrow> sv_env_dependencies S pc | None \<Rightarrow> [])))
      | _ \<Rightarrow> Inr (consumed_env_vars lb))"

definition backend_secrets :: "('p, 'w) services \<Rightarrow> ('p, 'l) config \<Rightarrow> string list \<Rightarrow> lease_backend \<Rightarrow> fnox_error + secrets" where
  \<comment> \<open>the secrets that are resolved for a backend\<close>
  "backend_secrets S c ps lb =
     bind_sum (get_secrets_with_no_defaults c ps (sv_no_defaults S)) (\<lambda>secrets.
       if has_known_inputs lb
       then bind_sum (backend_roots S c ps lb) (dependency_closure S c ps secrets)
       else Inr secrets)"

definition load_backend_secrets ::
  "('p, 'w) services \<Rightarrow> (string \<Rightarrow> string \<Rightarrow> fnox_error + string) \<Rightarrow> ('p, 'l) config \<Rightarrow> string list \<Rightarrow>
   lease_backend \<Rightarrow> string list \<Rightarrow> ('w, string list) effect" where
  "load_backend_secrets S write_file c ps lb guard =
     andThen (lift_sum (backend_secrets S c ps lb)) (\<lambda>needed.
       if needed = [] then ok guard
       else andThen (resolve_secrets_batch S c ps needed) (\<lambda>resolved.
              set_secrets_as_env write_file resolved needed guard))"

lemma set_secret_env:
  "set_secret_as_env write_file secrets guard (k, v) s = (Inr guard', s') \<Longrightarrow>
   set guard \<subseteq> set guard' \<and> (\<forall>j. j \<notin> set guard' \<longrightarrow> im_get (rs_env s') j = im_get (rs_env s) j)"
  by (cases v) (auto simp: set_secret_as_env_def andThen_Inr imap_simps)

lemma set_secrets_env:
  "set_secrets_as_env write_file resolved secrets guard s = (Inr guard', s') \<Longrightarrow>
   set guard \<subseteq> set guard' \<and> (\<forall>j. j \<notin> set guard' \<longrightarrow> im_get (rs_env s') j = im_get (rs_env s) j)"
proof (induction resolved arbitrary: guard s)
  case (Cons kv resolved)
  obtain k v where kv: "kv = (k, v)" by (cases kv)
  from Cons.prems obtain g s1 where one: "set_secret_as_env write_file secrets guard (k, v) s = (Inr g, s1)"
    and rest: "set_secrets_as_env write_file resolved secrets g s1 = (Inr guard', s')"
    by (auto simp: set_secrets_as_env_def kv andThen_Inr)
  from set_secret_env [OF one] Cons.IH [OF rest] show ?case by auto
qed (simp add: set_secrets_as_env_def)

lemma drop_guard_env:
  "im_get (rs_env (drop_env_guard guard s)) k = (if k \<in> set guard then None else im_get (rs_env s) k)"
proof -
  have "im_get (fold im_remove guard env) k = (if k \<in> set guard then None else im_get env k)"
    for env :: "(string, string) imap"
    by (induction guard arbitrary: env) (auto simp: imap_simps)
  then show ?thesis by (simp add: drop_env_guard_def)
qed

text \<open>The guard leaves every other variable alone, but removes a variable that was set before: it
  does not restore the value that the process inherited.\<close>

lemma guard_forgets_inherited_value:
  "let (r, s) = set_secrets_as_env write_file [(''AWS_PROFILE'', Some ''ci'')] [] []
        \<lparr>rs_env = [(''AWS_PROFILE'', ''mine'')], rs_world = ()\<rparr>
   in r = Inr [''AWS_PROFILE''] \<and> im_get (rs_env (drop_env_guard [''AWS_PROFILE''] s)) ''AWS_PROFILE'' = None"
  by (simp add: set_secrets_as_env_def set_secret_as_env_def andThen_def drop_guard_env)

subsection \<open>What a lease request returns\<close>

lemma on_run_simps [simp]:
  "on_run m s = (r, s') \<longleftrightarrow> (\<exists>run. m (ls_run s) = (r, run) \<and> s' = s\<lparr>ls_run := run\<rparr>)"
  by (auto simp: on_run_def split: prod.splits)

lemma locked_Inr [simp]: "locked C m s = (Inr a, s') \<longleftrightarrow> lc_lock C \<and> m s = (Inr a, s')"
  by (auto simp: locked_def)

lemma cached_lease_Inr:
  "cached_lease S C c ps name hash s = (Inr found, s') \<longleftrightarrow>
     lc_lock C \<and>
     (case find_cached_entry (lc_max_utc C) (lc_now C) (ls_ledger s) name hash of
        None \<Rightarrow> found = None \<and> s' = s
      | Some entry \<Rightarrow> \<exists>run. resolve_cached_entry S c ps entry (ls_run s) = (Inr found, run) \<and> s' = s\<lparr>ls_run := run\<rparr>)"
  by (auto simp: cached_lease_def andThen_Inr split: option.splits)

definition fresh_from ::
  "('p, 'w) services \<Rightarrow> 'w lease_services \<Rightarrow> ('p, 'l) config \<Rightarrow> string list \<Rightarrow> string \<Rightarrow> lease_backend \<Rightarrow> string \<Rightarrow>
   lease \<Rightarrow> 'w lstate \<Rightarrow> 'w lstate \<Rightarrow> bool" where
  \<comment> \<open>a lease created within the limit of its backend, and what the ledger holds after it\<close>
  "fresh_from S C c ps name lb label_prefix result s s' \<longleftrightarrow>
     (\<exists>duration run cached enc run'.
        lease_span name lb = Inr duration \<and> unat duration \<le> max_lease_duration lb \<and>
        lc_create C lb duration (''fnox-'' @ label_prefix @ ''-'' @ name) (ls_run s) = (Inr result, run) \<and>
        cached_for_backend S c ps lb result run = (Inr (cached, enc), run') \<and>
        (\<not> cacheable lb \<longrightarrow> cached = None) \<and>
        s' = s\<lparr>ls_run := run', ls_ledger :=
          record_lease C (new_record (lc_now C) result name (''fnox-'' @ label_prefix @ ''-'' @ name)
            (config_hash (lc_library C) lb) cached enc) (lc_others C (ls_ledger s))\<rparr>)"

lemma fresh_lease_Inr:
  "fresh_lease S C c ps name lb prereq label_prefix (config_hash (lc_library C) lb) s = (Inr creds, s') \<longleftrightarrow>
     prereq = None \<and> lc_lock C \<and>
     create_backend (lc_library C) (lc_machine C (ls_run s)) lb = Inr () \<and>
     (\<exists>result. creds = le_credentials result \<and> fresh_from S C c ps name lb label_prefix result s s')"
  (is "?l = ?r")
proof -
  have limit: "lease_span name lb = Inr d \<Longrightarrow> unat d \<le> max_lease_duration lb" for d
    by (auto simp: lease_span_def Let_def bind_sum_Inr not_less split: if_splits)
  have uncached: "cached_for_backend S c ps lb result run = (Inr (cached, enc), run') \<Longrightarrow> \<not> cacheable lb \<Longrightarrow> cached = None"
    for result run cached enc run' by (simp add: cached_for_backend_def)
  show ?thesis
    by (cases prereq)
      (auto simp: fresh_lease_def fresh_from_def andThen_Inr Let_def dest: limit uncached)
qed


lemma lease_outcome:
  assumes "resolve_lease S C c ps name lb prereq_missing label_prefix skip_cache s = (Inr creds, s')"
  shows "(\<not> skip_cache \<and> lc_lock C \<and>
      (\<exists>entry run. find_cached_entry (lc_max_utc C) (lc_now C) (ls_ledger s) name (config_hash (lc_library C) lb) = Some entry \<and>
         resolve_cached_entry S c ps entry (ls_run s) = (Inr (Some creds), run) \<and> s' = s\<lparr>ls_run := run\<rparr>)) \<or>
    (prereq_missing = None \<and> lc_lock C \<and>
      (\<exists>run result. (skip_cache \<and> run = ls_run s \<or>
           \<not> skip_cache \<and>
           (case find_cached_entry (lc_max_utc C) (lc_now C) (ls_ledger s) name (config_hash (lc_library C) lb) of
              None \<Rightarrow> run = ls_run s
            | Some entry \<Rightarrow> resolve_cached_entry S c ps entry (ls_run s) = (Inr None, run))) \<and>
         create_backend (lc_library C) (lc_machine C run) lb = Inr () \<and>
         creds = le_credentials result \<and> fresh_from S C c ps name lb label_prefix result (s\<lparr>ls_run := run\<rparr>) s'))"
proof (cases skip_cache)
  case True
  with assms have "fresh_lease S C c ps name lb prereq_missing label_prefix (config_hash (lc_library C) lb) s = (Inr creds, s')"
    by (simp add: resolve_lease_def Let_def andThen_def)
  moreover have "s\<lparr>ls_run := ls_run s\<rparr> = s" by simp
  ultimately show ?thesis unfolding fresh_lease_Inr using True by metis
next
  case False
  with assms obtain found s1 where first: "cached_lease S C c ps name (config_hash (lc_library C) lb) s = (Inr found, s1)"
    and rest: "(case found of Some creds \<Rightarrow> ok creds
      | None \<Rightarrow> fresh_lease S C c ps name lb prereq_missing label_prefix (config_hash (lc_library C) lb)) s1 = (Inr creds, s')"
    by (auto simp: resolve_lease_def Let_def andThen_Inr)
  show ?thesis
  proof (cases found)
    case None
    from first None obtain run where s1: "s1 = s\<lparr>ls_run := run\<rparr>"
      and run: "case find_cached_entry (lc_max_utc C) (lc_now C) (ls_ledger s) name (config_hash (lc_library C) lb) of
              None \<Rightarrow> run = ls_run s
            | Some entry \<Rightarrow> resolve_cached_entry S c ps entry (ls_run s) = (Inr None, run)"
      unfolding cached_lease_Inr
      by (cases "find_cached_entry (lc_max_utc C) (lc_now C) (ls_ledger s) name (config_hash (lc_library C) lb)") auto
    from None rest have "fresh_lease S C c ps name lb prereq_missing label_prefix (config_hash (lc_library C) lb) s1 = (Inr creds, s')"
      by simp
    then show ?thesis unfolding fresh_lease_Inr s1 using False run by auto
  next
    case (Some found_creds)
    with first rest False show ?thesis
      unfolding cached_lease_Inr by (auto split: option.splits)
  qed
qed

definition reused_lease ::
  "('p, 'w) services \<Rightarrow> 'w lease_services \<Rightarrow> ('p, 'l) config \<Rightarrow> string list \<Rightarrow> string \<Rightarrow> string \<Rightarrow> 'w lstate \<Rightarrow>
   (string, string) imap \<Rightarrow> 'w rstate \<Rightarrow> bool" where
  \<comment> \<open>the credentials of a usable lease of the ledger that no other usable one outlives, decrypted by the provider
    that encrypted them\<close>
  "reused_lease S C c ps name hash s creds run' \<longleftrightarrow>
     (\<exists>r \<in> set (ls_ledger s).
        usable_lease (lc_now C) name hash r \<and>
        list_all (\<lambda>r'. expiry_key (lc_max_utc C) r' \<le> expiry_key (lc_max_utc C) r)
          (filter (usable_lease (lc_now C) name hash) (ls_ledger s)) \<and>
        (case lr_encryption_provider r of
           None \<Rightarrow> lr_cached_credentials r = Some creds \<and> run' = ls_run s
         | Some n \<Rightarrow>
             \<exists>P encrypted run. lr_cached_credentials r = Some encrypted \<and>
               find_encryption_provider S c ps (ls_run s) = (Inr (Available n P), run) \<and>
               decrypt_credentials P encrypted run = (Inr creds, run')))"

definition kept_credentials ::
  "('p, 'w) services \<Rightarrow> ('p, 'l) config \<Rightarrow> string list \<Rightarrow> (string, string) imap \<Rightarrow> 'w rstate \<Rightarrow>
   (string, string) imap option \<Rightarrow> string option \<Rightarrow> bool" where
  \<comment> \<open>what may be written to the ledger: nothing, what an encryption provider encrypted, or the credentials as
    they are where no such provider is configured\<close>
  "kept_credentials S c ps creds run cached enc \<longleftrightarrow>
     (case cached of
        None \<Rightarrow> enc = None
      | Some written \<Rightarrow>
          (case enc of
             Some n \<Rightarrow> \<exists>P run1 run2. find_encryption_provider S c ps run = (Inr (Available n P), run1) \<and>
               encrypt_credentials P creds run1 = (Inr written, run2)
           | None \<Rightarrow> written = creds \<and> (\<exists>run1. find_encryption_provider S c ps run = (Inr NotConfigured, run1))))"

definition issued_lease ::
  "('p, 'w) services \<Rightarrow> 'w lease_services \<Rightarrow> ('p, 'l) config \<Rightarrow> string list \<Rightarrow> string \<Rightarrow> lease_backend \<Rightarrow> string \<Rightarrow>
   lease \<Rightarrow> 'w rstate \<Rightarrow> ledger \<Rightarrow> ledger \<Rightarrow> bool" where
  \<comment> \<open>a lease created within the limit of its backend and recorded behind what the ledger holds by then, without
    the records that ended more than a day ago; a ledger that cannot be saved stays as it is\<close>
  "issued_lease S C c ps name lb label_prefix result run l l' \<longleftrightarrow>
     (\<exists>duration run' r.
        parse_duration (case lease_duration lb of Some d \<Rightarrow> d | None \<Rightarrow> ''15m'') = Inr duration \<and>
        unat duration \<le> max_lease_duration lb \<and>
        lc_create C lb duration (''fnox-'' @ label_prefix @ ''-'' @ name) run = (Inr result, run') \<and>
        lr_lease_id r = le_lease_id result \<and> lr_backend_name r = name \<and>
        lr_label r = ''fnox-'' @ label_prefix @ ''-'' @ name \<and> lr_created_at r = lc_now C \<and>
        lr_expires_at r = le_expires_at result \<and> \<not> lr_revoked r \<and>
        lr_config_hash r = Some (config_hash (lc_library C) lb) \<and>
        kept_credentials S c ps (le_credentials result) run' (lr_cached_credentials r) (lr_encryption_provider r) \<and>
        (cacheable lb \<or> lr_cached_credentials r = None) \<and>
        l' = (if lc_save C
              then filter (\<lambda>r. lc_now C - 24 * 60 * 60 * 1000000000 <
                     (case lr_expires_at r of Some e \<Rightarrow> e | None \<Rightarrow> lr_created_at r)) (l @ [r])
              else l))"

lemma found_entry_is_reused:
  assumes "find_cached_entry (lc_max_utc C) (lc_now C) (ls_ledger s) name hash = Some entry"
    and "resolve_cached_entry S c ps entry (ls_run s) = (Inr (Some creds), run)"
  shows "reused_lease S C c ps name hash s creds run"
proof -
  from cached_lease_is_valid [where max_utc = "lc_max_utc C" and now = "lc_now C" and l = "ls_ledger s" and name = name and config_hash = hash] assms(1)
  obtain r where r: "r \<in> set (ls_ledger s)" "usable_lease (lc_now C) name hash r"
    "list_all (\<lambda>r'. expiry_key (lc_max_utc C) r' \<le> expiry_key (lc_max_utc C) r)
      (filter (usable_lease (lc_now C) name hash) (ls_ledger s))"
    and entry: "lr_cached_credentials r = Some (ce_credentials entry)" "lr_encryption_provider r = ce_encryption_provider entry"
    by auto
  have "case lr_encryption_provider r of
       None \<Rightarrow> lr_cached_credentials r = Some creds \<and> run = ls_run s
     | Some n \<Rightarrow> \<exists>P encrypted run'. lr_cached_credentials r = Some encrypted \<and>
         find_encryption_provider S c ps (ls_run s) = (Inr (Available n P), run') \<and>
         decrypt_credentials P encrypted run' = (Inr creds, run)"
  proof (cases "ce_encryption_provider entry")
    case None
    with assms(2) entry show ?thesis by (simp add: resolve_cached_entry_def)
  next
    case (Some n)
    with assms(2) have "try_decrypt_cached S c ps n (ce_credentials entry) (ls_run s) = (Inr (Some creds), run)"
      by (simp add: resolve_cached_entry_def)
    then obtain found run1 where found: "find_encryption_provider S c ps (ls_run s) = (Inr found, run1)"
      and rest: "(case found of
          Available name provider \<Rightarrow>
            if name = n
            then andThen (attempt (decrypt_credentials provider (ce_credentials entry))) (\<lambda>r.
                   case r of Inr decrypted \<Rightarrow> ok (Some decrypted) | Inl _ \<Rightarrow> ok None)
            else ok None
        | _ \<Rightarrow> ok None) run1 = (Inr (Some creds), run)"
      unfolding try_decrypt_cached_def andThen_Inr by blast
    show ?thesis
    proof (cases found)
      case NotConfigured
      with rest show ?thesis by simp
    next
      case (Unavailable m e)
      with rest show ?thesis by simp
    next
      case (Available m P)
      obtain d run2 where d: "decrypt_credentials P (ce_credentials entry) run1 = (d, run2)" by fastforce
      from rest Available have "m = n" by (auto split: if_splits)
      with rest Available d have "d = Inr creds \<and> run2 = run" by (cases d) (auto simp: andThen_def attempt_def)
      with found Available \<open>m = n\<close> d entry Some show ?thesis by auto
    qed
  qed
  with r show ?thesis unfolding reused_lease_def by blast
qed

lemma kept_for_backend:
  assumes "cached_for_backend S c ps lb result run = (Inr (cached, enc), run')"
  shows "kept_credentials S c ps (le_credentials result) run cached enc \<and> (cacheable lb \<or> cached = None)"
proof (cases "cacheable lb")
  case True
  with assms obtain found run1 where found: "find_encryption_provider S c ps run = (Inr found, run1)"
    and rest: "(case found of
         Available name provider \<Rightarrow>
           andThen (attempt (encrypt_credentials provider (le_credentials result))) (\<lambda>r.
             case r of
               Inr encrypted \<Rightarrow> ok (Some encrypted, Some name)
             | Inl _ \<Rightarrow> ok (None, None))
       | Unavailable _ _ \<Rightarrow> ok (None, None)
       | NotConfigured \<Rightarrow> ok (Some (le_credentials result), None)) run1 = (Inr (cached, enc), run')"
    by (auto simp: cached_for_backend_def cache_credentials_def andThen_Inr)
  show ?thesis
  proof (cases found)
    case NotConfigured
    with found rest True show ?thesis by (auto simp: kept_credentials_def)
  next
    case (Available n P)
    obtain r run2 where "encrypt_credentials P (le_credentials result) run1 = (r, run2)" by fastforce
    with found rest True Available show ?thesis
      by (cases r) (auto simp: kept_credentials_def andThen_def attempt_def)
  next
    case (Unavailable n e)
    with rest True show ?thesis by (auto simp: kept_credentials_def)
  qed
next
  case False
  with assms show ?thesis by (auto simp: cached_for_backend_def kept_credentials_def)
qed

lemma fresh_lease_is_issued:
  assumes "fresh_from S C c ps name lb label_prefix result s s'"
  shows "issued_lease S C c ps name lb label_prefix result (ls_run s) (lc_others C (ls_ledger s)) (ls_ledger s')"
proof -
  let ?label = "''fnox-'' @ label_prefix @ ''-'' @ name"
  from assms obtain duration run cached enc run' where span: "lease_span name lb = Inr duration"
    and made: "unat duration \<le> max_lease_duration lb" "lc_create C lb duration ?label (ls_run s) = (Inr result, run)"
    and kept: "cached_for_backend S c ps lb result run = (Inr (cached, enc), run')"
    and led: "ls_ledger s' = record_lease C (new_record (lc_now C) result name ?label (config_hash (lc_library C) lb) cached enc)
      (lc_others C (ls_ledger s))"
    unfolding fresh_from_def by (fastforce simp del: append_Cons append.simps)
  from span have "parse_duration (case lease_duration lb of Some d \<Rightarrow> d | None \<Rightarrow> ''15m'') = Inr duration"
    unfolding lease_span_def DEFAULT_LEASE_DURATION_def Let_def bind_sum_Inr by (auto split: if_splits simp del: option.case_distrib)
  moreover have "ls_ledger s' = (if lc_save C
      then filter (\<lambda>r. lc_now C - 24 * 60 * 60 * 1000000000 <
             (case lr_expires_at r of Some e \<Rightarrow> e | None \<Rightarrow> lr_created_at r))
             (lc_others C (ls_ledger s) @ [new_record (lc_now C) result name ?label (config_hash (lc_library C) lb) cached enc])
      else lc_others C (ls_ledger s))"
    unfolding led record_lease_def compact_kept add_def kept_until_def day_def seconds_def by simp
  ultimately show ?thesis
    unfolding issued_lease_def
    using made kept_for_backend [OF kept]
    by (intro exI [of _ duration] exI [of _ run]
        exI [of _ "new_record (lc_now C) result name ?label (config_hash (lc_library C) lb) cached enc"])
      (simp add: new_record_def)
qed


subsection \<open>Reusing a lease\<close>

definition recovers :: "'w provider \<Rightarrow> bool" where
  \<comment> \<open>what an encryption provider promises: reading back what it encrypted\<close>
  "recovers P \<longleftrightarrow>
     (\<forall>v s. \<exists>e s'. pv_encrypt P v s = (Inr e, s') \<and> (\<forall>t. \<exists>t'. pv_get_secret P e t = (Inr v, t')))"

lemma foldM_append:
  "foldM f b (xs @ ys) = andThen (foldM f b xs) (\<lambda>b. foldM f b ys)"
  by (induction xs arbitrary: b) (auto simp: andThen_def fun_eq_iff split: prod.splits sum.splits)

lemma decrypt_encrypted:
  assumes "recovers P" and "im_wf creds"
  shows "\<exists>enc s'. encrypt_credentials P creds s = (Inr enc, s') \<and>
    (\<forall>t. \<exists>t'. decrypt_credentials P enc t = (Inr creds, t')) \<and> im_keys enc = im_keys creds"
  using assms(2)
proof (induction creds arbitrary: s rule: rev_induct)
  case Nil
  show ?case by (simp add: encrypt_credentials_def decrypt_credentials_def)
next
  case (snoc kv creds)
  obtain k v where kv: "kv = (k, v)" by (cases kv)
  from snoc.prems kv have wf: "im_wf creds" and new: "\<not> im_has creds k"
    by (auto simp: im_wf_def im_has_def im_keys_def)
  from snoc.IH [OF wf, of s] obtain enc s1 where enc: "encrypt_credentials P creds s = (Inr enc, s1)"
    and dec: "\<forall>t. \<exists>t'. decrypt_credentials P enc t = (Inr creds, t')" and keys: "im_keys enc = im_keys creds" by blast
  from assms(1) obtain e s2 where e: "pv_encrypt P v s1 = (Inr e, s2)"
    and v: "\<forall>t. \<exists>t'. pv_get_secret P e t = (Inr v, t')" unfolding recovers_def by blast
  from new keys have "\<not> im_has enc k" by (simp add: im_has_def)
  then have ins: "im_insert k e enc = enc @ [(k, e)]" by (rule im_insert_new)
  have "encrypt_credentials P (creds @ [kv]) s = (Inr (enc @ [(k, e)]), s2)"
    using enc e by (simp add: encrypt_credentials_def foldM_append andThen_def kv ins)
  moreover have "\<exists>t'. decrypt_credentials P (enc @ [(k, e)]) t = (Inr (creds @ [kv]), t')" for t
  proof -
    from dec obtain t1 where "decrypt_credentials P enc t = (Inr creds, t1)" by blast
    moreover from v obtain t2 where "pv_get_secret P e t1 = (Inr v, t2)" by blast
    ultimately show ?thesis
      by (simp add: decrypt_credentials_def foldM_append andThen_def kv im_insert_new [OF new])
  qed
  moreover have "im_keys (enc @ [(k, e)]) = im_keys (creds @ [kv])"
    using keys by (simp add: im_keys_def kv)
  ultimately show ?case by blast
qed


definition cache_works :: "('p, 'w) services \<Rightarrow> ('p, 'l) config \<Rightarrow> string list \<Rightarrow> bool" where
  \<comment> \<open>the search for an encryption provider always ends the same way, with one that works or with none\<close>
  "cache_works S c ps \<longleftrightarrow>
     (\<exists>res. (\<forall>s. \<exists>s'. find_encryption_provider S c ps s = (Inr res, s')) \<and>
        (case res of NotConfigured \<Rightarrow> True | Available _ P \<Rightarrow> recovers P | Unavailable _ _ \<Rightarrow> False))"

lemma cached_credentials_are_read_back:
  assumes "cache_works S c ps" and "im_wf creds"
  shows "\<exists>enc_creds enc s'. cache_credentials S c ps creds s = (Inr (Some enc_creds, enc), s') \<and>
    (\<forall>t i. \<exists>t'. resolve_cached_entry S c ps
       \<lparr>ce_credentials = enc_creds, ce_encryption_provider = enc, ce_lease_id = i\<rparr> t = (Inr (Some creds), t'))"
proof -
  from assms(1) obtain res where find: "\<And>s. \<exists>s'. find_encryption_provider S c ps s = (Inr res, s')"
    and res: "case res of NotConfigured \<Rightarrow> True | Available _ P \<Rightarrow> recovers P | Unavailable _ _ \<Rightarrow> False"
    by (auto simp: cache_works_def)
  from find [of s] obtain s1 where s1: "find_encryption_provider S c ps s = (Inr res, s1)" by blast
  show ?thesis
  proof (cases res)
    case NotConfigured
    with s1 show ?thesis by (auto simp: cache_credentials_def resolve_cached_entry_def andThen_def)
  next
    case (Available n P)
    with res have "recovers P" by simp
    from decrypt_encrypted [OF this assms(2), of s1] obtain enc s2
      where enc: "encrypt_credentials P creds s1 = (Inr enc, s2)"
        and dec: "\<And>t. \<exists>t'. decrypt_credentials P enc t = (Inr creds, t')" by blast
    have "\<exists>t'. try_decrypt_cached S c ps n enc t = (Inr (Some creds), t')" for t
    proof -
      from find [of t] obtain t1 where "find_encryption_provider S c ps t = (Inr res, t1)" by blast
      moreover from dec [of t1] obtain t2 where "decrypt_credentials P enc t1 = (Inr creds, t2)" by blast
      ultimately show ?thesis by (simp add: try_decrypt_cached_def andThen_def attempt_def Available)
    qed
    moreover have "cache_credentials S c ps creds s = (Inr (Some enc, Some n), s2)"
      using s1 enc by (simp add: cache_credentials_def andThen_def attempt_def Available)
    ultimately show ?thesis by (fastforce simp: resolve_cached_entry_def)
  qed (use res in simp)
qed

lemma new_record_is_found:
  assumes "find_cached_entry max_utc now' l name hash = None"
    and "now \<le> now'" and "\<And>e. le_expires_at result = Some e \<Longrightarrow> e - seconds LEASE_REUSE_BUFFER_SECS > now'"
  shows "find_cached_entry max_utc now' (compact now (add (new_record now result name label hash (Some enc_creds) enc) l)) name hash =
    Some \<lparr>ce_credentials = enc_creds, ce_encryption_provider = enc, ce_lease_id = le_lease_id result\<rparr>"
proof -
  let ?r = "new_record now result name label hash (Some enc_creds) enc"
  let ?P = "\<lambda>r. lr_backend_name r = name \<and> is_reusable now' r \<and>
    (case lr_config_hash r of None \<Rightarrow> True | Some h \<Rightarrow> h = hash)"
  have "find_reusable max_utc now' name hash l = None"
  proof (rule ccontr)
    assume "find_reusable max_utc now' name hash l \<noteq> None"
    then obtain r where r: "find_reusable max_utc now' name hash l = Some r" by blast
    then have "lr_cached_credentials r \<noteq> None"
      by (auto simp: find_reusable_def is_reusable_def dest!: max_by_key_Some split: if_splits)
    with r assms(1) show False by (auto simp: find_cached_entry_def)
  qed
  then have none: "filter ?P l = []" by (simp add: find_reusable_def)
  have pos: "seconds LEASE_REUSE_BUFFER_SECS > 0" "day > 0"
    by (simp_all add: seconds_def LEASE_REUSE_BUFFER_SECS_def day_def)
  have "?P ?r" using assms(3) by (auto simp: new_record_def is_reusable_def split: option.split)
  moreover have "kept_until ?r > now - day"
    using assms(2,3) pos by (fastforce simp: kept_until_def new_record_def split: option.split)
  moreover have "filter ?P (filter (\<lambda>r. kept_until r > now - day) l) = []"
    using none by (auto simp: filter_empty_conv)
  ultimately have "filter ?P (compact now (add ?r l)) = [?r]"
    by (simp add: compact_kept add_def)
  then show ?thesis by (simp add: find_cached_entry_def find_reusable_def) (simp add: new_record_def)
qed

text \<open>A recorded lease is reused. Where the encryption provider, if any, reads back what it
  encrypted, the credentials that a run got from a new lease are what every later run gets from the
  ledger while the lease stays valid for five minutes, also when the prerequisites of its backend are
  gone: no second lease is created, and the ledger stays as it is.\<close>

lemma recorded_lease_is_reused:
  assumes "resolve_lease S C c ps name lb prereq_missing label_prefix True s = (Inr creds, s')"
    and "cacheable lb" and "lc_save C" and "cache_works S c ps"
    and "\<And>d l run result run'. lc_create C lb d l run = (Inr result, run') \<Longrightarrow> im_wf (le_credentials result) \<and>
      (case le_expires_at result of None \<Rightarrow> True | Some e \<Rightarrow> e - seconds LEASE_REUSE_BUFFER_SECS > lc_now C')"
    and "lc_library C' = lc_library C" and "lc_lock C'" and "lc_now C \<le> lc_now C'"
    and "find_cached_entry (lc_max_utc C') (lc_now C') (lc_others C (ls_ledger s)) name (config_hash (lc_library C) lb) = None"
    and "ls_ledger t = ls_ledger s'"
  shows "\<exists>t'. resolve_lease S C' c ps name lb prereq_missing' label_prefix' False t = (Inr creds, t') \<and> ls_ledger t' = ls_ledger t"
proof -
  let ?hash = "config_hash (lc_library C) lb"
  from assms(1) have "fresh_lease S C c ps name lb prereq_missing label_prefix ?hash s = (Inr creds, s')"
    by (simp add: resolve_lease_def Let_def andThen_def)
  then obtain result where creds: "creds = le_credentials result"
    and fresh: "fresh_from S C c ps name lb label_prefix result s s'" unfolding fresh_lease_Inr by blast
  from fresh obtain d run cached enc run' label where made: "lc_create C lb d label (ls_run s) = (Inr result, run)"
    and kept: "cached_for_backend S c ps lb result run = (Inr (cached, enc), run')"
    and led: "ls_ledger s' = record_lease C (new_record (lc_now C) result name label ?hash cached enc) (lc_others C (ls_ledger s))"
    unfolding fresh_from_def by (fastforce simp del: append_Cons append.simps)
  from assms(5) [OF made] creds have wf: "im_wf creds"
    and valid: "le_expires_at result = Some e \<Longrightarrow> e - seconds LEASE_REUSE_BUFFER_SECS > lc_now C'" for e by auto
  from cached_credentials_are_read_back [OF assms(4) wf, of run] kept assms(2) creds obtain enc_creds
    where c: "cached = Some enc_creds"
      and read_back: "\<And>t i. \<exists>t'. resolve_cached_entry S c ps
        \<lparr>ce_credentials = enc_creds, ce_encryption_provider = enc, ce_lease_id = i\<rparr> t = (Inr (Some creds), t')"
    by (auto simp: cached_for_backend_def)
  have "find_cached_entry (lc_max_utc C') (lc_now C') (ls_ledger t) name ?hash =
    Some \<lparr>ce_credentials = enc_creds, ce_encryption_provider = enc, ce_lease_id = le_lease_id result\<rparr>"
    using new_record_is_found [OF assms(9,8) valid] led c assms(3,10) by (simp add: record_lease_def)
  moreover from read_back obtain run2 where "resolve_cached_entry S c ps
      \<lparr>ce_credentials = enc_creds, ce_encryption_provider = enc, ce_lease_id = le_lease_id result\<rparr> (ls_run t) = (Inr (Some creds), run2)"
    by blast
  ultimately have "cached_lease S C' c ps name ?hash t = (Inr (Some creds), t\<lparr>ls_run := run2\<rparr>)"
    using assms(7) by (simp add: cached_lease_Inr)
  then show ?thesis by (simp add: resolve_lease_def Let_def andThen_def assms(6))
qed


subsection \<open>A concrete lease\<close>

definition vault_services :: "(string, unit) services" where
  \<comment> \<open>a provider that stores what it encrypts backwards\<close>
  "vault_services = toy_services\<lparr>sv_open := (\<lambda>_ _ _. ok (toy_provider\<lparr>pv_encryption := True,
     pv_encrypt := (\<lambda>v. ok (rev v)), pv_get_secret := (\<lambda>v. ok (rev v))\<rparr>))\<rparr>"

definition vault_config :: "(string, unit) config" where
  "vault_config = toy_config\<lparr>c_default_provider := Some (without_span ''age'')\<rparr>"

definition gitlab_lease :: lease_backend where
  "gitlab_lease = Gitlab None (Some ''fnox'') None [''api''] ''developer'' ''GITLAB_TOKEN'' None"

definition demo_library :: backend_library where
  "demo_library =
     \<lparr>bl_fields = (\<lambda>_. [(''type'', ''gitlab'')]), bl_to_string = concat \<circ> map snd, bl_blake3_hex = (\<lambda>s. s),
      bl_url = (\<lambda>_. Some (''https'', Some ''gitlab.com'')), bl_loopback_ip = (\<lambda>_. False)\<rparr>"

definition demo_services :: "int \<Rightarrow> unit lease_services" where
  "demo_services now =
     \<lparr>lc_library = demo_library,
      lc_machine = (\<lambda>_. \<lparr>mc_env = (\<lambda>_. None), mc_exists = (\<lambda>_. False), mc_home = None, mc_config_dir = None,
        mc_tilde = (\<lambda>s. s), mc_has_az = False\<rparr>),
      lc_create = (\<lambda>_ _ _. ok \<lparr>le_credentials = [(''GITLAB_TOKEN'', ''abc'')], le_expires_at = Some (seconds 900), le_lease_id = ''l1''\<rparr>),
      lc_now = now, lc_max_utc = seconds 1000000, lc_lock = True, lc_save = True, lc_others = (\<lambda>l. l)\<rparr>"

definition demo_state :: "ledger \<Rightarrow> unit lstate" where
  "demo_state l = \<lparr>ls_run = \<lparr>rs_env = [], rs_world = ()\<rparr>, ls_ledger = l\<rparr>"

lemma demo_default: "get_default_provider (sv_sources vault_services) vault_config [''default''] = Inr (Some ''age'')"
  by code_simp

lemma demo_providers: "get_providers vault_config [''default''] = Inr [(''age'', ''age''), (''op'', ''op'')]"
  by code_simp

definition demo_provider :: "unit provider" where
  "demo_provider = toy_provider\<lparr>pv_encryption := True, pv_encrypt := (\<lambda>v. ok (rev v)), pv_get_secret := (\<lambda>v. ok (rev v))\<rparr>"

lemma demo_find:
  "find_encryption_provider vault_services vault_config [''default''] s = (Inr (Available ''age'' demo_provider), s)"
  by (simp add: find_encryption_provider_def demo_default demo_providers andThen_def attempt_def)
    (simp add: vault_services_def demo_provider_def)

lemma demo_cache_works: "cache_works vault_services vault_config [''default'']"
  unfolding cache_works_def
  by (intro exI [of _ "Available ''age'' demo_provider"]) (simp add: demo_find recovers_def demo_provider_def)

lemma quarter_hour: "parse_duration ''15m'' = Inr 900"
  by (simp add: parse_duration_def trim_def trim_start_def is_whitespace_def is_digit_def parse_u64_def
      digits_value_def units_def)

lemma demo_span: "lease_span ''gitlab'' gitlab_lease = Inr 900"
  by (simp add: lease_span_def gitlab_lease_def DEFAULT_LEASE_DURATION_def quarter_hour)

lemma demo_instance: "create_backend demo_library m gitlab_lease = Inr ()"
  by (simp add: gitlab_lease_def demo_library_def check_gitlab_def require_secure_url_def trim_slashes_def
      access_level_value_def)

lemma demo_cached:
  "cached_for_backend vault_services vault_config [''default''] gitlab_lease
     \<lparr>le_credentials = [(''GITLAB_TOKEN'', ''abc'')], le_expires_at = e, le_lease_id = i\<rparr> s =
   (Inr (Some [(''GITLAB_TOKEN'', ''cba'')], Some ''age''), s)"
  by (simp add: cached_for_backend_def gitlab_lease_def cache_credentials_def demo_find andThen_def attempt_def
      encrypt_credentials_def demo_provider_def im_insert_def)

definition demo_result :: "(fnox_error + (string, string) imap) \<times> unit lstate" where
  "demo_result = resolve_lease vault_services (demo_services 0) vault_config [''default''] ''gitlab'' gitlab_lease
     None ''exec'' True (demo_state [])"

lemma demo_created: "demo_result = (Inr [(''GITLAB_TOKEN'', ''abc'')], snd demo_result)"
  by (simp add: demo_result_def resolve_lease_def fresh_lease_def demo_services_def demo_span demo_instance
      demo_cached andThen_def locked_def on_run_def)

lemma demo_others: "lc_others (demo_services 0) l = l"
  by (simp add: demo_services_def)

lemma demo_ledger: "ls_ledger (demo_state l) = l"
  by (simp add: demo_state_def)


end
