(* ===== verification/ChildEnv.thy ===== *)
theory ChildEnv
  imports Closure LeaseBackend
begin

text \<open>
  The environment of a child process (\<open>src/child_env.rs\<close>) and the \<open>--only\<close> /
  \<open>--except\<close> filter of a run (\<open>src/secret_filter.rs\<close>): which secrets and leases are
  selected, what is resolved for them, and which variables are set, written to files or removed. The
  glob engine of the \<open>globset\<close> crate and the similarity ranking of the \<open>strsim\<close> crate are
  parameters of the definitions that use them.
\<close>

datatype env_scope = ScopeExec | ScopeShell

datatype purpose =
    PExec | PGet | PHookEnv | PExport | PListValues | PCheck | PTui | PMcp | PProxy | PCiRedact

fun purpose_str :: "purpose \<Rightarrow> string" where
  "purpose_str PExec = ''exec''"
| "purpose_str PGet = ''get''"
| "purpose_str PHookEnv = ''hook-env''"
| "purpose_str PExport = ''export''"
| "purpose_str PListValues = ''list-values''"
| "purpose_str PCheck = ''check''"
| "purpose_str PTui = ''tui''"
| "purpose_str PMcp = ''mcp''"
| "purpose_str PProxy = ''proxy''"
| "purpose_str PCiRedact = ''ci-redact''"

fun scope_allows :: "env_scope \<Rightarrow> env_mode \<Rightarrow> bool" where
  "scope_allows ScopeExec m = in_exec m"
| "scope_allows ScopeShell m = in_shell m"

fun scope_purpose :: "env_scope \<Rightarrow> purpose" where
  "scope_purpose ScopeExec = PExec"
| "scope_purpose ScopeShell = PHookEnv"

definition enpass_env_dependencies :: "string list" where
  "enpass_env_dependencies = [''ENPASS_PASSWORD'', ''FNOX_ENPASS_PASSWORD'']"

definition ambient_scrub_keys :: "string list" where
  "ambient_scrub_keys = [''FNOX_AGE_KEY'', ''FNOX_AGE_KEY_FILE''] @ enpass_env_dependencies"

subsection \<open>The filter of a run\<close>

record pattern =
  pt_raw :: string
  pt_glob :: "(string \<Rightarrow> bool) option"

definition parse_pattern :: "(string \<Rightarrow> (string \<Rightarrow> bool) option) \<Rightarrow> string \<Rightarrow> fnox_error + pattern" where
  "parse_pattern glob raw =
     (if list_ex (\<lambda>c. c \<in> {CHR ''*'', CHR ''?'', CHR ''[''}) raw
      then case glob raw of
             None \<Rightarrow> Inl (ConfigError (FilterPatternInvalid raw))
           | Some m \<Rightarrow> Inr \<lparr>pt_raw = raw, pt_glob = Some m\<rparr>
      else Inr \<lparr>pt_raw = raw, pt_glob = None\<rparr>)"

definition pattern_matches :: "pattern \<Rightarrow> string \<Rightarrow> bool" where
  "pattern_matches p name = (case pt_glob p of Some glob \<Rightarrow> glob name | None \<Rightarrow> pt_raw p = name)"

record secret_filter =
  sf_only :: "pattern list"
  sf_except :: "pattern list"

fun parse_all :: "(string \<Rightarrow> fnox_error + 'a) \<Rightarrow> string list \<Rightarrow> fnox_error + 'a list" where
  "parse_all f [] = Inr []"
| "parse_all f (x # xs) = bind_sum (f x) (\<lambda>a. bind_sum (parse_all f xs) (\<lambda>as. Inr (a # as)))"

definition new_filter ::
  "(string \<Rightarrow> (string \<Rightarrow> bool) option) \<Rightarrow> string list \<Rightarrow> string list \<Rightarrow> fnox_error + secret_filter" where
  "new_filter glob only except =
     bind_sum (parse_all (parse_pattern glob) only) (\<lambda>only.
     bind_sum (parse_all (parse_pattern glob) except) (\<lambda>except.
       Inr \<lparr>sf_only = only, sf_except = except\<rparr>))"

definition filter_is_empty :: "secret_filter \<Rightarrow> bool" where
  "filter_is_empty f \<longleftrightarrow> sf_only f = [] \<and> sf_except f = []"

definition allows :: "secret_filter \<Rightarrow> string \<Rightarrow> bool" where
  "allows f name \<longleftrightarrow>
     (sf_only f = [] \<or> list_ex (\<lambda>p. pattern_matches p name) (sf_only f)) \<and>
     \<not> list_ex (\<lambda>p. pattern_matches p name) (sf_except f)"

definition filter_excludes :: "secret_filter \<Rightarrow> string \<Rightarrow> bool" where
  "filter_excludes f name = list_ex (\<lambda>p. pattern_matches p name) (sf_except f)"

definition filter_includes :: "secret_filter \<Rightarrow> string \<Rightarrow> bool" where
  "filter_includes f name = list_ex (\<lambda>p. pattern_matches p name) (sf_only f)"

definition has_only :: "secret_filter \<Rightarrow> bool" where
  "has_only f \<longleftrightarrow> sf_only f \<noteq> []"

record key_rejection =
  kr_unknown :: "string list"
  kr_suggestions :: "(string, string list) imap"
  kr_not_injectable :: "(string \<times> env_mode) list"

definition no_rejection :: key_rejection where
  "no_rejection = \<lparr>kr_unknown = [], kr_suggestions = [], kr_not_injectable = []\<rparr>"

definition reject_unknown :: "(string \<Rightarrow> string list \<Rightarrow> string list) \<Rightarrow> string \<Rightarrow> string list \<Rightarrow> key_rejection \<Rightarrow> key_rejection" where
  \<comment> \<open>an unknown name, with the similar candidates when there are any\<close>
  "reject_unknown similar key candidates r =
     (let found = (if key = [] then [] else similar key candidates)
      in r\<lparr>kr_suggestions := (if found = [] then kr_suggestions r else im_insert key found (kr_suggestions r)),
           kr_unknown := kr_unknown r @ [key]\<rparr>)"

definition validate_pattern ::
  "(string \<Rightarrow> string list \<Rightarrow> string list) \<Rightarrow> string list \<Rightarrow> string list \<Rightarrow> (string \<Rightarrow> env_mode option) \<Rightarrow>
   pattern \<times> bool \<Rightarrow> key_rejection \<Rightarrow> key_rejection" where
  "validate_pattern similar known injectable mode_of = (\<lambda>(p, is_only) r.
     if pt_glob p \<noteq> None
     then (if is_only \<and> \<not> list_ex (pattern_matches p) injectable
           then r\<lparr>kr_unknown := kr_unknown r @ [pt_raw p]\<rparr> else r)
     else if pt_raw p \<notin> set known
     then reject_unknown similar (pt_raw p) (filter (\<lambda>k. k \<noteq> pt_raw p) known) r
     else if is_only \<and> pt_raw p \<notin> set injectable
     then (case mode_of (pt_raw p) of
             Some env \<Rightarrow> r\<lparr>kr_not_injectable := kr_not_injectable r @ [(pt_raw p, env)]\<rparr>
           | None \<Rightarrow> r)
     else r)"

definition accept_or_reject :: "key_rejection \<Rightarrow> 'a \<Rightarrow> key_rejection + 'a" where
  "accept_or_reject r a = (if kr_unknown r = [] \<and> kr_not_injectable r = [] then Inr a else Inl r)"

definition validate_filter ::
  "(string \<Rightarrow> string list \<Rightarrow> string list) \<Rightarrow> secret_filter \<Rightarrow> string list \<Rightarrow> string list \<Rightarrow>
   (string \<Rightarrow> env_mode option) \<Rightarrow> key_rejection + unit" where
  "validate_filter similar f known injectable mode_of =
     accept_or_reject
       (fold (validate_pattern similar known injectable mode_of)
          (map (\<lambda>p. (p, True)) (sf_only f) @ map (\<lambda>p. (p, False)) (sf_except f)) no_rejection) ()"

subsection \<open>Selection\<close>

type_synonym leases = "(string, lease_backend) imap"

datatype roots = Scope | Keys "string list" | Filtered secret_filter

record selection =
  sl_roots :: "string list"
  sl_requested :: "string list option"
  sl_leases :: "string list"

definition secret_mode :: "secrets \<Rightarrow> string \<Rightarrow> env_mode option" where
  "secret_mode secrets key = map_option secret_env_mode (im_get secrets key)"

definition in_scope :: "env_scope \<Rightarrow> secrets \<Rightarrow> string list" where
  "in_scope scope secrets = map fst (filter (\<lambda>(_, sc). scope_allows scope (secret_env_mode sc)) secrets)"

definition lease_vars :: "env_scope \<Rightarrow> lease_backend \<Rightarrow> string list" where
  "lease_vars scope lease = (if scope = ScopeExec then produced_env_vars lease else [])"

definition select_filtered ::
  "(string \<Rightarrow> string list \<Rightarrow> string list) \<Rightarrow> secrets \<Rightarrow> leases \<Rightarrow> env_scope \<Rightarrow> secret_filter \<Rightarrow> key_rejection + selection" where
  "select_filtered similar secrets leases scope f =
     (let produced = concat (map (\<lambda>(_, lease). lease_vars scope lease) leases);
          known = im_keys secrets @ produced;
          injectable = in_scope scope secrets @ produced
      in bind_sum (validate_filter similar f known injectable (secret_mode secrets)) (\<lambda>_.
           Inr \<lparr>sl_roots = filter (allows f) (in_scope scope secrets),
                sl_requested = None,
                sl_leases = map fst (filter (\<lambda>(_, lease).
                  scope = ScopeExec \<and> has_known_inputs lease \<and>
                  (if has_only f then list_ex (filter_includes f) (lease_vars scope lease) else True) \<and>
                  \<not> list_ex (filter_excludes f) (lease_vars scope lease)) leases)\<rparr>))"

definition producing :: "env_scope \<Rightarrow> leases \<Rightarrow> string \<Rightarrow> string list" where
  "producing scope leases key =
     (if scope = ScopeExec then map fst (filter (\<lambda>(_, lease). produces_env_var lease key) leases) else [])"

definition is_root :: "env_scope \<Rightarrow> secrets \<Rightarrow> string \<Rightarrow> bool" where
  "is_root scope secrets key = (case secret_mode secrets key of Some m \<Rightarrow> scope_allows scope m | None \<Rightarrow> False)"

definition select_key ::
  "(string \<Rightarrow> string list \<Rightarrow> string list) \<Rightarrow> secrets \<Rightarrow> leases \<Rightarrow> env_scope \<Rightarrow> string \<Rightarrow>
   string list \<times> string list \<times> key_rejection \<Rightarrow> string list \<times> string list \<times> key_rejection" where
  \<comment> \<open>the loop over the requested keys: selected roots, selected leases, rejection\<close>
  "select_key similar secrets leases scope key = (\<lambda>(roots, lease_names, r).
     let mode = secret_mode secrets key;
         from_leases = producing scope leases key;
         roots = (if is_root scope secrets key then roots @ [key] else roots);
         lease_names = lease_names @ from_leases
     in if is_root scope secrets key \<or> from_leases \<noteq> [] then (roots, lease_names, r)
        else (roots, lease_names,
          case mode of
            Some env \<Rightarrow> r\<lparr>kr_not_injectable := kr_not_injectable r @ [(key, env)]\<rparr>
          | None \<Rightarrow>
              reject_unknown similar key
                (first_occurrences (filter (\<lambda>k. k \<noteq> key)
                   (im_keys secrets @ concat (map (\<lambda>(_, lease). produced_env_vars lease) leases))) []) r))"

definition select ::
  "(string \<Rightarrow> string list \<Rightarrow> string list) \<Rightarrow> secrets \<Rightarrow> leases \<Rightarrow> env_scope \<Rightarrow> roots \<Rightarrow> key_rejection + selection" where
  "select similar secrets leases scope roots =
     (case roots of
        Scope \<Rightarrow>
          Inr \<lparr>sl_roots = in_scope scope secrets, sl_requested = None,
               sl_leases = (case scope of ScopeExec \<Rightarrow> im_keys leases | ScopeShell \<Rightarrow> [])\<rparr>
      | Filtered f \<Rightarrow> select_filtered similar secrets leases scope f
      | Keys keys \<Rightarrow>
          let requested = first_occurrences keys [];
              (selected, lease_names, r) =
                fold (select_key similar secrets leases scope) requested ([], [], no_rejection)
          in accept_or_reject r
               \<lparr>sl_roots = filter (\<lambda>k. k \<in> set selected) (im_keys secrets),
                sl_requested = Some requested,
                sl_leases = filter (\<lambda>n. n \<in> set lease_names) (im_keys leases)\<rparr>)"

definition resolve_set ::
  "('p, 'w) services \<Rightarrow> ('p, lease_backend) config \<Rightarrow> string list \<Rightarrow> secrets \<Rightarrow> leases \<Rightarrow> selection \<Rightarrow> fnox_error + secrets" where
  "resolve_set S c ps secrets leases sel =
     (let chosen = List.map_filter (im_get leases) (sl_leases sel)
      in if list_ex (\<lambda>lease. \<not> has_known_inputs lease) chosen then Inr secrets
         else bind_sum
           (if sl_leases sel = [] then Inr (sl_roots sel)
            else let roots = sl_roots sel @ concat (map consumed_env_vars chosen)
                 in case the_default_provider S c ps of
                      None \<Rightarrow> Inr roots
                    | Some dp \<Rightarrow>
                        bind_sum (get_providers c ps) (\<lambda>providers.
                          Inr (roots @ provider_env S providers dp)))
           (dependency_closure S c ps secrets))"

subsection \<open>Assembly\<close>

record child_env =
  cv_set :: "(string, string) imap"
  cv_files :: "(string, string) imap"
  cv_remove :: "string list"
  cv_missing :: "string list"
  cv_leases :: "string list"

definition wanted_credential :: "selection \<Rightarrow> string \<Rightarrow> bool" where
  "wanted_credential sel key = (case sl_requested sel of Some requested \<Rightarrow> key \<in> set requested | None \<Rightarrow> True)"

definition assemble_secret ::
  "selection \<Rightarrow> vals \<Rightarrow> (string, string) imap \<Rightarrow> string \<times> secret_config \<Rightarrow> child_env \<Rightarrow> child_env" where
  "assemble_secret sel resolved creds = (\<lambda>(key, sc) out.
     case im_get creds key of
       Some cred \<Rightarrow>
         if wanted_credential sel key then out\<lparr>cv_set := im_insert key cred (cv_set out)\<rparr> else out
     | None \<Rightarrow>
         if key \<notin> set (sl_roots sel) then out
         else case im_get resolved key of
                Some (Some v) \<Rightarrow>
                  if s_as_file sc then out\<lparr>cv_files := im_insert key v (cv_files out)\<rparr>
                  else out\<lparr>cv_set := im_insert key v (cv_set out)\<rparr>
              | _ \<Rightarrow> out\<lparr>cv_missing := cv_missing out @ [key]\<rparr>)"

definition add_credential ::
  "selection \<Rightarrow> secrets \<Rightarrow> string \<times> string \<Rightarrow> child_env \<Rightarrow> child_env" where
  "add_credential sel secrets = (\<lambda>(key, cred) out.
     if \<not> im_has secrets key \<and> wanted_credential sel key
     then out\<lparr>cv_set := im_insert key cred (cv_set out)\<rparr> else out)"

definition provided :: "child_env \<Rightarrow> string \<Rightarrow> bool" where
  "provided out key \<longleftrightarrow> im_has (cv_set out) key \<or> im_has (cv_files out) key"

definition note_missing :: "string \<Rightarrow> child_env \<Rightarrow> child_env" where
  "note_missing key out =
     (if \<not> provided out key \<and> key \<notin> set (cv_missing out)
      then out\<lparr>cv_missing := cv_missing out @ [key]\<rparr> else out)"

definition unused_lease_vars :: "leases \<Rightarrow> selection \<Rightarrow> string list \<Rightarrow> string list" where
  "unused_lease_vars leases sel leases_used =
     concat (map produced_env_vars
       (List.map_filter (im_get leases) (filter (\<lambda>n. n \<notin> set leases_used) (sl_leases sel))))"

definition scrubbed :: "env_scope \<Rightarrow> secrets \<Rightarrow> string list" where
  \<comment> \<open>the ambient keys, then the secrets out of scope\<close>
  "scrubbed scope secrets =
     first_occurrences
       (ambient_scrub_keys @
        map fst (filter (\<lambda>(_, sc). \<not> scope_allows scope (secret_env_mode sc)) secrets)) []"

definition assemble ::
  "env_scope \<Rightarrow> secrets \<Rightarrow> leases \<Rightarrow> selection \<Rightarrow> vals \<Rightarrow> (string, string) imap \<Rightarrow> string list \<Rightarrow> child_env" where
  "assemble scope secrets leases sel resolved creds leases_used =
     (let out = \<lparr>cv_set = [], cv_files = [], cv_remove = [], cv_missing = [], cv_leases = leases_used\<rparr>;
          out = fold (assemble_secret sel resolved creds) secrets out;
          out = fold (add_credential sel secrets) creds out;
          out = (case sl_requested sel of
                   Some requested \<Rightarrow> fold note_missing requested out
                 | None \<Rightarrow> fold note_missing (unused_lease_vars leases sel leases_used) out)
      in out\<lparr>cv_remove := filter (\<lambda>key. \<not> provided out key) (scrubbed scope secrets)\<rparr>)"

definition restrict_plan :: "secret_filter \<Rightarrow> child_env \<Rightarrow> child_env" where
  \<comment> \<open>the end of \<open>plan\<close>, for a run with a filter\<close>
  "restrict_plan f env =
     (let env = env\<lparr>cv_set := im_retain (\<lambda>key _. allows f key) (cv_set env)\<rparr>
      in fold (\<lambda>key env.
           if \<not> provided env key \<and> key \<notin> set (cv_remove env)
           then env\<lparr>cv_remove := cv_remove env @ [key]\<rparr> else env) ambient_scrub_keys env)"

subsection \<open>What a child process gets\<close>

definition secret_value_of :: "secrets \<Rightarrow> selection \<Rightarrow> vals \<Rightarrow> bool \<Rightarrow> string \<Rightarrow> string option" where
  \<comment> \<open>the resolved value of a selected secret that is injected as a file, or as a variable\<close>
  "secret_value_of secrets sel resolved as_file key =
     (case (im_get secrets key, im_get resolved key) of
        (Some sc, Some v) \<Rightarrow> if key \<in> set (sl_roots sel) \<and> s_as_file sc = as_file then v else None
      | _ \<Rightarrow> None)"

lemma assemble_secret_other [simp]:
  "k \<noteq> fst e \<Longrightarrow> im_get (cv_set (assemble_secret sel resolved creds e out)) k = im_get (cv_set out) k"
  "k \<noteq> fst e \<Longrightarrow> im_get (cv_files (assemble_secret sel resolved creds e out)) k = im_get (cv_files out) k"
  by (auto simp: assemble_secret_def imap_simps split: prod.splits option.splits)

lemma assemble_secret_own:
  "im_get (cv_set (assemble_secret sel resolved creds (k, sc) out)) k =
     (case im_get creds k of
        Some c \<Rightarrow> if wanted_credential sel k then Some c else im_get (cv_set out) k
      | None \<Rightarrow> (case im_get resolved k of
          Some (Some v) \<Rightarrow> if k \<in> set (sl_roots sel) \<and> \<not> s_as_file sc then Some v else im_get (cv_set out) k
        | _ \<Rightarrow> im_get (cv_set out) k))"
  "im_get (cv_files (assemble_secret sel resolved creds (k, sc) out)) k =
     (case im_get creds k of
        Some c \<Rightarrow> im_get (cv_files out) k
      | None \<Rightarrow> (case im_get resolved k of
          Some (Some v) \<Rightarrow> if k \<in> set (sl_roots sel) \<and> s_as_file sc then Some v else im_get (cv_files out) k
        | _ \<Rightarrow> im_get (cv_files out) k))"
  by (auto simp: assemble_secret_def imap_simps split: option.splits)

lemma assemble_secrets_none:
  "im_get es k = None \<Longrightarrow>
   im_get (cv_set (fold (assemble_secret sel resolved creds) es out)) k = im_get (cv_set out) k \<and>
   im_get (cv_files (fold (assemble_secret sel resolved creds) es out)) k = im_get (cv_files out) k"
proof (induction es arbitrary: out)
  case (Cons e es)
  then show ?case by (cases e) (auto split: if_splits)
qed simp

lemma assemble_secrets:
  assumes "im_wf es" and "im_get es k = Some sc"
  shows "im_get (cv_set (fold (assemble_secret sel resolved creds) es out)) k =
      im_get (cv_set (assemble_secret sel resolved creds (k, sc) out)) k"
    and "im_get (cv_files (fold (assemble_secret sel resolved creds) es out)) k =
      im_get (cv_files (assemble_secret sel resolved creds (k, sc) out)) k"
proof -
  have "im_get (cv_set (fold (assemble_secret sel resolved creds) es out)) k =
      im_get (cv_set (assemble_secret sel resolved creds (k, sc) out)) k \<and>
    im_get (cv_files (fold (assemble_secret sel resolved creds) es out)) k =
      im_get (cv_files (assemble_secret sel resolved creds (k, sc) out)) k"
    using assms
  proof (induction es arbitrary: out)
    case (Cons e es)
    obtain j s where e: "e = (j, s)" by (cases e)
    show ?case
    proof (cases "j = k")
      case True
      with Cons.prems e have "im_get es k = None" "s = sc" by (simp_all add: im_wf_Cons)
      with True e show ?thesis by (simp add: assemble_secrets_none)
    next
      case False
      with Cons e have "im_wf es" "im_get es k = Some sc" by (simp_all add: im_wf_Cons)
      from Cons.IH [OF this] False e show ?thesis
        by (simp add: assemble_secret_own cong: option.case_cong if_cong)
    qed
  qed simp
  then show "im_get (cv_set (fold (assemble_secret sel resolved creds) es out)) k =
      im_get (cv_set (assemble_secret sel resolved creds (k, sc) out)) k"
    and "im_get (cv_files (fold (assemble_secret sel resolved creds) es out)) k =
      im_get (cv_files (assemble_secret sel resolved creds (k, sc) out)) k" by auto
qed


lemma add_credentials:
  assumes "im_wf cs"
  shows "im_get (cv_set (fold (add_credential sel secrets) cs out)) k =
      (case im_get cs k of
         Some c \<Rightarrow> if \<not> im_has secrets k \<and> wanted_credential sel k then Some c else im_get (cv_set out) k
       | None \<Rightarrow> im_get (cv_set out) k)"
    and "cv_files (fold (add_credential sel secrets) cs out) = cv_files out"
proof -
  show "im_get (cv_set (fold (add_credential sel secrets) cs out)) k =
      (case im_get cs k of
         Some c \<Rightarrow> if \<not> im_has secrets k \<and> wanted_credential sel k then Some c else im_get (cv_set out) k
       | None \<Rightarrow> im_get (cv_set out) k)"
    using assms
    by (induction cs arbitrary: out)
      (auto simp: add_credential_def im_wf_Cons imap_simps split: option.splits if_splits)
  show "cv_files (fold (add_credential sel secrets) cs out) = cv_files out"
    by (induction cs arbitrary: out) (auto simp: add_credential_def)
qed

lemma note_missing_simps [simp]:
  "cv_set (note_missing key out) = cv_set out"
  "cv_files (note_missing key out) = cv_files out"
  "cv_remove (note_missing key out) = cv_remove out"
  "cv_leases (note_missing key out) = cv_leases out"
  by (auto simp: note_missing_def)

lemma note_all_missing [simp]:
  "cv_set (fold note_missing ks out) = cv_set out"
  "cv_files (fold note_missing ks out) = cv_files out"
  by (induction ks arbitrary: out) auto

lemma missing_after_note [simp]:
  "provided (fold note_missing ks out) = provided out"
  by (rule ext) (simp add: provided_def)

lemma set_note_missing:
  "set (cv_missing (fold note_missing ks out)) =
     set (cv_missing out) \<union> {k \<in> set ks. \<not> provided out k}"
proof (induction ks arbitrary: out)
  case (Cons k ks)
  have "provided (note_missing k out) = provided out" by (rule ext) (simp add: provided_def)
  then show ?case by (simp add: Cons.IH) (auto simp: note_missing_def)
qed simp

definition wanted_value :: "secrets \<Rightarrow> selection \<Rightarrow> vals \<Rightarrow> (string, string) imap \<Rightarrow> string \<Rightarrow> string option" where
  \<comment> \<open>what a variable is set to: a lease credential beats the secret of its name\<close>
  "wanted_value secrets sel resolved creds k =
     (case im_get creds k of
        Some c \<Rightarrow> if wanted_credential sel k then Some c else None
      | None \<Rightarrow> secret_value_of secrets sel resolved False k)"

definition wanted_file :: "secrets \<Rightarrow> selection \<Rightarrow> vals \<Rightarrow> (string, string) imap \<Rightarrow> string \<Rightarrow> string option" where
  "wanted_file secrets sel resolved creds k =
     (if im_has creds k then None else secret_value_of secrets sel resolved True k)"

lemma assembled_values:
  assumes "im_wf secrets" and "im_wf creds"
  shows "im_get (cv_set (assemble scope secrets leases sel resolved creds used)) k =
      wanted_value secrets sel resolved creds k"
    and "im_get (cv_files (assemble scope secrets leases sel resolved creds used)) k =
      wanted_file secrets sel resolved creds k"
proof -
  let ?start = "\<lparr>cv_set = [], cv_files = [], cv_remove = [], cv_missing = [], cv_leases = used\<rparr> :: child_env"
  let ?filled = "fold (assemble_secret sel resolved creds) secrets ?start"
  have "im_get (cv_set ?filled) k = (if im_has secrets k then wanted_value secrets sel resolved creds k else None)
    \<and> im_get (cv_files ?filled) k = wanted_file secrets sel resolved creds k"
  proof (cases "im_get secrets k")
    case None
    with assemble_secrets_none [OF None, of sel resolved creds ?start] show ?thesis
      by (simp add: im_has_iff wanted_file_def secret_value_of_def)
  next
    case (Some sc)
    then show ?thesis
      by (auto simp: assemble_secrets [OF assms(1) Some] assemble_secret_own im_has_iff wanted_file_def
          wanted_value_def secret_value_of_def split: option.splits)
  qed
  then show "im_get (cv_set (assemble scope secrets leases sel resolved creds used)) k =
      wanted_value secrets sel resolved creds k"
    and "im_get (cv_files (assemble scope secrets leases sel resolved creds used)) k =
      wanted_file secrets sel resolved creds k"
    by (auto simp: assemble_def Let_def add_credentials [OF assms(2)] wanted_value_def im_has_iff
        secret_value_of_def split: option.splits)
qed

lemma fill_missing:
  "set (cv_missing (fold (assemble_secret sel resolved creds) es out)) =
     set (cv_missing out) \<union>
     {k. \<exists>sc. (k, sc) \<in> set es \<and> im_get creds k = None \<and> k \<in> set (sl_roots sel) \<and>
        (\<forall>v. im_get resolved k \<noteq> Some (Some v))}"
proof (induction es arbitrary: out)
  case (Cons e es)
  obtain j s where e: "e = (j, s)" by (cases e)
  have "set (cv_missing (assemble_secret sel resolved creds (j, s) out)) =
    set (cv_missing out) \<union>
    (if im_get creds j = None \<and> j \<in> set (sl_roots sel) \<and> (\<forall>v. im_get resolved j \<noteq> Some (Some v)) then {j} else {})"
    by (auto simp: assemble_secret_def split: option.split)
  then show ?case by (simp add: Cons.IH e) auto
qed simp

lemma credentials_keep_missing [simp]:
  "cv_missing (fold (add_credential sel secrets) cs out) = cv_missing out"
  by (induction cs arbitrary: out) (auto simp: add_credential_def)

definition offered :: "secrets \<Rightarrow> selection \<Rightarrow> vals \<Rightarrow> (string, string) imap \<Rightarrow> string \<Rightarrow> bool" where
  "offered secrets sel resolved creds k \<longleftrightarrow>
     wanted_value secrets sel resolved creds k \<noteq> None \<or> wanted_file secrets sel resolved creds k \<noteq> None"

lemma assembled_provided:
  assumes "im_wf secrets" and "im_wf creds"
  shows "provided (assemble scope secrets leases sel resolved creds used) k \<longleftrightarrow> offered secrets sel resolved creds k"
  by (simp add: provided_def im_has_iff assembled_values [OF assms] offered_def)

lemma assembled_remove:
  assumes "im_wf secrets" and "im_wf creds"
  shows "cv_remove (assemble scope secrets leases sel resolved creds used) =
    filter (\<lambda>k. \<not> offered secrets sel resolved creds k) (scrubbed scope secrets)"
proof -
  have "cv_remove (assemble scope secrets leases sel resolved creds used) =
    filter (\<lambda>k. \<not> provided (assemble scope secrets leases sel resolved creds used) k) (scrubbed scope secrets)"
    by (simp add: assemble_def Let_def provided_def split: option.split)
  then show ?thesis by (simp add: assembled_provided [OF assms])
qed

lemma assembled_missing:
  assumes "im_wf secrets" and "im_wf creds"
  shows "set (cv_missing (assemble scope secrets leases sel resolved creds used)) =
    {k. im_has secrets k \<and> \<not> im_has creds k \<and> k \<in> set (sl_roots sel) \<and> \<not> offered secrets sel resolved creds k} \<union>
    {k \<in> set (case sl_requested sel of Some ks \<Rightarrow> ks | None \<Rightarrow> unused_lease_vars leases sel used).
       \<not> offered secrets sel resolved creds k}"
proof -
  let ?start = "\<lparr>cv_set = [], cv_files = [], cv_remove = [], cv_missing = [], cv_leases = used\<rparr> :: child_env"
  let ?out = "fold (add_credential sel secrets) creds (fold (assemble_secret sel resolved creds) secrets ?start)"
  let ?asked = "case sl_requested sel of Some ks \<Rightarrow> ks | None \<Rightarrow> unused_lease_vars leases sel used"
  have "provided ?out k \<longleftrightarrow> provided (assemble scope secrets leases sel resolved creds used) k" for k
    by (simp add: assemble_def Let_def provided_def split: option.split)
  then have prov: "provided ?out k \<longleftrightarrow> offered secrets sel resolved creds k" for k
    by (simp add: assembled_provided [OF assms])
  have "cv_missing (assemble scope secrets leases sel resolved creds used) = cv_missing (fold note_missing ?asked ?out)"
    by (simp add: assemble_def Let_def split: option.split)
  then have "set (cv_missing (assemble scope secrets leases sel resolved creds used)) =
    set (cv_missing ?out) \<union> {k \<in> set ?asked. \<not> offered secrets sel resolved creds k}"
    by (simp add: set_note_missing prov)
  moreover have "set (cv_missing ?out) =
    {k. im_has secrets k \<and> \<not> im_has creds k \<and> k \<in> set (sl_roots sel) \<and> \<not> offered secrets sel resolved creds k}"
    using assms(1)
    by (auto simp: fill_missing im_has_iff offered_def wanted_value_def wanted_file_def secret_value_of_def
        im_get_of_in dest: im_get_in split: option.splits)
  ultimately show ?thesis by simp
qed

lemma selected_in_scope:
  assumes "im_wf secrets" and "select similar secrets leases scope roots = Inr sel" and "k \<in> set (sl_roots sel)"
  shows "\<exists>sc. im_get secrets k = Some sc \<and> scope_allows scope (secret_env_mode sc)"
proof -
  have scoped: "\<exists>sc. im_get secrets k = Some sc \<and> scope_allows scope (secret_env_mode sc)"
    if "k \<in> set (in_scope scope secrets)"
    using that im_get_of_in [OF assms(1)] by (fastforce simp: in_scope_def)
  have keys: "is_root scope secrets k" if "k \<in> set (fst (fold (select_key similar secrets leases scope) ks acc))"
    and "\<forall>k \<in> set (fst acc). is_root scope secrets k" for k ks acc
    using that
  proof (induction ks arbitrary: acc)
    case (Cons j ks)
    have "\<forall>k \<in> set (fst (select_key similar secrets leases scope j acc)). is_root scope secrets k"
      using Cons.prems(2) by (cases acc) (auto simp: select_key_def Let_def)
    with Cons show ?case by simp
  qed simp
  show ?thesis
  proof (cases roots)
    case Scope
    with assms show ?thesis by (intro scoped) (auto simp: select_def)
  next
    case (Filtered f)
    with assms show ?thesis
      by (intro scoped) (auto simp: select_def select_filtered_def Let_def bind_sum_Inr)
  next
    case (Keys ks)
    with assms have "is_root scope secrets k"
      by (intro keys [of _ "first_occurrences ks []" "([], [], no_rejection)"])
        (auto simp: select_def Let_def accept_or_reject_def split: prod.splits if_splits)
    then show ?thesis by (auto simp: is_root_def secret_mode_def split: option.splits)
  qed
qed


text \<open>The environment of a child follows its specification: a variable is set to the lease
  credential of its name when the run wants it, else to the resolved value of the selected secret of
  its name; a selected \<open>as_file\<close> secret goes to a file instead, unless a credential has its
  name; what is removed is exactly the ambient keys and the secrets out of scope that nothing
  provides, each once; and a requested key is reported missing exactly when nothing provides it.\<close>

lemma child_env_meets_spec:
  fixes scope and secrets and leases and sel and resolved and creds and used
  defines "out \<equiv> assemble scope secrets leases sel resolved creds used"
  assumes "im_wf secrets" and "im_wf creds"
  shows "im_get (cv_set out) k = wanted_value secrets sel resolved creds k
    \<and> im_get (cv_files out) k = wanted_file secrets sel resolved creds k
    \<and> cv_remove out = filter (\<lambda>k. \<not> offered secrets sel resolved creds k) (scrubbed scope secrets)
    \<and> distinct (cv_remove out)
    \<and> set (cv_missing out) =
        {k. im_has secrets k \<and> \<not> im_has creds k \<and> k \<in> set (sl_roots sel) \<and> \<not> offered secrets sel resolved creds k} \<union>
        {k \<in> set (case sl_requested sel of Some ks \<Rightarrow> ks | None \<Rightarrow> unused_lease_vars leases sel used).
           \<not> offered secrets sel resolved creds k}
    \<and> cv_leases out = used"
proof -
  have "cv_leases (fold (assemble_secret sel resolved creds) es o') = cv_leases o'" for es o'
    by (induction es arbitrary: o') (auto simp: assemble_secret_def split: option.split)
  moreover have "cv_leases (fold (add_credential sel secrets) cs o') = cv_leases o'" for cs o'
    by (induction cs arbitrary: o') (auto simp: add_credential_def)
  moreover have "cv_leases (fold note_missing ks o') = cv_leases o'" for ks o'
    by (induction ks arbitrary: o') auto
  ultimately have "cv_leases out = used" by (simp add: out_def assemble_def Let_def split: option.split)
  moreover have "distinct (scrubbed scope secrets)" by (simp add: scrubbed_def)
  ultimately show ?thesis
    unfolding out_def using assms(2,3)
    by (simp add: assembled_values assembled_remove assembled_missing)
qed

definition demo_secret :: "env_mode option \<Rightarrow> bool \<Rightarrow> secret_config" where
  "demo_secret mode as_file =
     \<lparr>s_description = None, s_if_missing = None, s_default = None, s_provider = None, s_value = None,
      s_env = mode, s_as_file = as_file, s_json_path = None, s_line = None, s_sync = None,
      s_source_path = None, s_source_is_profile = False, s_source_profile = None, s_daemon_cache = None\<rparr>"

definition demo_secrets :: secrets where
  "demo_secrets =
     [(''TOKEN'', demo_secret None False), (''CERT'', demo_secret None True),
      (''ADMIN'', demo_secret (Some EnvNever) False), (''AWS_KEY'', demo_secret None False)]"

lemma out_of_scope_not_offered:
  assumes "im_wf secrets" and "select similar secrets leases scope roots = Inr sel"
    and "im_get secrets k = Some sc" and "\<not> scope_allows scope (secret_env_mode sc)"
    and "\<not> im_has creds k"
  shows "wanted_value secrets sel resolved creds k = None" and "wanted_file secrets sel resolved creds k = None"
    and "k \<in> set (scrubbed scope secrets)"
proof -
  have "k \<notin> set (sl_roots sel)"
    using selected_in_scope [OF assms(1,2)] assms(3,4) by fastforce
  then have "secret_value_of secrets sel resolved f k = None" for f
    by (auto simp: secret_value_of_def split: option.split)
  with assms(5) show "wanted_value secrets sel resolved creds k = None" "wanted_file secrets sel resolved creds k = None"
    by (auto simp: wanted_value_def wanted_file_def im_has_iff)
  show "k \<in> set (scrubbed scope secrets)"
    using im_get_in [OF assms(3)] assms(4) by (force simp: scrubbed_def)
qed

text \<open>A secret out of scope never reaches the child: for whatever selection \<open>select\<close> accepts,
  a secret whose \<open>env\<close> mode excludes the scope is neither set nor written to a file, and its
  variable is removed from what the child would inherit, unless a lease credential has its name.\<close>

lemma out_of_scope_secret_is_removed:
  assumes "im_wf secrets" and "im_wf creds"
    and "select similar secrets leases scope roots = Inr sel"
    and "im_get secrets k = Some sc" and "\<not> scope_allows scope (secret_env_mode sc)"
    and "\<not> im_has creds k"
  shows "let out = assemble scope secrets leases sel resolved creds used
    in \<not> im_has (cv_set out) k \<and> \<not> im_has (cv_files out) k \<and> k \<in> set (cv_remove out)"
  using out_of_scope_not_offered [OF assms(1,3-6)]
  by (simp add: Let_def im_has_iff assembled_values [OF assms(1,2)] assembled_remove [OF assms(1,2)] offered_def)

text \<open>After a filter the promise above can fail. A lease that is selected for one of the variables
  it produces may also produce the name of a secret that is never injected; assembling takes that name
  out of the variables to remove, the filter then takes the credential away again, and only the
  ambient keys are put back: the child inherits the variable of the secret.\<close>

lemma filtered_lease_value_unscrubs:
  defines "sel \<equiv> \<lparr>sl_roots = [], sl_requested = None, sl_leases = [''aws'']\<rparr>"
    and "only \<equiv> \<lparr>sf_only = [\<lparr>pt_raw = ''AWS_ACCESS_KEY_ID'', pt_glob = None\<rparr>], sf_except = []\<rparr>"
    and "creds \<equiv> [(''AWS_ACCESS_KEY_ID'', ''i''), (''AWS_SECRET_ACCESS_KEY'', ''s'')]"
    and "secrets \<equiv> [(''AWS_SECRET_ACCESS_KEY'', demo_secret (Some EnvNever) False)]"
  shows "''AWS_SECRET_ACCESS_KEY'' \<in> set (cv_remove (assemble ScopeExec secrets [] sel [] [] [''aws'']))"
    and "\<not> provided (restrict_plan only (assemble ScopeExec secrets [] sel [] creds [''aws''])) ''AWS_SECRET_ACCESS_KEY''"
    and "''AWS_SECRET_ACCESS_KEY'' \<notin> set (cv_remove (restrict_plan only (assemble ScopeExec secrets [] sel [] creds [''aws''])))"
  unfolding assms by code_simp+

end
