(* ===== verification/DaemonCache.thy ===== *)
theory DaemonCache
  imports ChildEnv ResolverFacts "HOL-Library.Word" "HOL-Library.List_Lexorder" "HOL-Library.Char_ord"
begin

text \<open>
  The cache of the daemon (\<open>src/daemon.rs\<close>): its state with the clear epochs, the keys of its
  entries, what may be cached, and the three operations on it: handing a resolution to the client,
  storing what the client resolved, and resolving misses in the daemon. BLAKE3, the JSON text of a
  secret, the file system and the generated \<open>daemon_cache\<close> option of the provider tables are the
  record \<open>daemon_library\<close>.
\<close>

record cached_key =
  ck_secret :: string
  ck_hash :: string

record daemon_state =
  ds_cache :: "(cached_key, string option) imap"
  ds_epoch :: "64 word"
  ds_full_clear_epoch :: "64 word"
  ds_key_clear_epochs :: "(string, 64 word) imap"

definition initial_daemon :: daemon_state where
  "initial_daemon = \<lparr>ds_cache = [], ds_epoch = 0, ds_full_clear_epoch = 0, ds_key_clear_epochs = []\<rparr>"

definition clear :: "string list \<Rightarrow> daemon_state \<Rightarrow> daemon_state" where
  "clear keys st =
     (let st = st\<lparr>ds_epoch := ds_epoch st + 1\<rparr>
      in if keys = []
         then st\<lparr>ds_cache := [], ds_full_clear_epoch := ds_epoch st, ds_key_clear_epochs := []\<rparr>
         else st\<lparr>ds_cache := im_retain (\<lambda>ck _. ck_secret ck \<notin> set keys) (ds_cache st),
                 ds_key_clear_epochs :=
                   fold (\<lambda>key. im_insert key (ds_epoch st)) (first_occurrences keys []) (ds_key_clear_epochs st)\<rparr>)"

definition cleared_since :: "daemon_state \<Rightarrow> string \<Rightarrow> 64 word \<Rightarrow> bool" where
  "cleared_since st key epoch \<longleftrightarrow>
     ds_full_clear_epoch st > epoch \<or>
     (case im_get (ds_key_clear_epochs st) key of Some cleared \<Rightarrow> cleared > epoch | None \<Rightarrow> False)"

subsection \<open>Keys and fingerprints\<close>

record 'p daemon_library =
  dl_hash :: "string \<Rightarrow> string"
  dl_secret_json :: "secret_config \<Rightarrow> string"
  dl_read :: "path \<Rightarrow> string option"
  dl_exists :: "path \<Rightarrow> bool"
  dl_display :: "path \<Rightarrow> string"
  dl_cache_enabled :: "'p \<Rightarrow> bool"

definition bool_text :: "bool \<Rightarrow> string" where
  "bool_text b = (if b then ''true'' else ''false'')"

definition cache_key_input ::
  "(secret_config \<Rightarrow> string) \<Rightarrow> string \<Rightarrow> string list \<Rightarrow> string \<Rightarrow> secret_config \<Rightarrow> bool \<Rightarrow> string \<Rightarrow> string" where
  \<comment> \<open>the bytes that are hashed\<close>
  "cache_key_input json fingerprint ps key sc no_defaults purpose =
     fingerprint @ join '','' ps @ bool_text no_defaults @ key @ purpose @ json sc"

definition cache_key ::
  "'p daemon_library \<Rightarrow> string \<Rightarrow> string list \<Rightarrow> string \<Rightarrow> secret_config \<Rightarrow> bool \<Rightarrow> string \<Rightarrow> cached_key" where
  "cache_key L fingerprint ps key sc no_defaults purpose =
     \<lparr>ck_secret = key,
      ck_hash = dl_hash L (cache_key_input (dl_secret_json L) fingerprint ps key sc no_defaults purpose)\<rparr>"

definition provider_env_keys :: "string list" where
  "provider_env_keys =
     [''AWS_ACCESS_KEY_ID'', ''AWS_SECRET_ACCESS_KEY'', ''AWS_SESSION_TOKEN'', ''AWS_PROFILE'', ''AWS_REGION'',
      ''AWS_DEFAULT_REGION'', ''OP_SERVICE_ACCOUNT_TOKEN'', ''BW_SESSION'', ''BWS_ACCESS_TOKEN'',
      ''VAULT_TOKEN'', ''VAULT_ADDR'', ''GOOGLE_APPLICATION_CREDENTIALS'', ''AZURE_CLIENT_ID'',
      ''AZURE_CLIENT_SECRET'', ''AZURE_TENANT_ID'', ''ENPASS_PASSWORD'', ''INFISICAL_TOKEN'',
      ''KEEPASS_PASSWORD'', ''PASSWORDSTATE_API_KEY'', ''PROTON_PASS_PASSWORD'', ''PROTON_PASS_TOTP'',
      ''PROTON_PASS_EXTRA_PASSWORD'', ''PROTON_PASS_PASSWORD_FILE'', ''PROTON_PASS_TOTP_FILE'',
      ''PROTON_PASS_EXTRA_PASSWORD_FILE'', ''PROTON_PASS_PERSONAL_ACCESS_TOKEN'',
      ''PROTON_PASS_AGENT_REASON'', ''PROTON_PASS_SESSION_DIR'', ''PROTON_PASS_KEY_PROVIDER'',
      ''PROTON_PASS_ENCRYPTION_KEY'', ''PROTON_PASS_LINUX_KEYRING'']"

definition provider_env_key :: "string \<Rightarrow> bool" where
  "provider_env_key key \<longleftrightarrow> key \<in> set provider_env_keys"

definition fingerprint_paths :: "'p daemon_library \<Rightarrow> ('p, 'l) config \<Rightarrow> path list" where
  \<comment> \<open>the set of files, sorted\<close>
  "fingerprint_paths L c =
     sort (remdups
       (map snd (c_provider_sources c) @ map snd (c_secret_sources c) @
        (case c_default_provider_source c of Some p \<Rightarrow> [p] | None \<Rightarrow> []) @
        concat (map (\<lambda>(_, pc). map snd (p_provider_sources pc) @ map snd (p_secret_sources pc) @
          (case p_default_provider_source pc of Some p \<Rightarrow> [p] | None \<Rightarrow> [])) (c_profiles c)) @
        (case c_project_dir c of
           Some dir \<Rightarrow> filter (dl_exists L) (map (\<lambda>name. path_join dir (path_components name)) (all_config_filenames []))
         | None \<Rightarrow> [])))"

definition fingerprint_input :: "'p daemon_library \<Rightarrow> ('p, 'l) config \<Rightarrow> (string \<times> string) list \<Rightarrow> string" where
  "fingerprint_input L c env =
     concat (map (\<lambda>p. dl_display L p @ (case dl_read L p of Some content \<Rightarrow> content | None \<Rightarrow> []))
       (fingerprint_paths L c)) @
     concat (map (\<lambda>(key, v). key @ v)
       (filter (\<lambda>(key, _). take 5 key = ''FNOX_'' \<or> provider_env_key key) (sort_key fst env)))"

definition config_fingerprint :: "'p daemon_library \<Rightarrow> ('p, 'l) config \<Rightarrow> (string \<times> string) list \<Rightarrow> string" where
  "config_fingerprint L c env = dl_hash L (fingerprint_input L c env)"

subsection \<open>What may be cached\<close>

definition cache_policy_default_provider ::
  "('p, 'l) config \<Rightarrow> string list \<Rightarrow> (string, 'p) imap \<Rightarrow> string option" where
  "cache_policy_default_provider c ps providers =
     (let ps = (case resolve_profiles c ps of Inr rs \<Rightarrow> rs | Inl _ \<Rightarrow> ps);
          of_profile = (\<lambda>p. case im_get (c_profiles c) p of Some pc \<Rightarrow> profile_default_provider pc | None \<Rightarrow> None)
      in case List.find (\<lambda>p. of_profile p \<noteq> None) (rev (filter (\<lambda>p. p \<noteq> ''default'') ps)) of
           Some p \<Rightarrow> of_profile p
         | None \<Rightarrow>
             (case config_default_provider c of
                Some dp \<Rightarrow> Some dp
              | None \<Rightarrow> if length providers = 1 then Some (fst (hd providers)) else None))"

definition provider_daemon_cache_enabled ::
  "'p daemon_library \<Rightarrow> (string, 'p) imap \<Rightarrow> string option \<Rightarrow> secret_config \<Rightarrow> bool" where
  "provider_daemon_cache_enabled L providers default_provider sc =
     (let name = (case secret_provider sc of
                    Some p \<Rightarrow> Some p
                  | None \<Rightarrow> if secret_value sc \<noteq> None then default_provider else None)
      in case name of
           None \<Rightarrow> True
         | Some n \<Rightarrow> (case im_get providers n of None \<Rightarrow> True | Some pc \<Rightarrow> dl_cache_enabled L pc))"

definition secret_is_cacheable ::
  "'p daemon_library \<Rightarrow> (string, 'p) imap \<Rightarrow> string option \<Rightarrow> secret_config \<Rightarrow> string \<Rightarrow> bool" where
  "secret_is_cacheable L providers default_provider sc purpose \<longleftrightarrow>
     purpose \<noteq> purpose_str PCheck \<and>
     (case s_daemon_cache sc of Some b \<Rightarrow> b | None \<Rightarrow> True) \<and>
     provider_daemon_cache_enabled L providers default_provider sc"

subsection \<open>The requests that touch the cache\<close>

record request_context =
  rq_cwd :: path
  rq_config :: path
  rq_profile :: "string list"
  rq_age_key_file :: "path option"
  rq_if_missing :: "string option"
  rq_no_defaults :: bool
  rq_non_interactive :: bool
  rq_purpose :: string
  rq_env :: "(string \<times> string) list"

record batch_request = request_context +
  rq_keys :: "string list"
  rq_include_all_modes :: bool

record foreground_resolution =
  fr_fingerprint :: string
  fr_cached_values :: vals
  fr_keys :: "string list"
  fr_epoch :: "64 word"

definition cached_value ::
  "'p daemon_library \<Rightarrow> (string, 'p) imap \<Rightarrow> string option \<Rightarrow> string \<Rightarrow> string list \<Rightarrow> bool \<Rightarrow> string \<Rightarrow>
   daemon_state \<Rightarrow> string \<times> secret_config \<Rightarrow> string option" where
  \<comment> \<open>the value that the cache may serve for a secret; an entry without value is no hit\<close>
  "cached_value L providers default_provider fingerprint ps no_defaults purpose st = (\<lambda>(key, sc).
     if secret_is_cacheable L providers default_provider sc purpose
     then (case im_get (ds_cache st) (cache_key L fingerprint ps key sc no_defaults purpose) of
             Some (Some v) \<Rightarrow> Some v | _ \<Rightarrow> None)
     else None)"

definition foreground_resolution_if_needed ::
  "'p daemon_library \<Rightarrow> ('p, 'l) config \<Rightarrow> string list \<Rightarrow> secrets \<Rightarrow> 'a request_context_scheme \<Rightarrow> daemon_state \<Rightarrow>
   fnox_error + foreground_resolution option" where
  "foreground_resolution_if_needed L c ps secrets req st =
     (if rq_non_interactive req \<or> secrets = [] then Inr None
      else bind_sum (get_providers c ps) (\<lambda>providers.
        let fingerprint = config_fingerprint L c (rq_env req);
            default_provider = cache_policy_default_provider c ps providers;
            hit = cached_value L providers default_provider fingerprint ps (rq_no_defaults req) (rq_purpose req) st;
            keys = map fst (filter (\<lambda>e. hit e = None) secrets)
        in if keys = [] then Inr None
           else Inr (Some \<lparr>fr_fingerprint = fingerprint,
                  fr_cached_values = fold (\<lambda>e. im_insert (fst e) (hit e)) (filter (\<lambda>e. hit e \<noteq> None) secrets) [],
                  fr_keys = keys, fr_epoch = ds_epoch st\<rparr>)))"

definition store_one ::
  "'p daemon_library \<Rightarrow> (string, 'p) imap \<Rightarrow> string option \<Rightarrow> string \<Rightarrow> string list \<Rightarrow> bool \<Rightarrow> string \<Rightarrow>
   64 word option \<Rightarrow> string \<times> secret_config \<Rightarrow> vals \<times> daemon_state \<Rightarrow> vals \<times> daemon_state" where
  "store_one L providers default_provider fingerprint ps no_defaults purpose epoch = (\<lambda>(key, sc) (values, st).
     if (case epoch of Some e \<Rightarrow> cleared_since st key e | None \<Rightarrow> False) then (values, st)
     else if secret_is_cacheable L providers default_provider sc purpose
     then (case im_get values key of
             Some (Some v) \<Rightarrow>
               (im_remove key values,
                st\<lparr>ds_cache := im_insert (cache_key L fingerprint ps key sc no_defaults purpose) (Some v) (ds_cache st)\<rparr>)
           | Some None \<Rightarrow> (im_remove key values, st)
           | None \<Rightarrow> (values, st))
     else (values, st))"

definition store_resolved_values ::
  "'p daemon_library \<Rightarrow> ('p, 'l) config \<Rightarrow> string list \<Rightarrow> secrets \<Rightarrow> 'a request_context_scheme \<Rightarrow> string \<Rightarrow> 64 word option \<Rightarrow>
   vals \<Rightarrow> daemon_state \<Rightarrow> fnox_error + daemon_state" where
  "store_resolved_values L c ps secrets req expected_fingerprint epoch values st =
     (let fingerprint = config_fingerprint L c (rq_env req)
      in if fingerprint \<noteq> expected_fingerprint then Inr st
         else bind_sum (get_providers c ps) (\<lambda>providers.
           Inr (snd (fold (store_one L providers (cache_policy_default_provider c ps providers) fingerprint ps
             (rq_no_defaults req) (rq_purpose req) epoch) secrets (values, st)))))"


subsection \<open>Resolving in the daemon\<close>

record audit_entry =
  ae_command :: string
  ae_profile :: "string list"
  ae_config :: string
  ae_secret :: string
  ae_provider :: "string option"
  ae_cached :: bool

record cli_snapshot =
  cs_age_key_file :: "path option"
  cs_profile :: "string list"
  cs_if_missing :: "string option"
  cs_no_defaults :: bool

record 'w daemon_process =
  dp_run :: "'w rstate"
  dp_state :: daemon_state
  dp_cwd :: path
  dp_settings :: "cli_snapshot option"
  dp_non_interactive :: bool
  dp_audit :: "audit_entry list"

type_synonym ('w, 'a) daemon_effect = "('w daemon_process, fnox_error, 'a) comp"

definition on_resolver :: "('w, 'a) effect \<Rightarrow> ('w, 'a) daemon_effect" where
  "on_resolver m = (\<lambda>s. case m (dp_run s) of (r, run) \<Rightarrow> (r, s\<lparr>dp_run := run\<rparr>))"

definition scan_cache ::
  "'p daemon_library \<Rightarrow> (string, 'p) imap \<Rightarrow> string option \<Rightarrow> string \<Rightarrow> string list \<Rightarrow> bool \<Rightarrow> string \<Rightarrow> daemon_state \<Rightarrow>
   string \<times> secret_config \<Rightarrow> vals \<times> secrets \<times> (string, cached_key) imap \<Rightarrow> vals \<times> secrets \<times> (string, cached_key) imap" where
  \<comment> \<open>the first loop: results, misses and the keys under which misses may be cached\<close>
  "scan_cache L providers default_provider fingerprint ps no_defaults purpose st = (\<lambda>(key, sc) (results, misses, miss_keys).
     if secret_is_cacheable L providers default_provider sc purpose
     then (let ck = cache_key L fingerprint ps key sc no_defaults purpose
           in case im_get (ds_cache st) ck of
                Some (Some v) \<Rightarrow> (im_insert key (Some v) results, misses, miss_keys)
              | _ \<Rightarrow> (results, im_insert key sc misses, im_insert key ck miss_keys))
     else (results, im_insert key sc misses, miss_keys))"

definition fill_cache ::
  "string \<times> string option \<Rightarrow> (string, cached_key) imap \<times> vals \<times> daemon_state \<Rightarrow> (string, cached_key) imap \<times> vals \<times> daemon_state" where
  \<comment> \<open>the second loop\<close>
  "fill_cache = (\<lambda>(key, v) (miss_keys, results, st).
     (im_remove key miss_keys, im_insert key v results,
      case im_get miss_keys key of
        Some ck \<Rightarrow> if v \<noteq> None then st\<lparr>ds_cache := im_insert ck v (ds_cache st)\<rparr> else st
      | None \<Rightarrow> st))"

definition resolve_with_cache_tracking ::
  "('p, 'w) services \<Rightarrow> 'p daemon_library \<Rightarrow> ('p, 'l) config \<Rightarrow> string list \<Rightarrow> secrets \<Rightarrow> 'a request_context_scheme \<Rightarrow>
   ('w, vals \<times> string list) daemon_effect" where
  "resolve_with_cache_tracking S L c ps secrets req =
     andThen (lift_sum (get_providers c ps)) (\<lambda>providers.
     andThen get_state (\<lambda>s.
     let fingerprint = config_fingerprint L c (rq_env req);
         default_provider = cache_policy_default_provider c ps providers;
         (results, misses, miss_keys) =
           fold (scan_cache L providers default_provider fingerprint ps (rq_no_defaults req) (rq_purpose req) (dp_state s))
             secrets ([], [], []);
         cached_keys = im_keys results
     in andThen
          (if misses = [] then ok results
           else andThen (on_resolver (resolve_secrets_batch_with_pre_resolved S c ps misses results)) (\<lambda>resolved.
                andThen get_state (\<lambda>s.
                case fold fill_cache resolved (miss_keys, results, dp_state s) of
                  (_, results, st) \<Rightarrow> andThen (modify (\<lambda>s. s\<lparr>dp_state := st\<rparr>)) (\<lambda>_. ok results)))) (\<lambda>results.
        ok (concat (map (\<lambda>key. case im_get results key of Some v \<Rightarrow> [(key, v)] | None \<Rightarrow> []) (im_keys secrets)),
            cached_keys))))"


subsection \<open>Clear epochs\<close>

text \<open>The runs of a daemon: clears, resolutions handed to a client, what clients store, and what the
  daemon resolves itself. The count of clears and, for each resolution in flight, its epoch with the
  names cleared since it started are kept beside the state.\<close>

inductive daemon_run ::
  "'p daemon_library \<Rightarrow> 'w daemon_process \<Rightarrow> nat \<Rightarrow> (64 word \<times> (string \<Rightarrow> bool)) list \<Rightarrow> bool"
  for L :: "'p daemon_library" where
  start: "dp_state s = initial_daemon \<Longrightarrow> daemon_run L s 0 []"
| clearing: "daemon_run L s n flights \<Longrightarrow> Suc n < 2 ^ 64 \<Longrightarrow>
    daemon_run L (s\<lparr>dp_state := clear keys (dp_state s)\<rparr>) (Suc n)
      (map (\<lambda>(e, cl). (e, \<lambda>k. cl k \<or> keys = [] \<or> k \<in> set keys)) flights)"
| handing_over: "daemon_run L s n flights \<Longrightarrow>
    foreground_resolution_if_needed L (c :: ('p, lease_backend) config) ps secrets (req :: batch_request) (dp_state s) =
      Inr (Some fr) \<Longrightarrow>
    daemon_run L s n ((fr_epoch fr, \<lambda>_. False) # flights)"
| storing: "daemon_run L s n flights \<Longrightarrow>
    store_resolved_values L (c :: ('p, lease_backend) config) ps secrets (req :: batch_request) fingerprint epoch values (dp_state s) =
      Inr st' \<Longrightarrow>
    daemon_run L (s\<lparr>dp_state := st'\<rparr>) n flights"
| resolving: "daemon_run L s n flights \<Longrightarrow>
    resolve_with_cache_tracking S L (c :: ('p, lease_backend) config) ps secrets (req :: batch_request) s = (r, s') \<Longrightarrow>
    daemon_run L s' n flights"

definition same_epochs :: "daemon_state \<Rightarrow> daemon_state \<Rightarrow> bool" where
  "same_epochs st st' \<longleftrightarrow> ds_epoch st' = ds_epoch st \<and> ds_full_clear_epoch st' = ds_full_clear_epoch st \<and>
     ds_key_clear_epochs st' = ds_key_clear_epochs st"

lemma same_epochs_refl [simp]: "same_epochs st st"
  by (simp add: same_epochs_def)

lemma same_epochs_trans: "same_epochs a b \<Longrightarrow> same_epochs b c \<Longrightarrow> same_epochs a c"
  by (simp add: same_epochs_def)

lemma same_epochs_cleared: "same_epochs st st' \<Longrightarrow> cleared_since st' k e = cleared_since st k e"
  by (simp add: same_epochs_def cleared_since_def)

lemma store_one_epochs: "same_epochs (snd vs) (snd (store_one L pr dp fp ps nd pu ep e vs))"
  by (cases e; cases vs) (auto simp: store_one_def same_epochs_def split: option.splits)

lemma store_all_epochs: "same_epochs (snd vs) (snd (fold (store_one L pr dp fp ps nd pu ep) es vs))"
proof (induction es arbitrary: vs)
  case (Cons e es)
  show ?case
    using same_epochs_trans [OF store_one_epochs Cons.IH [of "store_one L pr dp fp ps nd pu ep e vs"]] by simp
qed simp

lemma store_epochs: "store_resolved_values L c ps secrets req fp epoch values st = Inr st' \<Longrightarrow> same_epochs st st'"
  using store_all_epochs [of "(values, st)"] by (auto simp: store_resolved_values_def Let_def bind_sum_Inr split: if_splits)

lemma fill_epochs: "same_epochs (snd (snd x)) (snd (snd (fold fill_cache rs x)))"
proof (induction rs arbitrary: x)
  case (Cons r rs)
  have "same_epochs (snd (snd x)) (snd (snd (fill_cache r x)))"
    by (cases r; cases x) (auto simp: fill_cache_def same_epochs_def split: option.split)
  from same_epochs_trans [OF this Cons.IH] show ?case by simp
qed simp

lemma on_resolver_state [simp]: "dp_state (snd (on_resolver m s)) = dp_state s"
  by (simp add: on_resolver_def split: prod.split)

lemma tracking_epochs:
  assumes "resolve_with_cache_tracking S L c ps secrets req s = (r, s')"
  shows "same_epochs (dp_state s) (dp_state s')"
proof (cases "get_providers c ps")
  case (Inl e)
  with assms show ?thesis by (simp add: resolve_with_cache_tracking_def andThen_def)
next
  case (Inr providers)
  obtain results misses miss_keys where scan: "fold (scan_cache L providers
      (cache_policy_default_provider c ps providers) (config_fingerprint L c (rq_env req)) ps
      (rq_no_defaults req) (rq_purpose req) (dp_state s)) secrets ([], [], []) = (results, misses, miss_keys)"
    by (metis prod_cases3)
  show ?thesis
  proof (cases "misses = []")
    case True
    with assms scan show ?thesis by (simp add: resolve_with_cache_tracking_def andThen_def Inr)
  next
    case False
    obtain r1 s1 where run: "on_resolver (resolve_secrets_batch_with_pre_resolved S c ps misses results) s = (r1, s1)"
      by fastforce
    then have st: "dp_state s1 = dp_state s" by (metis on_resolver_state snd_conv)
    show ?thesis
    proof (cases r1)
      case (Inl e)
      with assms scan False run st show ?thesis
        by (simp add: resolve_with_cache_tracking_def andThen_def \<open>get_providers c ps = Inr providers\<close>)
    next
      case (Inr resolved)
      have "same_epochs (dp_state s) (snd (snd (fold fill_cache resolved (miss_keys, results, dp_state s))))"
        using fill_epochs [of "(miss_keys, results, dp_state s)"] by simp
      with assms scan False run st show ?thesis
        by (auto simp: resolve_with_cache_tracking_def andThen_def Inr \<open>get_providers c ps = Inr providers\<close>
            split: prod.splits)
    qed
  qed
qed

lemma epochs_inserted:
  "im_get (fold (\<lambda>key. im_insert key e) ks m) k = (if k \<in> set ks then Some e else im_get m k)"
  by (induction ks arbitrary: m) (auto simp: imap_simps)

definition epochs_inv :: "daemon_state \<Rightarrow> nat \<Rightarrow> (64 word \<times> (string \<Rightarrow> bool)) list \<Rightarrow> bool" where
  "epochs_inv st n flights \<longleftrightarrow>
     n < 2 ^ 64 \<and> unat (ds_epoch st) = n \<and> unat (ds_full_clear_epoch st) \<le> n \<and>
     (\<forall>k m. im_get (ds_key_clear_epochs st) k = Some m \<longrightarrow> unat m \<le> n) \<and>
     (\<forall>(e, cl) \<in> set flights. unat e \<le> n \<and> (\<forall>k. cleared_since st k e \<longleftrightarrow> cl k))"

lemma epochs_inv_same: "epochs_inv st n flights \<Longrightarrow> same_epochs st st' \<Longrightarrow> epochs_inv st' n flights"
  by (auto simp: epochs_inv_def same_epochs_cleared) (auto simp: same_epochs_def)

lemma clear_epochs:
  "ds_epoch (clear keys st) = ds_epoch st + 1"
  "ds_full_clear_epoch (clear keys st) = (if keys = [] then ds_epoch st + 1 else ds_full_clear_epoch st)"
  "im_get (ds_key_clear_epochs (clear keys st)) k =
     (if keys = [] then None else if k \<in> set keys then Some (ds_epoch st + 1) else im_get (ds_key_clear_epochs st) k)"
  by (simp_all add: clear_def Let_def epochs_inserted)

lemma epochs_inv_clear:
  assumes "epochs_inv st n flights" and "Suc n < 2 ^ 64"
  shows "epochs_inv (clear keys st) (Suc n)
    (map (\<lambda>(e, cl). (e, \<lambda>k. cl k \<or> keys = [] \<or> k \<in> set keys)) flights)"
proof -
  from assms have incr: "unat (ds_epoch st + 1) = Suc n"
    by (simp add: epochs_inv_def unat_word_ariths)
  have "cleared_since (clear keys st) k e \<longleftrightarrow> cleared_since st k e \<or> keys = [] \<or> k \<in> set keys"
    if "unat e \<le> n" for k e
  proof -
    from that incr have "e < ds_epoch st + 1" by (simp add: word_less_nat_alt)
    then show ?thesis by (auto simp: cleared_since_def clear_epochs split: option.split)
  qed
  then show ?thesis
    using assms incr unfolding epochs_inv_def by (auto simp: clear_epochs intro: le_SucI split: if_splits)
qed

lemma daemon_run_inv: "daemon_run L s n flights \<Longrightarrow> epochs_inv (dp_state s) n flights"
proof (induction rule: daemon_run.induct)
  case (start s)
  then show ?case by (simp add: epochs_inv_def initial_daemon_def)
next
  case (clearing s n flights keys)
  then show ?case by (simp add: epochs_inv_clear)
next
  case (handing_over s n flights c ps secrets req fr)
  from handing_over(2) have "fr_epoch fr = ds_epoch (dp_state s)"
    by (auto simp: foreground_resolution_if_needed_def Let_def bind_sum_Inr split: if_splits)
  with handing_over(3) show ?case
    by (auto simp: epochs_inv_def cleared_since_def word_less_nat_alt not_less split: option.split)
next
  case (storing s n flights c ps secrets req fp epoch vs st')
  then show ?case by (simp add: epochs_inv_same [OF _ store_epochs])
next
  case (resolving s n flights S c ps secrets req r s')
  then show ?case by (blast intro: epochs_inv_same tracking_epochs)
qed


subsection \<open>What a client may store\<close>

definition stored_value ::
  "'p daemon_library \<Rightarrow> (string, 'p) imap \<Rightarrow> string option \<Rightarrow> string \<Rightarrow> string list \<Rightarrow> bool \<Rightarrow> string \<Rightarrow>
   64 word option \<Rightarrow> secrets \<Rightarrow> vals \<Rightarrow> daemon_state \<Rightarrow> cached_key \<Rightarrow> string option" where
  \<comment> \<open>the value that storing puts under a key of the cache, if any\<close>
  "stored_value L providers default_provider fingerprint ps no_defaults purpose epoch secrets values st ck =
     (case im_get secrets (ck_secret ck) of
        None \<Rightarrow> None
      | Some sc \<Rightarrow>
          if (case epoch of Some e \<Rightarrow> cleared_since st (ck_secret ck) e | None \<Rightarrow> False) \<or>
             \<not> secret_is_cacheable L providers default_provider sc purpose \<or>
             ck \<noteq> cache_key L fingerprint ps (ck_secret ck) sc no_defaults purpose
          then None
          else (case im_get values (ck_secret ck) of Some (Some v) \<Rightarrow> Some v | _ \<Rightarrow> None))"

lemma ck_secret_cache_key [simp]: "ck_secret (cache_key L fp ps k sc nd pu) = k"
  by (simp add: cache_key_def)

lemma stored_value_same:
  "same_epochs st st' \<Longrightarrow> im_get vs' (ck_secret ck) = im_get vs (ck_secret ck) \<Longrightarrow>
   stored_value L pr dp fp ps nd pu ep es vs' st' ck = stored_value L pr dp fp ps nd pu ep es vs st ck"
  by (simp add: stored_value_def same_epochs_cleared split: option.split)

lemma stored_value_single:
  "stored_value L pr dp fp ps nd pu ep [(k, sc)] vs st ck =
     (if ck = cache_key L fp ps k sc nd pu \<and> (case ep of Some e \<Rightarrow> \<not> cleared_since st k e | None \<Rightarrow> True) \<and>
         secret_is_cacheable L pr dp sc pu
      then (case im_get vs k of Some (Some v) \<Rightarrow> Some v | _ \<Rightarrow> None) else None)"
  by (auto simp: stored_value_def split: option.split)

lemma store_one_cache:
  "im_get (ds_cache (snd (store_one L pr dp fp ps nd pu ep (k, sc) (vs, st)))) ck =
     (case stored_value L pr dp fp ps nd pu ep [(k, sc)] vs st ck of Some v \<Rightarrow> Some (Some v) | None \<Rightarrow> im_get (ds_cache st) ck)"
  by (cases ep) (auto simp: stored_value_single store_one_def imap_simps split: option.split)

lemma store_one_values:
  "j \<noteq> k \<Longrightarrow> im_get (fst (store_one L pr dp fp ps nd pu ep (k, sc) (vs, st))) j = im_get vs j"
  by (cases ep) (auto simp: store_one_def imap_simps split: option.split)

lemma store_all_cache:
  assumes "im_wf es"
  shows "im_get (ds_cache (snd (fold (store_one L pr dp fp ps nd pu ep) es (vs, st)))) ck =
     (case stored_value L pr dp fp ps nd pu ep es vs st ck of Some v \<Rightarrow> Some (Some v) | None \<Rightarrow> im_get (ds_cache st) ck)"
  using assms
proof (induction es arbitrary: vs st)
  case (Cons e es)
  obtain k sc where e: "e = (k, sc)" by (cases e)
  obtain vs1 st1 where one: "store_one L pr dp fp ps nd pu ep (k, sc) (vs, st) = (vs1, st1)" by fastforce
  from Cons.prems e have wf: "im_wf es" and new: "im_get es k = None" by (simp_all add: im_wf_Cons)
  have eps: "same_epochs st st1" using store_one_epochs [of "(vs, st)" L pr dp fp ps nd pu ep "(k, sc)"] one by simp
  have rest: "im_get (ds_cache (snd (fold (store_one L pr dp fp ps nd pu ep) es (vs1, st1)))) ck =
     (case stored_value L pr dp fp ps nd pu ep es vs1 st1 ck of Some v \<Rightarrow> Some (Some v) | None \<Rightarrow> im_get (ds_cache st1) ck)"
    by (rule Cons.IH [OF wf])
  have first: "im_get (ds_cache st1) ck =
     (case stored_value L pr dp fp ps nd pu ep [(k, sc)] vs st ck of Some v \<Rightarrow> Some (Some v) | None \<Rightarrow> im_get (ds_cache st) ck)"
    using store_one_cache [of L pr dp fp ps nd pu ep k sc vs st ck] one by simp
  show ?case
  proof (cases "ck_secret ck = k")
    case True
    with new have "stored_value L pr dp fp ps nd pu ep es vs1 st1 ck = None" by (simp add: stored_value_def)
    moreover have "stored_value L pr dp fp ps nd pu ep (e # es) vs st ck = stored_value L pr dp fp ps nd pu ep [(k, sc)] vs st ck"
      using True e by (simp add: stored_value_def)
    ultimately show ?thesis using rest first one e by simp
  next
    case False
    then have "stored_value L pr dp fp ps nd pu ep [(k, sc)] vs st ck = None"
      by (simp add: stored_value_def)
    moreover have "stored_value L pr dp fp ps nd pu ep es vs1 st1 ck = stored_value L pr dp fp ps nd pu ep es vs st ck"
      using store_one_values [of "ck_secret ck" k L pr dp fp ps nd pu ep sc vs st] False one
      by (intro stored_value_same [OF eps]) simp
    moreover have "stored_value L pr dp fp ps nd pu ep (e # es) vs st ck = stored_value L pr dp fp ps nd pu ep es vs st ck"
      using False e by (simp add: stored_value_def)
    ultimately show ?thesis using rest first one e by (simp split: option.split)
  qed
qed (simp add: stored_value_def)

lemma store_resolved_cache:
  assumes "im_wf secrets" and "store_resolved_values L c ps secrets req fingerprint epoch vs st = Inr st'"
  shows "im_get (ds_cache st') ck =
    (if config_fingerprint L c (rq_env req) \<noteq> fingerprint then im_get (ds_cache st) ck
     else case get_providers c ps of
       Inl _ \<Rightarrow> im_get (ds_cache st) ck
     | Inr providers \<Rightarrow>
         (case stored_value L providers (cache_policy_default_provider c ps providers) fingerprint ps (rq_no_defaults req)
                (rq_purpose req) epoch secrets vs st ck of
            Some v \<Rightarrow> Some (Some v) | None \<Rightarrow> im_get (ds_cache st) ck))"
  using assms(2) by (auto simp: store_resolved_values_def Let_def bind_sum_Inr store_all_cache [OF assms(1)] split: if_splits)

text \<open>C10: A value that was resolved before its secret was cleared is never cached, and no other value
  is lost. In every run of the daemon, the epoch handed to a client rejects exactly the names that were
  cleared after the client's resolution started; storing the client's values leaves every entry of
  such a name as it was, and caches the values of the other cacheable secrets.\<close>

theorem stale_results_are_never_cached:
  assumes "daemon_run L s n flights" and "(e, cl) \<in> set flights"
    and "im_wf secrets"
    and "store_resolved_values L c ps secrets req (config_fingerprint L c (rq_env req)) (Some e) vs (dp_state s) = Inr st'"
  shows "cleared_since (dp_state s) k e = cl k \<and>
    (if cl k then \<forall>ck. ck_secret ck = k \<longrightarrow> im_get (ds_cache st') ck = im_get (ds_cache (dp_state s)) ck
     else \<forall>providers sc v. get_providers c ps = Inr providers \<longrightarrow> im_get secrets k = Some sc \<longrightarrow>
       secret_is_cacheable L providers (cache_policy_default_provider c ps providers) sc (rq_purpose req) \<longrightarrow>
       im_get vs k = Some (Some v) \<longrightarrow>
       im_get (ds_cache st') (cache_key L (config_fingerprint L c (rq_env req)) ps k sc (rq_no_defaults req) (rq_purpose req)) =
         Some (Some v))"
proof -
  from daemon_run_inv [OF assms(1)] assms(2) have cl: "cleared_since (dp_state s) k e = cl k" for k
    by (auto simp: epochs_inv_def)
  note after = store_resolved_cache [OF assms(3,4)]
  show ?thesis
    by (auto simp: cl after stored_value_def split: sum.split option.split)
qed


subsection \<open>Keys of the cache\<close>

lemma until_brace:
  assumes "a @ CHR ''{'' # j = a' @ CHR ''{'' # j'" and "CHR ''{'' \<notin> set a" and "CHR ''{'' \<notin> set a'"
  shows "a = a' \<and> j = j'"
proof -
  have stop: "takeWhile (\<lambda>c. c \<noteq> CHR ''{'') (b @ CHR ''{'' # i) = b" if "CHR ''{'' \<notin> set b" for b i
    using that by (subst takeWhile_append2) auto
  from assms(1) have "takeWhile (\<lambda>c. c \<noteq> CHR ''{'') (a @ CHR ''{'' # j) = takeWhile (\<lambda>c. c \<noteq> CHR ''{'') (a' @ CHR ''{'' # j')"
    by simp
  with stop assms(2,3) have "a = a'" by simp
  with assms(1) show ?thesis by simp
qed

lemma purpose_ends:
  assumes "a @ purpose_str p = a' @ purpose_str p'"
  shows "p = p' \<and> a = a'"
proof -
  from assms have "rev (purpose_str p) @ rev a = rev (purpose_str p') @ rev a'"
    by (metis rev_append)
  then have "p = p'" by (cases p; cases p') simp_all
  with assms show ?thesis by simp
qed

lemma bool_ends:
  assumes "a @ bool_text b = a' @ bool_text b'"
  shows "b = b' \<and> a = a'"
proof -
  from assms have "rev (bool_text b) @ rev a = rev (bool_text b') @ rev a'"
    by (metis rev_append)
  then have "b = b'" by (cases b; cases b') (simp_all add: bool_text_def)
  with assms show ?thesis by simp
qed

lemma split_char_join_one: "d \<notin> set w \<Longrightarrow> split_char d (w @ d # s) = w # split_char d s"
  by (induction w) (auto split: list.split)

lemma split_char_join: "ws \<noteq> [] \<Longrightarrow> \<forall>w \<in> set ws. d \<notin> set w \<Longrightarrow> split_char d (join [d] ws) = ws"
proof (induction ws rule: induct_list012)
  case (3 w v ws)
  then show ?case by (simp add: split_char_join_one)
qed (simp_all add: split_char_none)

lemma purpose_no_brace: "CHR ''{'' \<notin> set (purpose_str p)"
  by (cases p) simp_all

lemma bool_no_brace: "CHR ''{'' \<notin> set (bool_text b)"
  by (simp add: bool_text_def)

lemma join_set: "set (join sep ws) \<subseteq> \<Union> (set (map set ws)) \<union> set sep"
  by (induction sep ws rule: join.induct) auto

text \<open>Entries of the cache are kept apart. For profile stacks of accepted names and a secret name, all
  without a brace, the bytes that are hashed for an entry determine the profile stack, the
  \<open>no_defaults\<close> setting, the purpose and the text of the secret's configuration: short of a collision of
  the hash, a value cached for one of them is not served for another.\<close>

lemma cache_keys_separate:
  assumes "cache_key_input json fp ps key sc nd (purpose_str p) = cache_key_input json fp' ps' key sc' nd' (purpose_str p')"
    and "length fp = length fp'" and "\<And>sc. \<exists>j. json sc = CHR ''{'' # j" and "CHR ''{'' \<notin> set key"
    and "ps \<noteq> []" "ps' \<noteq> []" and "list_all (\<lambda>n. is_valid_name n \<and> CHR ''{'' \<notin> set n) (ps @ ps')"
  shows "fp = fp' \<and> ps = ps' \<and> nd = nd' \<and> p = p' \<and> json sc = json sc'"
proof -
  obtain j j' where j: "json sc = CHR ''{'' # j" "json sc' = CHR ''{'' # j'" using assms(3) by metis
  let ?a = "join '','' ps @ bool_text nd @ key @ purpose_str p"
  let ?a' = "join '','' ps' @ bool_text nd' @ key @ purpose_str p'"
  have names: "CHR ''{'' \<notin> set (join '','' ps)" "CHR ''{'' \<notin> set (join '','' ps')"
    using assms(7) join_set [of "'',''" ps] join_set [of "'',''" ps'] by (auto simp: list_all_iff)
  from assms(1,2) have fp: "fp = fp'" and rest: "?a @ CHR ''{'' # j = ?a' @ CHR ''{'' # j'"
    by (auto simp: cache_key_input_def j)
  have "?a = ?a' \<and> j = j'"
    by (rule until_brace [OF rest]) (use names assms(4) in \<open>simp_all add: purpose_no_brace bool_no_brace\<close>)
  then have "(join '','' ps @ bool_text nd @ key) @ purpose_str p = (join '','' ps' @ bool_text nd' @ key) @ purpose_str p'"
    and "j = j'" by simp_all
  from purpose_ends [OF this(1)] have "p = p'" and "join '','' ps @ bool_text nd = join '','' ps' @ bool_text nd'" by simp_all
  from bool_ends [OF this(2)] have "nd = nd'" and "join '','' ps = join '','' ps'" by simp_all
  then have "split_char (CHR '','') (join '','' ps) = split_char (CHR '','') (join '','' ps')" by simp
  moreover have "split_char (CHR '','') (join '','' ps) = ps" "split_char (CHR '','') (join '','' ps') = ps'"
    using assms(5,6,7) by (auto simp: list_all_iff intro!: split_char_join dest: is_valid_nameD(3))
  ultimately have "ps = ps'" by simp
  with fp \<open>p = p'\<close> \<open>nd = nd'\<close> \<open>j = j'\<close> j show ?thesis by simp
qed

text \<open>The fingerprint has no such separation: environments that assign differently may hash the same
  bytes, because names and values are concatenated.\<close>

lemma fingerprint_confuses_environments:
  "fingerprint_input L c [(''FNOX_A'', ''1FNOX_B2'')] = fingerprint_input L c [(''FNOX_A'', ''1''), (''FNOX_B'', ''2'')]"
  by (simp add: fingerprint_input_def sort_key_def)


subsection \<open>What the daemon resolves itself\<close>

definition in_order_of :: "string list \<Rightarrow> vals \<Rightarrow> vals" where
  "in_order_of ks m = concat (map (\<lambda>key. case im_get m key of Some v \<Rightarrow> [(key, v)] | None \<Rightarrow> []) ks)"

lemma in_order_of_get: "im_get (in_order_of ks m) k = (if k \<in> set ks then im_get m k else None)"
  by (induction ks) (auto simp: in_order_of_def split: option.split)

lemma in_order_of_keys: "set (im_keys (in_order_of ks m)) \<subseteq> set ks"
  by (induction ks) (auto simp: in_order_of_def split: option.split)

lemma in_order_of_wf: "distinct ks \<Longrightarrow> im_wf (in_order_of ks m)"
proof (induction ks)
  case (Cons k ks)
  then have "im_wf (in_order_of ks m)" "im_get (in_order_of ks m) k = None"
    by (simp_all add: in_order_of_get)
  then show ?case by (auto simp: in_order_of_def im_wf_Cons split: option.split)
qed (simp add: in_order_of_def)

lemma batch_is_ordered:
  assumes "resolve_secrets_batch_with_pre_resolved S c ps secrets pre s = (Inr r, s')"
  shows "\<exists>m. r = in_order_of (im_keys secrets) m"
proof -
  obtain providers where pr: "get_providers c ps = Inr providers"
    using assms by (cases "get_providers c ps")
      (simp_all add: resolve_secrets_batch_with_pre_resolved_def resolve_secrets_batch_in_scope_def andThen_def)
  obtain assigned no_provider where cl: "classify S c ps secrets = (assigned, no_provider)" by fastforce
  let ?deps = "default_deps S ps (hard_default assigned no_provider providers)
      (set (im_keys secrets) \<union> set (im_keys pre)) secrets"
  have "\<not> isl ?deps"
    using assms
    by (cases ?deps) (auto simp: resolve_secrets_batch_with_pre_resolved_def resolve_secrets_batch_in_scope_def pr cl)
  then obtain all hard where dd: "?deps = Inr (all, hard)" by (cases ?deps) auto
  obtain levels cycle where lv: "compute_resolution_levels (sv_rank S) (im_keys secrets)
      (merge_deps (im_map (\<lambda>_ (name, _). provider_env S providers name) assigned) all) (set no_provider) = (levels, cycle)"
    by fastforce
  from assms show ?thesis
    unfolding resolve_secrets_batch_with_pre_resolved_def resolve_secrets_batch_in_scope_def
    by (simp only: pr cl dd lv Let_def prod.case effect_simps) (auto simp: in_order_of_def andThen_Inr simp del: effect_simps)
qed

lemma im_has_snoc: "im_has (a @ [(k, b)]) j \<longleftrightarrow> im_has a j \<or> k = j"
  by (auto simp: im_has_def im_keys_def)

lemma scan_all:
  fixes L :: "'p daemon_library" and pr :: "(string, 'p) imap" and dp and fp and ps and nd and pu
  defines "hit st \<equiv> cached_value L pr dp fp ps nd pu st"
  assumes "im_wf es" and "\<And>k. im_has es k \<Longrightarrow> \<not> im_has r k \<and> \<not> im_has m k \<and> \<not> im_has mk k"
  shows "fold (scan_cache L pr dp fp ps nd pu st) es (r, m, mk) =
    (r @ map (\<lambda>e. (fst e, hit st e)) (filter (\<lambda>e. hit st e \<noteq> None) es),
     m @ filter (\<lambda>e. hit st e = None) es,
     mk @ map (\<lambda>(k, sc). (k, cache_key L fp ps k sc nd pu))
       (filter (\<lambda>e. hit st e = None \<and> secret_is_cacheable L pr dp (snd e) pu) es))"
  using assms(2,3)
proof (induction es arbitrary: r m mk)
  case (Cons e es)
  obtain k sc where e: "e = (k, sc)" by (cases e)
  from Cons.prems(2) [of k] e have new: "\<not> im_has r k" "\<not> im_has m k" "\<not> im_has mk k" by simp_all
  from Cons.prems(1) e have wf: "im_wf es" and fresh: "\<not> im_has es k" by (simp_all add: im_wf_Cons im_has_None)
  let ?ck = "cache_key L fp ps k sc nd pu"
  have step: "scan_cache L pr dp fp ps nd pu st (k, sc) (r, m, mk) =
    (case hit st (k, sc) of
       Some v \<Rightarrow> (r @ [(k, Some v)], m, mk)
     | None \<Rightarrow> (r, m @ [(k, sc)], if secret_is_cacheable L pr dp sc pu then mk @ [(k, ?ck)] else mk))"
    by (auto simp: scan_cache_def hit_def cached_value_def Let_def im_insert_new [OF new(1)] im_insert_new [OF new(2)]
        im_insert_new [OF new(3)] split: option.split)
  show ?case
  proof (cases "hit st (k, sc)")
    case None
    have "fold (scan_cache L pr dp fp ps nd pu st) es
        (r, m @ [(k, sc)], if secret_is_cacheable L pr dp sc pu then mk @ [(k, ?ck)] else mk) =
      (r @ map (\<lambda>e. (fst e, hit st e)) (filter (\<lambda>e. hit st e \<noteq> None) es),
       (m @ [(k, sc)]) @ filter (\<lambda>e. hit st e = None) es,
       (if secret_is_cacheable L pr dp sc pu then mk @ [(k, ?ck)] else mk) @ map (\<lambda>(k, sc). (k, cache_key L fp ps k sc nd pu))
         (filter (\<lambda>e. hit st e = None \<and> secret_is_cacheable L pr dp (snd e) pu) es))"
      using Cons.prems(2) fresh by (intro Cons.IH [OF wf]) (auto simp: im_has_snoc e)
    then show ?thesis using step None by (simp add: e)
  next
    case (Some v)
    have "fold (scan_cache L pr dp fp ps nd pu st) es (r @ [(k, Some v)], m, mk) =
      ((r @ [(k, Some v)]) @ map (\<lambda>e. (fst e, hit st e)) (filter (\<lambda>e. hit st e \<noteq> None) es),
       m @ filter (\<lambda>e. hit st e = None) es,
       mk @ map (\<lambda>(k, sc). (k, cache_key L fp ps k sc nd pu))
         (filter (\<lambda>e. hit st e = None \<and> secret_is_cacheable L pr dp (snd e) pu) es))"
      using Cons.prems(2) fresh by (intro Cons.IH [OF wf]) (auto simp: im_has_snoc e)
    then show ?thesis using step Some by (simp add: e)
  qed
qed simp


lemma fill_all:
  assumes "im_wf rs" and "\<And>k ck. im_get mk k = Some ck \<Longrightarrow> ck_secret ck = k"
  shows "im_get (fst (snd (fold fill_cache rs (mk, r, st)))) k = (case im_get rs k of Some v \<Rightarrow> Some v | None \<Rightarrow> im_get r k)"
    and "im_get (ds_cache (snd (snd (fold fill_cache rs (mk, r, st))))) ck =
      (case im_get rs (ck_secret ck) of
         Some (Some v) \<Rightarrow> if im_get mk (ck_secret ck) = Some ck then Some (Some v) else im_get (ds_cache st) ck
       | _ \<Rightarrow> im_get (ds_cache st) ck)"
proof -
  have "im_get (fst (snd (fold fill_cache rs (mk, r, st)))) k = (case im_get rs k of Some v \<Rightarrow> Some v | None \<Rightarrow> im_get r k) \<and>
    im_get (ds_cache (snd (snd (fold fill_cache rs (mk, r, st))))) ck =
      (case im_get rs (ck_secret ck) of
         Some (Some v) \<Rightarrow> if im_get mk (ck_secret ck) = Some ck then Some (Some v) else im_get (ds_cache st) ck
       | _ \<Rightarrow> im_get (ds_cache st) ck)"
    using assms
  proof (induction rs arbitrary: mk r st)
    case (Cons e rs)
    obtain j v where e: "e = (j, v)" by (cases e)
    from Cons.prems(1) e have wf: "im_wf rs" and new: "im_get rs j = None" by (simp_all add: im_wf_Cons)
    obtain mk1 r1 st1 where one: "fill_cache (j, v) (mk, r, st) = (mk1, r1, st1)" by (metis prod_cases3)
    then have mk1: "mk1 = im_remove j mk" and r1: "r1 = im_insert j v r"
      and st1: "ds_cache st1 = (case im_get mk j of
        Some ck \<Rightarrow> if v \<noteq> None then im_insert ck v (ds_cache st) else ds_cache st | None \<Rightarrow> ds_cache st)"
      by (auto simp: fill_cache_def split: option.split)
    have keys: "im_get mk1 k = Some ck \<Longrightarrow> ck_secret ck = k" for k ck
      using Cons.prems(2) [of k ck] by (simp add: mk1 imap_simps split: if_splits)
    note IH = Cons.IH [OF wf, where mk = mk1 and r = r1 and st = st1, OF keys]
    have own: "im_get mk j = Some ck \<Longrightarrow> ck_secret ck = j" for ck by (rule Cons.prems(2))
    have mk_ck: "im_get mk1 (ck_secret ck) = (if ck_secret ck = j then None else im_get mk (ck_secret ck))"
      by (simp add: mk1 imap_simps)
    have cache1: "im_get (ds_cache st1) ck =
      (if im_get mk j = Some ck \<and> v \<noteq> None then Some v else im_get (ds_cache st) ck)"
      by (auto simp: st1 imap_simps split: option.split)
    have r1_k: "im_get r1 i = (if i = j then Some v else im_get r i)" for i by (simp add: r1 imap_simps)
    have fold: "fold fill_cache (e # rs) (mk, r, st) = fold fill_cache rs (mk1, r1, st1)" by (simp add: e one)
    show ?case
    proof (cases "ck_secret ck = j")
      case True
      with new IH show ?thesis
        unfolding fold by (cases "k = j") (simp_all add: e r1_k cache1 mk_ck split: option.split)
    next
      case False
      then have "im_get mk j \<noteq> Some ck" using own by blast
      with False new IH show ?thesis
        unfolding fold by (cases "k = j") (simp_all add: e r1_k cache1 mk_ck split: option.split)
    qed
  qed simp
  then show "im_get (fst (snd (fold fill_cache rs (mk, r, st)))) k = (case im_get rs k of Some v \<Rightarrow> Some v | None \<Rightarrow> im_get r k)"
    and "im_get (ds_cache (snd (snd (fold fill_cache rs (mk, r, st))))) ck =
      (case im_get rs (ck_secret ck) of
         Some (Some v) \<Rightarrow> if im_get mk (ck_secret ck) = Some ck then Some (Some v) else im_get (ds_cache st) ck
       | _ \<Rightarrow> im_get (ds_cache st) ck)" by blast+
qed


definition cache_after ::
  "'p daemon_library \<Rightarrow> (string, 'p) imap \<Rightarrow> string option \<Rightarrow> string \<Rightarrow> string list \<Rightarrow> bool \<Rightarrow> string \<Rightarrow>
   secrets \<Rightarrow> vals \<Rightarrow> daemon_state \<Rightarrow> cached_key \<Rightarrow> string option option" where
  \<comment> \<open>the cache after some secrets were resolved: the values of those that may be cached are entered\<close>
  "cache_after L providers default_provider fingerprint ps no_defaults purpose secrets resolved st ck =
     (case (im_get secrets (ck_secret ck), im_get resolved (ck_secret ck)) of
        (Some sc, Some (Some v)) \<Rightarrow>
          if secret_is_cacheable L providers default_provider sc purpose \<and>
             ck = cache_key L fingerprint ps (ck_secret ck) sc no_defaults purpose
          then Some (Some v) else im_get (ds_cache st) ck
      | _ \<Rightarrow> im_get (ds_cache st) ck)"

lemma im_get_filter: "im_wf es \<Longrightarrow> im_get (filter P es) k = (case im_get es k of Some v \<Rightarrow> if P (k, v) then Some v else None | None \<Rightarrow> None)"
  by (induction es) (auto simp: im_wf_Cons split: option.split if_splits)

lemma im_get_map_keys: "im_get (map (\<lambda>e. (fst e, f e)) es) k = (case im_get es k of Some v \<Rightarrow> Some (f (k, v)) | None \<Rightarrow> None)"
  by (induction es) auto

lemma im_wf_filter: "im_wf es \<Longrightarrow> im_wf (filter P es)"
  by (auto simp: im_wf_def im_keys_def distinct_map_filter)

text \<open>C24: The daemon resolves misses only. When a batch succeeds, the secrets without a hit were
  resolved together, with the hits as known values; each secret is answered by its hit, or by the
  resolved value; and the cache holds the new values of the secrets that may be cached, under their
  keys, with every other entry as it was.\<close>

theorem daemon_resolves_misses_only:
  assumes "im_wf secrets" and "get_providers c ps = Inr providers"
    and "resolve_with_cache_tracking S L c ps secrets req s = (Inr (results, cached), s')"
  defines "fp \<equiv> config_fingerprint L c (rq_env req)"
    and "dp \<equiv> cache_policy_default_provider c ps providers"
  defines "hit \<equiv> cached_value L providers dp fp ps (rq_no_defaults req) (rq_purpose req) (dp_state s)"
  defines "misses \<equiv> filter (\<lambda>e. hit e = None) secrets"
    and "hits \<equiv> map (\<lambda>e. (fst e, hit e)) (filter (\<lambda>e. hit e \<noteq> None) secrets)"
  shows "cached = im_keys hits \<and>
    (\<exists>resolved.
      (if misses = [] then resolved = [] \<and> dp_run s' = dp_run s
       else resolve_secrets_batch_with_pre_resolved S c ps misses hits (dp_run s) = (Inr resolved, dp_run s')) \<and>
      results = in_order_of (im_keys secrets) (im_extend hits resolved) \<and>
      im_get (ds_cache (dp_state s')) ck =
        cache_after L providers dp fp ps (rq_no_defaults req) (rq_purpose req) misses resolved (dp_state s) ck)"
proof -
  let ?mk = "map (\<lambda>(k, sc). (k, cache_key L fp ps k sc (rq_no_defaults req) (rq_purpose req)))
       (filter (\<lambda>e. hit e = None \<and> secret_is_cacheable L providers dp (snd e) (rq_purpose req)) secrets)"
  have scan: "fold (scan_cache L providers dp fp ps (rq_no_defaults req) (rq_purpose req) (dp_state s)) secrets ([], [], [])
      = (hits, misses, ?mk)"
    unfolding hits_def misses_def hit_def using scan_all [OF assms(1), of "[]" "[]" "[]"] by simp
  show ?thesis
  proof (cases "misses = []")
    case True
    with assms(3) scan have "s' = s" "cached = im_keys hits" "results = in_order_of (im_keys secrets) hits"
      by (auto simp: resolve_with_cache_tracking_def assms(2) Let_def andThen_get_state in_order_of_def
          fp_def [symmetric] dp_def [symmetric])
    with True show ?thesis by (auto simp: cache_after_def)
  next
    case False
    from assms(3) scan False obtain resolved s1 where
        run: "on_resolver (resolve_secrets_batch_with_pre_resolved S c ps misses hits) s = (Inr resolved, s1)"
      and filled: "s' = s1\<lparr>dp_state := snd (snd (fold fill_cache resolved (?mk, hits, dp_state s1)))\<rparr>"
      and cached: "cached = im_keys hits"
      and results: "results = in_order_of (im_keys secrets) (fst (snd (fold fill_cache resolved (?mk, hits, dp_state s1))))"
      by (auto simp: resolve_with_cache_tracking_def assms(2) Let_def andThen_get_state andThen_Inr in_order_of_def
          fp_def [symmetric] dp_def [symmetric] case_prod_beta)
    from run have batch: "resolve_secrets_batch_with_pre_resolved S c ps misses hits (dp_run s) = (Inr resolved, dp_run s')"
      and st: "dp_state s1 = dp_state s"
      by (auto simp: on_resolver_def filled split: prod.splits)
    have "im_wf misses" using assms(1) by (simp add: misses_def im_wf_filter)
    with batch_is_ordered [OF batch] have wf: "im_wf resolved"
      by (auto simp: im_wf_def intro: in_order_of_wf [unfolded im_wf_def])
    have mk: "im_get ?mk k = (case im_get misses k of
        Some sc \<Rightarrow> if secret_is_cacheable L providers dp sc (rq_purpose req)
          then Some (cache_key L fp ps k sc (rq_no_defaults req) (rq_purpose req)) else None | None \<Rightarrow> None)" for k
      using im_get_map_keys [of "\<lambda>(k, sc). cache_key L fp ps k sc (rq_no_defaults req) (rq_purpose req)"]
      by (auto simp: misses_def im_get_filter [OF assms(1)] split_def split: option.split)
    have own: "im_get ?mk k = Some ck \<Longrightarrow> ck_secret ck = k" for k ck
      by (auto simp: mk split: option.splits if_splits)
    have "im_get (fst (snd (fold fill_cache resolved (?mk, hits, dp_state s1)))) k = im_get (im_extend hits resolved) k" for k
      using fill_all(1) [where mk = ?mk, OF wf own] wf by (simp add: imap_simps)
    then have "results = in_order_of (im_keys secrets) (im_extend hits resolved)"
      unfolding results in_order_of_def by simp
    moreover have "im_get (ds_cache (dp_state s')) ck =
        cache_after L providers dp fp ps (rq_no_defaults req) (rq_purpose req) misses resolved (dp_state s) ck"
      using fill_all(2) [where mk = ?mk and r = hits and st = "dp_state s1" and ck = ck, OF wf own]
      by (auto simp: filled cache_after_def mk st split: option.split)
    ultimately show ?thesis using False batch cached by auto
  qed
qed


subsection \<open>A concrete daemon\<close>

definition demo_library :: "string daemon_library" where
  "demo_library =
     \<lparr>dl_hash = (\<lambda>s. s), dl_secret_json = (\<lambda>_. ''{}''), dl_read = (\<lambda>_. None), dl_exists = (\<lambda>_. False),
      dl_display = (\<lambda>_. []), dl_cache_enabled = (\<lambda>_. True)\<rparr>"

definition demo_batch :: batch_request where
  "demo_batch =
     \<lparr>rq_cwd = [], rq_config = [], rq_profile = [''default''], rq_age_key_file = None, rq_if_missing = None,
      rq_no_defaults = False, rq_non_interactive = False, rq_purpose = ''exec'', rq_env = [],
      rq_keys = [''TOKEN''], rq_include_all_modes = True\<rparr>"

definition demo_process :: "daemon_state \<Rightarrow> unit daemon_process" where
  "demo_process st =
     \<lparr>dp_run = \<lparr>rs_env = [], rs_world = ()\<rparr>, dp_state = st, dp_cwd = [], dp_settings = None,
      dp_non_interactive = False, dp_audit = []\<rparr>"

definition demo_daemon_config :: "(string, lease_backend) config" where
  "demo_daemon_config = new_config\<lparr>c_secrets := [(''TOKEN'', demo_secret None False)]\<rparr>"

lemma demo_foreground:
  "foreground_resolution_if_needed demo_library demo_daemon_config [''default''] (c_secrets demo_daemon_config) demo_batch initial_daemon =
     Inr (Some \<lparr>fr_fingerprint = [], fr_cached_values = [], fr_keys = [''TOKEN''], fr_epoch = 0\<rparr>)"
  by code_simp

lemma demo_flight:
  "daemon_run demo_library (demo_process (clear [''TOKEN''] initial_daemon)) (Suc 0)
     [(0, \<lambda>k. False \<or> [''TOKEN''] = [] \<or> k \<in> set [''TOKEN''])]"
proof -
  have "daemon_run demo_library (demo_process initial_daemon) 0 []"
    by (rule daemon_run.start) (simp add: demo_process_def)
  from daemon_run.handing_over [OF this, of demo_daemon_config "[''default'']" "c_secrets demo_daemon_config" demo_batch]
  have "daemon_run demo_library (demo_process initial_daemon) 0 [(0, \<lambda>_. False)]"
    using demo_foreground by (simp add: demo_process_def)
  from daemon_run.clearing [OF this, of "[''TOKEN'']"] show ?thesis by (simp add: demo_process_def)
qed

lemma demo_store:
  "store_resolved_values demo_library demo_daemon_config [''default''] (c_secrets demo_daemon_config) demo_batch
     (config_fingerprint demo_library demo_daemon_config (rq_env demo_batch)) (Some 0) [(''TOKEN'', Some ''old'')]
     (dp_state (demo_process (clear [''TOKEN''] initial_daemon))) = Inr (clear [''TOKEN''] initial_daemon)"
  by code_simp

theorem stale_results_are_never_cached_witness:
  "cleared_since (dp_state (demo_process (clear [''TOKEN''] initial_daemon))) ''TOKEN'' 0 = True"
  using stale_results_are_never_cached [OF demo_flight _ _ demo_store, of _ "''TOKEN''"]
  by (simp add: demo_daemon_config_def im_wf_def im_keys_def)

definition demo_tracking :: "(fnox_error + vals \<times> string list) \<times> unit daemon_process" where
  "demo_tracking = resolve_with_cache_tracking toy_services demo_library toy_config [''default''] (c_secrets toy_config) demo_batch
     (demo_process initial_daemon)"

lemma demo_tracked: "demo_tracking = (Inr (toy_answers, []), snd demo_tracking)"
  by code_simp

theorem daemon_resolves_misses_only_witness:
  "\<exists>resolved. toy_answers = in_order_of (im_keys (c_secrets toy_config)) resolved"
proof -
  have "im_wf (c_secrets toy_config)" by code_simp
  moreover have "get_providers toy_config [''default''] = Inr [(''age'', ''age''), (''op'', ''op'')]" by code_simp
  ultimately show ?thesis
    by (rule daemon_resolves_misses_only [OF _ _ demo_tracked [unfolded demo_tracking_def], THEN conjunct2, THEN exE])
      (elim conjE, rule exI)
qed

end
