(* ===== verification/Daemon.thy ===== *)
theory Daemon
  imports DaemonCache
begin

text \<open>
  The daemon's requests (\<open>src/daemon.rs\<close>, \<open>crates/fnox-client/src/wire.rs\<close>) and the audit log of
  the reads it serves (\<open>crates/fnox-core/src/audit.rs\<close>). Requests run one after another: every
  handler that changes something holds the request lock. Loading a configuration under the overlay of
  a request is \<open>Config::load_smart\<close> (theory ConfigLoad) applied to the files that are there; like the
  library functions, it is a field of the record \<open>daemon_host\<close>.
\<close>

record resolve_one_request = request_context +
  ro_key :: string

record store_request =
  sr_request :: batch_request
  sr_fingerprint :: string
  sr_values :: vals
  sr_epoch :: "64 word option"

record resolve_env_request =
  re_protocol :: nat
  re_cwd :: path
  re_config :: path
  re_profile :: "string list"
  re_age_key_file :: "path option"
  re_if_missing :: "string option"
  re_no_defaults :: bool
  re_scope :: env_scope
  re_keys :: "string list option"
  re_env :: "(string \<times> string) list"

datatype request =
    ResolveBatch batch_request
  | ResolveOne resolve_one_request
  | StoreResolved store_request
  | StatusRequest
  | ClearAll
  | ClearKeys "string list"
  | Shutdown
  | Hello nat
  | ResolveEnv resolve_env_request

record env_doc =
  ed_scope :: env_scope
  ed_profile :: "string list"
  ed_env :: child_env

definition env_document :: "env_scope \<Rightarrow> string list \<Rightarrow> child_env \<Rightarrow> env_doc" where
  "env_document scope ps env = \<lparr>ed_scope = scope, ed_profile = ps, ed_env = env\<rparr>"

datatype response =
    Resolved vals
  | ResolveInForeground string vals "string list" "64 word option"
  | StatusResponse nat nat
  | OkResponse
  | ErrorResponse string
  | HelloResponse nat nat string nat
  | EnvResponse env_doc
  | EnvMiss "string list"
  | EnvRejected key_rejection
  | Disabled
  | UnsupportedProtocol nat nat

record ('p, 'w) daemon_host =
  dh_library :: "'w daemon_process \<Rightarrow> 'p daemon_library"
  dh_services :: "'w daemon_process \<Rightarrow> ('p, 'w) services"
  dh_load :: "'w daemon_process \<Rightarrow> path \<Rightarrow> fnox_error + ('p, lease_backend) config"
  dh_current_dir :: "'w daemon_process \<Rightarrow> bool"
    \<comment> \<open>\<open>std::env::current_dir\<close> succeeds\<close>
  dh_directory :: "'w daemon_process \<Rightarrow> path \<Rightarrow> bool"
    \<comment> \<open>\<open>set_current_dir\<close> succeeds\<close>
  dh_similar :: "string \<Rightarrow> string list \<Rightarrow> string list"
  dh_show :: "fnox_error \<Rightarrow> string"
  dh_pid :: nat
  dh_version :: string
  dh_supported :: bool
  dh_audit_writable :: bool

subsection \<open>The audit log\<close>

definition audit_override :: "(string \<Rightarrow> string option) \<Rightarrow> bool option" where
  "audit_override env =
     (case env ''FNOX_AUDIT'' of
        None \<Rightarrow> None
      | Some v \<Rightarrow>
          let v = map ascii_lower v
          in if v \<in> {''1'', ''true'', ''yes'', ''on''} then Some True
             else if v \<in> {''0'', ''false'', ''no'', ''off''} then Some False else None)"

definition audit_is_enabled :: "(string \<Rightarrow> string option) \<Rightarrow> ('p, 'l) config \<Rightarrow> bool" where
  "audit_is_enabled env c =
     (case audit_override env of
        Some b \<Rightarrow> b
      | None \<Rightarrow> (case c_audit c of Some a \<Rightarrow> audit_enabled a | None \<Rightarrow> False))"

definition audit_provider :: "secret_config \<Rightarrow> string option \<Rightarrow> string option" where
  "audit_provider sc default_provider =
     (case s_sync sc of
        Some sync \<Rightarrow> Some (sy_provider sync)
      | None \<Rightarrow>
          if secret_value sc = None then None
          else (case secret_provider sc of Some p \<Rightarrow> Some p | None \<Rightarrow> default_provider))"

definition audit_entries ::
  "registry \<Rightarrow> (path \<Rightarrow> string) \<Rightarrow> ('p, 'l) config \<Rightarrow> string list \<Rightarrow> string \<Rightarrow> path \<Rightarrow> secrets \<Rightarrow> (string \<Rightarrow> bool) \<Rightarrow>
   audit_entry list" where
  "audit_entries reg display c ps command config_path secrets cached =
     (let default_provider = (case get_default_provider reg c ps of Inr d \<Rightarrow> d | Inl _ \<Rightarrow> None)
      in map (\<lambda>(name, sc).
           \<lparr>ae_command = command, ae_profile = ps,
            ae_config = display (case s_source_path sc of Some p \<Rightarrow> p | None \<Rightarrow>
              (case im_get (c_secret_sources c) name of Some p \<Rightarrow> p | None \<Rightarrow> config_path)),
            ae_secret = name, ae_provider = audit_provider sc default_provider, ae_cached = cached name\<rparr>) secrets)"

definition record_reads ::
  "registry \<Rightarrow> (path \<Rightarrow> string) \<Rightarrow> (string \<Rightarrow> string option) \<Rightarrow> ('p, 'l) config \<Rightarrow> string list \<Rightarrow> string \<Rightarrow> path \<Rightarrow>
   secrets \<Rightarrow> (string \<Rightarrow> bool) \<Rightarrow> audit_entry list" where
  \<comment> \<open>the entries that are appended to the log\<close>
  "record_reads reg display env c ps command config_path secrets cached =
     (if secrets = [] \<or> \<not> audit_is_enabled env c then []
      else audit_entries reg display c ps command config_path secrets cached)"

definition audit_reads ::
  "('p, 'w) services \<Rightarrow> (path \<Rightarrow> string) \<Rightarrow> (string \<Rightarrow> string option) \<Rightarrow> ('p, 'l) config \<Rightarrow> string list \<Rightarrow> string \<Rightarrow> path \<Rightarrow>
   secrets \<Rightarrow> vals \<Rightarrow> string list \<Rightarrow> audit_entry list" where
  "audit_reads S display env c ps purpose config_path secrets resolved cached =
     (if \<not> audit_is_enabled env c then []
      else let served = (\<lambda>key. key \<in> set cached);
               reads = with_read_dependencies S c ps (filter (\<lambda>(key, _). im_has resolved key) secrets) served
           in record_reads (sv_sources S) display env c ps purpose config_path reads served)"

definition audit_in_daemon ::
  "('p, 'w) daemon_host \<Rightarrow> ('p, lease_backend) config \<Rightarrow> string list \<Rightarrow> string \<Rightarrow> path \<Rightarrow> secrets \<Rightarrow> vals \<Rightarrow> string list \<Rightarrow>
   'w daemon_process \<Rightarrow> 'w daemon_process" where
  \<comment> \<open>a log that cannot be written changes nothing\<close>
  "audit_in_daemon H c ps purpose config_path secrets resolved cached s =
     (if dh_audit_writable H
      then s\<lparr>dp_audit := dp_audit s @ audit_reads (dh_services H s) (dl_display (dh_library H s)) (im_get (rs_env (dp_run s)))
                 c ps purpose config_path secrets resolved cached\<rparr>
      else s)"

fun audit_tail_loop :: "nat \<Rightarrow> ('a \<Rightarrow> bool) \<Rightarrow> 'a list \<Rightarrow> 'a option list \<Rightarrow> 'a list" where
  \<comment> \<open>the loop over the lines, a line that is no entry being \<open>None\<close>\<close>
  "audit_tail_loop limit keep recent [] = recent"
| "audit_tail_loop limit keep recent (None # lines) = audit_tail_loop limit keep recent lines"
| "audit_tail_loop limit keep recent (Some e # lines) =
     (if limit = 0 \<or> \<not> keep e then audit_tail_loop limit keep recent lines
      else audit_tail_loop limit keep ((if length recent = limit then tl recent else recent) @ [e]) lines)"

definition audit_tail :: "nat \<Rightarrow> ('a \<Rightarrow> bool) \<Rightarrow> 'a option list \<Rightarrow> 'a list" where
  "audit_tail limit keep lines = audit_tail_loop limit keep [] lines"

subsection \<open>The overlay of a request\<close>

definition overlay_apply :: "(string \<times> string) list \<Rightarrow> 'w daemon_process \<Rightarrow> (string \<times> string option) list \<times> 'w daemon_process" where
  "overlay_apply env s =
     (let vars = rs_env (dp_run s);
          touched = first_occurrences (map fst env @ filter (\<lambda>k. k \<notin> fst ` set env) (im_keys vars)) [];
          previous = map (\<lambda>k. (k, im_get vars k)) touched;
          vars = fold (\<lambda>k vars. if k \<notin> fst ` set env then im_remove k vars else vars) touched vars;
          vars = fold (\<lambda>(k, v). im_insert k v) env vars
      in (previous, s\<lparr>dp_run := (dp_run s)\<lparr>rs_env := vars\<rparr>\<rparr>))"

definition overlay_drop :: "(string \<times> string option) list \<Rightarrow> 'w daemon_process \<Rightarrow> 'w daemon_process" where
  "overlay_drop previous s =
     s\<lparr>dp_run := (dp_run s)\<lparr>rs_env := fold (\<lambda>(k, v) vars. case v of Some v \<Rightarrow> im_insert k v vars | None \<Rightarrow> im_remove k vars)
       (rev previous) (rs_env (dp_run s))\<rparr>\<rparr>"

definition apply_request_settings ::
  "path option \<Rightarrow> string list \<Rightarrow> string option \<Rightarrow> bool \<Rightarrow> bool \<Rightarrow> 'w daemon_process \<Rightarrow> 'w daemon_process" where
  "apply_request_settings age_key_file ps if_missing no_defaults non_interactive s =
     s\<lparr>dp_settings := Some \<lparr>cs_age_key_file = age_key_file, cs_profile = ps, cs_if_missing = if_missing,
                             cs_no_defaults = no_defaults\<rparr>,
       dp_non_interactive := non_interactive\<rparr>"

definition change_to :: "('p, 'w) daemon_host \<Rightarrow> path \<Rightarrow> ('w, path) daemon_effect" where
  \<comment> \<open>into the directory of a request; the result is the one to go back to\<close>
  "change_to H cwd = (\<lambda>s.
     if \<not> dh_current_dir H s then (Inl (ConfigError CurrentDirUnavailable), s)
     else if \<not> dh_directory H s cwd then (Inl (ConfigError (DirChangeFailed cwd)), s)
     else (Inr (dp_cwd s), s\<lparr>dp_cwd := cwd\<rparr>))"

definition cwd_drop :: "('p, 'w) daemon_host \<Rightarrow> path \<Rightarrow> 'w daemon_process \<Rightarrow> 'w daemon_process" where
  \<comment> \<open>an error of going back is ignored\<close>
  "cwd_drop H previous s = (if dh_directory H s previous then s\<lparr>dp_cwd := previous\<rparr> else s)"

definition in_overlay ::
  "('p, 'w) daemon_host \<Rightarrow> (string \<times> string) list \<Rightarrow> path \<Rightarrow> ('w, 'a) daemon_effect \<Rightarrow> ('w, 'a) daemon_effect" where
  \<comment> \<open>the environment and the directory of a request; the guards are dropped in the reverse order\<close>
  "in_overlay H env cwd m = (\<lambda>s.
     case overlay_apply env s of (previous, s1) \<Rightarrow>
       (case change_to H cwd s1 of
          (Inl e, s2) \<Rightarrow> (Inl e, overlay_drop previous s2)
        | (Inr previous_cwd, s2) \<Rightarrow>
            (case m s2 of (r, s3) \<Rightarrow> (r, overlay_drop previous (cwd_drop H previous_cwd s3)))))"

definition in_request :: "('p, 'w) daemon_host \<Rightarrow> 'a request_context_scheme \<Rightarrow> ('w, 'b) daemon_effect \<Rightarrow> ('w, 'b) daemon_effect" where
  "in_request H req m =
     in_overlay H (rq_env req) (rq_cwd req)
       (andThen (modify (apply_request_settings (rq_age_key_file req) (rq_profile req) (rq_if_missing req)
                           (rq_no_defaults req) (rq_non_interactive req))) (\<lambda>_. m))"


subsection \<open>The handlers\<close>

definition MIN_PROTOCOL :: nat where "MIN_PROTOCOL = 7"
definition WIRE_VERSION :: nat where "WIRE_VERSION = 7"

definition protocol_supported :: "nat \<Rightarrow> bool" where
  "protocol_supported protocol \<longleftrightarrow> MIN_PROTOCOL \<le> protocol \<and> protocol \<le> WIRE_VERSION"

definition unsupported_protocol :: response where
  "unsupported_protocol = UnsupportedProtocol MIN_PROTOCOL WIRE_VERSION"

definition daemon_env_override :: "(string \<Rightarrow> string option) \<Rightarrow> bool option" where
  "daemon_env_override get =
     (case get ''FNOX_DAEMON'' of
        Some v \<Rightarrow> if v \<in> {''0'', ''false'', ''off'', ''no''} then Some False
                   else if v \<in> {''1'', ''true'', ''on'', ''yes''} then Some True else None
      | None \<Rightarrow> None)"

definition config_daemon_enabled :: "('p, 'l) config \<Rightarrow> bool option \<Rightarrow> bool" where
  "config_daemon_enabled c env_override =
     (case env_override of Some b \<Rightarrow> b
      | None \<Rightarrow> (case c_daemon c of Some d \<Rightarrow> daemon_enabled d | None \<Rightarrow> False))"

definition requested_secrets :: "string list \<Rightarrow> bool \<Rightarrow> secrets \<Rightarrow> secrets" where
  "requested_secrets keys include_all_modes all =
     filter (\<lambda>(key, sc). key \<in> set keys \<and> (include_all_modes \<or> in_shell (secret_env_mode sc))) all"

definition env_miss_keys :: "leases \<Rightarrow> selection \<Rightarrow> string list" where
  \<comment> \<open>what a selection with leases cannot answer from the cache\<close>
  "env_miss_keys leases sel =
     (case sl_requested sel of
        Some requested \<Rightarrow> filter (\<lambda>key. key \<notin> set (sl_roots sel)) requested
      | None \<Rightarrow> first_occurrences (concat (map produced_env_vars (List.map_filter (im_get leases) (sl_leases sel)))) [])"

definition resolve_env_response ::
  "('p, 'w) daemon_host \<Rightarrow> ('p, lease_backend) config \<Rightarrow> resolve_env_request \<Rightarrow> bool option \<Rightarrow> ('w, response) daemon_effect" where
  "resolve_env_response H c req env_override =
     (if \<not> config_daemon_enabled c env_override then ok Disabled
      else andThen get_state (\<lambda>s.
      let L = dh_library H s; S = dh_services H s; ps = re_profile req; scope = re_scope req
      in andThen (lift_sum (get_secrets_with_no_defaults c ps (sv_no_defaults S))) (\<lambda>secrets.
      andThen (lift_sum (get_leases c ps)) (\<lambda>leases.
      case select (dh_similar H) secrets leases scope (case re_keys req of Some keys \<Rightarrow> Keys keys | None \<Rightarrow> Scope) of
        Inl rejection \<Rightarrow> ok (EnvRejected rejection)
      | Inr sel \<Rightarrow>
          if sl_leases sel \<noteq> [] then ok (EnvMiss (env_miss_keys leases sel))
          else andThen (lift_sum (get_providers c ps)) (\<lambda>providers.
            let purpose = purpose_str (scope_purpose scope);
                hit = cached_value L providers (cache_policy_default_provider c ps providers)
                        (config_fingerprint L c (re_env req)) ps (re_no_defaults req) purpose (dp_state s);
                found = (\<lambda>key. case im_get secrets key of Some sc \<Rightarrow> hit (key, sc) | None \<Rightarrow> None);
                misses = filter (\<lambda>key. found key = None) (sl_roots sel)
            in if misses \<noteq> [] then ok (EnvMiss misses)
               else let resolved = fold (\<lambda>key. im_insert key (found key)) (sl_roots sel) [];
                        reads = List.map_filter (\<lambda>key. map_option (\<lambda>sc. (key, sc)) (im_get secrets key)) (sl_roots sel)
                    in andThen (modify (audit_in_daemon H c ps purpose (re_config req) reads resolved (sl_roots sel))) (\<lambda>_.
                       ok (EnvResponse (env_document scope ps (assemble scope secrets leases sel resolved [] [])))))))))"

definition answer_batch ::
  "('p, 'w) daemon_host \<Rightarrow> ('p, lease_backend) config \<Rightarrow> secrets \<Rightarrow> 'a request_context_scheme \<Rightarrow> ('w, response) daemon_effect" where
  \<comment> \<open>hand the resolution to the client where it may prompt, else resolve misses here\<close>
  "answer_batch H c secrets req =
     andThen get_state (\<lambda>s.
     andThen (lift_sum (foreground_resolution_if_needed (dh_library H s) c (rq_profile req) secrets req (dp_state s))) (\<lambda>foreground.
       case foreground of
         Some fr \<Rightarrow> ok (ResolveInForeground (fr_fingerprint fr) (fr_cached_values fr) (fr_keys fr) (Some (fr_epoch fr)))
       | None \<Rightarrow>
           andThen (resolve_with_cache_tracking (dh_services H s) (dh_library H s) c (rq_profile req) secrets req) (\<lambda>(values, cached).
           andThen (modify (audit_in_daemon H c (rq_profile req) (rq_purpose req) (rq_config req) secrets values cached)) (\<lambda>_.
             ok (Resolved values)))))"

definition load_request :: "('p, 'w) daemon_host \<Rightarrow> path \<Rightarrow> ('w, ('p, lease_backend) config) daemon_effect" where
  "load_request H config_path = andThen get_state (\<lambda>s. lift_sum (dh_load H s config_path))"

definition handle_batch :: "('p, 'w) daemon_host \<Rightarrow> batch_request \<Rightarrow> ('w, response) daemon_effect" where
  "handle_batch H req =
     in_request H req
       (andThen (load_request H (rq_config req)) (\<lambda>c.
        andThen get_state (\<lambda>s.
        andThen (lift_sum (get_secrets_with_no_defaults c (rq_profile req) (sv_no_defaults (dh_services H s)))) (\<lambda>all.
          answer_batch H c (requested_secrets (rq_keys req) (rq_include_all_modes req) all) req))))"

definition handle_one :: "('p, 'w) daemon_host \<Rightarrow> resolve_one_request \<Rightarrow> ('w, response) daemon_effect" where
  "handle_one H req =
     in_request H req
       (andThen (load_request H (rq_config req)) (\<lambda>c.
        andThen get_state (\<lambda>s.
        andThen (lift_sum (get_secret_with_no_defaults c (rq_profile req) (ro_key req) (sv_no_defaults (dh_services H s)))) (\<lambda>found.
          case found of
            None \<Rightarrow> ok (Resolved [(ro_key req, None)])
          | Some sc \<Rightarrow> answer_batch H c [(ro_key req, sc)] req))))"

definition handle_store :: "('p, 'w) daemon_host \<Rightarrow> store_request \<Rightarrow> ('w, response) daemon_effect" where
  "handle_store H req =
     in_request H (sr_request req)
       (andThen (load_request H (rq_config (sr_request req))) (\<lambda>c.
        andThen get_state (\<lambda>s.
        andThen (lift_sum (get_secrets_with_no_defaults c (rq_profile (sr_request req)) (sv_no_defaults (dh_services H s)))) (\<lambda>all.
        andThen (lift_sum (store_resolved_values (dh_library H s) c (rq_profile (sr_request req))
          (requested_secrets (rq_keys (sr_request req)) (rq_include_all_modes (sr_request req)) all)
          (sr_request req) (sr_fingerprint req) (sr_epoch req) (sr_values req) (dp_state s))) (\<lambda>st.
        andThen (modify (\<lambda>s. s\<lparr>dp_state := st\<rparr>)) (\<lambda>_. ok OkResponse))))))"

definition handle_env :: "('p, 'w) daemon_host \<Rightarrow> resolve_env_request \<Rightarrow> ('w, response) daemon_effect" where
  "handle_env H req =
     (if \<not> protocol_supported (re_protocol req) then ok unsupported_protocol
      else in_overlay H (re_env req) (re_cwd req)
        (andThen (modify (apply_request_settings (re_age_key_file req) (re_profile req) (re_if_missing req)
                            (re_no_defaults req) False)) (\<lambda>_.
         andThen (load_request H (re_config req)) (\<lambda>c.
         andThen (lift_sum (validate_profiles c (re_profile req) None)) (\<lambda>_.
         andThen get_state (\<lambda>s.
           resolve_env_response H c req (daemon_env_override (im_get (rs_env (dp_run s))))))))))"

definition clear_state :: "string list \<Rightarrow> ('w, response) daemon_effect" where
  "clear_state keys = andThen (modify (\<lambda>s. s\<lparr>dp_state := clear keys (dp_state s)\<rparr>)) (\<lambda>_. ok OkResponse)"

fun process_request :: "('p, 'w) daemon_host \<Rightarrow> request \<Rightarrow> ('w, response) daemon_effect" where
  "process_request H (Hello protocol) =
     (if \<not> protocol_supported protocol then ok unsupported_protocol
      else ok (HelloResponse WIRE_VERSION MIN_PROTOCOL (dh_version H) (dh_pid H)))"
| "process_request H (ResolveEnv req) = handle_env H req"
| "process_request H StatusRequest =
     andThen get_state (\<lambda>s. ok (StatusResponse (dh_pid H) (length (ds_cache (dp_state s)))))"
| "process_request H ClearAll = clear_state []"
| "process_request H (ClearKeys keys) = (if keys \<noteq> [] then clear_state keys else ok OkResponse)"
| "process_request H Shutdown = ok OkResponse"
| "process_request H (StoreResolved req) = handle_store H req"
| "process_request H (ResolveBatch req) = handle_batch H req"
| "process_request H (ResolveOne req) = handle_one H req"

definition MAX_LINE_BYTES :: nat where "MAX_LINE_BYTES = 16 * 1024 * 1024"

definition respond :: "('p, 'w) daemon_host \<Rightarrow> request \<Rightarrow> 'w daemon_process \<Rightarrow> response \<times> 'w daemon_process" where
  "respond H req s =
     (case process_request H req s of
        (Inr r, s') \<Rightarrow> (r, s')
      | (Inl e, s') \<Rightarrow> (ErrorResponse (dh_show H e), s'))"

definition handle_connection ::
  "('p, 'w) daemon_host \<Rightarrow> (string \<Rightarrow> request option) \<Rightarrow> string \<Rightarrow> ('w, response \<times> bool) daemon_effect" where
  \<comment> \<open>one line of input, decoded by \<open>serde_json\<close>: the response and whether to shut down\<close>
  "handle_connection H decode line =
     (let line = take (MAX_LINE_BYTES + 1) (takeWhile (\<lambda>c. c \<noteq> CHR 0x0A) line)
      in if length line > MAX_LINE_BYTES then err (ConfigError (RequestTooLong MAX_LINE_BYTES))
         else case decode line of
                None \<Rightarrow> err (ConfigError RequestUndecodable)
              | Some req \<Rightarrow> (\<lambda>s. case respond H req s of (r, s') \<Rightarrow> (Inr (r, req = Shutdown), s')))"


subsection \<open>The client\<close>

record resolve_context =
  rx_config :: path
  rx_profile :: "string list"
  rx_age_key_file :: "path option"
  rx_if_missing :: "string option"
  rx_no_defaults :: bool
  rx_non_interactive :: bool
  rx_no_daemon :: bool

record client_settings =
  ct_profile :: "string list"
  ct_age_key_file :: "path option"
  ct_if_missing :: "string option"
  ct_no_defaults :: bool

record command_line = client_settings +
  cm_config :: path
  cm_non_interactive :: bool
  cm_no_daemon :: bool

definition context_of :: "command_line \<Rightarrow> client_settings option \<Rightarrow> bool \<Rightarrow> resolve_context" where
  \<comment> \<open>the flags of a run, with the settings for what they leave unset; the last argument says whether
    the process is not interactive\<close>
  "context_of cli settings non_interactive =
     \<lparr>rx_config = cm_config cli,
      rx_profile = normalize (if ct_profile cli = []
        then (case settings of Some st \<Rightarrow> ct_profile st | None \<Rightarrow> []) else ct_profile cli),
      rx_age_key_file = (case ct_age_key_file cli of
          Some f \<Rightarrow> Some f | None \<Rightarrow> (case settings of Some st \<Rightarrow> ct_age_key_file st | None \<Rightarrow> None)),
      rx_if_missing = (case ct_if_missing cli of
          Some i \<Rightarrow> Some i | None \<Rightarrow> (case settings of Some st \<Rightarrow> ct_if_missing st | None \<Rightarrow> None)),
      rx_no_defaults = (ct_no_defaults cli \<or> (case settings of Some st \<Rightarrow> ct_no_defaults st | None \<Rightarrow> False)),
      rx_non_interactive = (cm_non_interactive cli \<or> non_interactive),
      rx_no_daemon = cm_no_daemon cli\<rparr>"

text \<open>The process of the command, the socket and the daemon behind it. A daemon that is started begins
  with an empty cache; \<open>mh_start_failure\<close> says why none can be started. \<open>NoAnswer\<close> is a daemon
  that drops the connection, as one of an older fnox does with a request it does not know.\<close>

datatype daemon_socket = Listening | Missing | NoAnswer | Broken string

record 'w client =
  cl_run :: "'w rstate"
  cl_cwd :: path
  cl_audit :: "audit_entry list"
  cl_socket :: daemon_socket
  cl_daemon :: "'w daemon_process"

type_synonym ('w, 'a) client_effect = "('w client, fnox_error, 'a) comp"

record ('p, 'w) client_host =
  mh_services :: "('p, 'w) services"
  mh_daemon :: "('p, 'w) daemon_host"
  mh_display :: "path \<Rightarrow> string"
  mh_start_failure :: "string option"
  mh_audit_writable :: bool

definition in_client :: "('w, 'a) effect \<Rightarrow> ('w, 'a) client_effect" where
  "in_client m = (\<lambda>s. case m (cl_run s) of (r, run) \<Rightarrow> (r, s\<lparr>cl_run := run\<rparr>))"

definition attempt_client :: "('w, 'a) client_effect \<Rightarrow> ('w, fnox_error + 'a) client_effect" where
  "attempt_client m = (\<lambda>s. case m s of (r, s') \<Rightarrow> (Inr r, s'))"

definition should_use_daemon :: "('p, 'w) client_host \<Rightarrow> resolve_context \<Rightarrow> ('p, 'l) config \<Rightarrow> 'w client \<Rightarrow> bool" where
  "should_use_daemon M x c s \<longleftrightarrow>
     \<not> rx_no_daemon x \<and> dh_supported (mh_daemon M) \<and>
     config_daemon_enabled c (daemon_env_override (im_get (rs_env (cl_run s))))"

definition call :: "('p, 'w) client_host \<Rightarrow> request \<Rightarrow> 'w client \<Rightarrow> (daemon_socket + response) \<times> 'w client" where
  \<comment> \<open>both processes act on the same outside world\<close>
  "call M req s =
     (if cl_socket s \<noteq> Listening then (Inl (cl_socket s), s)
      else let d = cl_daemon s;
               d = d\<lparr>dp_run := (dp_run d)\<lparr>rs_world := rs_world (cl_run s)\<rparr>\<rparr>
           in case respond (mh_daemon M) req d of
                (r, d) \<Rightarrow> (Inr r, s\<lparr>cl_daemon := d, cl_run := (cl_run s)\<lparr>rs_world := rs_world (dp_run d)\<rparr>\<rparr>))"

fun socket_error :: "daemon_socket \<Rightarrow> fnox_error" where
  "socket_error (Broken failure) = ConfigError (DaemonUnreachable failure)"
| "socket_error NoAnswer = ConfigError (DaemonUnreachable ''empty response'')"
| "socket_error _ = ConfigError (DaemonUnreachable ''socket missing'')"

definition status :: "('p, 'w) client_host \<Rightarrow> ('w, (nat \<times> nat) option) client_effect" where
  "status M = (\<lambda>s.
     case call M StatusRequest s of
       (Inr (StatusResponse pid entries), s') \<Rightarrow> (Inr (Some (pid, entries)), s')
     | (Inr (ErrorResponse msg), s') \<Rightarrow> (Inl (ConfigError (DaemonMessage msg)), s')
     | (Inr _, s') \<Rightarrow> (Inl (ConfigError (InvalidDaemonResponse ''Status'')), s')
     | (Inl e, s') \<Rightarrow> if e = Missing then (Inr None, s') else (Inl (socket_error e), s'))"

definition start_background :: "('p, 'w) client_host \<Rightarrow> ('w, bool) client_effect" where
  \<comment> \<open>whether a daemon was started; spawning the process and waiting for its socket is one step\<close>
  "start_background M =
     andThen (status M) (\<lambda>running.
       if running \<noteq> None then ok False
       else case mh_start_failure M of
              Some failure \<Rightarrow> err (ConfigError (DaemonUnreachable failure))
            | None \<Rightarrow>
                andThen (modify (\<lambda>s. s\<lparr>cl_socket := Listening, cl_daemon := (cl_daemon s)\<lparr>dp_state := initial_daemon\<rparr>\<rparr>))
                  (\<lambda>_. ok True))"

definition call_or_start :: "('p, 'w) client_host \<Rightarrow> request \<Rightarrow> ('w, response) client_effect" where
  "call_or_start M req = (\<lambda>s.
     case call M req s of
       (Inr r, s') \<Rightarrow> (Inr r, s')
     | (Inl Missing, s') \<Rightarrow>
         andThen (start_background M) (\<lambda>_ s. case call M req s of
             (Inr r, s') \<Rightarrow> (Inr r, s')
           | (Inl e, s') \<Rightarrow> (Inl (socket_error e), s')) s'
     | (Inl e, s') \<Rightarrow> (Inl (socket_error e), s'))"

definition audit_in_client ::
  "('p, 'w) client_host \<Rightarrow> ('p, 'l) config \<Rightarrow> string list \<Rightarrow> string \<Rightarrow> path \<Rightarrow> secrets \<Rightarrow> vals \<Rightarrow> string list \<Rightarrow>
   'w client \<Rightarrow> 'w client" where
  "audit_in_client M c ps purpose config_path secrets resolved cached s =
     (if mh_audit_writable M
      then s\<lparr>cl_audit := cl_audit s @ audit_reads (mh_services M) (mh_display M) (im_get (rs_env (cl_run s)))
                 c ps purpose config_path secrets resolved cached\<rparr>
      else s)"

definition client_request :: "resolve_context \<Rightarrow> string list \<Rightarrow> purpose \<Rightarrow> string list \<Rightarrow> bool \<Rightarrow> 'w client \<Rightarrow> batch_request" where
  "client_request x ps p keys include_all_modes s =
     \<lparr>rq_cwd = cl_cwd s, rq_config = rx_config x, rq_profile = ps, rq_age_key_file = rx_age_key_file x,
      rq_if_missing = rx_if_missing x, rq_no_defaults = rx_no_defaults x, rq_non_interactive = rx_non_interactive x,
      rq_purpose = purpose_str p, rq_env = rs_env (cl_run s), rq_keys = keys, rq_include_all_modes = include_all_modes\<rparr>"

definition one_of_batch :: "batch_request \<Rightarrow> string \<Rightarrow> resolve_one_request" where
  "one_of_batch req key =
     \<lparr>rq_cwd = rq_cwd req, rq_config = rq_config req, rq_profile = rq_profile req, rq_age_key_file = rq_age_key_file req,
      rq_if_missing = rq_if_missing req, rq_no_defaults = rq_no_defaults req, rq_non_interactive = rq_non_interactive req,
      rq_purpose = rq_purpose req, rq_env = rq_env req, ro_key = key\<rparr>"

definition store_foreground_values ::
  "('p, 'w) client_host \<Rightarrow> batch_request \<Rightarrow> string \<Rightarrow> 64 word option \<Rightarrow> vals \<Rightarrow> ('w, unit) client_effect" where
  "store_foreground_values M req fingerprint epoch values =
     andThen (call_or_start M (StoreResolved
       \<lparr>sr_request = req, sr_fingerprint = fingerprint, sr_values = values, sr_epoch = epoch\<rparr>)) (\<lambda>r.
       case r of
         OkResponse \<Rightarrow> ok ()
       | ErrorResponse msg \<Rightarrow> err (ConfigError (DaemonMessage msg))
       | _ \<Rightarrow> err (ConfigError (InvalidDaemonResponse ''StoreResolved'')))"

definition modes :: "bool \<Rightarrow> secrets \<Rightarrow> secrets" where
  "modes include_all_modes secrets =
     (if include_all_modes then secrets else filter (\<lambda>(_, sc). in_shell (secret_env_mode sc)) secrets)"

definition merge_foreground :: "secrets \<Rightarrow> vals \<Rightarrow> vals \<Rightarrow> vals" where
  "merge_foreground secrets cached_values foreground_values =
     concat (map (\<lambda>key. case im_get cached_values key of
                          Some v \<Rightarrow> [(key, v)]
                        | None \<Rightarrow> (case im_get foreground_values key of Some v \<Rightarrow> [(key, v)] | None \<Rightarrow> []))
       (im_keys secrets))"

definition resolve_batch_with_context ::
  "('p, 'w) client_host \<Rightarrow> resolve_context \<Rightarrow> ('p, 'l) config \<Rightarrow> string list \<Rightarrow> secrets \<Rightarrow> purpose \<Rightarrow> bool \<Rightarrow>
   ('w, vals) client_effect" where
  "resolve_batch_with_context M x c ps secrets p include_all_modes =
     andThen get_state (\<lambda>s.
       if \<not> should_use_daemon M x c s
       then let secrets = modes include_all_modes secrets
            in andThen (in_client (resolve_secrets_batch (mh_services M) c ps secrets)) (\<lambda>resolved.
               andThen (modify (audit_in_client M c ps (purpose_str p) (rx_config x) secrets resolved [])) (\<lambda>_. ok resolved))
       else let req = client_request x ps p (im_keys secrets) include_all_modes s
            in andThen (call_or_start M (ResolveBatch req)) (\<lambda>r.
              case r of
                Resolved values \<Rightarrow> ok values
              | ResolveInForeground fingerprint cached_values keys epoch \<Rightarrow>
                  let secrets = modes include_all_modes secrets
                  in andThen (in_client (resolve_secrets_batch_with_pre_resolved (mh_services M) c ps
                        (filter (\<lambda>(key, _). key \<in> set keys) secrets) cached_values)) (\<lambda>foreground_values.
                     let values = merge_foreground secrets cached_values foreground_values
                     in andThen (modify (audit_in_client M c ps (purpose_str p) (rx_config x) secrets values (im_keys cached_values))) (\<lambda>_.
                        andThen (attempt_client (store_foreground_values M req fingerprint epoch values)) (\<lambda>_. ok values)))
              | ErrorResponse msg \<Rightarrow> err (ConfigError (DaemonMessage msg))
              | _ \<Rightarrow> err (ConfigError (InvalidDaemonResponse ''ResolveBatch''))))"

definition resolve_one_with_context ::
  "('p, 'w) client_host \<Rightarrow> resolve_context \<Rightarrow> ('p, 'l) config \<Rightarrow> string list \<Rightarrow> string \<Rightarrow> secret_config \<Rightarrow> purpose \<Rightarrow>
   ('w, string option) client_effect" where
  "resolve_one_with_context M x c ps key sc p =
     (let foreground = andThen (in_client (resolve_secret (mh_services M) c ps key sc)) (\<lambda>v.
            andThen (modify (audit_in_client M c ps (purpose_str p) (rx_config x) [(key, sc)] [(key, None)] [])) (\<lambda>_. ok v))
      in andThen get_state (\<lambda>s.
       if \<not> should_use_daemon M x c s then foreground
       else let req = client_request x ps p [key] True s
            in andThen (call_or_start M (ResolveOne (one_of_batch req key))) (\<lambda>r.
              case r of
                Resolved values \<Rightarrow> ok (case im_get values key of Some v \<Rightarrow> v | None \<Rightarrow> None)
              | ResolveInForeground fingerprint _ _ epoch \<Rightarrow>
                  andThen foreground (\<lambda>v.
                  andThen (attempt_client (store_foreground_values M req fingerprint epoch [(key, v)])) (\<lambda>_. ok v))
              | ErrorResponse msg \<Rightarrow> err (ConfigError (DaemonMessage msg))
              | _ \<Rightarrow> err (ConfigError (InvalidDaemonResponse ''ResolveOne'')))))"

definition clear_socket :: "('p, 'w) client_host \<Rightarrow> string list \<Rightarrow> bool \<Rightarrow> ('w, bool) client_effect" where
  "clear_socket M keys ignore_missing = (\<lambda>s.
     case call M (if keys = [] then ClearAll else ClearKeys keys) s of
       (Inr OkResponse, s') \<Rightarrow> (Inr True, s')
     | (Inr (ErrorResponse msg), s') \<Rightarrow> (Inl (ConfigError (DaemonMessage msg)), s')
     | (Inr _, s') \<Rightarrow> (Inl (ConfigError (InvalidDaemonResponse ''Clear'')), s')
     | (Inl e, s') \<Rightarrow>
         if ignore_missing \<and> e = Missing then (Inr False, s')
         else if e = NoAnswer \<and> ignore_missing \<and> keys \<noteq> [] then (Inr True, s')
         else (Inl (socket_error e), s'))"

definition refresh :: "('p, 'w) client_host \<Rightarrow> resolve_context \<Rightarrow> ('p, 'l) config \<Rightarrow> string list \<Rightarrow> ('w, unit) client_effect" where
  "refresh M x c keys =
     andThen get_state (\<lambda>s.
       if keys = [] \<or> \<not> should_use_daemon M x c s then ok ()
       else andThen (clear_socket M keys True) (\<lambda>_. ok ()))"


subsection \<open>Requests are isolated\<close>

lemma removed_all:
  "im_get (fold (\<lambda>k vars. if k \<notin> E then im_remove k vars else vars) ks vars) j =
     (if j \<in> set ks \<and> j \<notin> E then None else im_get vars j)"
  by (induction ks arbitrary: vars) (auto simp: imap_simps)

lemma im_extend_other: "j \<notin> fst ` set n \<Longrightarrow> im_get (im_extend m n) j = im_get m j"
proof (induction n arbitrary: m)
  case (Cons kv n)
  then show ?case by (cases kv) (simp add: im_extend_Cons imap_simps)
qed simp

lemma im_extend_own: "j \<in> fst ` set n \<Longrightarrow> im_get (im_extend m n) j = im_get (im_extend m' n) j"
proof (induction n arbitrary: m m')
  case (Cons kv n)
  obtain k v where kv: "kv = (k, v)" by (cases kv)
  show ?case
  proof (cases "j \<in> fst ` set n")
    case True
    from Cons.IH [OF this] show ?thesis by (simp add: kv im_extend_Cons)
  next
    case False
    with Cons.prems kv have "j = k" by simp
    with False show ?thesis by (simp add: kv im_extend_Cons im_extend_other imap_simps)
  qed
qed simp

definition touched_by :: "(string \<times> string) list \<Rightarrow> 'w daemon_process \<Rightarrow> string set" where
  "touched_by env s = fst ` set env \<union> {k. im_has (rs_env (dp_run s)) k}"

lemma overlay_apply_env:
  assumes "overlay_apply env s = (previous, s1)"
  shows "im_get (rs_env (dp_run s1)) k = im_get (im_extend [] env) k"
    and "s1 = s\<lparr>dp_run := (dp_run s)\<lparr>rs_env := rs_env (dp_run s1)\<rparr>\<rparr>"
    and "previous = map (\<lambda>k. (k, im_get (rs_env (dp_run s)) k)) (map fst previous)"
    and "distinct (map fst previous)" and "set (map fst previous) = touched_by env s"
proof -
  let ?vars = "rs_env (dp_run s)"
  let ?touched = "first_occurrences (map fst env @ filter (\<lambda>k. k \<notin> fst ` set env) (im_keys ?vars)) []"
  let ?left = "fold (\<lambda>k vars. if k \<notin> fst ` set env then im_remove k vars else vars) ?touched ?vars"
  from assms have prev: "previous = map (\<lambda>k. (k, im_get ?vars k)) ?touched"
    and s1: "s1 = s\<lparr>dp_run := (dp_run s)\<lparr>rs_env := im_extend ?left env\<rparr>\<rparr>"
    by (auto simp: overlay_apply_def Let_def im_extend_def)
  have "im_get ?left k = (if k \<in> fst ` set env then im_get ?vars k else None)" for k
    using im_has_None [of ?vars k] by (auto simp: removed_all im_has_def)
  then show "im_get (rs_env (dp_run s1)) k = im_get (im_extend [] env) k"
    using im_extend_own [of k env ?left "[]"] im_extend_other [of k env ?left] im_extend_other [of k env "[]"]
    by (cases "k \<in> fst ` set env") (simp_all add: s1)
  show "s1 = s\<lparr>dp_run := (dp_run s)\<lparr>rs_env := rs_env (dp_run s1)\<rparr>\<rparr>" by (simp add: s1)
  have fst: "map fst previous = ?touched" by (simp add: prev comp_def)
  show "previous = map (\<lambda>k. (k, im_get ?vars k)) (map fst previous)" by (simp only: fst) (simp add: prev)
  show "distinct (map fst previous)" by (simp add: fst)
  show "set (map fst previous) = touched_by env s"
    by (auto simp: fst touched_by_def im_has_def)
qed


lemma map_of_reversed: "distinct (map fst ps) \<Longrightarrow> map_of (rev ps) = map_of ps"
proof (induction ps)
  case (Cons p ps)
  obtain j v where p: "p = (j, v)" by (cases p)
  with Cons.prems have "map_of ps j = None" by (simp add: map_of_eq_None_iff)
  with Cons p show ?case by (auto simp: map_add_def fun_eq_iff split: option.split)
qed simp

lemma overlay_drop_env:
  assumes "distinct (map fst previous)"
  shows "im_get (rs_env (dp_run (overlay_drop previous s))) k =
    (case map_of previous k of Some v \<Rightarrow> v | None \<Rightarrow> im_get (rs_env (dp_run s)) k)"
proof -
  have "im_get (fold (\<lambda>(k, v) vars. case v of Some v \<Rightarrow> im_insert k v vars | None \<Rightarrow> im_remove k vars) ps vars) k =
    (case map_of ps k of Some v \<Rightarrow> v | None \<Rightarrow> im_get vars k)" if "distinct (map fst ps)" for ps :: "(string \<times> string option) list" and vars
    using that
  proof (induction ps arbitrary: vars)
    case (Cons p ps)
    obtain j v where p: "p = (j, v)" by (cases p)
    with Cons.prems have "map_of ps j = None" by (simp add: map_of_eq_None_iff)
    with Cons p show ?case by (auto simp: imap_simps split: option.split)
  qed simp
  from this [of "rev previous" "rs_env (dp_run s)"] assms show ?thesis
    by (simp add: overlay_drop_def map_of_reversed rev_map [symmetric])
qed

text \<open>C21: Requests are isolated. The handler of a request sees exactly the variables of the request, in
  its directory and with the cache as it is. When it is over, also after an error, every variable that was
  set before or that the request set has its earlier value again, and the rest of the state is what the
  handler left. The daemon is back in its directory, unless that directory can no longer be entered: then
  it stays where the handler was. Where the current directory is unknown or the request's cannot be
  entered, the handler does not run and nothing changes.\<close>

theorem requests_are_isolated:
  "case in_overlay H env cwd m s of (r, s') \<Rightarrow>
     (if dh_current_dir H (snd (overlay_apply env s)) \<and> dh_directory H (snd (overlay_apply env s)) cwd
      then \<exists>s1 s2. m s1 = (r, s2) \<and> (\<forall>k. im_get (rs_env (dp_run s1)) k = im_get (im_extend [] env) k) \<and>
        dp_cwd s1 = cwd \<and> dp_state s1 = dp_state s \<and> dp_state s' = dp_state s2 \<and> dp_audit s' = dp_audit s2 \<and>
        (\<forall>k. im_get (rs_env (dp_run s')) k =
           (if k \<in> touched_by env s then im_get (rs_env (dp_run s)) k else im_get (rs_env (dp_run s2)) k)) \<and>
        dp_cwd s' = (if dh_directory H s2 (dp_cwd s) then dp_cwd s else dp_cwd s2)
      else (r = Inl (ConfigError CurrentDirUnavailable) \<or> r = Inl (ConfigError (DirChangeFailed cwd))) \<and>
        (\<forall>k. im_get (rs_env (dp_run s')) k = im_get (rs_env (dp_run s)) k) \<and>
        dp_cwd s' = dp_cwd s \<and> dp_state s' = dp_state s \<and> dp_audit s' = dp_audit s)"
proof -
  obtain previous s1 where apply1: "overlay_apply env s = (previous, s1)" by fastforce
  note sees = overlay_apply_env [OF apply1]
  have prev: "map_of previous k = (if k \<in> touched_by env s then Some (im_get (rs_env (dp_run s)) k) else None)" for k
  proof -
    have "map_of (map (\<lambda>k. (k, im_get (rs_env (dp_run s)) k)) ks) k =
      (if k \<in> set ks then Some (im_get (rs_env (dp_run s)) k) else None)" for ks
      by (induction ks) auto
    with sees(3,5) show ?thesis by metis
  qed
  have dropped: "im_get (rs_env (dp_run (overlay_drop previous t))) k =
      (if k \<in> touched_by env s then im_get (rs_env (dp_run s)) k else im_get (rs_env (dp_run t)) k)" for t k
    by (simp add: overlay_drop_env [OF sees(4)] prev)
  have keeps: "dp_cwd (overlay_drop previous t) = dp_cwd t" "dp_state (overlay_drop previous t) = dp_state t"
    "dp_audit (overlay_drop previous t) = dp_audit t" for t
    by (simp_all add: overlay_drop_def)
  have start: "dp_cwd s1 = dp_cwd s" "dp_state s1 = dp_state s" "dp_audit s1 = dp_audit s" by (subst sees(2), simp)+
  have outside: "im_get (rs_env (dp_run s1)) k = im_get (rs_env (dp_run s)) k" if "k \<notin> touched_by env s" for k
    using that sees(1) im_extend_other [of k env "[]"] by (auto simp: touched_by_def im_has_None)
  show ?thesis
  proof (cases "dh_current_dir H s1 \<and> dh_directory H s1 cwd")
    case True
    obtain r s2 where run: "m (s1\<lparr>dp_cwd := cwd\<rparr>) = (r, s2)" by fastforce
    let ?t = "overlay_drop previous (if dh_directory H s2 (dp_cwd s1) then s2\<lparr>dp_cwd := dp_cwd s1\<rparr> else s2)"
    have over: "in_overlay H env cwd m s = (r, ?t)" using True by (simp add: in_overlay_def change_to_def cwd_drop_def apply1 run)
    have "\<exists>a b. m a = (r, b) \<and> (\<forall>k. im_get (rs_env (dp_run a)) k = im_get (im_extend [] env) k) \<and> dp_cwd a = cwd \<and>
        dp_state a = dp_state s \<and> dp_state ?t = dp_state b \<and> dp_audit ?t = dp_audit b \<and>
        (\<forall>k. im_get (rs_env (dp_run ?t)) k =
           (if k \<in> touched_by env s then im_get (rs_env (dp_run s)) k else im_get (rs_env (dp_run b)) k)) \<and>
        dp_cwd ?t = (if dh_directory H b (dp_cwd s) then dp_cwd s else dp_cwd b)"
      by (rule exI [of _ "s1\<lparr>dp_cwd := cwd\<rparr>"], rule exI [of _ s2]) (simp add: run sees(1) start keeps dropped)
    with True show ?thesis by (simp add: over apply1)
  next
    case False
    then show ?thesis by (auto simp: in_overlay_def change_to_def cwd_drop_def apply1 keeps dropped start outside)
  qed
qed


subsection \<open>What a client stored is served\<close>

lemma stored_value_hits:
  assumes "im_wf secrets" and "get_providers c ps = Inr providers"
    and "store_resolved_values L c ps secrets req (config_fingerprint L c (rq_env req)) epoch vs st0 = Inr st"
    and "im_get secrets k = Some sc"
    and "secret_is_cacheable L providers (cache_policy_default_provider c ps providers) sc (rq_purpose req)"
    and "\<not> (case epoch of Some e \<Rightarrow> cleared_since st0 k e | None \<Rightarrow> False)"
    and "im_get vs k = Some (Some v)"
  shows "cached_value L providers (cache_policy_default_provider c ps providers) (config_fingerprint L c (rq_env req)) ps
    (rq_no_defaults req) (rq_purpose req) st (k, sc) = Some v"
  using assms(2,4-7) by (cases epoch) (simp_all add: cached_value_def store_resolved_cache [OF assms(1,3)] stored_value_def)

lemma in_order_of_all: "(\<And>k. k \<in> set ks \<Longrightarrow> im_get m k = Some (g k)) \<Longrightarrow> in_order_of ks m = map (\<lambda>k. (k, g k)) ks"
  by (induction ks) (simp_all add: in_order_of_def)

lemma all_hits:
  assumes "im_wf secrets" and "get_providers c ps = Inr providers"
    and "\<And>e. e \<in> set secrets \<Longrightarrow> cached_value L providers (cache_policy_default_provider c ps providers)
      (config_fingerprint L c (rq_env req)) ps (rq_no_defaults req) (rq_purpose req) (dp_state s) e = Some (f (fst e))"
  shows "foreground_resolution_if_needed L c ps secrets req (dp_state s) = Inr None"
    and "resolve_with_cache_tracking S L c ps secrets req s =
      (Inr (map (\<lambda>(k, _). (k, Some (f k))) secrets, im_keys secrets), s)"
proof -
  let ?hit = "cached_value L providers (cache_policy_default_provider c ps providers)
      (config_fingerprint L c (rq_env req)) ps (rq_no_defaults req) (rq_purpose req) (dp_state s)"
  let ?served = "map (\<lambda>(k, _). (k, Some (f k))) secrets"
  have none: "filter (\<lambda>e. ?hit e = None) secrets = []" and all: "filter (\<lambda>e. ?hit e \<noteq> None) secrets = secrets"
    using assms(3) by (auto simp: filter_empty_conv filter_id_conv)
  have no_keys: "filter (\<lambda>e. ?hit e = None \<and> Q e) secrets = []" for Q
    using assms(3) by (auto simp: filter_empty_conv)
  have hits: "map (\<lambda>e. (fst e, ?hit e)) secrets = ?served"
    using assms(3) by (auto intro!: map_cong)
  show "foreground_resolution_if_needed L c ps secrets req (dp_state s) = Inr None"
    unfolding foreground_resolution_if_needed_def by (simp add: assms(2) none)
  have scan: "fold (scan_cache L providers (cache_policy_default_provider c ps providers)
      (config_fingerprint L c (rq_env req)) ps (rq_no_defaults req) (rq_purpose req) (dp_state s)) secrets ([], [], []) =
      (?served, [], [])"
    by (subst scan_all [OF assms(1)]) (simp_all only: none all no_keys hits list.map append_Nil, simp)
  have keys: "im_keys ?served = im_keys secrets" by (auto simp: im_keys_def)
  have "im_get ?served k = Some (Some (f k))" if "k \<in> set (im_keys secrets)" for k
    using that by (induction secrets) (force simp: im_keys_def)+
  then have "in_order_of (im_keys secrets) ?served = ?served"
    by (subst in_order_of_all [where g = "\<lambda>k. Some (f k)"]) (simp_all add: im_keys_def split_def comp_def)
  then show "resolve_with_cache_tracking S L c ps secrets req s = (Inr (?served, im_keys secrets), s)"
    by (simp add: resolve_with_cache_tracking_def assms(2) scan keys andThen_get_state in_order_of_def)
qed

text \<open>C22: What a client stored is served without resolving again. When the client's values of a batch are
  stored for the current configuration, and every secret of it may be cached and was not cleared
  meanwhile, the same request is then answered by the daemon with what was stored: it is not
  handed back to the client, no provider is called, and the read is logged as served from the cache.\<close>

theorem stored_values_are_served:
  fixes req :: "'a request_context_scheme"
  assumes "im_wf secrets" and "get_providers c (rq_profile req) = Inr providers"
    and "store_resolved_values (dh_library H s) c (rq_profile req) secrets req
      (config_fingerprint (dh_library H s) c (rq_env req)) epoch vs st0 = Inr (dp_state s)"
    and "\<And>k sc. im_get secrets k = Some sc \<Longrightarrow>
      secret_is_cacheable (dh_library H s) providers (cache_policy_default_provider c (rq_profile req) providers) sc (rq_purpose req) \<and>
      \<not> (case epoch of Some e \<Rightarrow> cleared_since st0 k e | None \<Rightarrow> False) \<and> im_get vs k = Some (Some (f k))"
  shows "answer_batch H c secrets req s =
    (Inr (Resolved (map (\<lambda>(k, _). (k, Some (f k))) secrets)),
     audit_in_daemon H c (rq_profile req) (rq_purpose req) (rq_config req) secrets
       (map (\<lambda>(k, _). (k, Some (f k))) secrets) (im_keys secrets) s)"
proof -
  have hits: "cached_value (dh_library H s) providers (cache_policy_default_provider c (rq_profile req) providers)
      (config_fingerprint (dh_library H s) c (rq_env req)) (rq_profile req) (rq_no_defaults req) (rq_purpose req)
      (dp_state s) e = Some (f (fst e))" if "e \<in> set secrets" for e
  proof -
    from that have "im_get secrets (fst e) = Some (snd e)" by (simp add: im_get_of_in [OF assms(1)])
    with assms(4) [OF this] stored_value_hits [OF assms(1,2,3) this] show ?thesis by (cases e) simp
  qed
  show ?thesis
    by (simp add: answer_batch_def andThen_get_state all_hits [OF assms(1,2) hits]) (simp add: andThen_def all_hits [OF assms(1,2) hits])
qed

definition demo_host :: "(string, unit) daemon_host" where
  "demo_host =
     \<lparr>dh_library = (\<lambda>_. demo_library), dh_services = (\<lambda>_. toy_services), dh_load = (\<lambda>_ _. Inr demo_daemon_config),
      dh_current_dir = (\<lambda>_. True), dh_directory = (\<lambda>_ _. True), dh_similar = (\<lambda>_ _. []), dh_show = (\<lambda>_. []), dh_pid = 1, dh_version = ''1'',
      dh_supported = True, dh_audit_writable = True\<rparr>"

definition demo_stored :: "unit daemon_process" where
  "demo_stored = demo_process (initial_daemon\<lparr>ds_cache := [(\<lparr>ck_secret = ''TOKEN'', ck_hash = ''defaultfalseTOKENexec{}''\<rparr>, Some ''t'')]\<rparr>)"

lemma demo_stored:
  "store_resolved_values (dh_library demo_host demo_stored) demo_daemon_config (rq_profile demo_batch) (c_secrets demo_daemon_config)
     demo_batch (config_fingerprint (dh_library demo_host demo_stored) demo_daemon_config (rq_env demo_batch)) (Some 0)
     [(''TOKEN'', Some ''t'')] initial_daemon = Inr (dp_state demo_stored)"
  by code_simp

lemma demo_policy:
  "get_providers demo_daemon_config (rq_profile demo_batch) = Inr []"
  "secret_is_cacheable (dh_library demo_host demo_stored) [] dp (demo_secret None False) (rq_purpose demo_batch)"
  by (code_simp, simp add: secret_is_cacheable_def provider_daemon_cache_enabled_def demo_batch_def demo_secret_def split: option.split)

theorem stored_values_are_served_witness:
  "fst (answer_batch demo_host demo_daemon_config (c_secrets demo_daemon_config) demo_batch demo_stored) =
     Inr (Resolved [(''TOKEN'', Some ''t'')])"
proof -
  have "im_wf (c_secrets demo_daemon_config)" by code_simp
  moreover have "secret_is_cacheable (dh_library demo_host demo_stored) []
      (cache_policy_default_provider demo_daemon_config (rq_profile demo_batch) []) sc (rq_purpose demo_batch) \<and>
      \<not> (case Some 0 of Some e \<Rightarrow> cleared_since initial_daemon k e | None \<Rightarrow> False) \<and>
      im_get [(''TOKEN'', Some ''t'')] k = Some (Some ''t'')"
    if "im_get (c_secrets demo_daemon_config) k = Some sc" for k sc
    using that by (auto simp: demo_daemon_config_def demo_policy(2) cleared_since_def initial_daemon_def split: if_splits)
  ultimately have "fst (answer_batch demo_host demo_daemon_config (c_secrets demo_daemon_config) demo_batch demo_stored) =
      Inr (Resolved (map (\<lambda>(k, _). (k, Some ''t'')) (c_secrets demo_daemon_config)))"
    by (subst stored_values_are_served [OF _ demo_policy(1) demo_stored, where f = "\<lambda>_. ''t''"]) simp_all
  then show ?thesis by (simp add: demo_daemon_config_def)
qed

end
