(* ===== verification/Exec.thy ===== *)
theory Exec
  imports Daemon LeaseResolve Redact
begin

text \<open>
  Running a command (\<open>plan\<close> of \<open>src/child_env.rs\<close> and \<open>src/commands/exec.rs\<close>): select,
  resolve, run the leases, assemble, and start the command with the environment and the redactor that
  result. The state is the client's process with the lease ledger beside it. Writing a temporary file
  gives its path; starting the command is the end of the model.
\<close>

record 'w run_state =
  rn_client :: "'w client"
  rn_ledger :: ledger

record ('p, 'w) run_host =
  rh_client :: "('p, 'w) client_host"
  rh_leases :: "'w lease_services"
  rh_write_file :: "string \<Rightarrow> string \<Rightarrow> fnox_error + string"
  rh_similar :: "string \<Rightarrow> string list \<Rightarrow> string list"
  rh_glob :: "string \<Rightarrow> (string \<Rightarrow> bool) option"
  rh_env_redact :: "bool option"

type_synonym ('w, 'a) run_effect = "('w run_state, fnox_error, 'a) comp"

definition on_client :: "('w, 'a) client_effect \<Rightarrow> ('w, 'a) run_effect" where
  "on_client m = (\<lambda>s. case m (rn_client s) of (r, cl) \<Rightarrow> (r, s\<lparr>rn_client := cl\<rparr>))"

definition on_process :: "('w, 'a) effect \<Rightarrow> ('w, 'a) run_effect" where
  "on_process m = on_client (in_client m)"

definition on_leases :: "('w, 'a) lease_effect \<Rightarrow> ('w, 'a) run_effect" where
  "on_leases m = (\<lambda>s.
     case m \<lparr>ls_run = cl_run (rn_client s), ls_ledger = rn_ledger s\<rparr> of
       (r, t) \<Rightarrow> (r, \<lparr>rn_client = (rn_client s)\<lparr>cl_run := ls_run t\<rparr>, rn_ledger = ls_ledger t\<rparr>))"

abbreviation child_vars :: "'w run_state \<Rightarrow> (string, string) imap" where
  \<comment> \<open>what a command that is started now would inherit\<close>
  "child_vars s \<equiv> rs_env (cl_run (rn_client s))"

subsection \<open>The plan\<close>

definition rejection_help :: "key_rejection \<Rightarrow> string" where
  "rejection_help r =
     rev (trim_start (rev
       (concat (map (\<lambda>(key, similar).
          if similar = [] then []
          else ''Did you mean '' @ join '' or '' similar @ '' instead of '' @ key @ ''?'' @ [CHR 0x0A]) (kr_suggestions r)) @
        (if kr_not_injectable r = [] then []
         else ''env = false secrets are never injected; read them with `fnox get`. '' @
              ''env = '' @ [CHR 0x22] @ ''exec'' @ [CHR 0x22] @ '' secrets are only injected for `--for exec`.''))))"

definition rejection_error :: "key_rejection \<Rightarrow> fnox_error" where
  "rejection_error r = EnvKeysRejected (kr_unknown r) (map fst (kr_not_injectable r)) (rejection_help r)"

fun guarded_keys :: "(string \<Rightarrow> string \<Rightarrow> fnox_error + string) \<Rightarrow> secrets \<Rightarrow> vals \<Rightarrow> string list" where
  \<comment> \<open>the names that the guard of \<open>set_secrets_as_env\<close> holds, also when it stops at a file that
    cannot be written\<close>
  "guarded_keys write_file secrets [] = []"
| "guarded_keys write_file secrets ((key, None) # resolved) = guarded_keys write_file secrets resolved"
| "guarded_keys write_file secrets ((key, Some v) # resolved) =
     (if (case im_get secrets key of Some sc \<Rightarrow> s_as_file sc \<and> isl (write_file key v) | None \<Rightarrow> False) then []
      else key # guarded_keys write_file secrets resolved)"

definition usable_cache :: "('p, 'w) run_host \<Rightarrow> string \<Rightarrow> lease_backend \<Rightarrow> ('w, bool) lease_effect" where
  \<comment> \<open>whether a lease whose prerequisites are missing may run from the cache\<close>
  "usable_cache R name lb =
     (let C = rh_leases R
      in locked C (andThen get_state (\<lambda>s. ok
        (case find_reusable (lc_max_utc C) (lc_now C) name (config_hash (lc_library C) lb) (ls_ledger s) of
           Some r \<Rightarrow> lr_cached_credentials r \<noteq> None
         | None \<Rightarrow> False))))"

definition run_lease ::
  "('p, 'w) run_host \<Rightarrow> ('p, lease_backend) config \<Rightarrow> string list \<Rightarrow> string \<Rightarrow>
   (string, string) imap \<times> string list \<Rightarrow> string \<times> lease_backend \<Rightarrow>
   ('w, (string, string) imap \<times> string list) lease_effect" where
  "run_lease R c ps label = (\<lambda>(creds, used) (name, lb).
     andThen get_state (\<lambda>s.
       let missing = check_prerequisites (lc_machine (rh_leases R) (ls_run s)) lb
       in andThen (if missing = None then ok True else usable_cache R name lb) (\<lambda>runs.
            if \<not> runs then ok (creds, used)
            else andThen (resolve_lease (mh_services (rh_client R)) (rh_leases R) c ps name lb
                            (map_option prerequisite_message missing) label False) (\<lambda>new.
                   ok (fold (\<lambda>(k, v). im_insert k v) new creds, used @ [name])))))"

definition run_leases ::
  "('p, 'w) run_host \<Rightarrow> ('p, lease_backend) config \<Rightarrow> string list \<Rightarrow> string \<Rightarrow> secrets \<Rightarrow> leases \<Rightarrow> selection \<Rightarrow> vals \<Rightarrow>
   ('w, (string, string) imap \<times> string list) run_effect" where
  \<comment> \<open>the guard removes the temporary variables on every path\<close>
  "run_leases R c ps label secrets leases sel resolved =
     (if sl_leases sel = [] then ok ([], [])
      else on_leases (\<lambda>s.
        case andThen (on_run (set_secrets_as_env (rh_write_file R) resolved secrets []))
               (\<lambda>_. foldM (run_lease R c ps label) ([], [])
                  (filter (\<lambda>(name, _). name \<in> set (sl_leases sel)) leases)) s of
          (r, s') \<Rightarrow> (r, s'\<lparr>ls_run := drop_env_guard (guarded_keys (rh_write_file R) secrets resolved) (ls_run s')\<rparr>)))"

definition resolve_needed ::
  "('p, 'w) run_host \<Rightarrow> resolve_context \<Rightarrow> ('p, lease_backend) config \<Rightarrow> string list \<Rightarrow> env_scope \<Rightarrow> secrets \<Rightarrow>
   ('w, vals) run_effect" where
  "resolve_needed R x c ps scope needed =
     (if needed = [] then ok []
      else on_client (resolve_batch_with_context (rh_client R) x c ps needed (scope_purpose scope) True))"

definition plan ::
  "('p, 'w) run_host \<Rightarrow> resolve_context \<Rightarrow> ('p, lease_backend) config \<Rightarrow> string list \<Rightarrow> env_scope \<Rightarrow> roots \<Rightarrow> string \<Rightarrow>
   ('w, child_env) run_effect" where
  "plan R x c ps scope roots label =
     (let S = mh_services (rh_client R)
      in andThen (lift_sum (get_secrets_with_no_defaults c ps (sv_no_defaults S))) (\<lambda>secrets.
         andThen (lift_sum (get_leases c ps)) (\<lambda>leases.
         andThen (case select (rh_similar R) secrets leases scope roots of
                    Inl rejection \<Rightarrow> err (rejection_error rejection) | Inr sel \<Rightarrow> ok sel) (\<lambda>sel.
         andThen (lift_sum (resolve_set S c ps secrets leases sel)) (\<lambda>needed.
         andThen (resolve_needed R x c ps scope needed) (\<lambda>resolved.
         andThen (run_leases R c ps label secrets leases sel resolved) (\<lambda>(creds, used).
           let env = assemble scope secrets leases sel resolved creds used
           in ok (case roots of Filtered f \<Rightarrow> restrict_plan f env | _ \<Rightarrow> env))))))))"

subsection \<open>The command\<close>

record exec_command =
  ex_only :: "string list"
  ex_except :: "string list"
  ex_redact :: bool
  ex_no_redact :: bool
  ex_replace :: bool
  ex_refresh :: "string list"
  ex_command :: "string list"

record terminals =
  tt_stdout :: bool
  tt_stderr :: bool

record 'a spawned =
  sp_vars :: "(string, string) imap"
  sp_plan :: child_env
  sp_redact_out :: "'a redactor option"
  sp_redact_err :: "'a redactor option"

definition add_file :: "('p, 'w) run_host \<Rightarrow> (string, string) imap \<Rightarrow> string \<times> string \<Rightarrow> fnox_error + (string, string) imap" where
  "add_file R vars kv = bind_sum (rh_write_file R (fst kv) (snd kv)) (\<lambda>path. Inr (im_insert (fst kv) path vars))"

fun add_files :: "('p, 'w) run_host \<Rightarrow> (string, string) imap \<Rightarrow> (string \<times> string) list \<Rightarrow> fnox_error + (string, string) imap" where
  "add_files R vars [] = Inr vars"
| "add_files R vars (kv # files) = bind_sum (add_file R vars kv) (\<lambda>vars. add_files R vars files)"

definition command_vars :: "('p, 'w) run_host \<Rightarrow> child_env \<Rightarrow> (string, string) imap \<Rightarrow> fnox_error + (string, string) imap" where
  \<comment> \<open>remove, then set, then files\<close>
  "command_vars R env inherited =
     add_files R (im_extend (fold im_remove (cv_remove env) inherited) (cv_set env)) (cv_files env)"

definition replace_conflict ::
  "exec_command \<Rightarrow> terminals \<Rightarrow> bool \<Rightarrow> secret_filter \<Rightarrow> secrets \<Rightarrow> leases \<Rightarrow> fnox_error option" where
  "replace_conflict e tt redact_on f secrets leases =
     (let would_filter = redact_on \<and> \<not> (tt_stdout tt \<and> tt_stderr tt);
          file_secrets = map fst (filter (\<lambda>(key, sc). s_as_file sc \<and> in_exec (secret_env_mode sc) \<and> allows f key) secrets)
      in if ex_redact e \<or> would_filter then Some ExecReplaceRedact
         else if file_secrets \<noteq> [] then Some (ExecReplaceFileSecrets (join '', '' file_secrets))
         else if leases \<noteq> [] then Some ExecReplaceLeases
         else None)"

definition redactor_for :: "'a automata \<Rightarrow> child_env \<Rightarrow> 'a redactor option" where
  "redactor_for A env = new_redactor A (map snd (cv_set env) @ map snd (cv_files env))"

definition exec ::
  "('p, 'w) run_host \<Rightarrow> 'a automata \<Rightarrow> terminals \<Rightarrow> resolve_context \<Rightarrow> ('p, lease_backend) config \<Rightarrow> string list \<Rightarrow>
   exec_command \<Rightarrow> ('w, 'a spawned) run_effect" where
  \<comment> \<open>\<open>run\<close> up to the start of the command; \<open>None\<close> for a stream that is not filtered\<close>
  "exec R A tt x c ps e =
     (if ex_command e = [] then err CommandNotSpecified
      else
      let S = mh_services (rh_client R)
      in andThen (lift_sum (get_secrets_with_no_defaults c ps (sv_no_defaults S))) (\<lambda>secrets.
         andThen (lift_sum (get_leases c ps)) (\<lambda>leases.
         andThen (lift_sum (new_filter (rh_glob R) (ex_only e) (ex_except e))) (\<lambda>f.
         let redact_on = ex_redact e \<or> (\<not> ex_no_redact e \<and> should_redact_exec (rh_env_redact R) c)
         in andThen (case (if ex_replace e then replace_conflict e tt redact_on f secrets leases else None) of
                       Some conflict \<Rightarrow> err conflict | None \<Rightarrow> ok ()) (\<lambda>_.
            andThen (on_client (refresh (rh_client R) x c (ex_refresh e))) (\<lambda>_.
            andThen (plan R x c ps ScopeExec (if filter_is_empty f then Scope else Filtered f) ''exec'') (\<lambda>env.
            andThen get_state (\<lambda>s.
            andThen (lift_sum (command_vars R env (child_vars s))) (\<lambda>vars.
              let r = redactor_for A env
              in ok \<lparr>sp_vars = vars, sp_plan = env,
                     sp_redact_out = (if redact_on \<and> \<not> tt_stdout tt \<and> \<not> ex_replace e then r else None),
                     sp_redact_err = (if redact_on \<and> \<not> tt_stderr tt \<and> \<not> ex_replace e then r else None)\<rparr>)))))))))"


subsection \<open>The environment of the command\<close>

lemma accepted_Inr:
  "(case r of Inl e \<Rightarrow> err (f e) | Inr a \<Rightarrow> ok a) s = (Inr b, s') \<longleftrightarrow> r = Inr b \<and> s' = s"
  by (cases r) auto

lemma plan_Inr:
  assumes "plan R x c ps scope roots label s = (Inr env, s')"
  shows "\<exists>secrets leases sel needed resolved creds used s1.
    get_secrets_with_no_defaults c ps (sv_no_defaults (mh_services (rh_client R))) = Inr secrets \<and>
    get_leases c ps = Inr leases \<and> select (rh_similar R) secrets leases scope roots = Inr sel \<and>
    resolve_set (mh_services (rh_client R)) c ps secrets leases sel = Inr needed \<and>
    resolve_needed R x c ps scope needed s = (Inr resolved, s1) \<and>
    run_leases R c ps label secrets leases sel resolved s1 = (Inr (creds, used), s') \<and>
    env = (case roots of Filtered f \<Rightarrow> restrict_plan f (assemble scope secrets leases sel resolved creds used)
           | _ \<Rightarrow> assemble scope secrets leases sel resolved creds used)"
  using assms unfolding plan_def Let_def by (auto simp: andThen_Inr accepted_Inr)

lemma run_lease_wf:
  assumes "im_wf creds" and "run_lease R c ps label (creds, used) (name, lb) s = (Inr (creds', used'), s')"
  shows "im_wf creds'"
proof -
  have "im_wf (fold (\<lambda>(k, v). im_insert k v) new creds)" for new :: "(string \<times> string) list"
    using assms(1) by (induction new arbitrary: creds) (auto intro: im_wf_insert)
  with assms show ?thesis
    by (auto simp: run_lease_def Let_def andThen_get_state andThen_Inr split: if_splits)
qed

lemma run_lease_loop_wf:
  "foldM (run_lease R c ps label) cu ls s = (Inr (creds, used), s') \<Longrightarrow> im_wf (fst cu) \<Longrightarrow> im_wf creds"
proof (induction ls arbitrary: cu s)
  case (Cons l ls)
  obtain a b name lb where eq: "cu = (a, b)" "l = (name, lb)" by (metis surj_pair)
  from Cons.prems obtain a' b' s1 where "run_lease R c ps label (a, b) (name, lb) s = (Inr (a', b'), s1)"
    and rest: "foldM (run_lease R c ps label) (a', b') ls s1 = (Inr (creds, used), s')"
    by (auto simp: eq andThen_Inr)
  with Cons.prems(2) have "im_wf a'" by (auto simp: eq intro: run_lease_wf)
  with Cons.IH [OF rest] show ?case by simp
qed simp

lemma run_leases_wf:
  assumes "run_leases R c ps label secrets leases sel resolved s = (Inr (creds, used), s')"
  shows "im_wf creds"
proof (cases "sl_leases sel = []")
  case False
  with assms obtain t1 t2 ls where "foldM (run_lease R c ps label) ([], []) ls t1 = (Inr (creds, used), t2)"
    by (auto simp: run_leases_def on_leases_def andThen_Inr split: prod.splits)
  from run_lease_loop_wf [OF this] show ?thesis by simp
qed (use assms in \<open>simp add: run_leases_def\<close>)

lemma removed_vars: "im_get (fold im_remove ks vars) k = (if k \<in> set ks then None else im_get vars k)"
  by (induction ks arbitrary: vars) (auto simp: imap_simps)

lemma added_files:
  assumes "add_files R vars files = Inr vars'" and "im_wf files"
  shows "(case im_get files k of
      Some content \<Rightarrow> \<exists>path. rh_write_file R k content = Inr path \<and> im_get vars' k = Some path
    | None \<Rightarrow> im_get vars' k = im_get vars k)"
  using assms
proof (induction files arbitrary: vars)
  case (Cons kv files)
  obtain j content where kv: "kv = (j, content)" by (cases kv)
  from Cons.prems obtain path where path: "rh_write_file R j content = Inr path"
    and rest: "add_files R (im_insert j path vars) files = Inr vars'"
    by (auto simp: kv add_file_def bind_sum_Inr)
  from Cons.prems(2) have new: "im_get files j = None" and wf: "im_wf files" by (simp_all add: kv im_wf_Cons)
  from Cons.IH [OF rest wf] path new show ?case
    by (cases "k = j") (auto simp: kv imap_simps split: option.splits)
qed simp

lemma exec_Inr:
  assumes "exec R A tt x c ps e s = (Inr sp, s')"
  shows "\<exists>f s1. new_filter (rh_glob R) (ex_only e) (ex_except e) = Inr f \<and>
    plan R x c ps ScopeExec (if filter_is_empty f then Scope else Filtered f) ''exec'' s1 = (Inr (sp_plan sp), s') \<and>
    command_vars R (sp_plan sp) (child_vars s') = Inr (sp_vars sp) \<and>
    sp_redact_out sp = (if (ex_redact e \<or> (\<not> ex_no_redact e \<and> should_redact_exec (rh_env_redact R) c)) \<and>
        \<not> tt_stdout tt \<and> \<not> ex_replace e then redactor_for A (sp_plan sp) else None) \<and>
    sp_redact_err sp = (if (ex_redact e \<or> (\<not> ex_no_redact e \<and> should_redact_exec (rh_env_redact R) c)) \<and>
        \<not> tt_stderr tt \<and> \<not> ex_replace e then redactor_for A (sp_plan sp) else None)"
  using assms unfolding exec_def Let_def
  by (cases "ex_command e = []") (fastforce simp: andThen_Inr)+

lemma assembled_files_wf: "im_wf (cv_files (assemble scope secrets leases sel resolved creds used))"
proof -
  have "im_wf (cv_files (fold (assemble_secret sel resolved creds) es out))" if "im_wf (cv_files out)" for es out
    using that
    by (induction es arbitrary: out) (auto simp: assemble_secret_def im_wf_insert split: option.split)
  moreover have "cv_files (fold (add_credential sel secrets) cs out) = cv_files out" for cs out
    by (induction cs arbitrary: out) (auto simp: add_credential_def)
  moreover have "cv_files (fold note_missing ks out) = cv_files out" for ks out
    by (induction ks arbitrary: out) auto
  ultimately show ?thesis by (simp add: assemble_def Let_def split: option.split)
qed

definition command_value ::
  "('p, 'w) run_host \<Rightarrow> secret_filter \<Rightarrow> secrets \<Rightarrow> selection \<Rightarrow> vals \<Rightarrow> (string, string) imap \<Rightarrow> (string, string) imap \<Rightarrow>
   string \<Rightarrow> string option" where
  \<comment> \<open>what a variable of the command is: the file of an \<open>as_file\<close> secret, the value of a lease or a
    secret, nothing for what is scrubbed, and the inherited value of every other name; a value that the filter
    drops uncovers the inherited one, except of an ambient key\<close>
  "command_value R f secrets sel resolved creds inherited k =
     (case wanted_file secrets sel resolved creds k of
        Some content \<Rightarrow> (case rh_write_file R k content of Inr path \<Rightarrow> Some path | Inl _ \<Rightarrow> None)
      | None \<Rightarrow>
          (case wanted_value secrets sel resolved creds k of
             Some v \<Rightarrow>
               if allows f k then Some v
               else if k \<in> set ambient_scrub_keys then None else im_get inherited k
           | None \<Rightarrow> if k \<in> set (scrubbed ScopeExec secrets) then None else im_get inherited k))"

definition planned_env :: "secret_filter \<Rightarrow> child_env \<Rightarrow> child_env" where
  "planned_env f env = (if filter_is_empty f then env else restrict_plan f env)"

lemma assembled_set_wf: "im_wf (cv_set (assemble scope secrets leases sel resolved creds used))"
proof -
  have "im_wf (cv_set (fold (assemble_secret sel resolved creds) es out))" if "im_wf (cv_set out)" for es out
    using that by (induction es arbitrary: out) (auto simp: assemble_secret_def im_wf_insert split: option.split)
  moreover have "im_wf (cv_set (fold (add_credential sel secrets) cs out))" if "im_wf (cv_set out)" for cs out
    using that by (induction cs arbitrary: out) (auto simp: add_credential_def im_wf_insert)
  moreover have "cv_set (fold note_missing ks out) = cv_set out" for ks out
    by (induction ks arbitrary: out) auto
  ultimately show ?thesis by (simp add: assemble_def Let_def split: option.split)
qed

lemma allows_everything: "filter_is_empty f \<Longrightarrow> allows f k"
  by (simp add: filter_is_empty_def allows_def)

lemma restricted_plan:
  assumes "im_wf (cv_set env)"
  shows "im_get (cv_set (restrict_plan f env)) k = (if allows f k then im_get (cv_set env) k else None)"
    and "im_wf (cv_set (restrict_plan f env))" and "cv_files (restrict_plan f env) = cv_files env"
    and "k \<in> set (cv_remove (restrict_plan f env)) \<longleftrightarrow> k \<in> set (cv_remove env) \<or>
      (k \<in> set ambient_scrub_keys \<and> \<not> im_has (cv_files env) k \<and> \<not> (allows f k \<and> im_has (cv_set env) k))"
proof -
  define step where "step = (\<lambda>key env. if \<not> provided env key \<and> key \<notin> set (cv_remove env)
           then env\<lparr>cv_remove := cv_remove env @ [key]\<rparr> else env)"
  have keeps: "cv_set (fold step ks e) = cv_set e" "cv_files (fold step ks e) = cv_files e"
    "provided (fold step ks e) = provided e" for ks e
    by (induction ks arbitrary: e) (auto simp: step_def provided_def fun_eq_iff)
  have removes: "k \<in> set (cv_remove (fold step ks e)) \<longleftrightarrow> k \<in> set (cv_remove e) \<or> (k \<in> set ks \<and> \<not> provided e k)" for ks e
  proof (induction ks arbitrary: e)
    case (Cons j ks)
    have "provided (step j e) = provided e" by (auto simp: step_def provided_def fun_eq_iff)
    with Cons.IH [of "step j e"] show ?case by (auto simp: step_def)
  qed simp
  let ?e = "env\<lparr>cv_set := im_retain (\<lambda>key _. allows f key) (cv_set env)\<rparr>"
  have r: "restrict_plan f env = fold step ambient_scrub_keys ?e" by (simp add: restrict_plan_def step_def Let_def)
  show got: "im_get (cv_set (restrict_plan f env)) k = (if allows f k then im_get (cv_set env) k else None)" for k
    by (simp add: r keeps im_get_retain [OF assms] split: option.split)
  show "im_wf (cv_set (restrict_plan f env))" using assms by (simp add: r keeps im_wf_retain)
  show "cv_files (restrict_plan f env) = cv_files env" by (simp add: r keeps)
  have "provided ?e k \<longleftrightarrow> im_has (cv_files env) k \<or> (allows f k \<and> im_has (cv_set env) k)"
    by (auto simp: provided_def im_has_iff im_get_retain [OF assms] split: option.split)
  then show "k \<in> set (cv_remove (restrict_plan f env)) \<longleftrightarrow> k \<in> set (cv_remove env) \<or>
      (k \<in> set ambient_scrub_keys \<and> \<not> im_has (cv_files env) k \<and> \<not> (allows f k \<and> im_has (cv_set env) k))"
    unfolding r removes by simp
qed

lemma ambient_is_scrubbed: "k \<in> set ambient_scrub_keys \<Longrightarrow> k \<in> set (scrubbed scope secrets)"
  by (simp add: scrubbed_def)

lemma command_vars_assembled:
  assumes "im_wf secrets" and "im_wf creds"
    and "command_vars R (planned_env f (assemble ScopeExec secrets leases sel resolved creds used)) inherited = Inr vars"
  shows "im_get vars k = command_value R f secrets sel resolved creds inherited k"
proof -
  let ?all = "assemble ScopeExec secrets leases sel resolved creds used"
  let ?env = "planned_env f ?all"
  have set_wf: "im_wf (cv_set ?env)" by (simp add: planned_env_def assembled_set_wf restricted_plan(2))
  have files: "cv_files ?env = cv_files ?all" by (simp add: planned_env_def assembled_set_wf restricted_plan(3))
  have vals: "im_get (cv_set ?env) k = (if allows f k then wanted_value secrets sel resolved creds k else None)"
    by (simp add: planned_env_def restricted_plan(1) assembled_set_wf assembled_values(1) [OF assms(1,2)] allows_everything)
  have removed: "k \<in> set (cv_remove ?env) \<longleftrightarrow>
      (k \<in> set (scrubbed ScopeExec secrets) \<and> \<not> offered secrets sel resolved creds k) \<or>
      (\<not> allows f k \<and> k \<in> set ambient_scrub_keys \<and> wanted_file secrets sel resolved creds k = None)"
    using ambient_is_scrubbed [of k ScopeExec secrets]
    by (auto simp: planned_env_def restricted_plan(4) assembled_set_wf assembled_remove [OF assms(1,2)] im_has_iff
        assembled_values [OF assms(1,2)] allows_everything offered_def)
  from assms(3) have "case im_get (cv_files ?all) k of
      Some content \<Rightarrow> \<exists>path. rh_write_file R k content = Inr path \<and> im_get vars k = Some path
    | None \<Rightarrow> im_get vars k = im_get (im_extend (fold im_remove (cv_remove ?env) inherited) (cv_set ?env)) k"
    unfolding command_vars_def files by (rule added_files [OF _ assembled_files_wf])
  then show ?thesis
    using ambient_is_scrubbed [of k ScopeExec secrets]
    by (auto simp: command_value_def assembled_values(2) [OF assms(1,2)] vals removed im_get_extend [OF set_wf]
        removed_vars offered_def split: option.splits)
qed

text \<open>C23: A command runs with the environment of its plan. When \<open>exec\<close>, with or without a filter, gets as far
  as starting the command, then for the selection, the resolved values and the lease credentials of the
  run every variable of the command is the one that the specification \<open>command_value\<close> gives: files,
  then credentials and values that the filter lets through, then nothing for what is scrubbed, and what fnox
  inherited for all other names. A credential that the filter drops uncovers the variable that fnox inherited,
  unless it is an ambient key.\<close>

theorem command_runs_with_its_plan:
  assumes "exec R A tt x c ps e s = (Inr sp, s')"
    and "get_secrets_with_no_defaults c ps (sv_no_defaults (mh_services (rh_client R))) = Inr secrets" and "im_wf secrets"
  shows "\<exists>f leases sel needed resolved creds used s1 s2.
    new_filter (rh_glob R) (ex_only e) (ex_except e) = Inr f \<and> get_leases c ps = Inr leases \<and>
    select (rh_similar R) secrets leases ScopeExec (if filter_is_empty f then Scope else Filtered f) = Inr sel \<and>
    resolve_set (mh_services (rh_client R)) c ps secrets leases sel = Inr needed \<and>
    resolve_needed R x c ps ScopeExec needed s1 = (Inr resolved, s2) \<and>
    run_leases R c ps ''exec'' secrets leases sel resolved s2 = (Inr (creds, used), s') \<and>
    (\<forall>k. im_get (sp_vars sp) k = command_value R f secrets sel resolved creds (child_vars s') k)"
proof -
  from exec_Inr [OF assms(1)] obtain f s1 where f: "new_filter (rh_glob R) (ex_only e) (ex_except e) = Inr f"
    and plan: "plan R x c ps ScopeExec (if filter_is_empty f then Scope else Filtered f) ''exec'' s1 = (Inr (sp_plan sp), s')"
    and vars: "command_vars R (sp_plan sp) (child_vars s') = Inr (sp_vars sp)"
    by auto
  from plan_Inr [OF plan] assms(2) obtain leases sel needed resolved creds used s2 where
      parts: "get_leases c ps = Inr leases"
        "select (rh_similar R) secrets leases ScopeExec (if filter_is_empty f then Scope else Filtered f) = Inr sel"
        "resolve_set (mh_services (rh_client R)) c ps secrets leases sel = Inr needed"
        "resolve_needed R x c ps ScopeExec needed s1 = (Inr resolved, s2)"
    and run: "run_leases R c ps ''exec'' secrets leases sel resolved s2 = (Inr (creds, used), s')"
    and env: "sp_plan sp = planned_env f (assemble ScopeExec secrets leases sel resolved creds used)"
    by (auto simp: planned_env_def)
  from command_vars_assembled [OF assms(3) run_leases_wf [OF run] vars [unfolded env]] f parts run
  show ?thesis by blast
qed

text \<open>C3: A secret that is not for commands never reaches one. When \<open>exec\<close> without a filter starts a
  command, a secret whose \<open>env\<close> mode excludes commands is not among its variables, also when fnox
  itself inherited a variable of that name, except as the credential of a lease of the run.\<close>

theorem command_never_gets_hidden_secret:
  assumes "exec R A tt x c ps e s = (Inr sp, s')" and "ex_only e = []" and "ex_except e = []"
    and "get_secrets_with_no_defaults c ps (sv_no_defaults (mh_services (rh_client R))) = Inr secrets" and "im_wf secrets"
    and "im_get secrets k = Some sc" and "\<not> in_exec (secret_env_mode sc)"
  shows "im_get (sp_vars sp) k = None \<or>
    (\<exists>leases sel resolved creds used s2. run_leases R c ps ''exec'' secrets leases sel resolved s2 = (Inr (creds, used), s') \<and>
       im_get (sp_vars sp) k = im_get creds k)"
proof -
  define f where "f = \<lparr>sf_only = [], sf_except = []\<rparr>"
  have empty: "filter_is_empty f" by (simp add: f_def filter_is_empty_def)
  from exec_Inr [OF assms(1)] assms(2,3) obtain s1 where
      plan: "plan R x c ps ScopeExec Scope ''exec'' s1 = (Inr (sp_plan sp), s')"
    and vars: "command_vars R (sp_plan sp) (child_vars s') = Inr (sp_vars sp)"
    by (auto simp: new_filter_def filter_is_empty_def)
  from plan_Inr [OF plan] assms(4) obtain leases sel needed resolved creds used s2 where
      sel: "select (rh_similar R) secrets leases ScopeExec Scope = Inr sel"
    and run: "run_leases R c ps ''exec'' secrets leases sel resolved s2 = (Inr (creds, used), s')"
    and env: "sp_plan sp = planned_env f (assemble ScopeExec secrets leases sel resolved creds used)"
    by (auto simp: planned_env_def empty)
  note got = command_vars_assembled [OF assms(5) run_leases_wf [OF run] vars [unfolded env], of k]
  show ?thesis
  proof (cases "im_has creds k")
    case False
    from out_of_scope_not_offered [OF assms(5) sel assms(6) _ False] assms(7) show ?thesis
      by (simp add: got command_value_def)
  next
    case True
    moreover have "sl_requested sel = None" using sel by (auto simp: select_def)
    ultimately have "im_get (sp_vars sp) k = im_get creds k"
      by (auto simp: got command_value_def allows_everything [OF empty] wanted_file_def wanted_value_def wanted_credential_def im_has_iff)
    with run show ?thesis by blast
  qed
qed

subsection \<open>A concrete run\<close>

definition run_client :: "(string, unit) client_host" where
  "run_client =
     \<lparr>mh_services = toy_services, mh_daemon = demo_host, mh_display = (\<lambda>_. []), mh_start_failure = None,
      mh_audit_writable = False\<rparr>"

definition demo_run :: "(string, unit) run_host" where
  "demo_run =
     \<lparr>rh_client = run_client, rh_leases = LeaseResolve.demo_services 0,
      rh_write_file = (\<lambda>k _. Inr (''/tmp/'' @ k)), rh_similar = (\<lambda>_ _. []), rh_glob = (\<lambda>_. None), rh_env_redact = None\<rparr>"

definition run_config :: "(string, lease_backend) config" where
  "run_config = new_config\<lparr>
     c_providers := [(''age'', ''age''), (''op'', ''op'')],
     c_secrets :=
       [(''URL'', default_secret ''db://${HOST}''), (''HOST'', default_secret ''localhost''),
        (''ADMIN'', (default_secret ''root'')\<lparr>s_env := Some EnvNever\<rparr>)]\<rparr>"

definition run_context :: resolve_context where
  "run_context =
     \<lparr>rx_config = [], rx_profile = [''default''], rx_age_key_file = None, rx_if_missing = None, rx_no_defaults = False,
      rx_non_interactive = True, rx_no_daemon = True\<rparr>"

definition run_start :: "unit run_state" where
  "run_start =
     \<lparr>rn_client = \<lparr>cl_run = \<lparr>rs_env = [(''ADMIN'', ''inherited''), (''PATH'', ''/bin'')], rs_world = ()\<rparr>, cl_cwd = [], cl_audit = [],
        cl_socket = Missing, cl_daemon = demo_stored\<rparr>,
      rn_ledger = []\<rparr>"

definition run_command :: "string list \<Rightarrow> exec_command" where
  "run_command only =
     \<lparr>ex_only = only, ex_except = [], ex_redact = False, ex_no_redact = False, ex_replace = False, ex_refresh = [],
      ex_command = [''env'']\<rparr>"

definition run_only :: "string list \<Rightarrow> (fnox_error + bytes list spawned) \<times> unit run_state" where
  "run_only only = exec demo_run toy_automata \<lparr>tt_stdout = True, tt_stderr = True\<rparr> run_context run_config [''default''] (run_command only) run_start"

lemma run_vars:
  "case fst (run_only []) of
     Inr sp \<Rightarrow> map (im_get (sp_vars sp)) [''URL'', ''HOST'', ''ADMIN'', ''PATH''] =
       [Some ''db://localhost'', Some ''localhost'', None, Some ''/bin'']
   | Inl _ \<Rightarrow> False"
  by code_simp

definition demo_spawned :: "bytes list spawned" where
  "demo_spawned =
     (case fst (run_only []) of
        Inr sp \<Rightarrow> sp
      | Inl _ \<Rightarrow> \<lparr>sp_vars = [], sp_plan = assemble ScopeExec [] [] \<lparr>sl_roots = [], sl_requested = None, sl_leases = []\<rparr> [] [] [],
                  sp_redact_out = None, sp_redact_err = None\<rparr>)"

lemma demo_spawned:
  "exec demo_run toy_automata \<lparr>tt_stdout = True, tt_stderr = True\<rparr> run_context run_config [''default''] (run_command []) run_start =
     (Inr demo_spawned, snd (run_only []))"
proof -
  have "\<not> isl (fst (run_only []))" using run_vars by (auto split: sum.splits)
  then have "run_only [] = (Inr demo_spawned, snd (run_only []))"
    by (auto simp: demo_spawned_def prod_eq_iff split: sum.split)
  then show ?thesis by (simp add: run_only_def)
qed

lemma run_secrets:
  "get_secrets_with_no_defaults run_config [''default''] (sv_no_defaults (mh_services (rh_client demo_run))) =
     Inr (c_secrets run_config)"
  "im_wf (c_secrets run_config)"
  "im_get (c_secrets run_config) ''ADMIN'' = Some ((default_secret ''root'')\<lparr>s_env := Some EnvNever\<rparr>)"
  "\<not> in_exec (secret_env_mode ((default_secret ''root'')\<lparr>s_env := Some EnvNever\<rparr>))"
  by code_simp+

lemma run_no_filter: "ex_only (run_command []) = []" "ex_except (run_command []) = []"
  by (simp_all add: run_command_def)

definition filtered_command :: "unit run_state \<Rightarrow> (string, string) imap \<Rightarrow> bool" where
  \<comment> \<open>the variables of a command that is started with a filter\<close>
  "filtered_command s' vars \<longleftrightarrow>
     (\<exists>f sel resolved creds. allows f ''URL'' \<and> \<not> allows f ''HOST'' \<and>
        (\<forall>k. im_get vars k = command_value demo_run f (c_secrets run_config) sel resolved creds (child_vars s') k))"

definition filtered_spawned :: "bytes list spawned" where
  "filtered_spawned = (case fst (run_only [''URL'']) of Inr sp \<Rightarrow> sp | Inl _ \<Rightarrow> demo_spawned)"

lemma filtered_spawned:
  "exec demo_run toy_automata \<lparr>tt_stdout = True, tt_stderr = True\<rparr> run_context run_config [''default''] (run_command [''URL'']) run_start =
     (Inr filtered_spawned, snd (run_only [''URL'']))"
proof -
  have "\<not> isl (fst (run_only [''URL'']))" by code_simp
  then have "run_only [''URL''] = (Inr filtered_spawned, snd (run_only [''URL'']))"
    by (auto simp: filtered_spawned_def prod_eq_iff split: sum.split)
  then show ?thesis by (simp add: run_only_def)
qed

lemma demo_filter:
  "new_filter (rh_glob demo_run) (ex_only (run_command [''URL''])) (ex_except (run_command [''URL''])) =
     Inr \<lparr>sf_only = [\<lparr>pt_raw = ''URL'', pt_glob = None\<rparr>], sf_except = []\<rparr>"
  by (simp add: run_command_def new_filter_def parse_pattern_def)

theorem command_runs_with_its_plan_witness:
  "filtered_command (snd (run_only [''URL''])) (sp_vars filtered_spawned)"
proof -
  have "allows \<lparr>sf_only = [\<lparr>pt_raw = ''URL'', pt_glob = None\<rparr>], sf_except = []\<rparr> ''URL''"
    "\<not> allows \<lparr>sf_only = [\<lparr>pt_raw = ''URL'', pt_glob = None\<rparr>], sf_except = []\<rparr> ''HOST''"
    by (simp_all add: allows_def pattern_matches_def)
  then show ?thesis
    using command_runs_with_its_plan [OF filtered_spawned run_secrets(1,2)]
    unfolding filtered_command_def demo_filter by auto
qed

theorem command_never_gets_hidden_secret_witness:
  "im_get (sp_vars demo_spawned) ''ADMIN'' = None \<or>
    (\<exists>leases sel resolved creds used s2.
       run_leases demo_run run_config [''default''] ''exec'' (c_secrets run_config) leases sel resolved s2 =
         (Inr (creds, used), snd (run_only [])) \<and>
       im_get (sp_vars demo_spawned) ''ADMIN'' = im_get creds ''ADMIN'')"
  by (rule command_never_gets_hidden_secret [OF demo_spawned run_no_filter run_secrets])

text \<open>A filter does not keep a dependency from the command. With \<open>--only URL\<close> the variable \<open>HOST\<close>
  that \<open>URL\<close> refers to is no part of the plan, but resolving it puts it into fnox's own environment,
  and the command inherits it from there.\<close>

lemma dependency_is_inherited:
  "case fst (run_only [''URL'']) of
     Inr sp \<Rightarrow> \<not> provided (sp_plan sp) ''HOST'' \<and> im_get (sp_vars sp) ''HOST'' = Some ''localhost''
   | Inl _ \<Rightarrow> False"
  by code_simp

end
