(* ===== verification/ProxyNetwork.thy ===== *)
theory ProxyNetwork
  imports Names "HOL-Library.Word"
begin

text \<open>
  Which addresses the local proxy may connect to (\<open>src/proxy.rs\<close>). An IPv4 address is a
  \<open>32 word\<close>, an IPv6 address a \<open>128 word\<close>, a network an address with a prefix
  length. The \<open>ipnet\<close> crate is the parameter \<open>networks\<close>: it reads entries, clears the host
  bits of a network and tests membership; \<open>ipnet_laws\<close> is what its documentation promises. The
  name lookup of the operating system is a parameter of \<open>resolve\<close>.
\<close>

unbundle bit_operations_syntax

datatype ip_addr = V4 "32 word" | V6 "128 word"
datatype ip_net = Net4 "32 word" nat | Net6 "128 word" nat

type_synonym socket_addr = "ip_addr \<times> nat"

record networks =
  nw_parse_net :: "string \<Rightarrow> ip_net option"
  nw_parse_addr :: "string \<Rightarrow> ip_addr option"
  nw_trunc :: "ip_net \<Rightarrow> ip_net"
  nw_contains :: "ip_net \<Rightarrow> ip_addr \<Rightarrow> bool"

text \<open>Two words agree on their first \<open>n\<close> bits of \<open>w\<close>.\<close>

definition same_prefix :: "nat \<Rightarrow> nat \<Rightarrow> 'a::len word \<Rightarrow> 'a word \<Rightarrow> bool" where
  "same_prefix w n a b \<longleftrightarrow> drop_bit (w - n) a = drop_bit (w - n) b"

fun net_contains :: "ip_net \<Rightarrow> ip_addr \<Rightarrow> bool" where
  "net_contains (Net4 a n) (V4 b) = same_prefix 32 n a b"
| "net_contains (Net6 a n) (V6 b) = same_prefix 128 n a b"
| "net_contains _ _ = False"

fun net_trunc :: "ip_net \<Rightarrow> ip_net" where
  "net_trunc (Net4 a n) = Net4 (push_bit (32 - n) (drop_bit (32 - n) a)) n"
| "net_trunc (Net6 a n) = Net6 (push_bit (128 - n) (drop_bit (128 - n) a)) n"

fun net_valid :: "ip_net \<Rightarrow> bool" where
  "net_valid (Net4 a n) = (n \<le> 32)"
| "net_valid (Net6 a n) = (n \<le> 128)"

definition ipnet_laws :: "networks \<Rightarrow> bool" where
  "ipnet_laws N \<longleftrightarrow>
     (\<forall>net ip. nw_contains N net ip = net_contains net ip) \<and>
     (\<forall>net. nw_trunc N net = net_trunc net) \<and>
     (\<forall>entry net. nw_parse_net N entry = Some net \<longrightarrow> net_valid net)"

subsection \<open>Canonical addresses\<close>

definition to_ipv4_mapped :: "128 word \<Rightarrow> 32 word option" where
  "to_ipv4_mapped v6 = (if drop_bit 32 v6 = 0xffff then Some (ucast v6) else None)"

fun to_canonical :: "ip_addr \<Rightarrow> ip_addr" where
  "to_canonical (V4 a) = V4 a"
| "to_canonical (V6 a) = (case to_ipv4_mapped a of Some v4 \<Rightarrow> V4 v4 | None \<Rightarrow> V6 a)"

definition embedded_ipv4 :: "128 word \<Rightarrow> 32 word option" where
  "embedded_ipv4 v6 =
     (if drop_bit 32 v6 = 0x64ff9b0000000000000000 then Some (ucast v6)
      else if drop_bit 112 v6 = 0x2002 then Some (ucast (drop_bit 80 v6))
      else None)"

definition NON_PUBLIC_NETWORKS :: "ip_net list" where
  "NON_PUBLIC_NETWORKS =
     [Net4 0x00000000 8, Net4 0x0a000000 8, Net4 0x64400000 10, Net4 0x7f000000 8,
      Net4 0xa9fe0000 16, Net4 0xac100000 12, Net4 0xc0000000 24, Net4 0xc0000200 24,
      Net4 0xc0a80000 16, Net4 0xc6120000 15, Net4 0xc6336400 24, Net4 0xcb007100 24,
      Net4 0xe0000000 3,
      Net6 0 96, Net6 0x0064ff9b000100000000000000000000 48,
      Net6 0x01000000000000000000000000000000 64, Net6 0x20010002000000000000000000000000 48,
      Net6 0x20010db8000000000000000000000000 32, Net6 0x3fff0000000000000000000000000000 20,
      Net6 0xfc000000000000000000000000000000 7, Net6 0xfe800000000000000000000000000000 10,
      Net6 0xfec00000000000000000000000000000 10, Net6 0xff000000000000000000000000000000 8]"

definition reserved :: "networks \<Rightarrow> ip_addr \<Rightarrow> bool" where
  "reserved N ip \<longleftrightarrow> list_ex (\<lambda>net. nw_contains N net ip) NON_PUBLIC_NETWORKS"

text \<open>The recursion of the code is one deep: the embedded address is an IPv4 address.\<close>

definition is_public :: "networks \<Rightarrow> ip_addr \<Rightarrow> bool" where
  "is_public N ip =
     (case to_canonical ip of
        V4 a \<Rightarrow> \<not> reserved N (V4 a)
      | V6 a \<Rightarrow>
          (case embedded_ipv4 a of
             Some v4 \<Rightarrow> \<not> reserved N (V4 v4)
           | None \<Rightarrow> \<not> reserved N (V6 a)))"

fun canonical_network :: "ip_net \<Rightarrow> ip_net" where
  "canonical_network (Net6 a n) =
     (if n \<ge> 96 then (case to_ipv4_mapped a of Some v4 \<Rightarrow> Net4 v4 (n - 96) | None \<Rightarrow> Net6 a n)
      else Net6 a n)"
| "canonical_network (Net4 a n) = Net4 a n"

definition net_of_addr :: "ip_addr \<Rightarrow> ip_net" where
  "net_of_addr ip = (case ip of V4 a \<Rightarrow> Net4 a 32 | V6 a \<Rightarrow> Net6 a 128)"

text \<open>\<open>None\<close> is the error that names the entry.\<close>

definition parse_network :: "networks \<Rightarrow> string \<Rightarrow> ip_net option" where
  "parse_network N entry =
     map_option (\<lambda>net. canonical_network (nw_trunc N net))
       (case nw_parse_net N entry of
          Some net \<Rightarrow> Some net
        | None \<Rightarrow> map_option net_of_addr (nw_parse_addr N entry))"

subsection \<open>The destination policy\<close>

record destination_policy =
  dp_allowed :: "ip_net list"

datatype destination_error = Lookup string | Refused

definition permits :: "networks \<Rightarrow> destination_policy \<Rightarrow> ip_addr \<Rightarrow> bool" where
  "permits N P ip =
     (let ip = to_canonical ip
      in is_public N ip \<or> list_ex (\<lambda>net. nw_contains N net ip) (dp_allowed P))"

definition resolve ::
  "networks \<Rightarrow> (string \<Rightarrow> nat \<Rightarrow> string + socket_addr list) \<Rightarrow> destination_policy \<Rightarrow> string \<Rightarrow> nat \<Rightarrow>
   destination_error + socket_addr list" where
  "resolve N lookup_host P host port =
     (case lookup_host host port of
        Inl e \<Rightarrow> Inl (Lookup e)
      | Inr resolved \<Rightarrow>
          if resolved = [] then Inl (Lookup ''no addresses found'')
          else (let permitted = filter (\<lambda>address. permits N P (fst address)) resolved
                in if permitted = [] then Inl Refused else Inr permitted))"

subsection \<open>How an IPv4 address may be written\<close>

definition mapped :: "32 word \<Rightarrow> 128 word" where
  "mapped a = push_bit 32 0xffff OR ucast a"

definition nat64 :: "32 word \<Rightarrow> 128 word" where
  "nat64 a = push_bit 32 0x64ff9b0000000000000000 OR ucast a"

definition sixtofour :: "32 word \<Rightarrow> 80 word \<Rightarrow> 128 word" where
  "sixtofour a rest = push_bit 112 0x2002 OR push_bit 80 (ucast a) OR ucast rest"

lemma high_of_join: "drop_bit n (push_bit n h OR ucast (l :: 'a::len word)) = (h :: 'b::len word)"
  if "LENGTH('a) \<le> n" "take_bit (LENGTH('b) - n) h = h"
proof (rule bit_word_eqI)
  fix i assume i: "i < LENGTH('b)"
  have h: "bit h i \<longleftrightarrow> i < LENGTH('b) - n \<and> bit h i"
    using arg_cong [OF that(2), where f = "\<lambda>w. bit w i"] by (simp add: bit_take_bit_iff)
  have "\<not> bit l (n + i)" using that(1) by (meson bit_imp_le_length not_le trans_le_add1 le_trans)
  then show "bit (drop_bit n (push_bit n h OR ucast l)) i = bit h i"
    using h i by (auto simp: bit_simps)
qed

lemma bit_join:
  "bit (push_bit n h OR ucast (l :: 'a::len word) :: 'b::len word) i \<longleftrightarrow>
     i < LENGTH('b) \<and> (if i < n then bit l i else bit h (i - n))"
  if "LENGTH('a) \<le> n"
  using that by (auto simp: bit_simps dest: bit_imp_le_length)

lemma low_of_join: "ucast (push_bit n h OR ucast (l :: 'a::len word) :: 'b::len word) = l"
  if "LENGTH('a) \<le> n" "LENGTH('a) \<le> LENGTH('b)"
proof (rule bit_word_eqI)
  fix i assume i: "i < LENGTH('a)"
  with that show "bit (ucast (push_bit n h OR ucast l :: 'b word) :: 'a word) i = bit l i"
    by (auto simp: bit_simps)
qed

lemma mapped_parts: "drop_bit 32 (mapped a) = 0xffff" "ucast (mapped a) = a"
  unfolding mapped_def
  by (rule high_of_join low_of_join; simp add: take_bit_eq_mask mask_numeral)+

lemma nat64_parts: "drop_bit 32 (nat64 a) = 0x64ff9b0000000000000000" "ucast (nat64 a) = a"
  unfolding nat64_def
  by (rule high_of_join low_of_join; simp add: take_bit_eq_mask mask_numeral)+

lemma to_ipv4_mapped_mapped [simp]: "to_ipv4_mapped (mapped a) = Some a"
  by (simp add: to_ipv4_mapped_def mapped_parts)

lemma mappedI: "to_ipv4_mapped b = Some a \<Longrightarrow> b = mapped a"
proof -
  assume "to_ipv4_mapped b = Some a"
  then have high: "drop_bit 32 b = 0xffff" and low: "a = ucast b"
    by (auto simp: to_ipv4_mapped_def split: if_splits)
  have "b = push_bit 32 (drop_bit 32 b) OR ucast (ucast b :: 32 word)"
    by (rule bit_word_eqI) (auto simp: bit_simps)
  with high low show "b = mapped a" by (simp add: mapped_def)
qed

lemma embedded_nat64: "to_ipv4_mapped (nat64 a) = None \<and> embedded_ipv4 (nat64 a) = Some a"
  by (simp add: to_ipv4_mapped_def embedded_ipv4_def nat64_parts)

lemma sixtofour_prefix: "drop_bit 112 (sixtofour a rest) = 0x2002"
proof (rule bit_word_eqI)
  fix i assume "i < LENGTH(128)"
  have "bit (drop_bit 112 (sixtofour a rest)) i = bit (drop_bit 112 (push_bit 112 (0x2002 :: 128 word))) i"
    by (auto simp: sixtofour_def bit_simps dest: bit_imp_le_length)
  also have "drop_bit 112 (push_bit 112 (0x2002 :: 128 word)) = 0x2002" by simp
  finally show "bit (drop_bit 112 (sixtofour a rest)) i = bit (0x2002 :: 128 word) i" .
qed

lemma embedded_sixtofour:
  "to_ipv4_mapped (sixtofour a rest) = None \<and> embedded_ipv4 (sixtofour a rest) = Some a"
proof -
  have ne: "drop_bit 32 (sixtofour a rest) \<noteq> h" if "drop_bit 80 h \<noteq> 0x2002" for h
  proof
    assume "drop_bit 32 (sixtofour a rest) = h"
    from arg_cong [OF this, of "drop_bit 80"] that show False by (simp add: sixtofour_prefix)
  qed
  have "ucast (drop_bit 80 (push_bit 112 h OR push_bit 80 (ucast a) OR ucast rest)) = a" for h :: "128 word"
    by (rule bit_word_eqI) (auto simp: bit_simps dest: bit_imp_le_length)
  then have "ucast (drop_bit 80 (sixtofour a rest)) = a" unfolding sixtofour_def .
  then show ?thesis by (simp add: to_ipv4_mapped_def embedded_ipv4_def sixtofour_prefix ne)
qed

subsection \<open>Which addresses are permitted\<close>

fun reaches :: "ip_addr \<Rightarrow> ip_addr" where
  \<comment> \<open>the address that packets to an address reach: the IPv4 one where there is one\<close>
  "reaches (V4 a) = V4 a"
| "reaches (V6 a) =
     (case to_ipv4_mapped a of
        Some v4 \<Rightarrow> V4 v4
      | None \<Rightarrow> (case embedded_ipv4 a of Some v4 \<Rightarrow> V4 v4 | None \<Rightarrow> V6 a))"

lemma is_public_reaches: "is_public N ip \<longleftrightarrow> \<not> reserved N (reaches ip)"
  by (cases ip) (auto simp: is_public_def split: option.splits)

lemma is_public_canonical [simp]: "is_public N (to_canonical ip) = is_public N ip"
  by (cases ip) (auto simp: is_public_def split: option.splits)

lemma reaches_canonical [simp]: "reaches (to_canonical ip) = reaches ip"
  by (cases ip) (auto split: option.splits)

lemma spellings_reach:
  "reaches (V6 (mapped a)) = V4 a" "reaches (V6 (nat64 a)) = V4 a" "reaches (V6 (sixtofour a rest)) = V4 a"
  using embedded_nat64 [of a] embedded_sixtofour [of a rest] by simp_all

lemma mapped_prefix:
  assumes "96 \<le> n" "n \<le> 128"
  shows "same_prefix 128 n (mapped a) (mapped b) = same_prefix 32 (n - 96) a b"
proof -
  have low: "bit (mapped c) i \<longleftrightarrow> (if i < 32 then bit c i else bit (mapped 0) i)" for c i
    unfolding mapped_def by (subst (1 2) bit_join) (auto dest: bit_imp_le_length)
  have w: "32 - (n - 96) = 128 - n" and le: "128 - n \<le> 32" using assms by auto
  show ?thesis
  proof
    assume eq: "same_prefix 128 n (mapped a) (mapped b)"
    have "bit a (128 - n + i) = bit b (128 - n + i)" for i
    proof (cases "128 - n + i < 32")
      case True
      have "bit (drop_bit (128 - n) (mapped a)) i = bit (drop_bit (128 - n) (mapped b)) i"
        using eq by (simp add: same_prefix_def)
      with True show ?thesis by (simp add: bit_drop_bit_eq low [of a] low [of b])
    qed (auto dest: bit_imp_le_length)
    then show "same_prefix 32 (n - 96) a b"
      by (auto simp: same_prefix_def w bit_drop_bit_eq intro!: bit_word_eqI)
  next
    assume eq: "same_prefix 32 (n - 96) a b"
    have "bit a (128 - n + i) = bit b (128 - n + i)" for i
      using arg_cong [where f = "\<lambda>x. bit x i", OF eq [unfolded same_prefix_def w]] by (simp add: bit_drop_bit_eq)
    then show "same_prefix 128 n (mapped a) (mapped b)"
      by (auto simp: same_prefix_def bit_drop_bit_eq low [of a] low [of b] intro!: bit_word_eqI)
  qed
qed

lemma unmapped_prefix:
  assumes "96 \<le> n" "n \<le> 128" "same_prefix 128 n a b"
  shows "to_ipv4_mapped a = None \<longleftrightarrow> to_ipv4_mapped b = None"
proof -
  have "drop_bit (n - 96) (drop_bit (128 - n) a) = drop_bit (n - 96) (drop_bit (128 - n) b)"
    using assms(3) by (simp add: same_prefix_def)
  with assms(1,2) have "drop_bit 32 a = drop_bit 32 b" by simp
  then show ?thesis by (simp add: to_ipv4_mapped_def)
qed

lemma canonical_network_contains:
  assumes "96 \<le> n" "n \<le> 128"
  shows "net_contains (canonical_network (Net6 a n)) (to_canonical (V6 b)) = net_contains (Net6 a n) (V6 b)"
proof (cases "to_ipv4_mapped a")
  case None
  then show ?thesis using assms unmapped_prefix [OF assms, of a b] by (auto split: option.splits)
next
  case (Some va)
  then have a: "a = mapped va" by (rule mappedI)
  show ?thesis
  proof (cases "to_ipv4_mapped b")
    case None
    with Some show ?thesis using assms unmapped_prefix [OF assms, of a b] by auto
  next
    case (Some vb)
    then have "b = mapped vb" by (rule mappedI)
    then show ?thesis using assms by (simp add: a mapped_prefix)
  qed
qed

definition acceptable :: "destination_policy \<Rightarrow> ip_addr \<Rightarrow> bool" where
  \<comment> \<open>the specification: where packets go is not reserved, or a network of the configuration allows it\<close>
  "acceptable P ip \<longleftrightarrow>
     list_all (\<lambda>net. \<not> net_contains net (reaches ip)) NON_PUBLIC_NETWORKS \<or>
     list_ex (\<lambda>net. net_contains net (to_canonical ip)) (dp_allowed P)"

lemma permits_acceptable: "ipnet_laws N \<Longrightarrow> permits N P ip \<longleftrightarrow> acceptable P ip"
  by (auto simp: permits_def is_public_reaches [of N ip] reserved_def list_ex_iff list_all_iff acceptable_def
      ipnet_laws_def)

text \<open>C25: A connection is only made to permitted addresses: resolving a host answers with those addresses
  of the name lookup, at least one, that are acceptable: the address that packets to it reach (the
  embedded IPv4 address of a mapped, NAT64 or 6to4 address) lies in no reserved network, or the
  configuration allows a network that contains the canonical address. With none, the host is refused.\<close>

theorem only_permitted_addresses:
  assumes "ipnet_laws N" and "lookup_host host port = Inr resolved" and "resolved \<noteq> []"
  shows "resolve N lookup_host P host port =
    (case filter (\<lambda>(ip, _). acceptable P ip) resolved of [] \<Rightarrow> Inl Refused | a # as \<Rightarrow> Inr (a # as))"
proof -
  have "filter (\<lambda>address. permits N P (fst address)) resolved = filter (\<lambda>(ip, _). acceptable P ip) resolved"
    by (rule filter_cong) (auto simp: permits_acceptable [OF assms(1)])
  with assms(2,3) show ?thesis by (auto simp: resolve_def Let_def split: list.splits)
qed

text \<open>However an address is written, it is judged alike: a mapped IPv4 address is permitted when the
  IPv4 address is, NAT64 and 6to4 addresses are public when the IPv4 address they carry is, and an allowed
  network of mapped addresses, rewritten as an IPv4 network, contains the canonical form of exactly the
  addresses it contained.\<close>

lemma address_spellings_agree:
  "permits N P (V6 (mapped a)) = permits N P (V4 a)"
  "is_public N (V6 (nat64 a)) = is_public N (V4 a)"
  "is_public N (V6 (sixtofour a rest)) = is_public N (V4 a)"
  "net_contains (canonical_network (Net6 net (96 + k mod 33))) (to_canonical (V6 b)) =
     net_contains (Net6 net (96 + k mod 33)) (V6 b)"
proof -
  show "permits N P (V6 (mapped a)) = permits N P (V4 a)" by (simp add: permits_def)
  show "is_public N (V6 (nat64 a)) = is_public N (V4 a)"
    "is_public N (V6 (sixtofour a rest)) = is_public N (V4 a)"
    by (simp_all add: is_public_reaches spellings_reach del: reaches.simps(2))
  show "net_contains (canonical_network (Net6 net (96 + k mod 33))) (to_canonical (V6 b)) =
     net_contains (Net6 net (96 + k mod 33)) (V6 b)"
    by (rule canonical_network_contains) simp_all
qed

subsection \<open>A concrete case\<close>

definition plain_networks :: networks where
  "plain_networks =
     \<lparr>nw_parse_net = (\<lambda>_. None), nw_parse_addr = (\<lambda>_. None), nw_trunc = net_trunc, nw_contains = net_contains\<rparr>"

definition demo_hosts :: "string \<Rightarrow> nat \<Rightarrow> string + socket_addr list" where
  "demo_hosts host port = Inr [(V4 0x7f000001, port), (V6 (nat64 0x0a000001), port), (V4 0x08080808, port)]"

lemma plain_networks_lawful: "ipnet_laws plain_networks"
  by (simp add: ipnet_laws_def plain_networks_def)

theorem only_permitted_addresses_witness:
  "resolve plain_networks demo_hosts \<lparr>dp_allowed = []\<rparr> ''a.test'' 443 = Inr [(V4 0x08080808, 443)]"
proof -
  note step = only_permitted_addresses [of plain_networks demo_hosts "''a.test''" 443
      "[(V4 0x7f000001, 443), (V6 (nat64 0x0a000001), 443), (V4 0x08080808, 443)]" "\<lparr>dp_allowed = []\<rparr>"]
  have "acceptable \<lparr>dp_allowed = []\<rparr> (V4 0x08080808)" "\<not> acceptable \<lparr>dp_allowed = []\<rparr> (V4 0x7f000001)"
      "\<not> acceptable \<lparr>dp_allowed = []\<rparr> (V6 (nat64 0x0a000001))"
    by (simp_all add: acceptable_def NON_PUBLIC_NETWORKS_def same_prefix_def spellings_reach del: reaches.simps(2))
  with step show ?thesis by (simp add: plain_networks_lawful demo_hosts_def)
qed

end
