(* ===== verification/ProxyPolicy.thy ===== *)
theory ProxyPolicy
  imports ProxyNetwork ConfigModel Text Redact "HOL-Library.Multiset"
begin

text \<open>
  The policy of the local credential proxy (\<open>src/proxy.rs\<close>): rules are validated and prepared into
  a plan, a request is authorized by replacing the placeholders that a rule for its destination rule_allows
  by secret values, and responses are redacted. The crates behind it are the parameter
  \<open>proxy_library\<close>: globs, HTTP methods, base64, URLs and their query encoding, the decoding of
  bytes as UTF-8, and the digest of a generated placeholder. Every error is the variant
  \<open>FnoxError::Config\<close> of a message, one of \<open>proxy_message\<close>.
\<close>

datatype proxy_message =
    NoRules
  | SecretUnresolved string
  | SecretEmpty string
  | PlaceholdersDiffer string
  | PlaceholderEmpty string
  | PlaceholderIsValue string
  | PlaceholdersNotUnique
  | EnvMapsTwice string
  | PlaceholderInPlaceholder
  | PlaceholderInValue
  | AllowDomainInvalid string
  | AllowPrivateInvalid string
  | RuleSecretEmpty
  | RuleDomainInvalid string string
  | RuleHeaderAndQuery string
  | RuleHeaderInvalid string
  | RuleQueryEmpty string
  | RuleMethodInvalid string string
  | PathNotAbsolute string
  | PathPatternInvalid string
  | PathPatternsInvalid "string list"
  | DestinationNotAllowed string
  | RouteNotAllowed string string string
  | PlaceholderRepeated string
  | PlaceholderOutside string
  | ProxyPanic

record 'u proxy_library =
  xl_networks :: networks
  xl_glob_ok :: "string \<Rightarrow> bool"
  xl_globs_ok :: "string list \<Rightarrow> bool"
  xl_glob_match :: "string list \<Rightarrow> string \<Rightarrow> bool"
  xl_method_ok :: "string \<Rightarrow> bool"
  xl_base64 :: "string \<Rightarrow> bytes option"
  xl_url_parse :: "string \<Rightarrow> string + 'u"
  xl_url_path :: "'u \<Rightarrow> string"
  xl_url_query :: "'u \<Rightarrow> string option"
  xl_url_host :: "'u \<Rightarrow> string option"
  xl_url_scheme :: "'u \<Rightarrow> string"
  xl_url_port :: "'u \<Rightarrow> nat option"
  xl_set_query :: "'u \<Rightarrow> string option \<Rightarrow> 'u"
  xl_form_first :: "string \<Rightarrow> (string \<times> string) option"
  xl_form_encode :: "string \<Rightarrow> string"
  xl_utf8 :: "bytes \<Rightarrow> string option"
  xl_utf8_lossy :: "bytes \<Rightarrow> string"
  xl_digest_hex :: "string \<Rightarrow> string"
  xl_hash_order :: "string list \<Rightarrow> string list"

subsection \<open>Rules\<close>

datatype target = Header string | Query string

definition DEFAULT_HEADER :: string where
  "DEFAULT_HEADER = ''authorization''"

definition for_rule :: "proxy_rule \<Rightarrow> target" where
  "for_rule rule =
     (case r_query rule of
        Some name \<Rightarrow> Query name
      | None \<Rightarrow> Header (to_ascii_lowercase (case r_header rule of Some h \<Rightarrow> h | None \<Rightarrow> DEFAULT_HEADER)))"

definition target_label :: "proxy_rule \<Rightarrow> string" where
  "target_label rule =
     (case for_rule rule of Header name \<Rightarrow> ''header='' @ name | Query name \<Rightarrow> ''query='' @ name)"

definition domain_matches :: "string \<Rightarrow> string \<Rightarrow> bool" where
  "domain_matches pattern domain =
     (case strip_prefix ''*.'' pattern of
        Some parent \<Rightarrow>
          (case Option.bind (strip_suffix parent domain) (strip_suffix ''.'') of
             Some label \<Rightarrow> label \<noteq> [] \<and> CHR ''.'' \<notin> set label
           | None \<Rightarrow> False)
      | None \<Rightarrow> pattern = domain)"

record prepared_rule =
  pr_secret :: string
  pr_domain :: string
  pr_target :: target
  pr_methods :: "string list"
  pr_paths :: "string list option"
  pr_placeholder :: string
  pr_value :: string

definition route_matches :: "'u proxy_library \<Rightarrow> prepared_rule \<Rightarrow> string \<Rightarrow> string \<Rightarrow> bool" where
  "route_matches L rule method path \<longleftrightarrow>
     (pr_methods rule = [] \<or> method \<in> set (pr_methods rule)) \<and>
     (case pr_paths rule of None \<Rightarrow> True | Some patterns \<Rightarrow> xl_glob_match L patterns path)"

record redaction =
  rx_value :: bytes
  rx_placeholder :: bytes
  rx_lenient :: bool

record proxy_policy =
  pp_egress :: proxy_egress
  pp_audit :: bool
  pp_rules :: "prepared_rule list"
  pp_allow_domains :: "string list"
  pp_destinations :: destination_policy
  pp_token :: string
  pp_redactions :: "redaction list"

definition has_domain :: "proxy_policy \<Rightarrow> string \<Rightarrow> bool" where
  "has_domain P domain \<longleftrightarrow> list_ex (\<lambda>rule. domain_matches (pr_domain rule) domain) (pp_rules P)"

definition allows_tunnel :: "proxy_policy \<Rightarrow> string \<Rightarrow> bool" where
  "allows_tunnel P domain \<longleftrightarrow>
     pp_egress P = Permissive \<or> list_ex (\<lambda>pattern. domain_matches pattern domain) (pp_allow_domains P)"

subsection \<open>Client credentials\<close>

definition constant_time_eq :: "bytes \<Rightarrow> bytes \<Rightarrow> bool" where
  "constant_time_eq left right \<longleftrightarrow>
     length left = length right \<and> fold (\<lambda>(a, b) difference. difference OR (a XOR b)) (zip left right) 0 = 0"

fun after_colon :: "bytes \<Rightarrow> bytes" where
  \<comment> \<open>the bytes after the first colon, none without a colon\<close>
  "after_colon [] = []"
| "after_colon (b # bs) = (if b = 58 then bs else after_colon bs)"

definition accepts_credentials :: "'u proxy_library \<Rightarrow> proxy_policy \<Rightarrow> string \<Rightarrow> bool" where
  "accepts_credentials L P header =
     (case split_once CHR '' '' (trim header) of
        None \<Rightarrow> False
      | Some (scheme, encoded) \<Rightarrow>
          if \<not> eq_ignore_ascii_case scheme ''basic'' then False
          else (case xl_base64 L (trim encoded) of
                  None \<Rightarrow> False
                | Some decoded \<Rightarrow> constant_time_eq (after_colon decoded) (as_bytes (pp_token P))))"

definition loggable_target :: "'u proxy_library \<Rightarrow> string \<Rightarrow> string" where
  "loggable_target L t =
     (let plain = (let t = takeWhile (\<lambda>c. c \<noteq> CHR ''?'' \<and> c \<noteq> CHR ''#'') t
                   in case rsplit_once CHR ''@'' t of Some (_, rest) \<Rightarrow> rest | None \<Rightarrow> t)
      in case xl_url_parse L t of
           Inl _ \<Rightarrow> plain
         | Inr url \<Rightarrow>
             (case xl_url_host L url of
                None \<Rightarrow> plain
              | Some host \<Rightarrow>
                  xl_url_scheme L url @ ''://'' @ host @
                  (case xl_url_port L url of Some port \<Rightarrow> '':'' @ digits_of port | None \<Rightarrow> []) @
                  xl_url_path L url))"

subsection \<open>Authorizing a request\<close>

definition hex_digit :: "byte \<Rightarrow> nat option" where
  "hex_digit b =
     (let n = unat b
      in if 48 \<le> n \<and> n \<le> 57 then Some (n - 48)
         else if 65 \<le> n \<and> n \<le> 70 then Some (n - 55)
         else if 97 \<le> n \<and> n \<le> 102 then Some (n - 87)
         else None)"

definition decode_hex_pair :: "byte \<Rightarrow> byte \<Rightarrow> byte option" where
  "decode_hex_pair high low =
     (case (hex_digit high, hex_digit low) of
        (Some h, Some l) \<Rightarrow> Some (of_nat (h * 16 + l))
      | _ \<Rightarrow> None)"

fun percent_decode_bytes :: "bytes \<Rightarrow> bytes" where
  "percent_decode_bytes (b # h # l # rest) =
     (if b = 37
      then (case decode_hex_pair h l of
              Some byte \<Rightarrow> byte # percent_decode_bytes rest
            | None \<Rightarrow> b # percent_decode_bytes (h # l # rest))
      else b # percent_decode_bytes (h # l # rest))"
| "percent_decode_bytes bs = bs"

definition percent_decode :: "'u proxy_library \<Rightarrow> string \<Rightarrow> string" where
  "percent_decode L input = xl_utf8_lossy L (percent_decode_bytes (as_bytes input))"

type_synonym headers = "(string \<times> string) list"

definition query_segments :: "string option \<Rightarrow> string list" where
  "query_segments q = (case q of None \<Rightarrow> [] | Some q \<Rightarrow> split_char CHR ''&'' q)"

definition occurrences :: "'u proxy_library \<Rightarrow> string list \<Rightarrow> string \<Rightarrow> nat" where
  "occurrences L raw placeholder =
     sum_list (map (\<lambda>(name, v). match_count name placeholder + match_count v placeholder)
       (List.map_filter (xl_form_first L) raw))"

definition param_containing :: "'u proxy_library \<Rightarrow> string list \<Rightarrow> string \<Rightarrow> string option" where
  "param_containing L raw placeholder =
     map_option fst (List.find (\<lambda>(_, v). contains v placeholder) (List.map_filter (xl_form_first L) raw))"

definition replaced_segment :: "'u proxy_library \<Rightarrow> string \<Rightarrow> string \<Rightarrow> string \<Rightarrow> string" where
  "replaced_segment L placeholder v segment =
     (case xl_form_first L segment of
        None \<Rightarrow> segment
      | Some (_, decoded) \<Rightarrow>
          if contains decoded placeholder
          then (case split_once CHR ''='' segment of Some (n, _) \<Rightarrow> n | None \<Rightarrow> segment) @ ''='' @
               xl_form_encode L (replacen1 decoded placeholder v)
          else segment)"

definition replaced :: "'u proxy_library \<Rightarrow> string list \<Rightarrow> string \<Rightarrow> string \<Rightarrow> string" where
  "replaced L raw placeholder v = join ''&'' (map (replaced_segment L placeholder v) raw)"

definition in_headers :: "headers \<Rightarrow> string \<Rightarrow> nat" where
  "in_headers headers placeholder = sum_list (map (\<lambda>(_, v). match_count v placeholder) headers)"

definition in_path :: "'u proxy_library \<Rightarrow> string \<Rightarrow> string \<Rightarrow> nat" where
  "in_path L path placeholder =
     max (match_count path placeholder) (match_count (percent_decode L path) placeholder)"

definition header_with :: "headers \<Rightarrow> string \<Rightarrow> nat option" where
  \<comment> \<open>the index of the first header whose value holds the placeholder\<close>
  "header_with headers placeholder = List.find (\<lambda>i. contains (snd (headers ! i)) placeholder) [0..<length headers]"

definition rule_allows ::
  "'u proxy_library \<Rightarrow> prepared_rule list \<Rightarrow> prepared_rule \<Rightarrow> string \<Rightarrow> string \<Rightarrow> (target \<Rightarrow> bool) \<Rightarrow> bool" where
  "rule_allows L domain_rules rule method path target_ok \<longleftrightarrow>
     list_ex (\<lambda>candidate. pr_placeholder candidate = pr_placeholder rule \<and>
       route_matches L candidate method path \<and> target_ok (pr_target candidate)) domain_rules"

definition is_header :: "string \<Rightarrow> target \<Rightarrow> bool" where
  "is_header name t = (case t of Header n \<Rightarrow> eq_ignore_ascii_case name n | Query _ \<Rightarrow> False)"

definition is_query :: "string \<Rightarrow> target \<Rightarrow> bool" where
  "is_query name t = (case t of Header _ \<Rightarrow> False | Query n \<Rightarrow> n = name)"

definition substitute ::
  "'u proxy_library \<Rightarrow> prepared_rule list \<Rightarrow> string \<Rightarrow> string \<Rightarrow> prepared_rule \<Rightarrow> 'u \<Rightarrow> headers \<Rightarrow>
   proxy_message + ('u \<times> headers) option" where
  \<comment> \<open>the body of the loop for one placeholder; \<open>None\<close> when the request does not carry it\<close>
  "substitute L domain_rules method path rule url headers =
     (let placeholder = pr_placeholder rule;
          query = query_segments (xl_url_query L url);
          n_headers = in_headers headers placeholder;
          n_path = in_path L path placeholder;
          n_query = occurrences L query placeholder;
          n = n_headers + n_path + n_query
      in if n = 0 then Inr None
         else if n > 1 then Inl (PlaceholderRepeated (pr_secret rule))
         else if n_path > 0 then Inl (PlaceholderOutside (pr_secret rule))
         else if n_headers > 0 then
           (case header_with headers placeholder of
              None \<Rightarrow> Inl ProxyPanic
            | Some i \<Rightarrow>
                (case headers ! i of (name, v) \<Rightarrow>
                   if \<not> rule_allows L domain_rules rule method path (is_header name)
                   then Inl (PlaceholderOutside (pr_secret rule))
                   else Inr (Some (url, headers[i := (name, replacen1 v placeholder (pr_value rule))]))))
         else
           (case param_containing L query placeholder of
              None \<Rightarrow> Inl (PlaceholderOutside (pr_secret rule))
            | Some name \<Rightarrow>
                if \<not> rule_allows L domain_rules rule method path (is_query name)
                then Inl (PlaceholderOutside (pr_secret rule))
                else Inr (Some (xl_set_query L url (Some (replaced L query placeholder (pr_value rule))), headers))))"

fun authorize_loop ::
  "'u proxy_library \<Rightarrow> prepared_rule list \<Rightarrow> string \<Rightarrow> string \<Rightarrow> prepared_rule list \<Rightarrow> string set \<Rightarrow>
   'u \<Rightarrow> headers \<Rightarrow> string list \<Rightarrow> proxy_message + 'u \<times> headers \<times> string list" where
  "authorize_loop L domain_rules method path [] checked url headers injected = Inr (url, headers, injected)"
| "authorize_loop L domain_rules method path (rule # rules) checked url headers injected =
     (if pr_placeholder rule \<in> checked
      then authorize_loop L domain_rules method path rules checked url headers injected
      else (let checked = insert (pr_placeholder rule) checked
            in case substitute L domain_rules method path rule url headers of
                 Inl e \<Rightarrow> Inl e
               | Inr None \<Rightarrow> authorize_loop L domain_rules method path rules checked url headers injected
               | Inr (Some (url, headers)) \<Rightarrow>
                   authorize_loop L domain_rules method path rules checked url headers
                     (injected @ [pr_secret rule])))"

definition rules_for :: "proxy_policy \<Rightarrow> string \<Rightarrow> prepared_rule list" where
  "rules_for P domain = filter (\<lambda>rule. domain_matches (pr_domain rule) domain) (pp_rules P)"

definition authorize ::
  "'u proxy_library \<Rightarrow> proxy_policy \<Rightarrow> string \<Rightarrow> string \<Rightarrow> 'u \<Rightarrow> headers \<Rightarrow>
   proxy_message + 'u \<times> headers \<times> string list" where
  "authorize L P domain method url headers =
     (let path = xl_url_path L url; domain_rules = rules_for P domain
      in if domain_rules = [] then Inl (DestinationNotAllowed domain)
         else if \<not> list_ex (\<lambda>rule. route_matches L rule method path) domain_rules
         then Inl (RouteNotAllowed method domain path)
         else authorize_loop L domain_rules method path domain_rules {} url headers [])"

subsection \<open>Validating a configuration\<close>

definition is_valid_domain_pattern :: "string \<Rightarrow> bool" where
  "is_valid_domain_pattern domain \<longleftrightarrow>
     \<not> (trim domain = [] \<or> CHR ''/'' \<in> set domain \<or> CHR '':'' \<in> set domain \<or> ends_with ''.'' domain \<or>
        list_ex is_whitespace domain) \<and>
     (let host = (case strip_prefix ''*.'' domain of Some h \<Rightarrow> h | None \<Rightarrow> domain);
          wildcard = (length (as_bytes host) \<noteq> length (as_bytes domain))
      in \<not> (CHR ''*'' \<in> set host \<or> starts_with ''.'' host \<or> contains host ''..'' \<or>
            (wildcard \<and> CHR ''.'' \<notin> set host)))"

fun check_paths :: "'u proxy_library \<Rightarrow> string list \<Rightarrow> proxy_message + unit" where
  "check_paths L [] = Inr ()"
| "check_paths L (path # paths) =
     (if \<not> starts_with ''/'' path then Inl (PathNotAbsolute path)
      else if \<not> xl_glob_ok L path then Inl (PathPatternInvalid path)
      else check_paths L paths)"

definition compile_paths :: "'u proxy_library \<Rightarrow> string list \<Rightarrow> proxy_message + string list option" where
  "compile_paths L paths =
     (if paths = [] then Inr None
      else bind_sum (check_paths L paths) (\<lambda>_.
        if xl_globs_ok L paths then Inr (Some paths) else Inl (PathPatternsInvalid paths)))"

fun check_methods :: "'u proxy_library \<Rightarrow> string \<Rightarrow> string list \<Rightarrow> proxy_message + unit" where
  "check_methods L secret [] = Inr ()"
| "check_methods L secret (method # methods) =
     (if xl_method_ok L method then check_methods L secret methods else Inl (RuleMethodInvalid secret method))"

definition header_name_ok :: "string \<Rightarrow> bool" where
  "header_name_ok header \<longleftrightarrow> trim header \<noteq> [] \<and> list_all (\<lambda>c. is_alphanumeric c \<or> c = CHR ''-'') header"

definition validate_rule :: "'u proxy_library \<Rightarrow> proxy_rule \<Rightarrow> proxy_message + unit" where
  "validate_rule L rule =
     (if trim (r_secret rule) = [] then Inl RuleSecretEmpty
      else if \<not> is_valid_domain_pattern (r_domain rule) then Inl (RuleDomainInvalid (r_secret rule) (r_domain rule))
      else if r_header rule \<noteq> None \<and> r_query rule \<noteq> None then Inl (RuleHeaderAndQuery (r_secret rule))
      else if (case r_header rule of Some h \<Rightarrow> \<not> header_name_ok h | None \<Rightarrow> False)
      then Inl (RuleHeaderInvalid (r_secret rule))
      else if r_query rule = Some [] then Inl (RuleQueryEmpty (r_secret rule))
      else bind_sum (check_methods L (r_secret rule) (r_methods rule)) (\<lambda>_.
           bind_sum (compile_paths L (r_paths rule)) (\<lambda>_. Inr ())))"

fun each_ok :: "('a \<Rightarrow> 'e + unit) \<Rightarrow> 'a list \<Rightarrow> 'e + unit" where
  "each_ok f [] = Inr ()"
| "each_ok f (x # xs) = bind_sum (f x) (\<lambda>_. each_ok f xs)"

definition validate_config :: "'u proxy_library \<Rightarrow> proxy_config \<Rightarrow> proxy_message + unit" where
  "validate_config L config =
     (if x_rules config = [] then Inl NoRules
      else bind_sum (each_ok (validate_rule L) (x_rules config)) (\<lambda>_.
           bind_sum (each_ok (\<lambda>domain. if is_valid_domain_pattern domain then Inr () else Inl (AllowDomainInvalid domain))
             (x_allow_domains config)) (\<lambda>_.
           each_ok (\<lambda>entry. if parse_network (xl_networks L) entry = None then Inl (AllowPrivateInvalid entry) else Inr ())
             (x_allow_private config))))"

subsection \<open>Preparing a plan\<close>

definition generated_placeholder :: "'u proxy_library \<Rightarrow> string \<Rightarrow> string" where
  "generated_placeholder L secret = ''fnox_proxy_'' @ take 24 (xl_digest_hex L secret)"

record plan_state =
  pl_placeholders :: "(string, string) imap"
  pl_env :: "(string, string) imap"
  pl_prepared :: "prepared_rule list"

definition rule_placeholder ::
  "'u proxy_library \<Rightarrow> (string, string) imap \<Rightarrow> proxy_rule \<Rightarrow> string \<Rightarrow> proxy_message + string \<times> (string, string) imap" where
  \<comment> \<open>\<open>seen_placeholders\<close> of the code are the values of the map\<close>
  "rule_placeholder L placeholders rule v =
     (case im_get placeholders (r_secret rule) of
        Some existing \<Rightarrow>
          (case r_placeholder rule of
             Some configured \<Rightarrow>
               if configured \<noteq> existing then Inl (PlaceholdersDiffer (r_secret rule)) else Inr (existing, placeholders)
           | None \<Rightarrow> Inr (existing, placeholders))
      | None \<Rightarrow>
          (let placeholder = (case r_placeholder rule of Some p \<Rightarrow> p | None \<Rightarrow> generated_placeholder L (r_secret rule))
           in if placeholder = [] then Inl (PlaceholderEmpty (r_secret rule))
              else if placeholder = v then Inl (PlaceholderIsValue (r_secret rule))
              else if placeholder \<in> set (map snd placeholders) then Inl PlaceholdersNotUnique
              else Inr (placeholder, im_insert (r_secret rule) placeholder placeholders)))"

definition prepare_rule ::
  "'u proxy_library \<Rightarrow> (string, string) imap \<Rightarrow> proxy_rule \<Rightarrow> plan_state \<Rightarrow> proxy_message + plan_state" where
  "prepare_rule L values_of rule st =
     (case im_get values_of (r_secret rule) of
        None \<Rightarrow> Inl (SecretUnresolved (r_secret rule))
      | Some v \<Rightarrow>
          if v = [] then Inl (SecretEmpty (r_secret rule))
          else bind_sum (rule_placeholder L (pl_placeholders st) rule v) (\<lambda>(placeholder, placeholders).
            let env_name = (case r_env rule of Some e \<Rightarrow> e | None \<Rightarrow> r_secret rule)
            in if (case im_get (pl_env st) env_name of Some existing \<Rightarrow> existing \<noteq> placeholder | None \<Rightarrow> False)
               then Inl (EnvMapsTwice env_name)
               else bind_sum (compile_paths L (r_paths rule)) (\<lambda>paths. Inr
                 \<lparr>pl_placeholders = placeholders,
                  pl_env = im_insert env_name placeholder (pl_env st),
                  pl_prepared = pl_prepared st @
                    [\<lparr>pr_secret = r_secret rule, pr_domain = to_ascii_lowercase (r_domain rule),
                      pr_target = for_rule rule, pr_methods = map to_ascii_uppercase (r_methods rule),
                      pr_paths = paths, pr_placeholder = placeholder, pr_value = v\<rparr>]\<rparr>)))"

fun prepare_rules ::
  "'u proxy_library \<Rightarrow> (string, string) imap \<Rightarrow> proxy_rule list \<Rightarrow> plan_state \<Rightarrow> proxy_message + plan_state" where
  "prepare_rules L values_of [] st = Inr st"
| "prepare_rules L values_of (rule # rules) st =
     bind_sum (prepare_rule L values_of rule st) (prepare_rules L values_of rules)"

fun check_placeholders :: "string list \<Rightarrow> string list \<Rightarrow> proxy_message + unit" where
  "check_placeholders secret_values [] = Inr ()"
| "check_placeholders secret_values (placeholder # others) =
     (if list_ex (\<lambda>other. contains placeholder other \<or> contains other placeholder) others
      then Inl PlaceholderInPlaceholder
      else if list_ex (\<lambda>v. contains v placeholder) secret_values then Inl PlaceholderInValue
      else check_placeholders secret_values others)"

fun add_redaction :: "prepared_rule \<Rightarrow> redaction list \<Rightarrow> redaction list" where
  "add_redaction rule [] =
     [\<lparr>rx_value = as_bytes (pr_value rule), rx_placeholder = as_bytes (pr_placeholder rule),
       rx_lenient = (case pr_target rule of Query _ \<Rightarrow> True | Header _ \<Rightarrow> False)\<rparr>]"
| "add_redaction rule (r # rs) =
     (if rx_value r = as_bytes (pr_value rule)
      then r\<lparr>rx_lenient := rx_lenient r \<or> (case pr_target rule of Query _ \<Rightarrow> True | Header _ \<Rightarrow> False)\<rparr> # rs
      else r # add_redaction rule rs)"

definition redactions_of :: "prepared_rule list \<Rightarrow> redaction list" where
  "redactions_of prepared =
     sort_key (\<lambda>r. - int (length (rx_value r))) (fold add_redaction prepared [])"

fun parse_networks :: "networks \<Rightarrow> string list \<Rightarrow> proxy_message + ip_net list" where
  "parse_networks N [] = Inr []"
| "parse_networks N (entry # entries) =
     (case parse_network N entry of
        None \<Rightarrow> Inl (AllowPrivateInvalid entry)
      | Some net \<Rightarrow> bind_sum (parse_networks N entries) (\<lambda>nets. Inr (net # nets)))"

record proxy_plan =
  pn_policy :: proxy_policy
  pn_child_env :: "(string, string) imap"

definition new_plan ::
  "'u proxy_library \<Rightarrow> string \<Rightarrow> proxy_config \<Rightarrow> (string, string) imap \<Rightarrow> proxy_message + proxy_plan" where
  \<comment> \<open>\<open>session\<close> is the random token, in hexadecimal\<close>
  "new_plan L session config values_of =
     bind_sum (validate_config L config) (\<lambda>_.
     bind_sum (prepare_rules L values_of (x_rules config)
       \<lparr>pl_placeholders = [], pl_env = [], pl_prepared = []\<rparr>) (\<lambda>st.
     bind_sum (check_placeholders (map snd values_of) (xl_hash_order L (map snd (pl_placeholders st)))) (\<lambda>_.
     bind_sum (parse_networks (xl_networks L) (x_allow_private config)) (\<lambda>allowed. Inr
       \<lparr>pn_policy = \<lparr>pp_egress = x_egress config, pp_audit = x_audit config, pp_rules = pl_prepared st,
          pp_allow_domains = map to_ascii_lowercase (x_allow_domains config),
          pp_destinations = \<lparr>dp_allowed = allowed\<rparr>, pp_token = session,
          pp_redactions = redactions_of (pl_prepared st)\<rparr>,
        pn_child_env = pl_env st\<rparr>))))"

subsection \<open>Redacting responses\<close>

fun match_lenient :: "bytes \<Rightarrow> bytes \<Rightarrow> nat option" where
  "match_lenient [] input = Some 0"
| "match_lenient (expected # rest_value) [] = None"
| "match_lenient (expected # rest_value) (first # tail) =
     (let escaped = (case tail of
                       h # l # after \<Rightarrow> if first = 37 \<and> decode_hex_pair h l = Some expected then Some after else None
                     | _ \<Rightarrow> None)
      in case (case escaped of Some after \<Rightarrow> match_lenient rest_value after | None \<Rightarrow> None) of
           Some rest \<Rightarrow> Some (rest + 3)
         | None \<Rightarrow>
             if first = expected \<or> (first = 43 \<and> expected = 32)
             then map_option (\<lambda>rest. rest + 1) (match_lenient rest_value tail)
             else None)"

definition match_len :: "redaction \<Rightarrow> bytes \<Rightarrow> nat option" where
  "match_len r input =
     (if \<not> rx_lenient r then (if prefix (rx_value r) input then Some (length (rx_value r)) else None)
      else match_lenient (rx_value r) input)"

fun find_match :: "redaction list \<Rightarrow> bytes \<Rightarrow> (redaction \<times> nat) option" where
  "find_match [] input = None"
| "find_match (r # rs) input =
     (case match_len r input of Some n \<Rightarrow> Some (r, n) | None \<Rightarrow> find_match rs input)"

text \<open>The scan moves on by the length of the match; the fuel is one step for each byte of the input,
  which is enough when no redaction has an empty value (\<open>redact_bytes_fuel\<close> below).\<close>

fun redact_from :: "nat \<Rightarrow> redaction list \<Rightarrow> bytes \<Rightarrow> bytes option" where
  "redact_from fuel rs [] = Some []"
| "redact_from 0 rs (b # bs) = None"
| "redact_from (Suc fuel) rs (b # bs) =
     (case find_match rs (b # bs) of
        Some (r, n) \<Rightarrow> map_option (\<lambda>out. rx_placeholder r @ out) (redact_from fuel rs (drop n (b # bs)))
      | None \<Rightarrow> map_option (\<lambda>out. b # out) (redact_from fuel rs bs))"

definition redact_bytes :: "redaction list \<Rightarrow> bytes \<Rightarrow> bytes option" where
  \<comment> \<open>\<open>None\<close> would be a scan that does not end\<close>
  "redact_bytes rs input = redact_from (length input) rs input"

subsection \<open>What a response spells\<close>

inductive spells :: "bytes \<Rightarrow> bytes \<Rightarrow> bool" where
  \<comment> \<open>the ways a server may echo a value: each byte as itself, a space as a plus, or as an escape\<close>
  nothing: "spells [] []"
| itself: "spells v s \<Longrightarrow> spells (b # v) (b # s)"
| plus: "spells v s \<Longrightarrow> spells (32 # v) (43 # s)"
| escape: "decode_hex_pair h l = Some b \<Longrightarrow> spells v s \<Longrightarrow> spells (b # v) (37 # h # l # s)"

inductive_cases spells_NilE [elim!]: "spells [] s"
inductive_cases spells_ConsE [elim!]: "spells (b # v) s"

definition spelled :: "redaction \<Rightarrow> bytes \<Rightarrow> bool" where
  "spelled r s \<longleftrightarrow> (if rx_lenient r then spells (rx_value r) s else s = rx_value r)"

lemma match_lenient_sound: "match_lenient v i = Some n \<Longrightarrow> n \<le> length i \<and> spells v (take n i)"
proof (induction v i arbitrary: n rule: match_lenient.induct)
  case (3 b v f i)
  show ?case
  proof (cases "\<exists>h l after m. i = h # l # after \<and> f = 37 \<and> decode_hex_pair h l = Some b \<and> match_lenient v after = Some m")
    case True
    then obtain h l after m where e: "i = h # l # after" "f = 37" "decode_hex_pair h l = Some b"
        "match_lenient v after = Some m" by blast
    then have "n = m + 3" using "3.prems" by simp
    moreover have "m \<le> length after \<and> spells v (take m after)"
      using e by (intro "3.IH"(1)) auto
    ultimately show ?thesis using e by (auto simp: eval_nat_numeral intro: spells.escape)
  next
    case False
    then have none: "(case (case i of h # l # after \<Rightarrow> if f = 37 \<and> decode_hex_pair h l = Some b then Some after else None
        | _ \<Rightarrow> None) of Some after \<Rightarrow> match_lenient v after | None \<Rightarrow> None) = None"
      by (auto split: list.splits)
    with "3.prems" obtain m where m: "f = b \<or> f = 43 \<and> b = 32" "match_lenient v i = Some m" "n = m + 1"
      by (auto simp: Let_def split: if_splits)
    then have "m \<le> length i \<and> spells v (take m i)"
      using none by (intro "3.IH"(2)) (auto simp: Let_def)
    with m show ?thesis by (auto intro: spells.itself spells.plus)
  qed
qed (auto intro: spells.nothing)

lemma match_lenient_complete: "spells v s \<Longrightarrow> match_lenient v (s @ rest) \<noteq> None"
proof (induction v s arbitrary: rest rule: spells.induct)
  case (escape h l b v s)
  then obtain m where "match_lenient v (s @ rest) = Some m" by auto
  with escape show ?case by simp
next
  case (itself v s b)
  then show ?case by (auto simp: Let_def split: option.splits)
next
  case (plus v s)
  then show ?case by (auto simp: Let_def split: option.splits)
qed simp

lemma match_len_sound: "match_len r i = Some n \<Longrightarrow> n \<le> length i \<and> spelled r (take n i)"
  using match_lenient_sound [of "rx_value r" i n]
  by (auto simp: match_len_def spelled_def prefix_def split: if_splits)

lemma match_len_complete: "match_len r i = None \<longleftrightarrow> \<not> (\<exists>s. prefix s i \<and> spelled r s)"
proof (cases "rx_lenient r")
  case True
  have "match_lenient (rx_value r) i \<noteq> None \<longleftrightarrow> (\<exists>s. prefix s i \<and> spells (rx_value r) s)"
    using match_lenient_sound [of "rx_value r" i] match_lenient_complete [of "rx_value r"] take_is_prefix [of _ i]
    unfolding prefix_def by (metis option.exhaust)
  with True show ?thesis by (auto simp: match_len_def spelled_def)
qed (auto simp: match_len_def spelled_def)

lemma find_match_Some:
  "find_match rs i = Some (r, n) \<Longrightarrow> r \<in> set rs \<and> n \<le> length i \<and> spelled r (take n i)"
  by (induction rs) (auto dest: match_len_sound split: option.splits)

lemma find_match_None: "find_match rs i = None \<longleftrightarrow> \<not> (\<exists>r \<in> set rs. \<exists>s. prefix s i \<and> spelled r s)"
proof (induction rs)
  case (Cons r rs)
  then show ?case using match_len_complete [of r i] by (cases "match_len r i") auto
qed simp

lemma spelled_nonempty: "spelled r s \<Longrightarrow> rx_value r \<noteq> [] \<Longrightarrow> s \<noteq> []"
  by (auto simp: spelled_def split: if_splits elim: spells.cases)

datatype piece = Kept byte | Replaced redaction bytes

fun piece_in :: "piece \<Rightarrow> bytes" where
  "piece_in (Kept b) = [b]"
| "piece_in (Replaced r s) = s"

fun piece_out :: "piece \<Rightarrow> bytes" where
  "piece_out (Kept b) = [b]"
| "piece_out (Replaced r s) = rx_placeholder r"

definition input_of :: "piece list \<Rightarrow> bytes" where
  "input_of ps = concat (map piece_in ps)"

definition output_of :: "piece list \<Rightarrow> bytes" where
  "output_of ps = concat (map piece_out ps)"

fun scanned :: "redaction list \<Rightarrow> piece list \<Rightarrow> bool" where
  \<comment> \<open>what is replaced spells a value, and where a byte is kept no value begins\<close>
  "scanned rs [] = True"
| "scanned rs (Kept b # ps) =
     (\<not> (\<exists>r \<in> set rs. \<exists>s. prefix s (b # input_of ps) \<and> spelled r s) \<and> scanned rs ps)"
| "scanned rs (Replaced r s # ps) = (r \<in> set rs \<and> spelled r s \<and> scanned rs ps)"

lemma pieces_simps [simp]:
  "input_of [] = []" "input_of (p # ps) = piece_in p @ input_of ps"
  "output_of [] = []" "output_of (p # ps) = piece_out p @ output_of ps"
  by (simp_all add: input_of_def output_of_def)

lemma redact_bytes_fuel:
  "\<forall>r \<in> set rs. rx_value r \<noteq> [] \<Longrightarrow> length i \<le> fuel \<Longrightarrow>
    \<exists>ps. redact_from fuel rs i = Some (output_of ps) \<and> input_of ps = i \<and> scanned rs ps"
proof (induction fuel rs i rule: redact_from.induct)
  case (3 fuel rs b bs)
  show ?case
  proof (cases "find_match rs (b # bs)")
    case None
    with 3 obtain ps where "redact_from fuel rs bs = Some (output_of ps) \<and> input_of ps = bs \<and> scanned rs ps" by auto
    with None find_match_None [of rs "b # bs"] show ?thesis by (intro exI [of _ "Kept b # ps"]) auto
  next
    case (Some m)
    obtain r n where m: "m = (r, n)" by (cases m)
    with Some have r: "r \<in> set rs" and n: "n \<le> Suc (length bs)" and s: "spelled r (take n (b # bs))"
      by (auto dest: find_match_Some)
    have "n > 0" using spelled_nonempty [OF s bspec [OF "3.prems"(1) r]] by auto
    with "3.prems"(2) have "Suc (length bs) - n \<le> fuel" by simp
    with "3.IH"(2) [OF Some m [symmetric]] "3.prems"(1) obtain ps where "redact_from fuel rs (drop n (b # bs)) = Some (output_of ps)"
        "input_of ps = drop n (b # bs)" "scanned rs ps"
      by auto
    with Some m r s show ?thesis by (intro exI [of _ "Replaced r (take n (b # bs)) # ps"]) simp
  qed
qed (auto intro: exI [of _ "[]"])

lemma as_bytes_Nil [simp]: "as_bytes s = [] \<longleftrightarrow> s = []"
  by (cases s) (auto simp: as_bytes_def utf8_char_def Let_def)

lemma spells_itself [simp]: "spells v v"
  by (induction v) (auto intro: spells.intros)

subsection \<open>The plan of a configuration\<close>

lemma add_redaction_sound:
  "r \<in> set (add_redaction rule rs) \<Longrightarrow>
   (\<exists>r' \<in> set rs. rx_value r = rx_value r' \<and> rx_placeholder r = rx_placeholder r') \<or>
   rx_value r = as_bytes (pr_value rule) \<and> rx_placeholder r = as_bytes (pr_placeholder rule)"
  by (induction rs) (auto split: if_splits)

lemma add_redaction_keeps:
  "r \<in> set rs \<Longrightarrow> \<exists>r' \<in> set (add_redaction rule rs). rx_value r' = rx_value r \<and> (rx_lenient r \<longrightarrow> rx_lenient r')"
  by (induction rs) auto

definition by_query :: "prepared_rule \<Rightarrow> bool" where
  "by_query rule = (case pr_target rule of Query _ \<Rightarrow> True | Header _ \<Rightarrow> False)"

lemma add_redaction_covers:
  "\<exists>r \<in> set (add_redaction rule rs). rx_value r = as_bytes (pr_value rule) \<and> (by_query rule \<longrightarrow> rx_lenient r)"
  by (induction rs) (auto simp: by_query_def split: target.splits)

lemma redactions_fold_keeps:
  "r \<in> set rs \<Longrightarrow> \<exists>r' \<in> set (fold add_redaction rules rs). rx_value r' = rx_value r \<and> (rx_lenient r \<longrightarrow> rx_lenient r')"
proof (induction rules arbitrary: rs r)
  case (Cons rule rules)
  obtain r' where r': "r' \<in> set (add_redaction rule rs)" "rx_value r' = rx_value r" "rx_lenient r \<longrightarrow> rx_lenient r'"
    using add_redaction_keeps [OF Cons.prems, of rule] by blast
  from Cons.IH [OF r'(1)] r' show ?case by auto
qed auto

lemma redactions_cover:
  "rule \<in> set rules \<Longrightarrow>
   \<exists>r \<in> set (redactions_of rules). rx_value r = as_bytes (pr_value rule) \<and> (by_query rule \<longrightarrow> rx_lenient r)"
proof -
  have "rule \<in> set rules \<Longrightarrow>
      \<exists>r \<in> set (fold add_redaction rules rs). rx_value r = as_bytes (pr_value rule) \<and> (by_query rule \<longrightarrow> rx_lenient r)" for rs
  proof (induction rules arbitrary: rs)
    case (Cons first rules)
    show ?case
    proof (cases "rule = first")
      case True
      obtain r where r: "r \<in> set (add_redaction rule rs)" "rx_value r = as_bytes (pr_value rule)" "by_query rule \<longrightarrow> rx_lenient r"
        using add_redaction_covers by blast
      from redactions_fold_keeps [OF r(1), of rules] r True show ?thesis by auto
    qed (use Cons in auto)
  qed simp
  then show "rule \<in> set rules \<Longrightarrow> ?thesis" by (simp add: redactions_of_def)
qed

lemma redactions_sound:
  "r \<in> set (redactions_of rules) \<Longrightarrow>
   \<exists>rule \<in> set rules. rx_value r = as_bytes (pr_value rule) \<and> rx_placeholder r = as_bytes (pr_placeholder rule)"
proof -
  have "r \<in> set (fold add_redaction rules rs) \<Longrightarrow>
      (\<exists>r' \<in> set rs. rx_value r = rx_value r' \<and> rx_placeholder r = rx_placeholder r') \<or>
      (\<exists>rule \<in> set rules. rx_value r = as_bytes (pr_value rule) \<and> rx_placeholder r = as_bytes (pr_placeholder rule))" for rs
  proof (induction rules arbitrary: rs)
    case (Cons rule rules)
    from Cons.IH [of "add_redaction rule rs"] Cons.prems show ?case
      by (fastforce dest: add_redaction_sound)
  qed auto
  from this [of "[]"] show "r \<in> set (redactions_of rules) \<Longrightarrow> ?thesis" by (simp add: redactions_of_def)
qed

definition prepared_from :: "proxy_rule \<Rightarrow> prepared_rule \<Rightarrow> bool" where
  "prepared_from rule pr \<longleftrightarrow>
     pr_secret pr = r_secret rule \<and> pr_domain pr = to_ascii_lowercase (r_domain rule) \<and>
     pr_target pr = for_rule rule \<and> pr_methods pr = map to_ascii_uppercase (r_methods rule) \<and>
     pr_paths pr = (if r_paths rule = [] then None else Some (r_paths rule))"

definition plan_inv :: "(string, string) imap \<Rightarrow> plan_state \<Rightarrow> bool" where
  "plan_inv values_of st \<longleftrightarrow>
     im_wf (pl_placeholders st) \<and> distinct (map snd (pl_placeholders st)) \<and>
     (\<forall>pr \<in> set (pl_prepared st). pr_value pr \<noteq> [] \<and> im_get values_of (pr_secret pr) = Some (pr_value pr) \<and>
        pr_placeholder pr \<noteq> [] \<and> im_get (pl_placeholders st) (pr_secret pr) = Some (pr_placeholder pr)) \<and>
     (\<forall>(secret, p) \<in> set (pl_placeholders st). p \<noteq> [] \<and>
        (\<exists>pr \<in> set (pl_prepared st). pr_secret pr = secret \<and> pr_placeholder pr = p)) \<and>
     (\<forall>(name, p) \<in> set (pl_env st). \<exists>pr \<in> set (pl_prepared st). pr_placeholder pr = p)"

lemma compile_paths_Inr: "compile_paths L paths = Inr r \<Longrightarrow> r = (if paths = [] then None else Some paths)"
  by (auto simp: compile_paths_def bind_sum_Inr split: if_splits)

lemma im_insert_entry: "(k, v) \<in> set (im_insert j w m) \<Longrightarrow> (k, v) \<in> set m \<or> (k = j \<and> v = w)"
  by (induction m) (auto simp: im_insert_def split: if_splits)

lemma rule_placeholder_cases:
  assumes "rule_placeholder L phs rule v = Inr (p, phs')"
  obtains (old) "im_get phs (r_secret rule) = Some p" "phs' = phs"
  | (new) "\<not> im_has phs (r_secret rule)" "p \<noteq> []" "p \<noteq> v" "p \<notin> set (map snd phs)"
      "phs' = phs @ [(r_secret rule, p)]"
  using assms
  by (auto simp: rule_placeholder_def Let_def im_has_None im_insert_new split: option.splits if_splits)

lemma prepare_rule_cases:
  assumes "prepare_rule L values_of rule st = Inr st'"
  obtains p phs name pr where
    "rule_placeholder L (pl_placeholders st) rule (pr_value pr) = Inr (p, phs)"
    "im_get values_of (r_secret rule) = Some (pr_value pr)" "pr_value pr \<noteq> []"
    "prepared_from rule pr" "pr_placeholder pr = p"
    "st' = \<lparr>pl_placeholders = phs, pl_env = im_insert name p (pl_env st), pl_prepared = pl_prepared st @ [pr]\<rparr>"
proof -
  obtain v p phs paths where v: "im_get values_of (r_secret rule) = Some v" "v \<noteq> []"
    and p: "rule_placeholder L (pl_placeholders st) rule v = Inr (p, phs)"
    and paths: "compile_paths L (r_paths rule) = Inr paths"
    and st': "st' = \<lparr>pl_placeholders = phs,
        pl_env = im_insert (case r_env rule of Some e \<Rightarrow> e | None \<Rightarrow> r_secret rule) p (pl_env st),
        pl_prepared = pl_prepared st @
          [\<lparr>pr_secret = r_secret rule, pr_domain = to_ascii_lowercase (r_domain rule),
            pr_target = for_rule rule, pr_methods = map to_ascii_uppercase (r_methods rule),
            pr_paths = paths, pr_placeholder = p, pr_value = v\<rparr>]\<rparr>"
    using assms by (auto simp: prepare_rule_def bind_sum_Inr Let_def split: option.splits if_splits)
  show thesis
    by (rule that [OF _ _ _ _ _ st']) (use v p compile_paths_Inr [OF paths] in \<open>simp_all add: prepared_from_def\<close>)
qed

lemma prepare_rule_inv:
  assumes inv: "plan_inv values_of st" and step: "prepare_rule L values_of rule st = Inr st'"
  shows "plan_inv values_of st'"
  using step
proof (cases rule: prepare_rule_cases)
  case (1 p phs name pr)
  let ?s = "r_secret rule"
  have pr: "pr_secret pr = ?s" using 1(4) by (simp add: prepared_from_def)
  have phs: "im_wf phs \<and> distinct (map snd phs) \<and> im_get phs ?s = Some p \<and> p \<noteq> [] \<and>
      (\<forall>k q. im_get (pl_placeholders st) k = Some q \<longrightarrow> im_get phs k = Some q) \<and>
      (\<forall>e \<in> set phs. e \<in> set (pl_placeholders st) \<or> e = (?s, p))"
    using 1(1)
  proof (cases rule: rule_placeholder_cases)
    case old
    then show ?thesis using inv by (auto simp: plan_inv_def dest: im_get_in)
  next
    case new
    then have phs: "phs = im_insert ?s p (pl_placeholders st)" by (simp add: im_insert_new)
    have "im_wf phs" unfolding phs using inv by (simp add: plan_inv_def im_wf_insert)
    moreover have "distinct (map snd phs)" using inv new by (simp add: plan_inv_def)
    moreover have "im_get phs ?s = Some p \<and> (\<forall>k q. im_get (pl_placeholders st) k = Some q \<longrightarrow> im_get phs k = Some q)"
      unfolding phs using new(1) by (auto simp: im_get_insert im_has_None)
    ultimately show ?thesis using new(2,5) by auto
  qed
  have old: "pr_value q \<noteq> [] \<and> im_get values_of (pr_secret q) = Some (pr_value q) \<and> pr_placeholder q \<noteq> [] \<and>
      im_get (pl_placeholders st) (pr_secret q) = Some (pr_placeholder q)" if "q \<in> set (pl_prepared st)" for q
    using inv that by (simp add: plan_inv_def)
  show ?thesis
    unfolding plan_inv_def 1(6) plan_state.simps
  proof (intro conjI)
    show "\<forall>q \<in> set (pl_prepared st @ [pr]). pr_value q \<noteq> [] \<and> im_get values_of (pr_secret q) = Some (pr_value q) \<and>
        pr_placeholder q \<noteq> [] \<and> im_get phs (pr_secret q) = Some (pr_placeholder q)"
      using old phs 1(2,3,5) pr by auto
    show "\<forall>(secret, q) \<in> set phs. q \<noteq> [] \<and>
        (\<exists>r \<in> set (pl_prepared st @ [pr]). pr_secret r = secret \<and> pr_placeholder r = q)"
      using phs inv 1(5) pr by (auto simp: plan_inv_def)
    show "\<forall>(n, q) \<in> set (im_insert name p (pl_env st)). \<exists>r \<in> set (pl_prepared st @ [pr]). pr_placeholder r = q"
      using inv 1(5) by (auto simp: plan_inv_def dest!: im_insert_entry)
  qed (use phs in auto)
qed

lemma prepare_rules_inv:
  "prepare_rules L values_of rules st = Inr st' \<Longrightarrow> plan_inv values_of st \<Longrightarrow> plan_inv values_of st'"
  by (induction rules arbitrary: st) (auto simp: bind_sum_Inr dest: prepare_rule_inv)

lemma prepare_rules_from:
  "prepare_rules L values_of rules st = Inr st' \<Longrightarrow>
   \<exists>prs. pl_prepared st' = pl_prepared st @ prs \<and> list_all2 prepared_from rules prs"
proof (induction rules arbitrary: st)
  case (Cons rule rules)
  then obtain st1 where st1: "prepare_rule L values_of rule st = Inr st1" "prepare_rules L values_of rules st1 = Inr st'"
    by (auto simp: bind_sum_Inr)
  obtain pr where "pl_prepared st1 = pl_prepared st @ [pr]" "prepared_from rule pr"
    using st1(1) by (cases rule: prepare_rule_cases) auto
  with Cons.IH [OF st1(2)] show ?case by auto
qed simp

lemma check_placeholders_Inr:
  "check_placeholders vs phs = Inr () \<Longrightarrow>
   (\<forall>p \<in> set phs. \<forall>v \<in> set vs. \<not> contains v p) \<and>
   sorted_wrt (\<lambda>p q. \<not> contains p q \<and> \<not> contains q p) phs"
  by (induction phs) (auto simp: list_ex_iff split: if_splits)

lemma sorted_wrt_distinct:
  "sorted_wrt (\<lambda>p q. \<not> R p q \<and> \<not> R q p) xs \<Longrightarrow> p \<in> set xs \<Longrightarrow> q \<in> set xs \<Longrightarrow> p \<noteq> q \<Longrightarrow> \<not> R p q"
  by (induction xs) auto

lemma new_plan_cases:
  assumes "new_plan L session config values_of = Inr plan"
  obtains st allowed where
    "prepare_rules L values_of (x_rules config) \<lparr>pl_placeholders = [], pl_env = [], pl_prepared = []\<rparr> = Inr st"
    "plan_inv values_of st"
    "check_placeholders (map snd values_of) (xl_hash_order L (map snd (pl_placeholders st))) = Inr ()"
    "plan = \<lparr>pn_policy = \<lparr>pp_egress = x_egress config, pp_audit = x_audit config, pp_rules = pl_prepared st,
       pp_allow_domains = map to_ascii_lowercase (x_allow_domains config),
       pp_destinations = \<lparr>dp_allowed = allowed\<rparr>, pp_token = session,
       pp_redactions = redactions_of (pl_prepared st)\<rparr>, pn_child_env = pl_env st\<rparr>"
proof -
  obtain st allowed where st: "prepare_rules L values_of (x_rules config) \<lparr>pl_placeholders = [], pl_env = [], pl_prepared = []\<rparr> = Inr st"
    "check_placeholders (map snd values_of) (xl_hash_order L (map snd (pl_placeholders st))) = Inr ()"
    and plan: "plan = \<lparr>pn_policy = \<lparr>pp_egress = x_egress config, pp_audit = x_audit config, pp_rules = pl_prepared st,
       pp_allow_domains = map to_ascii_lowercase (x_allow_domains config),
       pp_destinations = \<lparr>dp_allowed = allowed\<rparr>, pp_token = session,
       pp_redactions = redactions_of (pl_prepared st)\<rparr>, pn_child_env = pl_env st\<rparr>"
    using assms by (auto simp: new_plan_def bind_sum_Inr)
  have "plan_inv values_of st"
    by (rule prepare_rules_inv [OF st(1)]) (simp add: plan_inv_def)
  from that [OF st(1) this st(2) plan] show thesis .
qed

definition order_law :: "'u proxy_library \<Rightarrow> bool" where
  \<comment> \<open>a hash map yields each of its values once, in some order\<close>
  "order_law L \<longleftrightarrow> (\<forall>xs. mset (xl_hash_order L xs) = mset xs)"

definition hides_values :: "(string, string) imap \<Rightarrow> proxy_plan \<Rightarrow> bool" where
  "hides_values values_of plan \<longleftrightarrow>
     (let rules = pp_rules (pn_policy plan)
      in list_all (\<lambda>(_, text). list_ex (\<lambda>r. pr_placeholder r = text) rules) (pn_child_env plan) \<and>
         list_all (\<lambda>r. im_get values_of (pr_secret r) = Some (pr_value r) \<and> pr_value r \<noteq> [] \<and>
           pr_placeholder r \<noteq> [] \<and> list_all (\<lambda>v. \<not> contains v (pr_placeholder r)) (map snd values_of)) rules \<and>
         list_all (\<lambda>r. list_all (\<lambda>r'.
           if pr_secret r = pr_secret r' then pr_placeholder r = pr_placeholder r'
           else \<not> contains (pr_placeholder r) (pr_placeholder r')) rules) rules)"

lemma distinct_snd: "distinct (map snd m) \<Longrightarrow> im_get m k = Some v \<Longrightarrow> im_get m j = Some v \<Longrightarrow> k = j"
  by (drule im_get_in)+ (auto simp: distinct_map inj_on_def, metis snd_conv prod.inject)

text \<open>C20: What the proxied command sees are placeholders: for a plan made from a configuration and the
  resolved values, every variable of the child environment holds the placeholder of a rule, every rule
  carries the value that its secret resolved to, rules of one secret share their placeholder, no
  resolved value contains a placeholder, and the placeholders of different secrets do not contain each
  other.\<close>

theorem child_sees_placeholders:
  assumes "order_law L" and "new_plan L session config values_of = Inr plan"
  shows "hides_values values_of plan"
  using assms(2)
proof (cases rule: new_plan_cases)
  case (1 st allowed)
  note inv = 1(2) [unfolded plan_inv_def] and checked = check_placeholders_Inr [OF 1(3)]
  let ?phs = "pl_placeholders st"
  have in_order: "set (xl_hash_order L (map snd ?phs)) = snd ` set ?phs"
    using assms(1) by (metis order_law_def list.set_map set_mset_mset)
  have got: "im_get ?phs (pr_secret r) = Some (pr_placeholder r)" if "r \<in> set (pl_prepared st)" for r
    using inv that by blast
  have entry: "im_get ?phs (pr_secret r) = Some (pr_placeholder r) \<and> pr_placeholder r \<in> snd ` set ?phs"
    if "r \<in> set (pl_prepared st)" for r
    using got [OF that] im_get_in [OF got [OF that]] by (auto intro: rev_image_eqI)
  have clean: "\<not> contains v (pr_placeholder r)" if "r \<in> set (pl_prepared st)" "v \<in> set (map snd values_of)" for r v
    using checked that entry in_order by blast
  have apart: "\<not> contains (pr_placeholder r) (pr_placeholder r')"
    if "r \<in> set (pl_prepared st)" "r' \<in> set (pl_prepared st)" "pr_secret r \<noteq> pr_secret r'" for r r'
  proof -
    have "pr_placeholder r \<noteq> pr_placeholder r'"
      using entry [OF that(1)] entry [OF that(2)] inv that(3) distinct_snd by metis
    with checked entry [OF that(1)] entry [OF that(2)] in_order show ?thesis
      by (intro sorted_wrt_distinct [where R = contains]) auto
  qed
  have same: "pr_placeholder r = pr_placeholder r'"
    if "r \<in> set (pl_prepared st)" "r' \<in> set (pl_prepared st)" "pr_secret r = pr_secret r'" for r r'
    using entry [OF that(1)] entry [OF that(2)] that(3) by simp
  have sound: "pr_value r \<noteq> [] \<and> im_get values_of (pr_secret r) = Some (pr_value r) \<and> pr_placeholder r \<noteq> []"
    if "r \<in> set (pl_prepared st)" for r
    using inv that by blast
  have env: "\<forall>(name, p) \<in> set (pl_env st). \<exists>r \<in> set (pl_prepared st). pr_placeholder r = p"
    using inv by simp
  show ?thesis
    unfolding hides_values_def Let_def 1(4) proxy_plan.simps proxy_policy.simps list_all_iff list_ex_iff
  proof (intro conjI ballI)
    show "case e of (_, shown) \<Rightarrow> \<exists>r \<in> set (pl_prepared st). pr_placeholder r = shown"
      if "e \<in> set (pl_env st)" for e
      using env that by auto
    fix r assume r: "r \<in> set (pl_prepared st)"
    from sound [OF r] show "im_get values_of (pr_secret r) = Some (pr_value r)" "pr_value r \<noteq> []" "pr_placeholder r \<noteq> []"
      by simp_all
    show "\<not> contains v (pr_placeholder r)" if "v \<in> set (map snd values_of)" for v
      by (rule clean [OF r that])
    show "if pr_secret r = pr_secret r' then pr_placeholder r = pr_placeholder r'
        else \<not> contains (pr_placeholder r) (pr_placeholder r')" if "r' \<in> set (pl_prepared st)" for r'
      using same [OF r that] apart [OF r that] by simp
  qed
qed

subsection \<open>Responses\<close>

definition echoes :: "prepared_rule \<Rightarrow> bytes \<Rightarrow> bool" where
  \<comment> \<open>a text that gives the value of a rule away: the value, and for a query rule any spelling of it\<close>
  "echoes rule s \<longleftrightarrow> s = as_bytes (pr_value rule) \<or> by_query rule \<and> spells (as_bytes (pr_value rule)) s"

fun hidden :: "prepared_rule list \<Rightarrow> piece list \<Rightarrow> bool" where
  "hidden rules [] = True"
| "hidden rules (Kept b # ps) =
     (\<not> (\<exists>rule \<in> set rules. \<exists>s. prefix s (b # input_of ps) \<and> echoes rule s) \<and> hidden rules ps)"
| "hidden rules (Replaced r s # ps) =
     ((\<exists>rule \<in> set rules. spells (as_bytes (pr_value rule)) s \<and> rx_placeholder r = as_bytes (pr_placeholder rule)) \<and>
      hidden rules ps)"

lemma echoes_spelled:
  "rule \<in> set rules \<Longrightarrow> echoes rule s \<Longrightarrow> \<exists>r \<in> set (redactions_of rules). spelled r s"
proof -
  assume "rule \<in> set rules" and s: "echoes rule s"
  then obtain r where r: "r \<in> set (redactions_of rules)" "rx_value r = as_bytes (pr_value rule)" "by_query rule \<longrightarrow> rx_lenient r"
    using redactions_cover by blast
  with s have "spelled r s" by (auto simp: spelled_def echoes_def)
  with r(1) show ?thesis by blast
qed

lemma spelled_spells: "spelled r s \<Longrightarrow> spells (rx_value r) s"
  by (auto simp: spelled_def split: if_splits)

lemma scanned_hidden: "scanned (redactions_of rules) ps \<Longrightarrow> hidden rules ps"
proof (induction ps)
  case (Cons p ps)
  show ?case
  proof (cases p)
    case (Kept b)
    with Cons show ?thesis using echoes_spelled [of _ rules] by auto
  next
    case (Replaced r s)
    with Cons.prems obtain rule where "rule \<in> set rules" "rx_value r = as_bytes (pr_value rule)"
        "rx_placeholder r = as_bytes (pr_placeholder rule)" "spelled r s"
      using redactions_sound by auto
    with Cons Replaced show ?thesis by (auto dest!: spelled_spells)
  qed
qed simp

text \<open>Redacting a response always ends, and hides the values of the rules.\<close>

lemma plan_redacts:
  assumes "new_plan L session config values_of = Inr plan"
  shows "\<exists>ps. redact_bytes (pp_redactions (pn_policy plan)) input = Some (output_of ps) \<and>
    input_of ps = input \<and> hidden (pp_rules (pn_policy plan)) ps"
  using assms
proof (cases rule: new_plan_cases)
  case (1 st allowed)
  have "\<forall>r \<in> set (redactions_of (pl_prepared st)). rx_value r \<noteq> []"
  proof
    fix r assume "r \<in> set (redactions_of (pl_prepared st))"
    then obtain rule where "rule \<in> set (pl_prepared st)" "rx_value r = as_bytes (pr_value rule)"
      using redactions_sound by blast
    with 1(2) show "rx_value r \<noteq> []" by (auto simp: plan_inv_def)
  qed
  from redact_bytes_fuel [OF this order_refl, of input]
  show ?thesis by (auto simp: 1(4) redact_bytes_def dest: scanned_hidden)
qed

subsection \<open>Where a secret may go\<close>

text \<open>The specification of an authorized request: a sequence of substitutions, each of the only
  occurrence of a rule's placeholder, in a place that a rule of the destination with this placeholder and
  a matching route names, and no placeholder twice.\<close>

definition names_place ::
  "'u proxy_library \<Rightarrow> prepared_rule list \<Rightarrow> string \<Rightarrow> string \<Rightarrow> prepared_rule \<Rightarrow> target \<Rightarrow> bool" where
  "names_place L rules method path rule t \<longleftrightarrow>
     (\<exists>candidate \<in> set rules. pr_placeholder candidate = pr_placeholder rule \<and>
        route_matches L candidate method path \<and> pr_target candidate = t)"

inductive injects ::
  "'u proxy_library \<Rightarrow> prepared_rule list \<Rightarrow> string \<Rightarrow> string \<Rightarrow> 'u \<Rightarrow> headers \<Rightarrow> prepared_rule list \<Rightarrow>
   'u \<Rightarrow> headers \<Rightarrow> bool"
  for L rules meth path url headers where
  start: "injects L rules meth path url headers [] url headers"
| into_header: "injects L rules meth path url headers used u hs \<Longrightarrow>
     rule \<in> set rules \<Longrightarrow> pr_placeholder rule \<notin> set (map pr_placeholder used) \<Longrightarrow>
     in_headers hs (pr_placeholder rule) = 1 \<Longrightarrow>
     occurrences L (query_segments (xl_url_query L u)) (pr_placeholder rule) = 0 \<Longrightarrow>
     i < length hs \<Longrightarrow> hs ! i = (name, a @ pr_placeholder rule @ b) \<Longrightarrow>
     eq_ignore_ascii_case name n \<Longrightarrow> names_place L rules meth path rule (Header n) \<Longrightarrow>
     injects L rules meth path url headers (used @ [rule]) u (hs[i := (name, a @ pr_value rule @ b)])"
| into_query: "injects L rules meth path url headers used u hs \<Longrightarrow>
     rule \<in> set rules \<Longrightarrow> pr_placeholder rule \<notin> set (map pr_placeholder used) \<Longrightarrow>
     in_headers hs (pr_placeholder rule) = 0 \<Longrightarrow>
     occurrences L (query_segments (xl_url_query L u)) (pr_placeholder rule) = 1 \<Longrightarrow>
     segment \<in> set (query_segments (xl_url_query L u)) \<Longrightarrow>
     xl_form_first L segment = Some (n, decoded) \<Longrightarrow> contains decoded (pr_placeholder rule) \<Longrightarrow>
     names_place L rules meth path rule (Query n) \<Longrightarrow>
     injects L rules meth path url headers (used @ [rule])
       (xl_set_query L u (Some (replaced L (query_segments (xl_url_query L u)) (pr_placeholder rule) (pr_value rule)))) hs"

lemma header_with_Some: "header_with hs p = Some i \<Longrightarrow> i < length hs \<and> contains (snd (hs ! i)) p"
  by (auto simp: header_with_def find_Some_iff)

lemma header_with_None: "header_with hs p = None \<Longrightarrow> in_headers hs p = 0"
  by (fastforce simp: header_with_def find_None_iff in_headers_def match_count_0 in_set_conv_nth)

lemma param_containing_Some:
  "param_containing L raw p = Some n \<Longrightarrow>
   \<exists>segment decoded. segment \<in> set raw \<and> xl_form_first L segment = Some (n, decoded) \<and> contains decoded p"
proof -
  assume "param_containing L raw p = Some n"
  then obtain d where "List.find (\<lambda>(_, v). contains v p) (List.map_filter (xl_form_first L) raw) = Some (n, d)"
    by (auto simp: param_containing_def)
  then have "(n, d) \<in> set (List.map_filter (xl_form_first L) raw)" "contains d p"
    by (auto simp: find_Some_iff dest: nth_mem)
  then show ?thesis by (auto simp: List.map_filter_def split: option.splits)
qed

lemma replacen1_contains: "contains v p \<Longrightarrow> \<exists>a b. v = a @ p @ b \<and> replacen1 v p to = a @ to @ b"
proof -
  assume "contains v p"
  then obtain a b where "find_sub p v = Some (a, b)" by (auto simp: contains_def)
  with find_sub_split [OF this] show ?thesis by (auto simp: replacen1_def)
qed

lemma rule_allowsD: "rule_allows L rules rule method path fits \<Longrightarrow> \<exists>t. names_place L rules method path rule t \<and> fits t"
  by (auto simp: rule_allows_def list_ex_iff names_place_def)

text \<open>The \<open>expect\<close> of the code never panics.\<close>

lemma substitute_no_panic: "substitute L rules method path rule url headers \<noteq> Inl ProxyPanic"
  by (auto simp: substitute_def Let_def dest: header_with_None split: option.splits prod.splits)

lemma substitute_None:
  "substitute L rules method path rule url headers = Inr None \<Longrightarrow> in_path L path (pr_placeholder rule) = 0"
  by (auto simp: substitute_def Let_def split: if_splits option.splits prod.splits)

lemma substitute_Some:
  assumes "substitute L rules method path rule u hs = Inr (Some (u', hs'))"
    and "rule \<in> set rules" and "pr_placeholder rule \<notin> set (map pr_placeholder used)"
    and "injects L rules method path url headers used u hs"
  shows "in_path L path (pr_placeholder rule) = 0 \<and> injects L rules method path url headers (used @ [rule]) u' hs'"
proof -
  let ?p = "pr_placeholder rule"
  let ?q = "query_segments (xl_url_query L u)"
  have once: "in_headers hs ?p + in_path L path ?p + occurrences L ?q ?p = 1" and path: "in_path L path ?p = 0"
    using assms(1) by (auto simp: substitute_def Let_def split: if_splits)
  show ?thesis
  proof (cases "in_headers hs ?p = 0")
    case False
    with once path assms(1) obtain i name v t where i: "header_with hs ?p = Some i" "hs ! i = (name, v)"
      and t: "names_place L rules method path rule t" "is_header name t"
      and out: "u' = u" "hs' = hs[i := (name, replacen1 v ?p (pr_value rule))]"
      by (auto simp: substitute_def Let_def split: option.splits prod.splits if_splits dest!: rule_allowsD)
    obtain n where n: "t = Header n" "eq_ignore_ascii_case name n"
      using t(2) by (auto simp: is_header_def split: target.splits)
    obtain a b where ab: "v = a @ ?p @ b" "replacen1 v ?p (pr_value rule) = a @ pr_value rule @ b"
      using replacen1_contains [of v ?p "pr_value rule"] header_with_Some [OF i(1)] i(2) by auto
    have "injects L rules method path url headers (used @ [rule]) u (hs[i := (name, a @ pr_value rule @ b)])"
    proof (rule into_header [OF assms(4,2,3)])
      show "in_headers hs ?p = 1" "occurrences L ?q ?p = 0" using once path False by auto
      show "i < length hs" using header_with_Some [OF i(1)] by simp
      show "hs ! i = (name, a @ ?p @ b)" using i(2) ab(1) by simp
    qed (use n t in auto)
    with out ab path show ?thesis by simp
  next
    case True
    with once path assms(1) obtain n t where n: "param_containing L ?q ?p = Some n"
      and t: "names_place L rules method path rule t" "is_query n t"
      and out: "hs' = hs" "u' = xl_set_query L u (Some (replaced L ?q ?p (pr_value rule)))"
      by (auto simp: substitute_def Let_def split: option.splits prod.splits if_splits dest!: rule_allowsD)
    have "t = Query n" using t(2) by (auto simp: is_query_def split: target.splits)
    with param_containing_Some [OF n] True once path t out assms(2-4) show ?thesis
      by (auto intro: into_query)
  qed
qed

lemma authorize_loop_sound:
  assumes "authorize_loop L rules method path todo checked u hs injected = Inr (u', hs', injected')"
    and "set todo \<subseteq> set rules" and "injected = map pr_secret used"
    and "set (map pr_placeholder used) \<subseteq> checked" and "injects L rules method path url headers used u hs"
  shows "(\<exists>used'. injected' = map pr_secret used' \<and> injects L rules method path url headers used' u' hs') \<and>
    (\<forall>r \<in> set todo. pr_placeholder r \<in> checked \<or> in_path L path (pr_placeholder r) = 0)"
  using assms
proof (induction todo arbitrary: checked u hs injected used)
  case (Cons rule todo)
  show ?case
  proof (cases "pr_placeholder rule \<in> checked")
    case True
    with Cons.IH [of checked u hs injected used] Cons.prems show ?thesis by auto
  next
    case new: False
    let ?sub = "substitute L rules method path rule u hs"
    let ?checked = "insert (pr_placeholder rule) checked"
    show ?thesis
    proof (cases ?sub)
      case (Inr r)
      show ?thesis
      proof (cases r)
        case None
        with Inr have path: "in_path L path (pr_placeholder rule) = 0" by (auto dest: substitute_None)
        have "(\<exists>used'. injected' = map pr_secret used' \<and> injects L rules method path url headers used' u' hs') \<and>
            (\<forall>r \<in> set todo. pr_placeholder r \<in> ?checked \<or> in_path L path (pr_placeholder r) = 0)"
          by (rule Cons.IH [where injected = injected]) (use Cons.prems Inr None new in auto)
        with path show ?thesis unfolding list.set by (metis insert_iff)
      next
        case (Some r')
        obtain u1 hs1 where r': "r' = (u1, hs1)" by (cases r')
        have sub: "in_path L path (pr_placeholder rule) = 0 \<and>
            injects L rules method path url headers (used @ [rule]) u1 hs1"
          using Cons.prems new Inr Some r' by (intro substitute_Some) auto
        have "(\<exists>used'. injected' = map pr_secret used' \<and> injects L rules method path url headers used' u' hs') \<and>
            (\<forall>r \<in> set todo. pr_placeholder r \<in> ?checked \<or> in_path L path (pr_placeholder r) = 0)"
          by (rule Cons.IH [where injected = "injected @ [pr_secret rule]" and used = "used @ [rule]"])
             (use Cons.prems Inr Some r' new sub in auto)
        with sub show ?thesis unfolding list.set by (metis insert_iff)
      qed
    qed (use Cons.prems new in auto)
  qed
qed auto

text \<open>C2: A secret only goes where a rule sends it: when a request is authorized, some rule of its
  destination matches method and path, no placeholder of the destination stands in the path (as written
  or decoded), and the request that leaves differs from the one that came in by substitutions of the only
  occurrence of a placeholder, once for each reported secret, into a header or query parameter named by
  a matching rule of this destination.\<close>

theorem injection_is_permitted:
  assumes "authorize L P domain method url headers = Inr (url', headers', injected)"
  shows "list_ex (\<lambda>rule. route_matches L rule method (xl_url_path L url)) (rules_for P domain) \<and>
    list_all (\<lambda>rule. in_path L (xl_url_path L url) (pr_placeholder rule) = 0) (rules_for P domain) \<and>
    (\<exists>used. injected = map pr_secret used \<and>
      injects L (rules_for P domain) method (xl_url_path L url) url headers used url' headers')"
proof -
  let ?rules = "rules_for P domain" and ?path = "xl_url_path L url"
  have "list_ex (\<lambda>rule. route_matches L rule method ?path) ?rules"
    and loop: "authorize_loop L ?rules method ?path ?rules {} url headers [] = Inr (url', headers', injected)"
    using assms by (auto simp: authorize_def Let_def split: if_splits)
  with authorize_loop_sound [OF loop order_refl, of "[]" url headers]
  show ?thesis by (auto simp: list_all_iff intro: injects.start)
qed

subsection \<open>A concrete case\<close>

definition demo_web :: "(string \<times> string option) proxy_library" where
  "demo_web =
     \<lparr>xl_networks = plain_networks, xl_glob_ok = (\<lambda>_. True), xl_globs_ok = (\<lambda>_. True),
      xl_glob_match = (\<lambda>ps p. p \<in> set ps), xl_method_ok = (\<lambda>_. True), xl_base64 = (\<lambda>s. Some (as_bytes s)),
      xl_url_parse = (\<lambda>s. Inr (case split_once CHR ''?'' s of Some (p, q) \<Rightarrow> (p, Some q) | None \<Rightarrow> (s, None))),
      xl_url_path = fst, xl_url_query = snd, xl_url_host = (\<lambda>_. Some ''api.test''),
      xl_url_scheme = (\<lambda>_. ''https''), xl_url_port = (\<lambda>_. None), xl_set_query = (\<lambda>u q. (fst u, q)),
      xl_form_first = split_once CHR ''='', xl_form_encode = (\<lambda>s. s),
      xl_utf8 = (\<lambda>bs. Some (map (\<lambda>b. char_of (unat b)) bs)),
      xl_utf8_lossy = map (\<lambda>b. char_of (unat b)), xl_digest_hex = (\<lambda>s. s), xl_hash_order = (\<lambda>xs. xs)\<rparr>"

definition demo_rules :: "proxy_rule list" where
  "demo_rules =
     [\<lparr>r_secret = ''K'', r_domain = ''api.test'', r_env = None, r_header = None, r_query = None,
       r_methods = [''get''], r_paths = [''/v1''], r_placeholder = Some ''PH''\<rparr>,
      \<lparr>r_secret = ''Q'', r_domain = ''API.test'', r_env = Some ''QUERY'', r_header = None, r_query = Some ''q'',
       r_methods = [], r_paths = [], r_placeholder = None\<rparr>]"

definition demo_proxy_config :: proxy_config where
  "demo_proxy_config =
     \<lparr>x_egress = Strict, x_audit = False, x_rules = demo_rules, x_allow_domains = [], x_allow_private = [],
      x_sandbox = False, x_sandbox_allow_write = [], x_sandbox_deny_read = [], x_sandbox_allow_read = []\<rparr>"

definition demo_values :: "(string, string) imap" where
  "demo_values = [(''K'', ''s3''), (''Q'', ''t 4'')]"

definition demo_plan :: proxy_plan where
  "demo_plan =
     (case new_plan demo_web ''f00d'' demo_proxy_config demo_values of Inr plan \<Rightarrow> plan | Inl _ \<Rightarrow> undefined)"

lemma demo_plan_made: "new_plan demo_web ''f00d'' demo_proxy_config demo_values = Inr demo_plan"
  unfolding demo_plan_def by code_simp

lemma demo_injection:
  "authorize demo_web (pn_policy demo_plan) ''api.test'' ''GET'' (''/v1'', Some ''q=fnox_proxy_Q&b'')
     [(''Authorization'', ''Bearer PH'')] =
   Inr ((''/v1'', Some ''q=t 4&b''), [(''Authorization'', ''Bearer s3'')], [''K'', ''Q''])"
  by code_simp

theorem injection_is_permitted_witness:
  "list_ex (\<lambda>rule. route_matches demo_web rule ''GET'' ''/v1'') (rules_for (pn_policy demo_plan) ''api.test'') \<and>
   list_all (\<lambda>rule. in_path demo_web ''/v1'' (pr_placeholder rule) = 0) (rules_for (pn_policy demo_plan) ''api.test'') \<and>
   (\<exists>used. [''K'', ''Q''] = map pr_secret used \<and>
     injects demo_web (rules_for (pn_policy demo_plan) ''api.test'') ''GET'' ''/v1''
       (''/v1'', Some ''q=fnox_proxy_Q&b'') [(''Authorization'', ''Bearer PH'')] used
       (''/v1'', Some ''q=t 4&b'') [(''Authorization'', ''Bearer s3'')])"
  using injection_is_permitted [OF demo_injection] by (simp add: demo_web_def)

theorem child_sees_placeholders_witness: "hides_values demo_values demo_plan"
  by (rule child_sees_placeholders [OF _ demo_plan_made]) (simp add: order_law_def demo_web_def)

end
