(* ===== verification/ProxyHttp.thy ===== *)
theory ProxyHttp
  imports ProxyPolicy
begin

text \<open>
  How the proxy reads requests (\<open>src/proxy.rs\<close>): lines of a limited length from a buffered reader,
  the head of a request to the proxy itself, and a whole HTTP request. A connection delivers a list of
  events, the results of its reads: data (none of it at the end of the stream) or a failure. A reader is
  the buffered bytes and the events to come; the \<open>tokio\<close> buffer returns what it holds before it reads
  again. Lengths are natural numbers; the header limit bounds them, so no subtraction underflows.
\<close>

definition MAX_HEADER_BYTES :: nat where
  "MAX_HEADER_BYTES = 64 * 1024"

definition MAX_BODY_BYTES :: nat where
  "MAX_BODY_BYTES = 10 * 1024 * 1024"

datatype event = Data bytes | Broken

type_synonym reader = "bytes \<times> event list"

datatype serve_message =
    PolicyMessage proxy_message
  | HeadersTooLong
  | ReadError
  | ConnectionClosed
  | HeadersNotUtf8
  | InvalidRequestLine
  | InvalidHeader
  | InvalidContentLength
  | DuplicateContentLength
  | ChunkedUnsupported
  | LengthRequired string
  | BodyTooLarge
  | BodyReadFailed
  | ConnectWithoutPort
  | ConnectEmptyDomain
  | ConnectInvalidPort
  | WriteFailed
  | TlsConfigFailed
  | TlsHandshakeFailed
  | TlsShutdownFailed
  | TunnelFailed
  | ServePanic

subsection \<open>Lines\<close>

definition NL :: byte where
  "NL = 10"

fun position_of :: "byte \<Rightarrow> bytes \<Rightarrow> nat option" where
  "position_of b [] = None"
| "position_of b (c # cs) = (if c = b then Some 0 else map_option Suc (position_of b cs))"

definition take_chunk :: "nat \<Rightarrow> bytes \<Rightarrow> bytes \<Rightarrow> serve_message + bytes \<times> bytes \<times> bool" where
  \<comment> \<open>the body of the loop: the line so far, what stays buffered, and whether the line is complete\<close>
  "take_chunk remaining line available =
     (let consumed = (case position_of NL available of Some p \<Rightarrow> p + 1 | None \<Rightarrow> length available)
      in if consumed > remaining - length line then Inl HeadersTooLong
         else Inr (line @ take consumed available, drop consumed available, available ! (consumed - 1) = NL))"

fun read_more :: "nat \<Rightarrow> bytes \<Rightarrow> event list \<Rightarrow> serve_message + bytes \<times> reader" where
  "read_more remaining line [] = Inl ConnectionClosed"
| "read_more remaining line (Broken # es) = Inl ReadError"
| "read_more remaining line (Data available # es) =
     (if available = [] then Inl ConnectionClosed
      else case take_chunk remaining line available of
             Inl e \<Rightarrow> Inl e
           | Inr (line, rest, complete) \<Rightarrow>
               if complete then Inr (line, rest, es) else read_more remaining line es)"

fun read_line :: "nat \<Rightarrow> reader \<Rightarrow> serve_message + bytes \<times> reader" where
  "read_line remaining (buffer, es) =
     (if buffer = [] then read_more remaining [] es
      else case take_chunk remaining [] buffer of
             Inl e \<Rightarrow> Inl e
           | Inr (line, rest, complete) \<Rightarrow>
               if complete then Inr (line, rest, es) else read_more remaining line es)"

definition read_line_limited :: "'u proxy_library \<Rightarrow> nat \<Rightarrow> reader \<Rightarrow> serve_message + string \<times> reader" where
  "read_line_limited L remaining r =
     (if remaining = 0 then Inl HeadersTooLong
      else bind_sum (read_line remaining r) (\<lambda>(line, r).
        case xl_utf8 L line of None \<Rightarrow> Inl HeadersNotUtf8 | Some s \<Rightarrow> Inr (s, r)))"

subsection \<open>A line does not depend on how the stream is cut\<close>

fun pending :: "event list \<Rightarrow> bytes" where
  \<comment> \<open>the bytes to come, up to the end of the stream or its failure\<close>
  "pending [] = []"
| "pending (Broken # es) = []"
| "pending (Data d # es) = (if d = [] then [] else d @ pending es)"

definition stream_of :: "reader \<Rightarrow> bytes" where
  "stream_of r = fst r @ pending (snd r)"

fun first_line :: "bytes \<Rightarrow> (bytes \<times> bytes) option" where
  \<comment> \<open>the first line with its newline, and what follows\<close>
  "first_line [] = None"
| "first_line (b # bs) =
     (if b = NL then Some ([b], bs) else map_option (\<lambda>(l, r). (b # l, r)) (first_line bs))"

lemma position_of_line:
  "position_of NL d = Some p \<Longrightarrow> p < length d \<and> d ! p = NL \<and> first_line (d @ x) = Some (take (p + 1) d, drop (p + 1) d @ x)"
  by (induction d arbitrary: p) (auto split: if_splits)

lemma position_of_no_line:
  "position_of NL d = None \<Longrightarrow> NL \<notin> set d \<and> first_line (d @ x) = map_option (\<lambda>(l, r). (d @ l, r)) (first_line x)"
  by (induction d) (auto simp: option.map_comp option.map_ident comp_def split_def split: if_splits)

definition within :: "nat \<Rightarrow> bytes \<Rightarrow> (bytes \<times> bytes) option \<Rightarrow> serve_message + bytes \<times> reader \<Rightarrow> bool" where
  \<comment> \<open>a result of reading: the line if there is one within the limit, otherwise an error\<close>
  "within n line l r =
     (case l of
        Some (x, rest) \<Rightarrow>
          if length (line @ x) \<le> n then (\<exists>r'. r = Inr (line @ x, r') \<and> stream_of r' = rest)
          else (\<exists>e. r = Inl e)
      | None \<Rightarrow> (\<exists>e. r = Inl e))"

lemma within_shift:
  "within n (line @ d) l r \<Longrightarrow> within n line (map_option (\<lambda>(x, rest). (d @ x, rest)) l) r"
  by (auto simp: within_def split: option.splits if_splits)

lemma within_too_long:
  "length (line @ d) > n \<Longrightarrow> within n line (map_option (\<lambda>(x, rest). (d @ x, rest)) l) (Inl e)"
  by (auto simp: within_def split: option.splits)

lemma take_chunk_within:
  assumes "d \<noteq> []" "length line \<le> n"
    and "\<And>line'. length line' \<le> n \<Longrightarrow> within n line' (first_line (pending es)) (read_more n line' es)"
  shows "within n line (first_line (d @ pending es))
    (case take_chunk n line d of Inl e \<Rightarrow> Inl e
     | Inr (line, rest, complete) \<Rightarrow> if complete then Inr (line, rest, es) else read_more n line es)"
proof (cases "position_of NL d")
  case None
  note no = position_of_no_line [OF None, of "pending es"]
  have last: "d ! (length d - 1) \<noteq> NL" using assms(1) no by (metis diff_less length_greater_0_conv nth_mem zero_less_one)
  show ?thesis
  proof (cases "length d > n - length line")
    case True
    with None no show ?thesis by (auto simp: take_chunk_def intro!: within_too_long)
  next
    case False
    with None no last assms(2) show ?thesis by (auto simp: take_chunk_def intro!: within_shift assms(3))
  qed
next
  case (Some p)
  from position_of_line [OF Some, of "pending es"] show ?thesis
    using Some assms(2) by (auto simp: take_chunk_def within_def stream_of_def min_def)
qed

lemma read_more_within:
  "length line \<le> n \<Longrightarrow> within n line (first_line (pending es)) (read_more n line es)"
proof (induction es arbitrary: line)
  case (Cons e es)
  show ?case
  proof (cases e)
    case (Data d)
    show ?thesis
    proof (cases "d = []")
      case False
      with take_chunk_within [OF False Cons.prems Cons.IH] Data show ?thesis by simp
    qed (simp add: Data within_def)
  qed (simp add: within_def)
qed (simp add: within_def)

lemma read_line_within: "within n [] (first_line (stream_of r)) (read_line n r)"
proof (cases r)
  case (Pair buffer es)
  show ?thesis
  proof (cases "buffer = []")
    case True
    with Pair read_more_within [of "[]" n es] show ?thesis by (simp add: stream_of_def)
  next
    case False
    with Pair take_chunk_within [OF False, of "[]" n es] read_more_within [of _ n es]
    show ?thesis by (simp add: stream_of_def)
  qed
qed

lemma first_line_Some:
  "first_line d = Some (x, rest) \<longleftrightarrow> (\<exists>l. x = l @ [NL] \<and> NL \<notin> set l \<and> d = x @ rest)"
proof (induction d arbitrary: x)
  case (Cons b d)
  show ?case
  proof (cases "b = NL")
    case False
    then have "first_line (b # d) = Some (x, rest) \<longleftrightarrow> (\<exists>l. x = b # l @ [NL] \<and> NL \<notin> set l \<and> d = (l @ [NL]) @ rest)"
      using Cons.IH by auto
    also have "\<dots> \<longleftrightarrow> (\<exists>l. x = l @ [NL] \<and> NL \<notin> set l \<and> b # d = x @ rest)"
    proof
      assume "\<exists>l. x = l @ [NL] \<and> NL \<notin> set l \<and> b # d = x @ rest"
      then obtain l where "x = l @ [NL]" "NL \<notin> set l" "b # d = x @ rest" by blast
      with False show "\<exists>l. x = b # l @ [NL] \<and> NL \<notin> set l \<and> d = (l @ [NL]) @ rest" by (cases l) auto
    next
      assume "\<exists>l. x = b # l @ [NL] \<and> NL \<notin> set l \<and> d = (l @ [NL]) @ rest"
      then obtain l where "x = b # l @ [NL]" "NL \<notin> set l" "d = (l @ [NL]) @ rest" by blast
      with False show "\<exists>l. x = l @ [NL] \<and> NL \<notin> set l \<and> b # d = x @ rest" by (intro exI [of _ "b # l"]) auto
    qed
    finally show ?thesis .
  qed (auto simp: Cons_eq_append_conv intro: exI [of _ "[]"])
qed simp

lemma read_line_Inr:
  assumes "read_line n r = Inr (line, r')"
  shows "stream_of r = line @ stream_of r' \<and> line \<noteq> [] \<and> length line \<le> n"
  using read_line_within [of n r] assms
  by (auto simp: within_def first_line_Some split: option.splits if_splits)

text \<open>Reading a line does not depend on how the network cut the stream, and never takes more than its
  limit: the result is the first line of the stream, newline included, when that line is complete and
  within the limit, leaving exactly the rest of the stream to be read; otherwise it is an error.\<close>

lemma line_reading_ignores_chunks:
  "(\<exists>r'. read_line n r = Inr (line, r') \<and> stream_of r' = rest) \<longleftrightarrow>
   first_line (stream_of r) = Some (line, rest) \<and> length line \<le> n"
  using read_line_within [of n r] by (auto simp: within_def split: option.splits if_splits)

lemma read_line_limited_Inr:
  "read_line_limited L n r = Inr (s, r') \<Longrightarrow>
   \<exists>line. xl_utf8 L line = Some s \<and> stream_of r = line @ stream_of r' \<and> line \<noteq> [] \<and> length line \<le> n"
  by (auto simp: read_line_limited_def bind_sum_Inr split: if_splits option.splits dest!: read_line_Inr)

lemma read_line_limited_less:
  "read_line_limited L n r = Inr (s, r') \<Longrightarrow> length (stream_of r') < length (stream_of r)"
  by (auto dest!: read_line_limited_Inr)

subsection \<open>The head of a request to the proxy\<close>

definition blank_line :: "string \<Rightarrow> bool" where
  "blank_line s \<longleftrightarrow> s = [char_of (13 :: nat), char_of (10 :: nat)] \<or> s = [char_of (10 :: nat)]"

record request_head =
  rh_method :: string
  rh_target :: string
  rh_authorization :: "string option"

function head_lines :: "'u proxy_library \<Rightarrow> nat \<Rightarrow> string option \<Rightarrow> reader \<Rightarrow> serve_message + string option \<times> reader" where
  "head_lines L header_bytes authorization r =
     (case read_line_limited L (MAX_HEADER_BYTES - header_bytes) r of
        Inl e \<Rightarrow> Inl e
      | Inr (line, r) \<Rightarrow>
          if blank_line line then Inr (authorization, r)
          else head_lines L (header_bytes + length (as_bytes line))
            (case split_once CHR '':'' line of
               Some (name, v) \<Rightarrow>
                 if eq_ignore_ascii_case (trim name) ''proxy-authorization'' then Some (trim v) else authorization
             | None \<Rightarrow> authorization) r)"
  by pat_completeness auto
termination
  by (relation "measure (\<lambda>(_, _, _, r). length (stream_of r))") (auto dest: read_line_limited_less)

definition part :: "nat \<Rightarrow> string list \<Rightarrow> string" where
  "part n parts = (if n < length parts then parts ! n else [])"

definition read_proxy_request_head :: "'u proxy_library \<Rightarrow> reader \<Rightarrow> serve_message + request_head \<times> reader" where
  "read_proxy_request_head L r =
     bind_sum (read_line_limited L MAX_HEADER_BYTES r) (\<lambda>(request_line, r).
     bind_sum (head_lines L (length (as_bytes request_line)) None r) (\<lambda>(authorization, r).
       let parts = split_whitespace request_line
       in Inr (\<lparr>rh_method = part 0 parts, rh_target = part 1 parts, rh_authorization = authorization\<rparr>, r)))"

definition parse_connect_target :: "string \<Rightarrow> serve_message + string \<times> nat" where
  "parse_connect_target t =
     (case rsplit_once CHR '':'' t of
        None \<Rightarrow> Inl ConnectWithoutPort
      | Some (domain, port) \<Rightarrow>
          (let domain = to_ascii_lowercase (trim_matches (\<lambda>c. c = CHR ''['' \<or> c = CHR '']'') domain)
           in if domain = [] then Inl ConnectEmptyDomain
              else case parse_bounded (2 ^ 16) port of
                     None \<Rightarrow> Inl ConnectInvalidPort
                   | Some port \<Rightarrow> Inr (domain, port)))"

subsection \<open>A whole request\<close>

record http_request =
  hr_method :: string
  hr_target :: string
  hr_headers :: headers
  hr_body :: bytes

fun read_exact_from :: "nat \<Rightarrow> bytes \<Rightarrow> event list \<Rightarrow> (bytes \<times> reader) option" where
  "read_exact_from n got [] = None"
| "read_exact_from n got (Broken # es) = None"
| "read_exact_from n got (Data d # es) =
     (if d = [] then None
      else if length got + length d \<ge> n then Some (got @ take (n - length got) d, drop (n - length got) d, es)
      else read_exact_from n (got @ d) es)"

definition read_exact :: "nat \<Rightarrow> reader \<Rightarrow> (bytes \<times> reader) option" where
  "read_exact n r =
     (case r of (buffer, es) \<Rightarrow>
        if length buffer \<ge> n then Some (take n buffer, drop n buffer, es) else read_exact_from n buffer es)"

function header_lines ::
  "'u proxy_library \<Rightarrow> nat \<Rightarrow> headers \<Rightarrow> nat option \<Rightarrow> reader \<Rightarrow>
   serve_message + headers \<times> nat option \<times> reader" where
  "header_lines L header_bytes headers content_length r =
     (case read_line_limited L (MAX_HEADER_BYTES - header_bytes) r of
        Inl e \<Rightarrow> Inl e
      | Inr (line, r) \<Rightarrow>
          if blank_line line then Inr (headers, content_length, r)
          else (case split_once CHR '':'' line of
                  None \<Rightarrow> Inl InvalidHeader
                | Some (name, v) \<Rightarrow>
                    (let v = trim v; is_length = eq_ignore_ascii_case name ''content-length'';
                         parsed = (if is_length then parse_bounded (2 ^ 64) v else None)
                     in if is_length \<and> parsed = None then Inl InvalidContentLength
                        else if is_length \<and> content_length \<noteq> None then Inl DuplicateContentLength
                        else if eq_ignore_ascii_case name ''transfer-encoding'' then Inl ChunkedUnsupported
                        else header_lines L (header_bytes + length (as_bytes line)) (headers @ [(trim name, v)])
                               (if is_length then parsed else content_length) r)))"
  by pat_completeness auto
termination
  by (relation "measure (\<lambda>(_, _, _, _, r). length (stream_of r))") (auto dest: read_line_limited_less)

definition read_http_request :: "'u proxy_library \<Rightarrow> reader \<Rightarrow> serve_message + http_request" where
  "read_http_request L r =
     bind_sum (read_line_limited L MAX_HEADER_BYTES r) (\<lambda>(request_line, r).
       let parts = split_whitespace request_line;
           method = to_ascii_uppercase (part 0 parts); t = part 1 parts; version = part 2 parts
       in if method = [] \<or> \<not> starts_with ''/'' t \<or> \<not> starts_with ''HTTP/1.'' version then Inl InvalidRequestLine
          else bind_sum (header_lines L (length (as_bytes request_line)) [] None r) (\<lambda>(headers, content_length, r).
            if content_length = None \<and> method \<in> {''POST'', ''PUT'', ''PATCH''} then Inl (LengthRequired method)
            else (let n = (case content_length of Some n \<Rightarrow> n | None \<Rightarrow> 0)
                  in if n > MAX_BODY_BYTES then Inl BodyTooLarge
                     else case read_exact n r of
                            None \<Rightarrow> Inl BodyReadFailed
                          | Some (body, _) \<Rightarrow>
                              Inr \<lparr>hr_method = method, hr_target = t, hr_headers = headers, hr_body = body\<rparr>)))"

definition has_ambiguous_path_encoding :: "string \<Rightarrow> bool" where
  "has_ambiguous_path_encoding t =
     (let path = to_ascii_lowercase (hd (split_char CHR ''?'' t))
      in char_of (92 :: nat) \<in> set path \<or> contains path ''%2e'' \<or> contains path ''%2f'' \<or>
         contains path ''%5c'' \<or> contains path ''%25'' \<or>
         list_ex (\<lambda>segment. segment = ''.'' \<or> segment = ''..'') (split_char CHR ''/'' path))"

definition is_hop_by_hop_header :: "string \<Rightarrow> bool" where
  "is_hop_by_hop_header name \<longleftrightarrow>
     to_ascii_lowercase name \<in>
       {''connection'', ''keep-alive'', ''proxy-authenticate'', ''proxy-authorization'', ''proxy-connection'',
        ''te'', ''trailer'', ''transfer-encoding'', ''upgrade'', ''host'', ''content-length''}"

subsection \<open>What an accepted request is made of\<close>

definition utf8_laws :: "'u proxy_library \<Rightarrow> bool" where
  "utf8_laws L \<longleftrightarrow>
     (\<forall>bs s. xl_utf8 L bs = Some s \<longrightarrow> as_bytes s = bs) \<and> (\<forall>s. xl_utf8 L (as_bytes s) = Some s)"

lemma read_line_limited_text:
  "utf8_laws L \<Longrightarrow> read_line_limited L n r = Inr (s, r') \<Longrightarrow>
   stream_of r = as_bytes s @ stream_of r' \<and> as_bytes s \<noteq> [] \<and> length (as_bytes s) \<le> n"
proof -
  assume "utf8_laws L" and "read_line_limited L n r = Inr (s, r')"
  then obtain line where "as_bytes s = line" "stream_of r = line @ stream_of r'" "line \<noteq> []" "length line \<le> n"
    by (metis read_line_limited_Inr utf8_laws_def)
  then show ?thesis by metis
qed

declare header_lines.simps [simp del] head_lines.simps [simp del]

lemma header_lines_step:
  assumes "header_lines L used headers cl r = Inr (headers', cl', r')"
  obtains (last) line where "read_line_limited L (MAX_HEADER_BYTES - used) r = Inr (line, r')"
      "blank_line line" "headers' = headers" "cl' = cl"
  | (header) line r1 name v cl1 where
      "read_line_limited L (MAX_HEADER_BYTES - used) r = Inr (line, r1)" "\<not> blank_line line"
      "split_once CHR '':'' line = Some (name, v)"
      "cl1 = cl \<or> cl1 = parse_bounded (2 ^ 64) (trim v)"
      "header_lines L (used + length (as_bytes line)) (headers @ [(trim name, trim v)]) cl1 r1 = Inr (headers', cl', r')"
proof -
  obtain line r1 where line: "read_line_limited L (MAX_HEADER_BYTES - used) r = Inr (line, r1)"
    using assms by (subst (asm) header_lines.simps) (auto split: sum.splits)
  show thesis
  proof (cases "blank_line line")
    case True
    with assms line have "headers' = headers \<and> cl' = cl \<and> r' = r1" by (subst (asm) header_lines.simps) simp
    with line True show thesis by (auto intro: last)
  next
    case False
    with assms line obtain name v where nv: "split_once CHR '':'' line = Some (name, v)"
      by (subst (asm) header_lines.simps) (auto split: option.splits)
    let ?is = "eq_ignore_ascii_case name ''content-length''"
    let ?cl = "if ?is then parse_bounded (2 ^ 64) (trim v) else cl"
    have "header_lines L (used + length (as_bytes line)) (headers @ [(trim name, trim v)]) ?cl r1 = Inr (headers', cl', r')"
      using assms False line nv by (subst (asm) header_lines.simps) (simp add: Let_def split: if_splits)
    then show thesis using line False nv by (intro header) auto
  qed
qed

definition some_length :: "headers \<Rightarrow> nat option \<Rightarrow> bool" where
  "some_length headers cl \<longleftrightarrow> cl = None \<or> (\<exists>(name, v) \<in> set headers. cl = parse_bounded (2 ^ 64) v)"

lemma header_lines_Inr:
  "utf8_laws L \<Longrightarrow> header_lines L used headers cl r = Inr (headers', cl', r') \<Longrightarrow> used \<le> MAX_HEADER_BYTES \<Longrightarrow>
   some_length headers cl \<Longrightarrow>
   (\<exists>head. stream_of r = head @ stream_of r' \<and> used + length head \<le> MAX_HEADER_BYTES) \<and> some_length headers' cl'"
proof (induction "length (stream_of r)" arbitrary: used headers cl r rule: less_induct)
  case less
  from less.prems(2) show ?case
  proof (cases rule: header_lines_step)
    case (last line)
    with read_line_limited_text [OF less.prems(1) last(1)] less.prems(3,4) show ?thesis by auto
  next
    case (header line r1 name v cl1)
    from read_line_limited_text [OF less.prems(1) header(1)] less.prems(3)
    have line: "stream_of r = as_bytes line @ stream_of r1" "as_bytes line \<noteq> []"
        "used + length (as_bytes line) \<le> MAX_HEADER_BYTES" by auto
    have "some_length (headers @ [(trim name, trim v)]) cl1"
      using less.prems(4) header(4) by (auto simp: some_length_def)
    from less.hyps [OF _ less.prems(1) header(5) line(3) this] line show ?thesis by auto
  qed
qed

lemma read_exact_from_Some:
  "read_exact_from n got es = Some (body, r') \<Longrightarrow> length got \<le> n \<Longrightarrow>
   got @ pending es = body @ stream_of r' \<and> length body = n"
  by (induction n got es rule: read_exact_from.induct) (auto simp: stream_of_def split: if_splits)

lemma read_exact_Some: "read_exact n r = Some (body, r') \<Longrightarrow> stream_of r = body @ stream_of r' \<and> length body = n"
  by (auto simp: read_exact_def stream_of_def split: prod.splits if_splits dest: read_exact_from_Some)

text \<open>C26: An accepted request is bounded and taken from the stream byte for byte: its head is at most
  \<open>MAX_HEADER_BYTES\<close> long, its body is what follows the head, at most \<open>MAX_BODY_BYTES\<close> long and as long
  as a header of the request says (empty without one, which POST, PUT and PATCH do not get away with),
  and its target starts with a slash.\<close>

theorem requests_are_bounded:
  assumes "utf8_laws L" and "read_http_request L r = Inr request"
  shows "\<exists>head r'. stream_of r = head @ hr_body request @ stream_of r' \<and>
    length head \<le> MAX_HEADER_BYTES \<and> length (hr_body request) \<le> MAX_BODY_BYTES \<and>
    hr_method request \<noteq> [] \<and> starts_with ''/'' (hr_target request) \<and>
    ((\<exists>(name, v) \<in> set (hr_headers request). parse_bounded (2 ^ 64) v = Some (length (hr_body request))) \<or>
     hr_body request = [] \<and> hr_method request \<notin> {''POST'', ''PUT'', ''PATCH''})"
proof -
  obtain line r1 headers cl r2 r3 where line: "read_line_limited L MAX_HEADER_BYTES r = Inr (line, r1)"
    and headers: "header_lines L (length (as_bytes line)) [] None r1 = Inr (headers, cl, r2)"
    and body: "read_exact (case cl of Some n \<Rightarrow> n | None \<Rightarrow> 0) r2 = Some (hr_body request, r3)"
    and request: "hr_headers request = headers" "hr_method request \<noteq> []" "starts_with ''/'' (hr_target request)"
      "cl = None \<longrightarrow> hr_method request \<notin> {''POST'', ''PUT'', ''PATCH''}"
      "(case cl of Some n \<Rightarrow> n | None \<Rightarrow> 0) \<le> MAX_BODY_BYTES"
    using assms(2)
    by (auto simp: read_http_request_def bind_sum_Inr Let_def split: if_splits option.splits)
  note line = read_line_limited_text [OF assms(1) line]
  obtain head where head: "stream_of r1 = head @ stream_of r2"
      "length (as_bytes line) + length head \<le> MAX_HEADER_BYTES" and cl: "some_length headers cl"
    using header_lines_Inr [OF assms(1) headers] line by (auto simp: some_length_def)
  note body = read_exact_Some [OF body]
  have "(\<exists>(name, v) \<in> set headers. parse_bounded (2 ^ 64) v = Some (length (hr_body request))) \<or>
     hr_body request = [] \<and> hr_method request \<notin> {''POST'', ''PUT'', ''PATCH''}"
    using cl body request(4) by (cases cl) (auto simp: some_length_def)
  then show ?thesis
    using line head body request
    by (intro exI [of _ "as_bytes line @ head"] exI [of _ r3]) auto
qed

subsection \<open>A concrete case\<close>

definition demo_net :: "(string \<times> string option) proxy_library" where
  "demo_net = demo_web\<lparr>xl_utf8 := latin_utf8\<rparr>"

lemma demo_net_utf8: "utf8_laws demo_net"
  by (simp add: utf8_laws_def demo_net_def demo_web_def latin_utf8_sound latin_utf8_complete)

definition demo_reader :: reader where
  "demo_reader = ([], [Data [71, 69, 84, 32, 47], Data [32, 72, 84, 84, 80, 47, 49, 46, 49, 13, 10, 13], Data [10]])"

definition demo_request :: http_request where
  "demo_request = \<lparr>hr_method = ''GET'', hr_target = ''/'', hr_headers = [], hr_body = []\<rparr>"

definition crlf :: string where
  "crlf = [char_of (13 :: nat), char_of (10 :: nat)]"

lemma demo_lines:
  "read_line_limited demo_net MAX_HEADER_BYTES demo_reader = Inr (''GET / HTTP/1.1'' @ crlf, [13], [Data [10]])"
  "read_line_limited demo_net (MAX_HEADER_BYTES - 16) ([13], [Data [10]]) = Inr (crlf, [], [])"
proof -
  have "latin_utf8 [71, 69, 84, 32, 47, 32, 72, 84, 84, 80, 47, 49, 46, 49, 13, 10] = Some (''GET / HTTP/1.1'' @ crlf)"
    "latin_utf8 [13, 10] = Some crlf"
    by code_simp+
  then show "read_line_limited demo_net MAX_HEADER_BYTES demo_reader = Inr (''GET / HTTP/1.1'' @ crlf, [13], [Data [10]])"
    "read_line_limited demo_net (MAX_HEADER_BYTES - 16) ([13], [Data [10]]) = Inr (crlf, [], [])"
    by (simp_all add: read_line_limited_def demo_reader_def take_chunk_def NL_def MAX_HEADER_BYTES_def demo_net_def
        del: latin_utf8.simps)
qed

lemma demo_request_read: "read_http_request demo_net demo_reader = Inr demo_request"
proof -
  have "blank_line crlf" "length (as_bytes (''GET / HTTP/1.1'' @ crlf)) = 16"
    "split_whitespace (''GET / HTTP/1.1'' @ crlf) = [''GET'', ''/'', ''HTTP/1.1'']"
    "to_ascii_uppercase ''GET'' = ''GET''" "starts_with ''/'' ''/''" "starts_with ''HTTP/1.'' ''HTTP/1.1''"
    by code_simp+
  moreover from this have "header_lines demo_net 16 [] None ([13], [Data [10]]) = Inr ([], None, [], [])"
    by (subst header_lines.simps) (simp add: demo_lines)
  ultimately show ?thesis
    by (simp add: read_http_request_def demo_lines part_def read_exact_def demo_request_def MAX_BODY_BYTES_def)
qed

theorem requests_are_bounded_witness:
  "\<exists>head r'. stream_of demo_reader = head @ hr_body demo_request @ stream_of r' \<and>
    length head \<le> MAX_HEADER_BYTES \<and> length (hr_body demo_request) \<le> MAX_BODY_BYTES \<and>
    hr_method demo_request \<noteq> [] \<and> starts_with ''/'' (hr_target demo_request) \<and>
    ((\<exists>(name, v) \<in> set (hr_headers demo_request). parse_bounded (2 ^ 64) v = Some (length (hr_body demo_request))) \<or>
     hr_body demo_request = [] \<and> hr_method demo_request \<notin> {''POST'', ''PUT'', ''PATCH''})"
  by (rule requests_are_bounded [OF demo_net_utf8 demo_request_read])

end
