(* ===== verification/ProxyServe.thy ===== *)
theory ProxyServe
  imports ProxyHttp
begin

text \<open>
  The proxy at work (\<open>src/proxy.rs\<close>): clients are accepted, must present the session token, and ask
  for a destination; a destination with rules is intercepted and its request authorized, sent and its
  response redacted, one without may be tunneled. What happens outside is the record \<open>proxy_host\<close>: name
  lookup, outgoing connections, TLS, the upstream client, and whether a write to the client succeeds.
  Everything the proxy does is appended to a list of actions, the audit lines included, so that the order
  of checks and effects is part of the model. A connection that is done returns \<open>None\<close>.
\<close>

definition MAX_AUTH_ATTEMPTS :: nat where
  "MAX_AUTH_ATTEMPTS = 3"

datatype reason = Reason string | Because serve_message

record 'u upstream =
  up_method :: string
  up_url :: 'u
  up_headers :: headers
  up_body :: bytes

record response =
  rs_status :: nat
  rs_reason :: "string option"
  rs_headers :: "(string \<times> string option) list"
  rs_chunks :: "bytes option list"

datatype 'u action =
    AuthRequired bool
  | ErrorResponse nat reason
  | Established
  | Tunneled "socket_addr list"
  | AuditRefused string string "string option" reason
  | AuditProxied string string string "string list"
  | Sent "'u upstream"
  | ResponseHead string
  | ResponseBody bytes

record 'u proxy_host =
  ph_lookup :: "string \<Rightarrow> nat \<Rightarrow> string + socket_addr list"
  ph_connect :: "socket_addr list \<Rightarrow> bool"
  ph_copy :: "socket_addr list \<Rightarrow> bool"
  ph_tls_config :: "string \<Rightarrow> bool"
  ph_tls_accept :: "string \<Rightarrow> event list \<Rightarrow> event list option"
  ph_tls_shutdown :: bool
  ph_send :: "'u upstream \<Rightarrow> response option"
  ph_write_ok :: "'u action \<Rightarrow> bool"

type_synonym ('u, 'a) serving = "('u action list, serve_message, 'a) comp"

definition log_action :: "'u action \<Rightarrow> ('u, unit) serving" where
  "log_action a = modify (\<lambda>out. out @ [a])"

definition write_client :: "'u proxy_host \<Rightarrow> 'u action \<Rightarrow> ('u, unit) serving" where
  "write_client H a = (if ph_write_ok H a then log_action a else err WriteFailed)"

definition audit_refused ::
  "'u proxy_library \<Rightarrow> proxy_policy \<Rightarrow> string \<Rightarrow> string \<Rightarrow> string option \<Rightarrow> reason \<Rightarrow> ('u, unit) serving" where
  "audit_refused L P method destination path why =
     (if pp_audit P then log_action (AuditRefused method (loggable_target L destination) path why) else ok ())"

definition write_auth_required :: "'u proxy_host \<Rightarrow> bool \<Rightarrow> ('u, unit) serving" where
  "write_auth_required H close = write_client H (AuthRequired close)"

definition write_error :: "'u proxy_host \<Rightarrow> nat \<Rightarrow> reason \<Rightarrow> ('u, unit) serving" where
  "write_error H status why = write_client H (ErrorResponse status why)"

subsection \<open>The request inside the tunnel\<close>

fun read_chunks :: "bytes \<Rightarrow> bytes option list \<Rightarrow> string + bytes" where
  "read_chunks body [] = Inr body"
| "read_chunks body (None # chunks) = Inl ''failed to read upstream response''"
| "read_chunks body (Some chunk # chunks) =
     (if length chunk > MAX_BODY_BYTES - length body then Inl ''upstream response exceeded proxy limit''
      else read_chunks (body @ chunk) chunks)"

definition redact_string :: "'u proxy_library \<Rightarrow> redaction list \<Rightarrow> string \<Rightarrow> string option" where
  "redact_string L rs v = Option.bind (redact_bytes rs (as_bytes v)) (xl_utf8 L)"

fun response_lines :: "'u proxy_library \<Rightarrow> redaction list \<Rightarrow> (string \<times> string option) list \<Rightarrow> serve_message + string" where
  "response_lines L rs [] = Inr []"
| "response_lines L rs ((name, v) # headers) =
     (if is_hop_by_hop_header name \<or> eq_ignore_ascii_case name ''content-length'' then response_lines L rs headers
      else case v of
             None \<Rightarrow> response_lines L rs headers
           | Some v \<Rightarrow>
               (case redact_string L rs v of
                  None \<Rightarrow> Inl ServePanic
                | Some v \<Rightarrow>
                    bind_sum (response_lines L rs headers) (\<lambda>rest.
                      Inr (name @ '': '' @ v @ [char_of (13 :: nat), char_of (10 :: nat)] @ rest))))"

definition outbound_headers :: "headers \<Rightarrow> headers" where
  "outbound_headers headers =
     (''accept-encoding'', ''identity'') #
     filter (\<lambda>(name, _). \<not> (is_hop_by_hop_header name \<or> eq_ignore_ascii_case name ''accept-encoding'')) headers"

definition eol :: string where
  "eol = [char_of (13 :: nat), char_of (10 :: nat)]"

definition encoded :: "response \<Rightarrow> bool" where
  "encoded response \<longleftrightarrow>
     (case List.find (\<lambda>(name, _). eq_ignore_ascii_case name ''content-encoding'') (rs_headers response) of
        Some (_, v) \<Rightarrow> v \<noteq> Some ''identity''
      | None \<Rightarrow> False)"

definition relay_response :: "'u proxy_library \<Rightarrow> 'u proxy_host \<Rightarrow> proxy_policy \<Rightarrow> response \<Rightarrow> ('u, unit) serving" where
  "relay_response L H P response =
     (if encoded response
      then write_error H 502 (Reason ''upstream returned an encoded response that cannot be safely redacted'')
      else case read_chunks [] (rs_chunks response) of
             Inl why \<Rightarrow> write_error H 502 (Reason why)
           | Inr body \<Rightarrow>
               (case redact_bytes (pp_redactions P) body of
                  None \<Rightarrow> err ServePanic
                | Some body \<Rightarrow>
                    andThen (lift_sum (response_lines L (pp_redactions P) (rs_headers response))) (\<lambda>lines.
                    andThen (write_client H (ResponseHead
                      (''HTTP/1.1 '' @ digits_of (rs_status response) @ '' '' @
                       (case rs_reason response of Some r \<Rightarrow> r | None \<Rightarrow> []) @ eol @ lines @
                       ''content-length: '' @ digits_of (length body) @ eol @ ''connection: close'' @ eol @ eol))) (\<lambda>_.
                    write_client H (ResponseBody body)))))"

definition refuse_request :: "'u proxy_library \<Rightarrow> 'u proxy_host \<Rightarrow> proxy_policy \<Rightarrow> string \<Rightarrow> string \<Rightarrow> string \<Rightarrow> reason \<Rightarrow> ('u, unit) serving" where
  "refuse_request L H P method domain path why =
     andThen (audit_refused L P method domain (Some path) why) (\<lambda>_. write_error H 403 why)"

definition proxy_http_request ::
  "'u proxy_library \<Rightarrow> 'u proxy_host \<Rightarrow> proxy_policy \<Rightarrow> string \<Rightarrow> event list \<Rightarrow> ('u, unit) serving" where
  "proxy_http_request L H P domain events =
     (case read_http_request L ([], events) of
        Inl e \<Rightarrow> write_error H 400 (Because e)
      | Inr request \<Rightarrow>
          (let refuse = refuse_request L H P (hr_method request) domain
           in if has_ambiguous_path_encoding (hr_target request)
              then refuse (hd (split_char CHR ''?'' (hr_target request)))
                     (Reason ''request path contains an ambiguous encoding'')
              else case xl_url_parse L (''https://'' @ domain @ hr_target request) of
                     Inl e \<Rightarrow> write_error H 400 (Reason (''request used an invalid URL: '' @ e))
                   | Inr url \<Rightarrow>
                       if xl_url_host L url \<noteq> Some domain
                       then refuse (xl_url_path L url) (Reason ''request URL changed the approved destination'')
                       else case authorize L P domain (hr_method request) url (hr_headers request) of
                              Inl e \<Rightarrow> refuse (xl_url_path L url) (Because (PolicyMessage e))
                            | Inr (sent_url, headers, injected) \<Rightarrow>
                                andThen (if pp_audit P
                                         then log_action (AuditProxied (hr_method request) domain (xl_url_path L url) injected)
                                         else ok ()) (\<lambda>_.
                                if \<not> xl_method_ok L (hr_method request)
                                then write_error H 400 (Reason ''request used an invalid HTTP method'')
                                else (let up = \<lparr>up_method = hr_method request, up_url = sent_url,
                                            up_headers = outbound_headers headers, up_body = hr_body request\<rparr>
                                      in andThen (log_action (Sent up)) (\<lambda>_.
                                         case ph_send H up of
                                           None \<Rightarrow> write_error H 502 (Reason ''upstream request failed'')
                                         | Some response \<Rightarrow> relay_response L H P response)))))"

subsection \<open>Connections\<close>

function auth_loop ::
  "'u proxy_library \<Rightarrow> 'u proxy_host \<Rightarrow> proxy_policy \<Rightarrow> nat \<Rightarrow> request_head option \<Rightarrow> reader \<Rightarrow> 'u action list \<Rightarrow>
   (serve_message + (request_head \<times> reader) option) \<times> 'u action list" where
  "auth_loop L H P attempts challenged r out =
     (case read_proxy_request_head L r of
        Inl e \<Rightarrow>
          (case challenged of
             None \<Rightarrow> (Inl e, out)
           | Some head \<Rightarrow>
               andThen (audit_refused L P (rh_method head) (rh_target head) None
                 (Reason ''missing proxy credentials'')) (\<lambda>_. ok None) out)
      | Inr (head, r) \<Rightarrow>
          (let refuse = (\<lambda>why. andThen (audit_refused L P (rh_method head) (rh_target head) None (Reason why))
                 (\<lambda>_. andThen (write_auth_required H True) (\<lambda>_. ok None)) out)
           in case rh_authorization head of
                Some credentials \<Rightarrow>
                  if accepts_credentials L P credentials then (Inr (Some (head, r)), out)
                  else refuse ''invalid proxy credentials''
              | None \<Rightarrow>
                  if attempts + 1 \<ge> MAX_AUTH_ATTEMPTS then refuse ''missing proxy credentials''
                  else (case write_auth_required H False out of
                          (Inl e, out) \<Rightarrow> (Inl e, out)
                        | (Inr _, out) \<Rightarrow> auth_loop L H P (attempts + 1) (Some head) r out)))"
  by pat_completeness auto
termination
  by (relation "measure (\<lambda>(_, _, _, attempts, _). MAX_AUTH_ATTEMPTS - attempts)") auto

definition refuse_connect :: "'u proxy_library \<Rightarrow> 'u proxy_host \<Rightarrow> proxy_policy \<Rightarrow> request_head \<Rightarrow> reason \<Rightarrow> ('u, unit) serving" where
  "refuse_connect L H P head why =
     andThen (audit_refused L P ''CONNECT'' (rh_target head) None why)
       (\<lambda>_. write_error H 403 why)"

definition refused_reason :: reason where
  "refused_reason = Reason ''destination resolves to a non-public address''"

definition tunnel ::
  "'u proxy_library \<Rightarrow> 'u proxy_host \<Rightarrow> proxy_policy \<Rightarrow> request_head \<Rightarrow> string \<Rightarrow> nat \<Rightarrow> ('u, unit) serving" where
  "tunnel L H P head domain port =
     (if \<not> allows_tunnel P domain then refuse_connect L H P head (Reason ''destination is not allowed'')
      else case resolve (xl_networks L) (ph_lookup H) (pp_destinations P) domain port of
             Inl Refused \<Rightarrow> refuse_connect L H P head refused_reason
           | Inl (Lookup e) \<Rightarrow> write_error H 502 (Reason ''failed to resolve destination'')
           | Inr addresses \<Rightarrow>
               if \<not> ph_connect H addresses
               then write_error H 502 (Reason ''failed to connect to destination'')
               else andThen (write_client H Established) (\<lambda>_.
                    andThen (log_action (Tunneled addresses)) (\<lambda>_.
                    if ph_copy H addresses then ok () else err TunnelFailed)))"

definition intercept ::
  "'u proxy_library \<Rightarrow> 'u proxy_host \<Rightarrow> proxy_policy \<Rightarrow> request_head \<Rightarrow> string \<Rightarrow> nat \<Rightarrow> event list \<Rightarrow> ('u, unit) serving" where
  "intercept L H P head domain port events =
     (if port \<noteq> 443 then refuse_connect L H P head (Reason ''credential injection requires port 443'')
      else case resolve (xl_networks L) (ph_lookup H) (pp_destinations P) domain port of
             Inl Refused \<Rightarrow> refuse_connect L H P head refused_reason
           | Inl (Lookup e) \<Rightarrow> write_error H 502 (Reason ''failed to resolve destination'')
           | Inr _ \<Rightarrow>
               andThen (write_client H Established) (\<lambda>_.
               if \<not> ph_tls_config H domain then err TlsConfigFailed
               else case ph_tls_accept H domain events of
                      None \<Rightarrow> err TlsHandshakeFailed
                    | Some clear \<Rightarrow>
                        (\<lambda>out. case proxy_http_request L H P domain clear out of
                           (Inl e, out) \<Rightarrow> (Inl e, out)
                         | (Inr _, out) \<Rightarrow> (if ph_tls_shutdown H then Inr () else Inl TlsShutdownFailed, out))))"

definition handle_connect ::
  "'u proxy_library \<Rightarrow> 'u proxy_host \<Rightarrow> proxy_policy \<Rightarrow> request_head \<Rightarrow> event list \<Rightarrow> ('u, unit) serving" where
  "handle_connect L H P head events =
     (if rh_method head \<noteq> ''CONNECT''
      then andThen (audit_refused L P (rh_method head) (rh_target head) None
             (Reason ''HTTPS CONNECT is required'')) (\<lambda>_.
           write_error H 400 (Reason ''HTTPS CONNECT is required''))
      else andThen (lift_sum (parse_connect_target (rh_target head))) (\<lambda>(domain, port).
           if has_domain P domain then intercept L H P head domain port events
           else tunnel L H P head domain port))"

definition serve_connection ::
  "'u proxy_library \<Rightarrow> 'u proxy_host \<Rightarrow> proxy_policy \<Rightarrow> event list \<Rightarrow> ('u, unit) serving" where
  \<comment> \<open>\<open>into_inner\<close> drops the bytes that the reader holds in its buffer\<close>
  "serve_connection L H P events out =
     (case auth_loop L H P 0 None ([], events) out of
        (Inl e, out) \<Rightarrow> (Inl e, out)
      | (Inr None, out) \<Rightarrow> (Inr (), out)
      | (Inr (Some (head, (_, events))), out) \<Rightarrow> handle_connect L H P head events out)"

fun is_loopback :: "ip_addr \<Rightarrow> bool" where
  "is_loopback (V4 a) \<longleftrightarrow> drop_bit 24 a = 127"
| "is_loopback (V6 a) \<longleftrightarrow> a = 1"

datatype 's accepted = Client ip_addr 's | AcceptFailed | Shutdown

definition accept_client :: "ip_addr \<Rightarrow> 's \<Rightarrow> 's option" where
  "accept_client peer stream = (if is_loopback peer then Some stream else None)"

fun serve :: "'s accepted list \<Rightarrow> 's list" where
  \<comment> \<open>the connections that are handled, each by a task of its own, in the order they are accepted\<close>
  "serve [] = []"
| "serve (Shutdown # es) = []"
| "serve (AcceptFailed # es) = serve es"
| "serve (Client peer stream # es) =
     (case accept_client peer stream of Some stream \<Rightarrow> [stream] | None \<Rightarrow> []) @ serve es"

definition proxy_url :: "proxy_policy \<Rightarrow> string \<Rightarrow> string" where
  "proxy_url P address = ''http://fnox:'' @ pp_token P @ ''@'' @ address"

subsection \<open>What a computation emits\<close>

definition emits :: "('u action \<Rightarrow> bool) \<Rightarrow> ('u, 'a) serving \<Rightarrow> bool" where
  \<comment> \<open>it only appends actions, and only such that satisfy the predicate\<close>
  "emits Q m \<longleftrightarrow> (\<forall>out. \<exists>new. snd (m out) = out @ new \<and> list_all Q new)"

named_theorems emits_intros "what the building blocks of a computation emit"

lemma emits_pure [emits_intros]: "emits Q (ok a)" "emits Q (err e)" "emits Q (lift_sum r)"
  by (simp_all add: emits_def)

lemma emits_log [emits_intros]: "Q a \<Longrightarrow> emits Q (log_action a)"
  by (simp add: emits_def log_action_def)

lemma emits_write [emits_intros]: "Q a \<Longrightarrow> emits Q (write_client H a)"
  by (simp add: write_client_def emits_log emits_pure)

lemma emits_andThen [emits_intros]:
  assumes "emits Q m" and "\<And>a. emits Q (f a)"
  shows "emits Q (andThen m f)"
  unfolding emits_def
proof
  fix out
  obtain new where new: "snd (m out) = out @ new" "list_all Q new" using assms(1) by (auto simp: emits_def)
  show "\<exists>new. snd (andThen m f out) = out @ new \<and> list_all Q new"
  proof (cases "fst (m out)")
    case (Inl e)
    with new show ?thesis by (cases "m out") (auto simp: andThen_def)
  next
    case (Inr a)
    obtain new' where "snd (f a (out @ new)) = (out @ new) @ new'" "list_all Q new'"
      using assms(2) [of a] unfolding emits_def by blast
    with Inr new show ?thesis by (cases "m out") (auto simp: andThen_def)
  qed
qed

lemma emits_if [emits_intros]: "(b \<Longrightarrow> emits Q m) \<Longrightarrow> (\<not> b \<Longrightarrow> emits Q n) \<Longrightarrow> emits Q (if b then m else n)"
  by simp

lemma emits_lift:
  "(\<And>a. r = Inr a \<Longrightarrow> emits Q (f a)) \<Longrightarrow> emits Q (andThen (lift_sum r) f)"
  by (cases r) (simp_all add: emits_def andThen_def)

lemma emits_cases [emits_intros]:
  "(\<And>e. r = Inl e \<Longrightarrow> emits Q (f e)) \<Longrightarrow> (\<And>a. r = Inr a \<Longrightarrow> emits Q (g a)) \<Longrightarrow>
   emits Q (case r of Inl e \<Rightarrow> f e | Inr a \<Rightarrow> g a)"
  "(x = None \<Longrightarrow> emits Q n) \<Longrightarrow> (\<And>a. x = Some a \<Longrightarrow> emits Q (h a)) \<Longrightarrow>
   emits Q (case x of None \<Rightarrow> n | Some a \<Rightarrow> h a)"
  "(\<And>a b. p = (a, b) \<Longrightarrow> emits Q (k a b)) \<Longrightarrow> emits Q (case p of (a, b) \<Rightarrow> k a b)"
  "(\<And>s. d = Lookup s \<Longrightarrow> emits Q (l s)) \<Longrightarrow> (d = Refused \<Longrightarrow> emits Q j) \<Longrightarrow>
   emits Q (case d of Lookup s \<Rightarrow> l s | Refused \<Rightarrow> j)"
  by (simp_all split: sum.split option.split prod.split destination_error.split)

lemma emits_result [emits_intros]:
  "emits Q m \<Longrightarrow> emits Q (\<lambda>out. case m out of (Inl e, out) \<Rightarrow> (Inl e, out) | (Inr a, out) \<Rightarrow> (g a, out))"
  unfolding emits_def by (metis (mono_tags, lifting) case_prod_conv old.sum.simps(5) old.sum.simps(6) prod.collapse snd_conv sum.exhaust_sel)

subsection \<open>Credentials\<close>

lemma or_xor_zero: "d OR (a XOR b) = 0 \<longleftrightarrow> d = 0 \<and> a = (b :: byte)"
proof -
  have "d OR (a XOR b) = 0 \<longleftrightarrow> d = 0 \<and> a XOR b = 0" by (rule or_eq_0_iff)
  also have "a XOR b = 0 \<longleftrightarrow> a = b" by (metis xor.assoc xor.left_neutral xor.right_neutral xor_self_eq)
  finally show ?thesis .
qed

lemma fold_difference:
  "fold (\<lambda>(a, b) difference. difference OR (a XOR b)) zs d = 0 \<longleftrightarrow> d = 0 \<and> list_all (\<lambda>(a, b). a = (b :: byte)) zs"
proof (induction zs arbitrary: d)
  case (Cons p zs)
  obtain a b where p: "p = (a, b)" by (cases p)
  show ?case
    unfolding p fold_simps comp_apply list.pred_inject prod.case Cons.IH or_xor_zero by blast
qed simp

text \<open>The comparison in constant time is equality.\<close>

lemma constant_time_eq_iff: "constant_time_eq l r \<longleftrightarrow> l = r"
proof -
  have "length l = length r \<Longrightarrow> list_all (\<lambda>(a, b). a = b) (zip l r) \<longleftrightarrow> l = r"
    by (induction l r rule: list_induct2) auto
  then show ?thesis by (auto simp: constant_time_eq_def fold_difference)
qed

lemma after_colon_split: "t \<noteq> [] \<Longrightarrow> after_colon d = t \<longleftrightarrow> (\<exists>user. d = user @ 58 # t \<and> 58 \<notin> set user)"
proof (induction d)
  case (Cons b d)
  then show ?case by (cases "b = 58") (auto simp: Cons_eq_append_conv intro: exI [of _ "[]"])
qed auto

definition bears_token :: "'u proxy_library \<Rightarrow> proxy_policy \<Rightarrow> string \<Rightarrow> bool" where
  \<comment> \<open>the specification of credentials: \<open>Basic\<close>, any user without a colon, and the token as password\<close>
  "bears_token L P header \<longleftrightarrow>
     (\<exists>scheme text user. trim header = scheme @ CHR '' '' # text \<and> eq_ignore_ascii_case scheme ''basic'' \<and>
        xl_base64 L (trim text) = Some (user @ 58 # as_bytes (pp_token P)) \<and> 58 \<notin> set user)"

lemma accepts_bears_token:
  assumes "pp_token P \<noteq> []" and "accepts_credentials L P header"
  shows "bears_token L P header"
proof -
  obtain scheme t decoded where "split_once CHR '' '' (trim header) = Some (scheme, t)"
    and basic: "eq_ignore_ascii_case scheme ''basic''" and decoded: "xl_base64 L (trim t) = Some decoded"
    and same: "after_colon decoded = as_bytes (pp_token P)"
    using assms(2) by (auto simp: accepts_credentials_def constant_time_eq_iff split: option.splits if_splits)
  then have "trim header = scheme @ CHR '' '' # t" by (simp add: split_once_Some)
  moreover obtain user where "decoded = user @ 58 # as_bytes (pp_token P)" "58 \<notin> set user"
    using same assms(1) after_colon_split [of "as_bytes (pp_token P)" decoded] by auto
  ultimately show ?thesis using basic decoded unfolding bears_token_def by blast
qed

lemma bears_token_accepted:
  assumes "pp_token P \<noteq> []" and "bears_token L P header"
  shows "accepts_credentials L P header"
proof -
  obtain scheme t user where "trim header = scheme @ CHR '' '' # t" and basic: "eq_ignore_ascii_case scheme ''basic''"
    and "xl_base64 L (trim t) = Some (user @ 58 # as_bytes (pp_token P))" "58 \<notin> set user"
    using assms(2) by (auto simp: bears_token_def)
  moreover have "CHR '' '' \<notin> set scheme"
  proof
    assume "CHR '' '' \<in> set scheme"
    then have "ascii_lower CHR '' '' \<in> set (to_ascii_lowercase scheme)" by (auto simp: to_ascii_lowercase_def)
    also have "to_ascii_lowercase scheme = ''basic''"
      using basic by (simp add: eq_ignore_ascii_case_def to_ascii_lowercase_def ascii_lower_def is_upper_def)
    finally show False by (simp add: ascii_lower_def is_upper_def)
  qed
  ultimately have "split_once CHR '' '' (trim header) = Some (scheme, t)" by (simp add: split_once_Some)
  moreover have "after_colon (user @ 58 # as_bytes (pp_token P)) = as_bytes (pp_token P)"
    using after_colon_split [of "as_bytes (pp_token P)"] assms(1) \<open>58 \<notin> set user\<close> by auto
  ultimately show ?thesis
    using basic \<open>xl_base64 L (trim t) = _\<close> by (simp add: accepts_credentials_def constant_time_eq_iff)
qed

subsection \<open>The greeting\<close>

fun harmless :: "'u action \<Rightarrow> bool" where
  "harmless (AuthRequired _) = True"
| "harmless (AuditRefused _ _ _ _) = True"
| "harmless _ = False"

definition challenges :: "'u action list \<Rightarrow> nat" where
  "challenges out = length (filter (\<lambda>a. case a of AuthRequired _ \<Rightarrow> True | _ \<Rightarrow> False) out)"

lemma challenges_append [simp]: "challenges (xs @ ys) = challenges xs + challenges ys"
  by (simp add: challenges_def)

fun nth_head :: "'u proxy_library \<Rightarrow> nat \<Rightarrow> reader \<Rightarrow> (request_head \<times> reader) option" where
  \<comment> \<open>the request heads that a client sends one after the other\<close>
  "nth_head L n r =
     (case read_proxy_request_head L r of
        Inl e \<Rightarrow> None
      | Inr (head, r') \<Rightarrow> (case n of 0 \<Rightarrow> Some (head, r') | Suc n \<Rightarrow> nth_head L n r'))"

declare auth_loop.simps [simp del] nth_head.simps [simp del]

definition authenticated :: "'u proxy_library \<Rightarrow> proxy_policy \<Rightarrow> reader \<Rightarrow> nat \<Rightarrow> request_head \<Rightarrow> reader \<Rightarrow> bool" where
  "authenticated L P r0 n head r \<longleftrightarrow>
     nth_head L n r0 = Some (head, r) \<and>
     (\<exists>credentials. rh_authorization head = Some credentials \<and> accepts_credentials L P credentials)"

lemma greeting_writes:
  "snd (audit_refused L P m d p w out) = out @ (if pp_audit P then [AuditRefused m (loggable_target L d) p w] else [])"
  "fst (audit_refused L P m d p w out) = Inr ()"
  "snd (write_auth_required H c out) = out @ (if ph_write_ok H (AuthRequired c) then [AuthRequired c] else [])"
  by (simp_all add: audit_refused_def write_auth_required_def write_client_def log_action_def)

lemma refusal_greets:
  assumes "andThen (audit_refused L P m d p w) (\<lambda>_. andThen (write_auth_required H True) (\<lambda>_. ok None)) out = (res, out')"
  shows "(\<exists>new. out' = out @ new \<and> list_all harmless new \<and> challenges new \<le> 1) \<and> (\<forall>x. res \<noteq> Inr (Some x))"
  using assms
  by (cases "pp_audit P"; cases "ph_write_ok H (AuthRequired True)")
     (auto simp: andThen_def audit_refused_def write_auth_required_def write_client_def log_action_def challenges_def)

lemma auth_loop_greets:
  "auth_loop L H P n ch r out = (res, out') \<Longrightarrow> n < MAX_AUTH_ATTEMPTS \<Longrightarrow>
   (\<exists>new. out' = out @ new \<and> list_all harmless new \<and> challenges new + n \<le> MAX_AUTH_ATTEMPTS) \<and>
   (\<forall>head r'. res = Inr (Some (head, r')) \<longrightarrow> (\<exists>k. authenticated L P r k head r'))"
proof (induction "MAX_AUTH_ATTEMPTS - n" arbitrary: n ch r out rule: less_induct)
  case less
  show ?case
  proof (cases "read_proxy_request_head L r")
    case (Inl e)
    with less.prems show ?thesis
      by (subst (asm) auth_loop.simps)
         (auto simp: andThen_def greeting_writes challenges_def split: option.splits prod.splits sum.splits,
          auto simp: prod_eq_iff greeting_writes)
  next
    case (Inr hr)
    obtain head r1 where hr: "hr = (head, r1)" by (cases hr)
    show ?thesis
    proof (cases "rh_authorization head = None \<and> n + 1 < MAX_AUTH_ATTEMPTS")
      case True
      obtain w out1 where w: "write_auth_required H False out = (w, out1)" by (cases "write_auth_required H False out")
      then have out1: "out1 = out @ (if ph_write_ok H (AuthRequired False) then [AuthRequired False] else [])"
        using greeting_writes(3) [of H False out] by simp
      show ?thesis
      proof (cases w)
        case (Inl e)
        with less.prems True w Inr hr have "out' = out1" "res = Inl e"
          by (subst (asm) auth_loop.simps, simp)+
        with out1 less.prems(2) show ?thesis by (auto simp: challenges_def)
      next
        case (Inr u)
        with less.prems True w \<open>read_proxy_request_head L r = _\<close> hr
        have "auth_loop L H P (n + 1) (Some head) r1 out1 = (res, out')"
          by (subst (asm) auth_loop.simps) simp
        moreover have "MAX_AUTH_ATTEMPTS - (n + 1) < MAX_AUTH_ATTEMPTS - n" "n + 1 < MAX_AUTH_ATTEMPTS" using True by auto
        ultimately obtain new where new: "out' = out1 @ new" "list_all harmless new" "challenges new + (n + 1) \<le> MAX_AUTH_ATTEMPTS"
          and auth: "\<forall>head r'. res = Inr (Some (head, r')) \<longrightarrow> (\<exists>k. authenticated L P r1 k head r')"
          using less.hyps [of "n + 1" "Some head" r1 out1] by blast
        have "\<exists>k. authenticated L P r k h r'" if got: "res = Inr (Some (h, r'))" for h r'
        proof -
          obtain k where "authenticated L P r1 k h r'" using auth [rule_format, OF got] ..
          with \<open>read_proxy_request_head L r = _\<close> hr have "authenticated L P r (Suc k) h r'"
            by (simp add: authenticated_def nth_head.simps [of L "Suc k" r])
          then show ?thesis by blast
        qed
        moreover have "\<exists>new. out' = out @ new \<and> list_all harmless new \<and> challenges new + n \<le> MAX_AUTH_ATTEMPTS"
          using new out1 by (cases "ph_write_ok H (AuthRequired False)")
            (auto simp: challenges_def intro: exI [of _ "AuthRequired False # new"])
        ultimately show ?thesis by blast
      qed
    next
      case False
      show ?thesis
      proof (cases "\<exists>c. rh_authorization head = Some c \<and> accepts_credentials L P c")
        case True
        with less.prems(1) Inr hr have "out' = out" "res = Inr (Some (head, r1))"
          by (subst (asm) auth_loop.simps, force)+
        moreover have "authenticated L P r 0 head r1"
          using True Inr hr by (simp add: authenticated_def nth_head.simps [of L 0 r])
        ultimately show ?thesis using less.prems(2) by (auto simp: challenges_def)
      next
        case refused: False
        obtain why where "andThen (audit_refused L P (rh_method head) (rh_target head) None why)
            (\<lambda>_. andThen (write_auth_required H True) (\<lambda>_. ok None)) out = (res, out')"
          using less.prems(1) Inr hr False refused
          by (subst (asm) auth_loop.simps) (auto simp: Let_def split: option.splits if_splits)
        from refusal_greets [OF this] obtain new where "out' = out @ new" "list_all harmless new"
            "challenges new \<le> 1" "\<forall>x. res \<noteq> Inr (Some x)"
          by blast
        with less.prems(2) show ?thesis by auto
      qed
    qed
  qed
qed

subsection \<open>What an authenticated client gets\<close>

definition permitted_upstream :: "'u proxy_library \<Rightarrow> proxy_policy \<Rightarrow> string \<Rightarrow> event list \<Rightarrow> 'u upstream \<Rightarrow> bool" where
  \<comment> \<open>a request the client wrote into the tunnel, authorized for the destination\<close>
  "permitted_upstream L P domain clear up \<longleftrightarrow>
     (\<exists>request url headers injected. read_http_request L ([], clear) = Inr request \<and>
        \<not> has_ambiguous_path_encoding (hr_target request) \<and>
        xl_url_parse L (''https://'' @ domain @ hr_target request) = Inr url \<and> xl_url_host L url = Some domain \<and>
        authorize L P domain (hr_method request) url (hr_headers request) = Inr (up_url up, headers, injected) \<and>
        up_method up = hr_method request \<and> up_body up = hr_body request \<and>
        up_headers up = outbound_headers headers)"

definition redacted_body :: "proxy_policy \<Rightarrow> bytes \<Rightarrow> bool" where
  "redacted_body P b \<longleftrightarrow>
     (\<exists>body. length body \<le> MAX_BODY_BYTES \<and> redact_bytes (pp_redactions P) body = Some b)"

definition destination_ok :: "'u proxy_library \<Rightarrow> 'u proxy_host \<Rightarrow> proxy_policy \<Rightarrow> string \<Rightarrow> nat \<Rightarrow> socket_addr list \<Rightarrow> bool" where
  "destination_ok L H P domain port addresses \<longleftrightarrow>
     resolve (xl_networks L) (ph_lookup H) (pp_destinations P) domain port = Inr addresses"

fun permitted_action ::
  "'u proxy_library \<Rightarrow> 'u proxy_host \<Rightarrow> proxy_policy \<Rightarrow> request_head \<Rightarrow> event list \<Rightarrow> 'u action \<Rightarrow> bool" where
  "permitted_action L H P head events (Sent up) \<longleftrightarrow>
     rh_method head = ''CONNECT'' \<and>
     (\<exists>domain clear addresses. parse_connect_target (rh_target head) = Inr (domain, 443) \<and> has_domain P domain \<and>
        destination_ok L H P domain 443 addresses \<and> ph_tls_accept H domain events = Some clear \<and>
        permitted_upstream L P domain clear up)"
| "permitted_action L H P head events (Tunneled addresses) \<longleftrightarrow>
     rh_method head = ''CONNECT'' \<and>
     (\<exists>domain port. parse_connect_target (rh_target head) = Inr (domain, port) \<and> \<not> has_domain P domain \<and>
        allows_tunnel P domain \<and> destination_ok L H P domain port addresses)"
| "permitted_action L H P head events (ResponseBody b) \<longleftrightarrow> redacted_body P b"
| "permitted_action L H P head events _ \<longleftrightarrow> True"

lemma read_chunks_bounded: "length body \<le> MAX_BODY_BYTES \<Longrightarrow> read_chunks body chunks = Inr b \<Longrightarrow> length b \<le> MAX_BODY_BYTES"
  by (induction body chunks rule: read_chunks.induct) (auto split: if_splits)

lemma redacted_bodyI:
  "read_chunks [] chunks = Inr body \<Longrightarrow> redact_bytes (pp_redactions P) body = Some b \<Longrightarrow> redacted_body P b"
  using read_chunks_bounded [of "[]" chunks body] by (auto simp: redacted_body_def)

lemma emits_relay:
  assumes "\<And>b. redacted_body P b \<Longrightarrow> Q (ResponseBody b)" and "\<And>h. Q (ResponseHead h)"
    and "\<And>n w. Q (ErrorResponse n w)"
  shows "emits Q (relay_response L H P response)"
  unfolding relay_response_def write_error_def
  by (intro emits_lift emits_intros assms redacted_bodyI)

lemma emits_proxy_http_request:
  assumes "\<And>up. permitted_upstream L P domain clear up \<Longrightarrow> Q (Sent up)"
    and "\<And>b. redacted_body P b \<Longrightarrow> Q (ResponseBody b)" and "\<And>h. Q (ResponseHead h)"
    and "\<And>n w. Q (ErrorResponse n w)" and "\<And>m d p w. Q (AuditRefused m d p w)" and "\<And>m d p w. Q (AuditProxied m d p w)"
  shows "emits Q (proxy_http_request L H P domain clear)"
  unfolding proxy_http_request_def Let_def refuse_request_def write_error_def audit_refused_def
  by (intro emits_intros emits_relay assms) (auto simp: permitted_upstream_def)

lemma emits_refuse_connect: "emits (permitted_action L H P head events) (refuse_connect L H P head why)"
  unfolding refuse_connect_def audit_refused_def write_error_def by (intro emits_intros) simp_all

lemma emits_tunnel:
  assumes "rh_method head = ''CONNECT''" "parse_connect_target (rh_target head) = Inr (domain, port)" "\<not> has_domain P domain"
  shows "emits (permitted_action L H P head events) (tunnel L H P head domain port)"
  unfolding tunnel_def write_error_def
  by (intro emits_intros emits_refuse_connect) (use assms in \<open>auto simp: destination_ok_def\<close>)

lemma emits_intercept:
  assumes "rh_method head = ''CONNECT''" "parse_connect_target (rh_target head) = Inr (domain, port)" "has_domain P domain"
  shows "emits (permitted_action L H P head events) (intercept L H P head domain port events)"
  unfolding intercept_def write_error_def
  by (intro emits_intros emits_refuse_connect emits_proxy_http_request) (use assms in \<open>auto simp: destination_ok_def\<close>)

lemma emits_handle_connect: "emits (permitted_action L H P head events) (handle_connect L H P head events)"
  unfolding handle_connect_def audit_refused_def write_error_def
  by (intro emits_lift emits_intros emits_tunnel emits_intercept) auto

lemma emitsD: "emits Q m \<Longrightarrow> m out = (res, out') \<Longrightarrow> \<exists>new. out' = out @ new \<and> list_all Q new"
  by (metis emits_def snd_conv)

lemma connection_actions:
  assumes "serve_connection L H P events [] = (res, out)"
  shows "\<exists>greeting served. out = greeting @ served \<and> list_all harmless greeting \<and>
    challenges greeting \<le> MAX_AUTH_ATTEMPTS \<and>
    (served = [] \<or> (\<exists>n head buffer rest. authenticated L P ([], events) n head (buffer, rest) \<and>
       list_all (permitted_action L H P head rest) served))"
proof -
  obtain r greeting where loop: "auth_loop L H P 0 None ([], events) [] = (r, greeting)"
    by (cases "auth_loop L H P 0 None ([], events) []")
  from auth_loop_greets [OF this]
  have greets: "list_all harmless greeting" "challenges greeting \<le> MAX_AUTH_ATTEMPTS"
    and auth: "\<forall>head r'. r = Inr (Some (head, r')) \<longrightarrow> (\<exists>k. authenticated L P ([], events) k head r')"
    by (auto simp: MAX_AUTH_ATTEMPTS_def)
  show ?thesis
  proof (cases "\<exists>head buffer rest. r = Inr (Some (head, buffer, rest))")
    case True
    then obtain head buffer rest where r: "r = Inr (Some (head, buffer, rest))" by blast
    with assms loop have "handle_connect L H P head rest greeting = (res, out)" by (simp add: serve_connection_def)
    from emitsD [OF emits_handle_connect this]
    obtain served where "out = greeting @ served" "list_all (permitted_action L H P head rest) served" by blast
    moreover from auth r obtain k where "authenticated L P ([], events) k head (buffer, rest)" by blast
    ultimately show ?thesis using greets by blast
  next
    case False
    with assms loop have "out = greeting" by (auto simp: serve_connection_def split: sum.splits option.splits)
    with greets show ?thesis by (intro exI [of _ greeting] exI [of _ "[]"]) simp
  qed
qed

text \<open>C1: The proxy serves nobody without the session token, and nothing that its policy does not allow: a
  connection begins with refusals only, at most \<open>MAX_AUTH_ATTEMPTS\<close> of them; anything further follows a
  request head of this client whose \<open>Basic\<close> credentials carry the token, and consists of permitted
  actions: a request goes upstream only for a CONNECT to port 443 of a destination with rules and
  permitted addresses, authorized from what the client wrote into the tunnel; a raw tunnel opens only
  to permitted addresses of a destination without rules that the egress policy allows; and every body the
  client gets is the redaction of one within the size limit.\<close>

theorem connections_are_policed:
  assumes "pp_token P \<noteq> []" and "serve_connection L H P events [] = (res, out)"
  shows "\<exists>greeting served. out = greeting @ served \<and> list_all harmless greeting \<and>
    challenges greeting \<le> MAX_AUTH_ATTEMPTS \<and>
    (served = [] \<or> (\<exists>n head buffer rest credentials.
       nth_head L n ([], events) = Some (head, buffer, rest) \<and> rh_authorization head = Some credentials \<and>
       bears_token L P credentials \<and> list_all (permitted_action L H P head rest) served))"
proof -
  obtain greeting served where *: "out = greeting @ served" "list_all harmless greeting"
      "challenges greeting \<le> MAX_AUTH_ATTEMPTS"
    and served: "served = [] \<or> (\<exists>n head buffer rest. authenticated L P ([], events) n head (buffer, rest) \<and>
       list_all (permitted_action L H P head rest) served)"
    using connection_actions [OF assms(2)] by blast
  from served have "served = [] \<or> (\<exists>n head buffer rest credentials.
       nth_head L n ([], events) = Some (head, buffer, rest) \<and> rh_authorization head = Some credentials \<and>
       bears_token L P credentials \<and> list_all (permitted_action L H P head rest) served)"
    unfolding authenticated_def using accepts_bears_token [OF assms(1)] by blast
  with * show ?thesis by blast
qed

lemma permitted_body: "permitted_action L H P head rest (ResponseBody b) \<Longrightarrow> redacted_body P b" by simp

lemma connection_bodies:
  assumes "serve_connection L H P events [] = (res, out)" and "ResponseBody b \<in> set out"
  shows "redacted_body P b"
proof -
  obtain greeting served where *: "out = greeting @ served" "list_all harmless greeting"
      "served = [] \<or> (\<exists>n head buffer rest. authenticated L P ([], events) n head (buffer, rest) \<and>
       list_all (permitted_action L H P head rest) served)"
    using connection_actions [OF assms(1)] by blast
  have "\<not> ResponseBody b \<in> set greeting" using *(2) by (auto simp: list_all_iff)
  with * assms(2) show ?thesis by (auto simp: list_all_iff)
qed

text \<open>C19: No secret of the plan is echoed to the client: every response body that a connection writes is
  cut into pieces such that a replaced piece spells the value of a rule and became that rule's
  placeholder, and at no byte that is kept does the value of a rule begin (for a rule that fills a query
  parameter: in any percent-encoded spelling); the upstream body was within the limit.\<close>

theorem responses_hide_values:
  assumes "new_plan L session config values_of = Inr plan"
    and "serve_connection L H (pn_policy plan) events [] = (res, out)" and "ResponseBody b \<in> set out"
  shows "\<exists>ps. b = output_of ps \<and> hidden (pp_rules (pn_policy plan)) ps \<and> length (input_of ps) \<le> MAX_BODY_BYTES"
proof -
  obtain body where body: "length body \<le> MAX_BODY_BYTES" "redact_bytes (pp_redactions (pn_policy plan)) body = Some b"
    using connection_bodies [OF assms(2,3)] by (auto simp: redacted_body_def)
  obtain ps where "redact_bytes (pp_redactions (pn_policy plan)) body = Some (output_of ps)" "input_of ps = body"
      "hidden (pp_rules (pn_policy plan)) ps"
    using plan_redacts [OF assms(1), of body] by blast
  with body show ?thesis by auto
qed

subsection \<open>The expectations of the code hold\<close>

definition is_ascii_text :: "string \<Rightarrow> bool" where
  "is_ascii_text v \<longleftrightarrow> list_all (\<lambda>c. (of_char c :: nat) < 128) v"

lemma as_bytes_append: "as_bytes (s @ t) = as_bytes s @ as_bytes t"
  by (simp add: as_bytes_def)

lemma ascii_bytes: "is_ascii_text v \<Longrightarrow> b \<in> set (as_bytes v) \<Longrightarrow> unat b < 128"
  by (induction v)
     (auto simp: is_ascii_text_def as_bytes_Cons utf8_char_def Let_def unat_of_nat, auto simp: as_bytes_def)

lemma pieces_text:
  "hidden rules ps \<Longrightarrow> (\<And>b. b \<in> set (input_of ps) \<Longrightarrow> unat b < 128) \<Longrightarrow> \<exists>s. output_of ps = as_bytes s"
proof (induction ps)
  case Nil
  show ?case by (intro exI [of _ "[]"]) (simp add: as_bytes_def)
next
  case (Cons p ps)
  then obtain s where s: "output_of ps = as_bytes s" by (cases p) auto
  show ?case
  proof (cases p)
    case (Kept b)
    with Cons.prems(2) have "unat b < 128" by simp
    then have "as_bytes (char_of (unat b) # s) = b # as_bytes s" by (simp add: as_bytes_Cons utf8_low)
    with Kept s show ?thesis by (intro exI [of _ "char_of (unat b) # s"]) simp
  next
    case (Replaced r t)
    with Cons.prems(1) obtain ph where "rx_placeholder r = as_bytes ph" by auto
    with Replaced s show ?thesis by (intro exI [of _ "ph @ s"]) (simp add: as_bytes_append)
  qed
qed

lemma header_text_survives:
  assumes "utf8_laws L" and "new_plan L session config values_of = Inr plan" and "is_ascii_text v"
  shows "redact_string L (pp_redactions (pn_policy plan)) v \<noteq> None"
proof -
  obtain ps where ps: "redact_bytes (pp_redactions (pn_policy plan)) (as_bytes v) = Some (output_of ps)"
      "input_of ps = as_bytes v" "hidden (pp_rules (pn_policy plan)) ps"
    using plan_redacts [OF assms(2), of "as_bytes v"] by blast
  obtain s where "output_of ps = as_bytes s"
    using pieces_text [OF ps(3)] ascii_bytes [OF assms(3)] ps(2) by metis
  with ps(1) assms(1) show ?thesis by (simp add: redact_string_def utf8_laws_def)
qed

lemma response_lines_no_panic:
  "(\<And>v. is_ascii_text v \<Longrightarrow> redact_string L rs v \<noteq> None) \<Longrightarrow>
   list_all (\<lambda>(_, v). case v of Some v \<Rightarrow> is_ascii_text v | None \<Rightarrow> True) headers \<Longrightarrow>
   \<exists>s. response_lines L rs headers = Inr s"
proof (induction headers)
  case (Cons h headers)
  then obtain s where "response_lines L rs headers = Inr s" by auto
  moreover obtain name v where h: "h = (name, v)" by (cases h)
  moreover have "\<exists>y. redact_string L rs t = Some y" if "v = Some t" for t
    using Cons.prems h that by auto
  ultimately show ?case by (cases v) auto
qed simp

text \<open>C27: Relaying a response always comes to an end and never panics: for a plan of the proxy and
  any response whose header texts are ASCII (the only texts that \<open>to_str\<close> gives), the redaction of
  body and headers terminates, redacted headers are valid UTF-8 as the code expects, and the only error
  is a client that no longer takes the bytes.\<close>

theorem relaying_never_panics:
  assumes "utf8_laws L" and "new_plan L session config values_of = Inr plan"
    and "list_all (\<lambda>(_, v). case v of Some v \<Rightarrow> is_ascii_text v | None \<Rightarrow> True) (rs_headers response)"
  shows "fst (relay_response L H (pn_policy plan) response out) \<in> {Inr (), Inl WriteFailed}"
proof -
  have written: "fst (write_client H a out) \<in> {Inr (), Inl WriteFailed}" for a out
    by (simp add: write_client_def log_action_def)
  have both: "fst (andThen (write_client H a) (\<lambda>_. write_client H a') out) \<in> {Inr (), Inl WriteFailed}" for a a' out
    using written [of a out] written [of a' "snd (write_client H a out)"] by (auto simp: andThen_fst)
  obtain lines where lines: "response_lines L (pp_redactions (pn_policy plan)) (rs_headers response) = Inr lines"
    using response_lines_no_panic [OF header_text_survives [OF assms(1,2)] assms(3)] by blast
  show ?thesis
  proof (cases "encoded response \<or> (\<exists>why. read_chunks [] (rs_chunks response) = Inl why)")
    case True
    then show ?thesis
      by (elim disjE exE) (simp_all only: relay_response_def write_error_def if_True if_False sum.case written simp_thms split: if_split)
  next
    case False
    then obtain body where body: "read_chunks [] (rs_chunks response) = Inr body" by (metis sum.exhaust)
    obtain b where b: "redact_bytes (pp_redactions (pn_policy plan)) body = Some b"
      using plan_redacts [OF assms(2), of body] by blast
    have lift: "andThen (lift_sum (Inr x)) f = f x" for x and f :: "string \<Rightarrow> ('u, unit) serving"
      by (simp add: andThen_def lift_sum_def)
    from False have "encoded response = False" by simp
    with body b lines show ?thesis
      unfolding relay_response_def by (simp only: if_False sum.case option.case lift both)
  qed
qed

subsection \<open>A concrete case\<close>

lemma position_of_last: "NL \<notin> set bs \<Longrightarrow> position_of NL (bs @ [NL]) = Some (length bs)"
  by (induction bs) auto

lemma read_whole_line:
  assumes "utf8_laws L" and "as_bytes l = bs @ [NL]" and "NL \<notin> set bs" and "length bs < n"
  shows "read_line_limited L n ([], Data (as_bytes l) # es) = Inr (l, [], es)"
proof -
  have "take_chunk n [] (as_bytes l) = Inr (as_bytes l, [], True)"
    using assms by (simp add: take_chunk_def position_of_last nth_append)
  moreover have "xl_utf8 L (as_bytes l) = Some l" using assms(1) by (simp add: utf8_laws_def)
  moreover have "as_bytes l \<noteq> []" using assms(2) by simp
  ultimately show ?thesis using assms(4) by (simp add: read_line_limited_def)
qed

definition demo_head_lines :: "string list" where
  "demo_head_lines = [''CONNECT API.test:443 HTTP/1.1'' @ crlf, ''Proxy-Authorization: basic :f00d'' @ crlf, crlf]"

definition demo_events :: "event list" where
  "demo_events = map (\<lambda>l. Data (as_bytes l)) demo_head_lines"

definition demo_head :: request_head where
  "demo_head = \<lparr>rh_method = ''CONNECT'', rh_target = ''API.test:443'', rh_authorization = Some ''basic :f00d''\<rparr>"

definition demo_upstream :: "(string \<times> string option) upstream" where
  "demo_upstream =
     \<lparr>up_method = ''GET'', up_url = (''https://api.test/'', None), up_headers = [(''accept-encoding'', ''identity'')], up_body = []\<rparr>"

definition demo_response :: response where
  "demo_response = \<lparr>rs_status = 200, rs_reason = Some ''OK'', rs_headers = [], rs_chunks = [Some (as_bytes ''t ''), Some (as_bytes ''4'')]\<rparr>"

definition demo_outside :: "(string \<times> string option) proxy_host" where
  "demo_outside =
     \<lparr>ph_lookup = (\<lambda>_ port. Inr [(V4 0x08080808, port)]), ph_connect = (\<lambda>_. True), ph_copy = (\<lambda>_. True),
      ph_tls_config = (\<lambda>_. True), ph_tls_accept = (\<lambda>_ _. Some (snd demo_reader)), ph_tls_shutdown = True,
      ph_send = (\<lambda>_. Some demo_response), ph_write_ok = (\<lambda>_. True)\<rparr>"

definition demo_out :: "(string \<times> string option) action list" where
  "demo_out =
     [Established, Sent demo_upstream,
      ResponseHead (''HTTP/1.1 200 OK'' @ eol @ ''content-length: 12'' @ eol @ ''connection: close'' @ eol @ eol),
      ResponseBody (as_bytes ''fnox_proxy_Q'')]"

lemma demo_head_read: "read_proxy_request_head demo_net ([], demo_events) = Inr (demo_head, [], [])"
proof -
  define l1 where "l1 = ''CONNECT API.test:443 HTTP/1.1'' @ crlf"
  define l2 where "l2 = ''Proxy-Authorization: basic :f00d'' @ crlf"
  have lines: "\<exists>bs. as_bytes l = bs @ [NL] \<and> NL \<notin> set bs \<and> length bs < 40" if "l \<in> {l1, l2, crlf}" for l
  proof -
    have "last (as_bytes l) = NL \<and> NL \<notin> set (butlast (as_bytes l)) \<and> length (as_bytes l) < 40 \<and> as_bytes l \<noteq> []"
      using that unfolding l1_def l2_def by (elim insertE emptyE; hypsubst; code_simp)
    then show ?thesis
      using append_butlast_last_id [of "as_bytes l"]
      by (intro exI [of _ "butlast (as_bytes l)"]) (auto simp del: as_bytes_Nil append_butlast_last_id)
  qed
  have read: "read_line_limited demo_net n ([], Data (as_bytes l) # es) = Inr (l, [], es)"
    if l: "l \<in> {l1, l2, crlf}" and n: "40 \<le> n" for l n es
  proof -
    obtain bs where "as_bytes l = bs @ [NL]" "NL \<notin> set bs" "length bs < 40" using lines [OF l] by blast
    with n show ?thesis by (intro read_whole_line [OF demo_net_utf8]) auto
  qed
  have events: "demo_events = [Data (as_bytes l1), Data (as_bytes l2), Data (as_bytes crlf)]"
    by (simp add: demo_events_def demo_head_lines_def l1_def l2_def)
  have shape: "\<not> blank_line l1" "\<not> blank_line l2" "blank_line crlf"
    "split_once CHR '':'' l2 = Some (''Proxy-Authorization'', '' basic :f00d'' @ crlf)"
    "eq_ignore_ascii_case (trim ''Proxy-Authorization'') ''proxy-authorization''"
    "trim ('' basic :f00d'' @ crlf) = ''basic :f00d''"
    "split_whitespace l1 = [''CONNECT'', ''API.test:443'', ''HTTP/1.1'']"
    "length (as_bytes l1) = 31" "length (as_bytes l2) = 34"
    unfolding l1_def l2_def by code_simp+
  have "head_lines demo_net 65 (Some ''basic :f00d'') ([], [Data (as_bytes crlf)]) = Inr (Some ''basic :f00d'', [], [])"
    using read [of crlf] shape by (subst head_lines.simps) (simp add: MAX_HEADER_BYTES_def)
  then have "head_lines demo_net 31 None ([], [Data (as_bytes l2), Data (as_bytes crlf)]) = Inr (Some ''basic :f00d'', [], [])"
    using read [of l2] shape by (subst head_lines.simps) (simp add: MAX_HEADER_BYTES_def)
  then show ?thesis
    using read [of l1] shape
    by (simp add: read_proxy_request_head_def events part_def demo_head_def MAX_HEADER_BYTES_def)
qed

definition served :: proxy_policy where
  "served = pn_policy demo_plan"

lemma demo_plan_net: "new_plan demo_net ''f00d'' demo_proxy_config demo_values = Inr demo_plan"
  unfolding demo_plan_def by code_simp

lemma demo_facts:
  "accepts_credentials demo_net served ''basic :f00d''" "has_domain served ''api.test''"
  "pp_audit served = False"
  "pp_destinations served = \<lparr>dp_allowed = []\<rparr>"
  "authorize demo_net served ''api.test'' ''GET'' (''https://api.test/'', None) [] =
     Inr ((''https://api.test/'', None), [], [])"
  "redact_bytes (pp_redactions served) (as_bytes ''t 4'') = Some (as_bytes ''fnox_proxy_Q'')"
  "has_ambiguous_path_encoding ''/'' = False" "split_once CHR ''?'' ''https://api.test/'' = None"
  "digits_of 200 = ''200''" "digits_of 12 = ''12''" "length (as_bytes ''fnox_proxy_Q'') = 12"
  "as_bytes ''t '' @ as_bytes ''4'' = as_bytes ''t 4''" "length (as_bytes ''t '') = 2" "length (as_bytes ''4'') = 1"
  by code_simp+

lemma demo_target: "parse_connect_target ''API.test:443'' = Inr (''api.test'', 443)"
proof -
  have "rsplit_once CHR '':'' ''API.test:443'' = Some (''API.test'', ''443'')"
    "to_ascii_lowercase (trim_matches (\<lambda>c. c = CHR ''['' \<or> c = CHR '']'') ''API.test'') = ''api.test''"
    by code_simp+
  then show ?thesis by (simp add: parse_connect_target_def parse_bounded_def is_digit_def)
qed

lemma demo_library: "xl_networks demo_net = plain_networks" "xl_url_host demo_net u = Some ''api.test''"
  "xl_url_parse demo_net s = Inr (case split_once CHR ''?'' s of Some (p, q) \<Rightarrow> (p, Some q) | None \<Rightarrow> (s, None))"
  "xl_method_ok demo_net m" "xl_url_path demo_net = fst"
  by (simp_all add: demo_net_def demo_web_def)

lemma demo_outside_answers: "ph_send demo_outside u = Some demo_response" "ph_write_ok demo_outside a"
  "ph_tls_accept demo_outside d es = Some (snd demo_reader)" "ph_tls_config demo_outside d" "ph_tls_shutdown demo_outside"
  by (simp_all add: demo_outside_def)

lemma demo_resolve:
  "resolve plain_networks (ph_lookup demo_outside) \<lparr>dp_allowed = []\<rparr> ''api.test'' 443 = Inr [(V4 0x08080808, 443)]"
proof -
  have "acceptable \<lparr>dp_allowed = []\<rparr> (V4 0x08080808)"
    by (simp add: acceptable_def NON_PUBLIC_NETWORKS_def same_prefix_def)
  then show ?thesis
    by (simp add: resolve_def demo_outside_def permits_acceptable [OF plain_networks_lawful])
qed

lemma demo_connection: "serve_connection demo_net demo_outside served demo_events [] = (Inr (), demo_out)"
proof -
  have loop: "auth_loop demo_net demo_outside served 0 None ([], demo_events) [] = (Inr (Some (demo_head, [], [])), [])"
    using demo_facts(1) by (subst auth_loop.simps) (simp add: demo_head_read, simp add: demo_head_def)
  have chunks: "read_chunks [] [Some (as_bytes ''t ''), Some (as_bytes ''4'')] = Inr (as_bytes ''t 4'')"
    by (simp add: MAX_BODY_BYTES_def demo_facts)
  have relay: "relay_response demo_net demo_outside served demo_response out =
      (Inr (), out @ drop 2 demo_out)" for out
    by (simp add: relay_response_def demo_response_def encoded_def chunks demo_facts write_client_def log_action_def
        andThen_def demo_outside_answers demo_out_def del: read_chunks.simps)
  have request: "proxy_http_request demo_net demo_outside served ''api.test'' (snd demo_reader) [Established] = (Inr (), demo_out)"
    using demo_request_read
    by (simp add: proxy_http_request_def demo_reader_def demo_request_def demo_library demo_facts log_action_def
        outbound_headers_def andThen_def relay demo_upstream_def demo_outside_answers demo_out_def)
  show ?thesis
    using loop request
    by (simp add: serve_connection_def handle_connect_def demo_head_def demo_target demo_facts andThen_def intercept_def
        demo_library demo_resolve write_client_def log_action_def demo_outside_answers)
qed

theorem connections_are_policed_witness:
  "\<exists>greeting after. demo_out = greeting @ after \<and> list_all harmless greeting \<and>
    challenges greeting \<le> MAX_AUTH_ATTEMPTS \<and>
    (after = [] \<or> (\<exists>n head buffer rest credentials.
       nth_head demo_net n ([], demo_events) = Some (head, buffer, rest) \<and> rh_authorization head = Some credentials \<and>
       bears_token demo_net served credentials \<and>
       list_all (permitted_action demo_net demo_outside served head rest) after))"
  by (rule connections_are_policed [OF _ demo_connection]) code_simp

theorem responses_hide_values_witness:
  "\<exists>ps. as_bytes ''fnox_proxy_Q'' = output_of ps \<and> hidden (pp_rules served) ps \<and>
    length (input_of ps) \<le> MAX_BODY_BYTES"
  unfolding served_def
  by (rule responses_hide_values [OF demo_plan_net demo_connection [unfolded served_def]]) (simp add: demo_out_def)

theorem relaying_never_panics_witness:
  "fst (relay_response demo_net demo_outside (pn_policy demo_plan) demo_response []) \<in> {Inr (), Inl WriteFailed}"
  by (rule relaying_never_panics [OF demo_net_utf8 demo_plan_net]) (simp add: demo_response_def)

end
