(* ===== verification/Shell.thy ===== *)
theory Shell
  imports Text
begin

text \<open>
  The code that fnox prints for a shell to evaluate (\<open>src/shell\<close>): assignments and removals of
  variables, quoted for bash and zsh, fish, and PowerShell, and the JSON that the Nushell hook applies.
  Two crates are parameters: \<open>shlex\<close>, of which \<open>quote_law\<close> states what its documentation promises,
  and \<open>serde_json\<close>, which writes the JSON. What a shell does with the code is specified by readers for
  the statements in question: \<open>run_posix\<close> and \<open>run_fish\<close> stop at anything that a shell would expand
  or execute, so a result means that nothing but assignments and removals happened. The locale
  \<open>scripting\<close> is the contract the hook relies on.
\<close>

record shell_library =
  sh_try_quote :: "string \<Rightarrow> string option"
  sh_json :: "(string, string) imap \<Rightarrow> string list \<Rightarrow> string"

datatype shell = Bash | Zsh | Fish | Nushell | Pwsh

definition NUL :: char where
  "NUL = CHR 0x00"

definition LF :: char where
  "LF = CHR 0x0A"

definition BACKSLASH :: char where
  "BACKSLASH = CHR 0x5C"

definition QUOTE :: char where
  "QUOTE = CHR 0x27"

definition DQUOTE :: char where
  "DQUOTE = CHR 0x22"

lemmas char_defs = NUL_def LF_def BACKSLASH_def QUOTE_def DQUOTE_def

definition replace_char :: "char \<Rightarrow> string \<Rightarrow> string \<Rightarrow> string" where
  \<comment> \<open>\<open>str::replace\<close> of a single character\<close>
  "replace_char c to s = concat (map (\<lambda>x. if x = c then to else [x]) s)"

definition posix_quote :: "shell_library \<Rightarrow> string \<Rightarrow> string" where
  "posix_quote L v =
     (case sh_try_quote L v of
        Some q \<Rightarrow> q
      | None \<Rightarrow> [QUOTE] @ replace_char QUOTE [QUOTE, BACKSLASH, QUOTE, QUOTE] (replace_char NUL [] v) @ [QUOTE])"

definition fish_escape :: "string \<Rightarrow> string" where
  "fish_escape v =
     replace_char CHR ''$'' [BACKSLASH, CHR ''$'']
       (replace_char DQUOTE [BACKSLASH, DQUOTE] (replace_char BACKSLASH [BACKSLASH, BACKSLASH] v))"

definition powershell_escape :: "string \<Rightarrow> string" where
  "powershell_escape s = (if QUOTE \<notin> set s then s else replace_char QUOTE [QUOTE, QUOTE] s)"

definition posix_set_line :: "shell_library \<Rightarrow> string \<Rightarrow> string \<Rightarrow> string" where
  "posix_set_line L k v = ''export '' @ posix_quote L k @ ''='' @ posix_quote L v @ [LF]"

definition posix_unset_line :: "shell_library \<Rightarrow> string \<Rightarrow> string" where
  "posix_unset_line L k = ''unset '' @ posix_quote L k @ [LF]"

definition fish_set_line :: "string \<Rightarrow> string \<Rightarrow> string" where
  "fish_set_line k v = ''set -gx '' @ [DQUOTE] @ fish_escape k @ [DQUOTE] @ '' '' @ [DQUOTE] @ fish_escape v @ [DQUOTE, LF]"

definition fish_unset_line :: "string \<Rightarrow> string" where
  "fish_unset_line k = ''set -e '' @ [DQUOTE] @ fish_escape k @ [DQUOTE, LF]"

definition pwsh_set_line :: "string \<Rightarrow> string \<Rightarrow> string" where
  "pwsh_set_line k v = ''Set-Item -LiteralPath '' @ [QUOTE] @ ''Env:'' @ powershell_escape k @ [QUOTE] @ '' -Value '' @
     [QUOTE] @ powershell_escape v @ [QUOTE, LF]"

definition pwsh_unset_line :: "string \<Rightarrow> string" where
  "pwsh_unset_line k = ''Remove-Item -ErrorAction SilentlyContinue -LiteralPath '' @ [QUOTE] @ ''Env:'' @
     powershell_escape k @ [QUOTE, LF]"

text \<open>\<open>None\<close> is the panic of \<open>unimplemented!\<close>: Nushell has no code to evaluate.\<close>

definition shell_set_env :: "shell_library \<Rightarrow> shell \<Rightarrow> string \<Rightarrow> string \<Rightarrow> string option" where
  "shell_set_env L sh k v =
     (case sh of
        Bash \<Rightarrow> Some (posix_set_line L k v)
      | Zsh \<Rightarrow> Some (posix_set_line L k v)
      | Fish \<Rightarrow> Some (fish_set_line k v)
      | Pwsh \<Rightarrow> Some (pwsh_set_line k v)
      | Nushell \<Rightarrow> None)"

definition shell_unset_env :: "shell_library \<Rightarrow> shell \<Rightarrow> string \<Rightarrow> string option" where
  "shell_unset_env L sh k =
     (case sh of
        Bash \<Rightarrow> Some (posix_unset_line L k)
      | Zsh \<Rightarrow> Some (posix_unset_line L k)
      | Fish \<Rightarrow> Some (fish_unset_line k)
      | Pwsh \<Rightarrow> Some (pwsh_unset_line k)
      | Nushell \<Rightarrow> None)"

fun concat_options :: "string option list \<Rightarrow> string option" where
  "concat_options [] = Some []"
| "concat_options (x # xs) = Option.bind x (\<lambda>s. map_option (\<lambda>t. s @ t) (concat_options xs))"

definition SESSION_VAR :: string where
  "SESSION_VAR = ''__FNOX_SESSION''"

definition pwsh_summary :: "(string \<times> string) list \<Rightarrow> string list \<Rightarrow> string" where
  "pwsh_summary added removed =
     (if added = [] \<and> removed = [] then []
      else let counts = join '' '' ((if added \<noteq> [] then [''+'' @ digits_of (length added)] else []) @
                          (if removed \<noteq> [] then [''-'' @ digits_of (length removed)] else []));
               keys = powershell_escape (join '', '' (map fst added @ removed));
               label = powershell_escape (''fnox: '' @ counts @ '' '')
           in ''function __fnox_print_changes {'' @ [LF] @
              ''    Write-Host '' @ [QUOTE] @ label @ [QUOTE] @ '' -NoNewline -ForegroundColor DarkGray'' @ [LF] @
              ''    Write-Host '' @ [QUOTE] @ keys @ [QUOTE] @ '' -ForegroundColor Cyan'' @ [LF] @
              ''}'' @ [LF])"

definition hook_changes ::
  "shell_library \<Rightarrow> shell \<Rightarrow> (string \<times> string) list \<Rightarrow> string list \<Rightarrow> string \<Rightarrow> string option" where
  "hook_changes L sh added removed session =
     concat_options
       (map (\<lambda>(key, v). shell_set_env L sh key v) added @ map (shell_unset_env L sh) removed @ [shell_set_env L sh SESSION_VAR session])"

definition nushell_output :: "shell_library \<Rightarrow> (string \<times> string) list \<Rightarrow> string list \<Rightarrow> string \<Rightarrow> string" where
  "nushell_output L added removed session =
     sh_json L (im_insert SESSION_VAR session (fold (\<lambda>(k, v). im_insert k v) added [])) removed"

definition hook_env_output ::
  "shell_library \<Rightarrow> shell \<Rightarrow> (string \<times> string) list \<Rightarrow> string list \<Rightarrow> string \<Rightarrow> string option" where
  "hook_env_output L sh added removed session =
     (case sh of
        Nushell \<Rightarrow> Some (nushell_output L added removed session)
      | Pwsh \<Rightarrow> map_option (\<lambda>s. pwsh_summary added removed @ s) (hook_changes L sh added removed session)
      | _ \<Rightarrow> hook_changes L sh added removed session)"

definition nushell_deactivate :: "shell_library \<Rightarrow> string list \<Rightarrow> string" where
  "nushell_deactivate L keys = sh_json L [] (keys @ [SESSION_VAR])"

definition deactivate_output :: "shell_library \<Rightarrow> (shell \<Rightarrow> string) \<Rightarrow> shell \<Rightarrow> string list \<Rightarrow> string option" where
  \<comment> \<open>\<open>script\<close> is the fixed text that removes the hook itself\<close>
  "deactivate_output L script sh keys =
     (case sh of
        Nushell \<Rightarrow> Some (nushell_deactivate L keys)
      | _ \<Rightarrow> map_option (\<lambda>s. s @ script sh) (concat_options (map (shell_unset_env L sh) keys)))"

definition shell_of_name :: "string \<Rightarrow> shell option" where
  "shell_of_name name =
     (if name = ''bash'' then Some Bash
      else if name = ''zsh'' then Some Zsh
      else if name = ''fish'' then Some Fish
      else if name = ''nu'' then Some Nushell
      else if name = ''pwsh'' \<or> name = ''powershell'' then Some Pwsh
      else None)"

definition detect_shell :: "(string \<Rightarrow> string option) \<Rightarrow> string option" where
  "detect_shell env =
     (case env ''FNOX_SHELL'' of
        Some s \<Rightarrow> Some s
      | None \<Rightarrow> map_option (\<lambda>s. last (split_char CHR ''/'' s)) (env ''SHELL''))"

definition get_shell :: "(string \<Rightarrow> string option) \<Rightarrow> string option \<Rightarrow> string option + shell" where
  \<comment> \<open>the error carries the unsupported name, or none when no shell was detected\<close>
  "get_shell env name =
     (case (case name of Some n \<Rightarrow> Some n | None \<Rightarrow> detect_shell env) of
        None \<Rightarrow> Inl None
      | Some n \<Rightarrow> (case shell_of_name n of Some sh \<Rightarrow> Inr sh | None \<Rightarrow> Inl (Some n)))"

subsection \<open>How bash and zsh read a word\<close>

type_synonym env = "string \<Rightarrow> string option"

datatype quoting = Bare | Single | Double

definition metachar :: "char \<Rightarrow> bool" where
  "metachar c \<longleftrightarrow> c \<in> set ''$`;&|<>()*?[]{}~#!'' \<or> c = NUL \<or> (is_whitespace c \<and> c \<noteq> LF \<and> c \<noteq> CHR '' '')"

function read_word :: "quoting \<Rightarrow> string \<Rightarrow> string \<Rightarrow> (string \<times> string) option" where
  "read_word Bare acc [] = Some (acc, [])"
| "read_word Single acc [] = None"
| "read_word Double acc [] = None"
| "read_word Bare acc (c # cs) =
     (if c = LF \<or> c = CHR '' '' then Some (acc, c # cs)
      else if c = QUOTE then read_word Single acc cs
      else if c = DQUOTE then read_word Double acc cs
      else if c = BACKSLASH then
        (case cs of [] \<Rightarrow> None | d # ds \<Rightarrow> if d = LF then read_word Bare acc ds else read_word Bare (acc @ [d]) ds)
      else if metachar c then None
      else read_word Bare (acc @ [c]) cs)"
| "read_word Single acc (c # cs) =
     (if c = QUOTE then read_word Bare acc cs else if c = NUL then None else read_word Single (acc @ [c]) cs)"
| "read_word Double acc (c # cs) =
     (if c = DQUOTE then read_word Bare acc cs
      else if c = BACKSLASH then
        (case cs of
           [] \<Rightarrow> None
         | d # ds \<Rightarrow>
             if d = LF then read_word Double acc ds
             else if d \<in> {CHR ''$'', CHR ''`'', DQUOTE, BACKSLASH} then read_word Double (acc @ [d]) ds
             else read_word Double (acc @ [c, d]) ds)
      else if c = CHR ''$'' \<or> c = CHR ''`'' \<or> c = NUL then None
      else read_word Double (acc @ [c]) cs)"
  by pat_completeness auto
termination by (relation "measure (\<lambda>(_, _, s). length s)") auto

lemma read_word_length: "read_word m acc s = Some (w, rest) \<Longrightarrow> length rest \<le> length s"
  by (induction m acc s rule: read_word.induct) (auto split: if_splits list.splits)

lemma read_word_shorter:
  assumes "read_word Bare acc (c # cs) = Some (w, rest)" and "c \<noteq> LF" and "c \<noteq> CHR '' ''"
  shows "length rest < length (c # cs)"
  using assms by (auto split: if_splits list.splits dest!: read_word_length)

function read_words :: "string \<Rightarrow> (string list \<times> string) option" where
  "read_words [] = Some ([], [])"
| "read_words (c # cs) =
     (if c = LF then Some ([], cs)
      else if c = CHR '' '' then read_words cs
      else case read_word Bare [] (c # cs) of
             None \<Rightarrow> None
           | Some (w, rest) \<Rightarrow> map_option (\<lambda>(ws, r). (w # ws, r)) (read_words rest))"
  by pat_completeness auto
termination by (relation "measure length") (auto dest: read_word_shorter simp del: read_word.simps)

lemma read_words_length: "read_words s = Some (ws, rest) \<Longrightarrow> length rest \<le> length s"
proof (induction s arbitrary: ws rule: read_words.induct)
  case (2 c cs)
  show ?case
  proof (cases "c = LF \<or> c = CHR '' ''")
    case False
    with "2.prems" obtain w r ws' where w: "read_word Bare [] (c # cs) = Some (w, r)" and ws': "read_words r = Some (ws', rest)"
      by (auto simp del: read_word.simps split: option.splits)
    then have "length rest \<le> length r" using "2.IH"(2) False by blast
    with read_word_length [OF w] show ?thesis by simp
  qed (use 2 in \<open>auto simp del: read_word.simps split: if_splits\<close>)
qed simp

lemma read_words_shorter: "read_words (c # cs) = Some (ws, rest) \<Longrightarrow> length rest < length (c # cs)"
proof -
  assume read: "read_words (c # cs) = Some (ws, rest)"
  show ?thesis
  proof (cases "c = LF \<or> c = CHR '' ''")
    case False
    with read obtain w r ws' where w: "read_word Bare [] (c # cs) = Some (w, r)" and ws': "read_words r = Some (ws', rest)"
      by (auto simp del: read_word.simps split: option.splits)
    with read_word_shorter [OF w] read_words_length [OF ws'] False show ?thesis by simp
  qed (use read read_words_length [of cs] in \<open>auto simp del: read_word.simps simp: less_Suc_eq_le split: if_splits\<close>)
qed

definition exec_posix :: "string list \<Rightarrow> env \<Rightarrow> env option" where
  \<comment> \<open>an assignment to a name, or its removal; any other command is not accepted\<close>
  "exec_posix ws env =
     (case ws of
        [] \<Rightarrow> Some env
      | [cmd, arg] \<Rightarrow>
          if cmd = ''export'' then
            (case split_once CHR ''='' arg of
               Some (k, v) \<Rightarrow> if is_valid_secret_name k then Some (env(k := Some v)) else None
             | None \<Rightarrow> None)
          else if cmd = ''unset'' \<and> is_valid_secret_name arg then Some (env(arg := None))
          else None
      | _ \<Rightarrow> None)"

function run_posix :: "string \<Rightarrow> env \<Rightarrow> env option" where
  "run_posix [] env = Some env"
| "run_posix (c # cs) env =
     (case read_words (c # cs) of
        None \<Rightarrow> None
      | Some (ws, rest) \<Rightarrow> Option.bind (exec_posix ws env) (run_posix rest))"
  by pat_completeness auto
termination by (relation "measure (\<lambda>(s, _). length s)") (auto dest: read_words_shorter simp del: read_words.simps)

declare read_words.simps [simp del] run_posix.simps(2) [simp del]

definition quote_law :: "shell_library \<Rightarrow> bool" where
  \<comment> \<open>\<open>try_quote\<close> gives a text that a shell reads as the input, and fails only for NUL\<close>
  "quote_law L \<longleftrightarrow>
     (\<forall>v. (sh_try_quote L v = None \<longleftrightarrow> NUL \<in> set v) \<and>
        (\<forall>q acc rest. sh_try_quote L v = Some q \<longrightarrow>
           q \<noteq> [] \<and> hd q \<noteq> LF \<and> hd q \<noteq> CHR '' '' \<and>
           read_word Bare acc (q @ rest) = read_word Bare (acc @ v) rest))"

definition without_nul :: "string \<Rightarrow> string" where
  "without_nul v = filter (\<lambda>c. c \<noteq> NUL) v"

lemma replace_char_Nil [simp]: "replace_char c to [] = []"
  by (simp add: replace_char_def)

lemma replace_char_Cons [simp]: "replace_char c to (x # s) = (if x = c then to else [x]) @ replace_char c to s"
  by (simp add: replace_char_def)

lemma replace_char_append: "replace_char c to (s @ t) = replace_char c to s @ replace_char c to t"
  by (simp add: replace_char_def)

lemma replace_char_absent: "c \<notin> set s \<Longrightarrow> replace_char c to s = s"
  by (induction s) auto

lemma replace_nul: "replace_char NUL [] v = without_nul v"
  by (induction v) (auto simp: without_nul_def)

lemma single_quoted:
  "NUL \<notin> set v \<Longrightarrow>
   read_word Single acc (replace_char QUOTE [QUOTE, BACKSLASH, QUOTE, QUOTE] v @ QUOTE # rest) = read_word Bare (acc @ v) rest"
  by (induction v arbitrary: acc) (auto simp: char_defs)

text \<open>A quoted text is read as the text, without the characters that no variable can hold.\<close>

lemma posix_quote_read:
  assumes "quote_law L"
  shows "read_word Bare acc (posix_quote L v @ rest) = read_word Bare (acc @ without_nul v) rest"
proof (cases "sh_try_quote L v")
  case None
  have "NUL \<notin> set (without_nul v)" by (simp add: without_nul_def)
  from single_quoted [OF this, of acc rest] None show ?thesis
    by (simp add: posix_quote_def replace_nul) (simp add: char_defs)
next
  case (Some q)
  with assms have "NUL \<notin> set v" by (metis quote_law_def option.distinct(1))
  then have "without_nul v = v" by (auto simp: without_nul_def filter_id_conv)
  with Some assms show ?thesis by (simp add: posix_quote_def quote_law_def)
qed

lemma valid_name_chars: "is_valid_secret_name k \<Longrightarrow> c \<in> set k \<Longrightarrow> is_alphanumeric c \<or> c = CHR ''_''"
  by (auto simp: is_valid_secret_name_def is_alphanumeric_def list_all_iff split: list.splits)

lemma valid_name_plain: "is_valid_secret_name k \<Longrightarrow> NUL \<notin> set k \<and> CHR ''='' \<notin> set k"
proof -
  have "\<not> (is_alphanumeric c \<or> c = CHR ''_'')" if "c \<in> {NUL, CHR ''=''}" for c
    using that by (auto simp: is_alphanumeric_def is_upper_def is_lower_def is_digit_def NUL_def)
  with valid_name_chars [of k] show "is_valid_secret_name k \<Longrightarrow> ?thesis" by blast
qed

lemma without_nul_name: "is_valid_secret_name k \<Longrightarrow> without_nul k = k"
  using valid_name_plain [of k] by (auto simp: without_nul_def filter_id_conv)

lemma read_command:
  "read_word Bare acc (''export '' @ s) = Some (acc @ ''export'', '' '' @ s)"
  "read_word Bare acc (''unset '' @ s) = Some (acc @ ''unset'', '' '' @ s)"
  by (simp_all add: metachar_def char_defs is_whitespace_def)

lemma read_command_words:
  assumes "q \<noteq> []" "hd q \<noteq> LF" "hd q \<noteq> CHR '' ''" and "read_word Bare [] (q @ t) = Some (w, LF # rest)"
  shows "read_words (''export '' @ q @ t) = Some ([''export'', w], rest)"
    and "read_words (''unset '' @ q @ t) = Some ([''unset'', w], rest)"
proof -
  obtain c cs where q: "q @ t = c # cs" "c \<noteq> LF" "c \<noteq> CHR '' ''" using assms(1-3) by (cases q) auto
  have eol: "read_words (LF # rest) = Some ([], rest)" by (subst read_words.simps) simp
  have arg: "read_words ('' '' @ q @ t) = Some ([w], rest)"
    using q assms(4) eol
    by (subst append.simps, subst read_words.simps) (simp add: read_words.simps(2) [of c cs] del: read_word.simps, simp add: char_defs)
  show "read_words (''export '' @ q @ t) = Some ([''export'', w], rest)"
    using read_command(1) [of "[]" "q @ t"] arg
    by (subst append.simps, subst read_words.simps(2)) (simp del: read_word.simps, simp add: char_defs)
  show "read_words (''unset '' @ q @ t) = Some ([''unset'', w], rest)"
    using read_command(2) [of "[]" "q @ t"] arg
    by (subst append.simps, subst read_words.simps(2)) (simp del: read_word.simps, simp add: char_defs)
qed

lemma posix_quote_start:
  assumes "quote_law L"
  shows "posix_quote L v \<noteq> [] \<and> hd (posix_quote L v) \<noteq> LF \<and> hd (posix_quote L v) \<noteq> CHR '' ''"
proof (cases "sh_try_quote L v")
  case None
  then show ?thesis by (simp add: posix_quote_def) (simp add: char_defs)
next
  case (Some q)
  with assms show ?thesis by (simp add: posix_quote_def quote_law_def)
qed

lemma run_posix_words:
  "s \<noteq> [] \<Longrightarrow> read_words s = Some (ws, rest) \<Longrightarrow> exec_posix ws env = Some env' \<Longrightarrow> run_posix s env = run_posix rest env'"
  by (cases s) (simp_all add: run_posix.simps(2))

lemma run_posix_set:
  assumes "quote_law L" and k: "is_valid_secret_name k"
  shows "run_posix ((''export '' @ posix_quote L k @ ''='' @ posix_quote L v @ [LF]) @ rest) env =
    run_posix rest (env(k \<mapsto> without_nul v))"
proof (rule run_posix_words)
  have eq: "read_word Bare acc (CHR ''='' # s) = read_word Bare (acc @ ''='') s" for acc s
    by (simp add: metachar_def char_defs is_whitespace_def)
  have "read_word Bare [] (posix_quote L k @ ''='' @ posix_quote L v @ [LF] @ rest) =
      Some (k @ ''='' @ without_nul v, LF # rest)"
    by (simp add: posix_quote_read [OF assms(1)] eq without_nul_name [OF k] del: read_word.simps, simp)
  from read_command_words(1) [OF _ _ _ this] posix_quote_start [OF assms(1), of k]
  show "read_words ((''export '' @ posix_quote L k @ ''='' @ posix_quote L v @ [LF]) @ rest) =
      Some ([''export'', k @ ''='' @ without_nul v], rest)"
    by simp
  have "split_once CHR ''='' (k @ CHR ''='' # without_nul v) = Some (k, without_nul v)"
    using valid_name_plain [OF k] by (simp add: split_once_Some)
  then show "exec_posix [''export'', k @ ''='' @ without_nul v] env = Some (env(k \<mapsto> without_nul v))"
    using k by (simp add: exec_posix_def)
qed simp

lemma run_posix_unset:
  assumes "quote_law L" and k: "is_valid_secret_name k"
  shows "run_posix ((''unset '' @ posix_quote L k @ [LF]) @ rest) env = run_posix rest (env(k := None))"
proof (rule run_posix_words)
  have "read_word Bare [] (posix_quote L k @ [LF] @ rest) = Some (k, LF # rest)"
    by (simp add: posix_quote_read [OF assms(1)] without_nul_name [OF k])
  from read_command_words(2) [OF _ _ _ this] posix_quote_start [OF assms(1), of k]
  show "read_words ((''unset '' @ posix_quote L k @ [LF]) @ rest) = Some ([''unset'', k], rest)"
    by simp
  show "exec_posix [''unset'', k] env = Some (env(k := None))" using k by (simp add: exec_posix_def)
qed simp

subsection \<open>How fish reads a statement\<close>

fun fish_string :: "string \<Rightarrow> (string \<times> string) option" where
  \<comment> \<open>the rest of a text in double quotes; a variable would be expanded\<close>
  "fish_string [] = None"
| "fish_string (c # cs) =
     (if c = DQUOTE then Some ([], cs)
      else if c = BACKSLASH then
        (case cs of
           [] \<Rightarrow> None
         | d # ds \<Rightarrow>
             if d = LF then fish_string ds
             else if d \<in> {BACKSLASH, DQUOTE, CHR ''$''} then map_option (\<lambda>(v, r). (d # v, r)) (fish_string ds)
             else map_option (\<lambda>(v, r). (c # d # v, r)) (fish_string ds))
      else if c = CHR ''$'' \<or> c = NUL then None
      else map_option (\<lambda>(v, r). (c # v, r)) (fish_string cs))"

lemma fish_escape_append: "fish_escape (s @ t) = fish_escape s @ fish_escape t"
  by (simp add: fish_escape_def replace_char_append)

lemma fish_escape_Cons:
  "fish_escape (c # s) = (if c \<in> {BACKSLASH, DQUOTE, CHR ''$''} then [BACKSLASH, c] else [c]) @ fish_escape s"
  by (simp add: fish_escape_def replace_char_append char_defs)

lemma fish_escape_read: "NUL \<notin> set v \<Longrightarrow> fish_string (fish_escape v @ DQUOTE # rest) = Some (v, rest)"
proof (induction v)
  case Nil
  show ?case by (simp add: fish_escape_def)
next
  case (Cons c v)
  then show ?case
    by (cases "c \<in> {BACKSLASH, DQUOTE, CHR ''$''}") (auto simp: fish_escape_Cons char_defs)
qed

definition fish_statement :: "string \<Rightarrow> env \<Rightarrow> (string \<times> env) option" where
  "fish_statement s env =
     (case strip_prefix (''set -gx '' @ [DQUOTE]) s of
        Some r \<Rightarrow>
          Option.bind (fish_string r) (\<lambda>(k, r).
          Option.bind (strip_prefix ('' '' @ [DQUOTE]) r) (\<lambda>r.
          Option.bind (fish_string r) (\<lambda>(v, r).
          Option.bind (strip_prefix [LF] r) (\<lambda>r.
            if is_valid_secret_name k then Some (r, env(k \<mapsto> v)) else None))))
      | None \<Rightarrow>
          Option.bind (strip_prefix (''set -e '' @ [DQUOTE]) s) (\<lambda>r.
          Option.bind (fish_string r) (\<lambda>(k, r).
          Option.bind (strip_prefix [LF] r) (\<lambda>r.
            if is_valid_secret_name k then Some (r, env(k := None)) else None))))"

function run_fish :: "string \<Rightarrow> env \<Rightarrow> env option" where
  "run_fish s env =
     (if s = [] then Some env
      else case fish_statement s env of
             None \<Rightarrow> None
           | Some (rest, env') \<Rightarrow> if length rest < length s then run_fish rest env' else None)"
  by pat_completeness auto
termination by (relation "measure (\<lambda>(s, _). length s)") auto

declare run_fish.simps [simp del]

lemma run_fish_statement:
  "fish_statement (line @ rest) env = Some (rest, env') \<Longrightarrow> line \<noteq> [] \<Longrightarrow> run_fish (line @ rest) env = run_fish rest env'"
  by (subst run_fish.simps) simp

lemma run_fish_set:
  assumes "is_valid_secret_name k" "NUL \<notin> set v"
  shows "run_fish ((''set -gx '' @ [DQUOTE] @ fish_escape k @ [DQUOTE] @ '' '' @ [DQUOTE] @ fish_escape v @ [DQUOTE, LF]) @ rest) env =
    run_fish rest (env(k \<mapsto> v))"
proof (rule run_fish_statement)
  show "fish_statement ((''set -gx '' @ [DQUOTE] @ fish_escape k @ [DQUOTE] @ '' '' @ [DQUOTE] @ fish_escape v @ [DQUOTE, LF]) @ rest) env =
    Some (rest, env(k \<mapsto> v))"
    using assms valid_name_plain [OF assms(1)]
    by (simp add: fish_statement_def strip_prefix_def fish_escape_read)
qed simp

lemma run_fish_unset:
  assumes "is_valid_secret_name k"
  shows "run_fish ((''set -e '' @ [DQUOTE] @ fish_escape k @ [DQUOTE, LF]) @ rest) env = run_fish rest (env(k := None))"
proof (rule run_fish_statement)
  show "fish_statement ((''set -e '' @ [DQUOTE] @ fish_escape k @ [DQUOTE, LF]) @ rest) env = Some (rest, env(k := None))"
    using assms valid_name_plain [OF assms]
    by (simp add: fish_statement_def strip_prefix_def fish_escape_read)
qed simp

subsection \<open>The contract of a script\<close>

definition apply_changes :: "(string \<Rightarrow> string) \<Rightarrow> (string \<times> string) list \<Rightarrow> string list \<Rightarrow> env \<Rightarrow> env" where
  "apply_changes clean added removed env =
     fold (\<lambda>k e. e(k := None)) removed (fold (\<lambda>(k, v) e. e(k \<mapsto> clean v)) added env)"

text \<open>What the hook needs of a shell: its assignments and removals, read by the shell, do exactly that,
  whatever follows them. \<open>lawful\<close> are the assumptions on the library that quotes, \<open>holds\<close> are the
  texts that can be assigned, and \<open>clean\<close> is what arrives.\<close>

locale scripting =
  fixes lawful :: bool
    and run :: "string \<Rightarrow> env \<Rightarrow> env option"
    and set_line :: "string \<Rightarrow> string \<Rightarrow> string"
    and unset_line :: "string \<Rightarrow> string"
    and holds :: "string \<Rightarrow> bool"
    and clean :: "string \<Rightarrow> string"
  assumes run_nil: "run [] env = Some env"
    and run_set: "lawful \<Longrightarrow> is_valid_secret_name k \<Longrightarrow> holds v \<Longrightarrow>
      run (set_line k v @ rest) env = run rest (env(k \<mapsto> clean v))"
    and run_unset: "lawful \<Longrightarrow> is_valid_secret_name k \<Longrightarrow> run (unset_line k @ rest) env = run rest (env(k := None))"
begin

lemma run_sets:
  assumes lawful
  shows "\<forall>(k, v) \<in> set added. is_valid_secret_name k \<and> holds v \<Longrightarrow>
    run (concat (map (\<lambda>(k, v). set_line k v) added) @ rest) env =
    run rest (fold (\<lambda>(k, v) e. e(k \<mapsto> clean v)) added env)"
  by (induction added arbitrary: env) (auto simp: run_set [OF assms])

lemma run_unsets:
  assumes lawful
  shows "\<forall>k \<in> set removed. is_valid_secret_name k \<Longrightarrow>
    run (concat (map unset_line removed) @ rest) env = run rest (fold (\<lambda>k e. e(k := None)) removed env)"
  by (induction removed arbitrary: env) (auto simp: run_unset [OF assms])

lemma run_changes:
  assumes lawful and "\<forall>(k, v) \<in> set added. is_valid_secret_name k \<and> holds v"
    and "\<forall>k \<in> set removed. is_valid_secret_name k" and "is_valid_secret_name var" and "holds session"
  shows "run (concat (map (\<lambda>(k, v). set_line k v) added) @ concat (map unset_line removed) @ set_line var session) env =
    Some ((apply_changes clean added removed env)(var \<mapsto> clean session))"
  using run_set [OF assms(1,4,5), of "[]"]
  by (simp add: run_sets [OF assms(1,2)] run_unsets [OF assms(1,3)] apply_changes_def run_nil)

end

interpretation posix: scripting "quote_law L" run_posix "posix_set_line L" "posix_unset_line L" "\<lambda>_. True" without_nul for L
  unfolding posix_set_line_def posix_unset_line_def
  by unfold_locales (simp, blast intro: run_posix_set, blast intro: run_posix_unset)

interpretation fish: scripting True run_fish fish_set_line fish_unset_line "\<lambda>v. NUL \<notin> set v" "\<lambda>v. v"
  unfolding fish_set_line_def fish_unset_line_def
  by unfold_locales (simp add: run_fish.simps, blast intro: run_fish_set, blast intro: run_fish_unset)

definition run_script :: "shell \<Rightarrow> string \<Rightarrow> env \<Rightarrow> env option" where
  "run_script sh = (if sh = Fish then run_fish else run_posix)"

definition arrives :: "shell \<Rightarrow> string \<Rightarrow> string" where
  \<comment> \<open>bash and zsh get the text without NUL, which no variable can hold\<close>
  "arrives sh v = (if sh = Fish then v else without_nul v)"

definition changes_ok :: "shell \<Rightarrow> (string \<times> string) list \<Rightarrow> string list \<Rightarrow> bool" where
  \<comment> \<open>names are those that the configuration accepts; fish is given texts without NUL\<close>
  "changes_ok sh added removed \<longleftrightarrow>
     list_all (\<lambda>(k, v). is_valid_secret_name k \<and> (sh = Fish \<longrightarrow> NUL \<notin> set v)) added \<and>
     list_all is_valid_secret_name removed"

lemma concat_options_append:
  "concat_options (xs @ ys) = Option.bind (concat_options xs) (\<lambda>s. map_option (\<lambda>t. s @ t) (concat_options ys))"
proof (induction xs)
  case Nil
  show ?case by (cases "concat_options ys") simp_all
next
  case (Cons x xs)
  then show ?case
    by (cases x; cases "concat_options xs"; cases "concat_options ys") simp_all
qed

lemma concat_options_Some: "concat_options (map (\<lambda>x. Some (f x)) xs) = Some (concat (map f xs))"
  by (induction xs) auto

lemma concat_options_pairs:
  "concat_options (map (\<lambda>(k, v). Some (f k v)) xs) = Some (concat (map (\<lambda>(k, v). f k v) xs))"
  by (induction xs) auto

lemma session_var: "is_valid_secret_name SESSION_VAR"
  by code_simp

lemma shell_env_lines:
  "shell_set_env L Bash = (\<lambda>k v. Some (posix_set_line L k v))" "shell_set_env L Zsh = (\<lambda>k v. Some (posix_set_line L k v))"
  "shell_set_env L Fish = (\<lambda>k v. Some (fish_set_line k v))" "shell_unset_env L Bash = (\<lambda>k. Some (posix_unset_line L k))"
  "shell_unset_env L Zsh = (\<lambda>k. Some (posix_unset_line L k))" "shell_unset_env L Fish = (\<lambda>k. Some (fish_unset_line k))"
  by (simp_all add: fun_eq_iff shell_set_env_def shell_unset_env_def)

lemma hook_output_lines:
  "sh \<in> {Bash, Zsh} \<Longrightarrow> hook_env_output L sh added removed session =
     Some (concat (map (\<lambda>(k, v). posix_set_line L k v) added) @ concat (map (posix_unset_line L) removed) @
       posix_set_line L SESSION_VAR session)"
  "hook_env_output L Fish added removed session =
     Some (concat (map (\<lambda>(k, v). fish_set_line k v) added) @ concat (map fish_unset_line removed) @
       fish_set_line SESSION_VAR session)"
  by (auto simp: hook_env_output_def hook_changes_def shell_env_lines concat_options_append concat_options_Some concat_options_pairs)

lemma hook_output_runs:
  assumes "quote_law L" and "sh \<in> {Bash, Zsh, Fish}" and "changes_ok sh added removed" and "NUL \<notin> set session"
  shows "\<exists>script. hook_env_output L sh added removed session = Some script \<and>
    run_script sh script env = Some ((apply_changes (arrives sh) added removed env)(SESSION_VAR \<mapsto> session))"
proof -
  have clean: "without_nul session = session" using assms(4) by (auto simp: without_nul_def filter_id_conv)
  have ok: "\<forall>(k, v) \<in> set added. is_valid_secret_name k \<and> True" "\<forall>k \<in> set removed. is_valid_secret_name k"
    "sh = Fish \<Longrightarrow> \<forall>(k, v) \<in> set added. is_valid_secret_name k \<and> NUL \<notin> set v"
    using assms(3) by (auto simp: changes_ok_def list_all_iff)
  show ?thesis
  proof (cases "sh = Fish")
    case True
    from fish.run_changes [OF TrueI ok(3) [OF True] ok(2) session_var assms(4), where env = env]
    show ?thesis by (simp add: True hook_output_lines(2) run_script_def arrives_def [abs_def])
  next
    case False
    with assms(2) have sh: "sh \<in> {Bash, Zsh}" by auto
    from posix.run_changes [OF assms(1) ok(1,2) session_var TrueI, where env = env]
    show ?thesis by (simp add: False clean hook_output_lines(1) [OF sh] run_script_def arrives_def [abs_def])
  qed
qed

text \<open>C16: What the hook prints for bash, zsh and fish is code that only assigns and removes variables:
  read by the shell, it sets every added variable to its value, removes every removed one, and stores
  the session, and nothing in a value, whatever its characters, is expanded or executed (bash and zsh
  lose NUL, which no variable can hold).\<close>

theorem hook_code_is_safe:
  assumes "quote_law L" and "sh \<in> {Bash, Zsh, Fish}" and "changes_ok sh added removed" and "NUL \<notin> set session"
  shows "\<exists>script. hook_env_output L sh added removed session = Some script \<and>
    run_script sh script env = Some ((apply_changes (arrives sh) added removed env)(SESSION_VAR \<mapsto> session))"
  by (rule hook_output_runs [OF assms])

subsection \<open>PowerShell\<close>

fun pwsh_string :: "string \<Rightarrow> (string \<times> string) option" where
  \<comment> \<open>the rest of a text in single quotes, where a doubled quote stands for one\<close>
  "pwsh_string [] = None"
| "pwsh_string (c # cs) =
     (if c = QUOTE then (case cs of d # ds \<Rightarrow> if d = QUOTE then map_option (\<lambda>(v, r). (c # v, r)) (pwsh_string ds) else Some ([], cs)
                         | [] \<Rightarrow> Some ([], []))
      else map_option (\<lambda>(v, r). (c # v, r)) (pwsh_string cs))"

text \<open>PowerShell reads a quoted text back, as long as its characters are those of the model: it takes the
  typographic quotes U+2018 to U+201B for quotes as well, which \<open>powershell_escape\<close> does not double.\<close>

lemma powershell_escape_read:
  assumes "rest = [] \<or> hd rest \<noteq> QUOTE"
  shows "pwsh_string (powershell_escape v @ QUOTE # rest) = Some (v, rest)"
proof -
  have "powershell_escape v = replace_char QUOTE [QUOTE, QUOTE] v"
    by (simp add: powershell_escape_def replace_char_absent)
  moreover have "pwsh_string (replace_char QUOTE [QUOTE, QUOTE] v @ QUOTE # rest) = Some (v, rest)"
    using assms by (induction v) (auto split: list.splits)
  ultimately show ?thesis by simp
qed

subsection \<open>A concrete case\<close>

definition plain_shell :: shell_library where
  "plain_shell =
     \<lparr>sh_try_quote = (\<lambda>v. if NUL \<in> set v then None
        else Some ([QUOTE] @ replace_char QUOTE [QUOTE, BACKSLASH, QUOTE, QUOTE] v @ [QUOTE])),
      sh_json = (\<lambda>_ _. [])\<rparr>"

lemma plain_shell_quotes: "quote_law plain_shell"
  unfolding quote_law_def plain_shell_def
  by (simp add: single_quoted) (simp add: char_defs)

theorem hook_code_is_safe_witness:
  "\<exists>script. hook_env_output plain_shell Fish [(''TOKEN'', ''a$b'')] [''OLD''] ''abc'' = Some script \<and>
    run_script Fish script Map.empty =
      Some ((apply_changes (arrives Fish) [(''TOKEN'', ''a$b'')] [''OLD''] Map.empty)(SESSION_VAR \<mapsto> ''abc''))"
  by (rule hook_code_is_safe [OF plain_shell_quotes]) code_simp+

end
