(* ===== verification/HookEnv.thy ===== *)
theory HookEnv
  imports ConfigLoad Exec Shell
begin

text \<open>
  The hook that a shell runs before each prompt (\<open>src/hook_env.rs\<close>, \<open>src/commands/hook_env.rs\<close>) and
  its removal (\<open>src/commands/deactivate.rs\<close>). What one run leaves for the next is a session, kept in a
  variable of the shell; it holds keyed hashes of the values, not the values. The record \<open>hook_host\<close> is
  what a run reads: the configuration's world, modification times, the client of the daemon, the clock,
  and the crates for hashing and for the text of a session. The state \<open>hook_state\<close> is the process with
  the files that hold file secrets. One reading of the clock stands for those of a run, and creating a file either succeeds or
  leaves nothing. \<open>hooked\<close> relates
  the shell before and after a prompt.
\<close>

record hook_session =
  hs_dir :: "path option"
  hs_config_path :: "path option"
  hs_config_mtime :: "nat option"
  hs_secret_hashes :: "(string, string) imap"
  hs_hash_key :: string
  hs_env_var_hash :: string
  hs_config_files_hash :: string
  hs_temp_files :: "(string, string) imap"
  hs_hook_temp_dir :: "path option"
  hs_needs_retry :: bool

text \<open>The crates: BLAKE3 with and without a key, \<open>DefaultHasher\<close> as hexadecimal text, the text of a
  session (MessagePack, deflate and base64), and the order in which a hash map is walked.\<close>

record hook_library =
  hl_blake3 :: "string \<Rightarrow> string"
  hl_keyed :: "string \<Rightarrow> string \<Rightarrow> string"
  hl_hash_files :: "(path \<times> nat) list \<Rightarrow> string"
  hl_hash_vars :: "(string \<times> string) list \<Rightarrow> string"
  hl_encode :: "hook_session \<Rightarrow> string option"
  hl_decode :: "string \<Rightarrow> hook_session option"
  hl_order :: "(string \<times> string) list \<Rightarrow> (string \<times> string) list"
  hl_shell :: shell_library

record ('p, 'l, 'w) hook_host =
  hh_library :: hook_library
  hh_world :: "('p, 'l) world"
  hh_fuel :: nat
  hh_mtime :: "path \<Rightarrow> nat option"
  hh_is_file :: "path \<Rightarrow> bool"
  hh_client :: "('p, 'w) client_host"
  hh_settings :: "client_settings option"
  hh_output :: string
  hh_temp_dir :: path
  hh_can_create :: "string \<Rightarrow> bool"
  hh_undeletable :: "string \<Rightarrow> bool"
  hh_now :: nat
  hh_pid :: nat

record 'w hook_state =
  hk_client :: "'w client"
  hk_registry :: registry
  hk_files :: "string \<Rightarrow> string option"

subsection \<open>Sessions\<close>

definition default_session :: hook_session where
  "default_session =
     \<lparr>hs_dir = None, hs_config_path = None, hs_config_mtime = None, hs_secret_hashes = [],
      hs_hash_key = replicate 32 NUL, hs_env_var_hash = [], hs_config_files_hash = [], hs_temp_files = [],
      hs_hook_temp_dir = None, hs_needs_retry = False\<rparr>"

definition prev_session :: "hook_library \<Rightarrow> (string \<Rightarrow> string option) \<Rightarrow> hook_session" where
  "prev_session L env =
     (case Option.bind (env SESSION_VAR) (hl_decode L) of Some session \<Rightarrow> session | None \<Rightarrow> default_session)"

definition hash_secret_with_key :: "hook_library \<Rightarrow> string \<Rightarrow> string \<Rightarrow> string \<Rightarrow> string" where
  "hash_secret_with_key L hash_key key v = hl_keyed L hash_key (key @ [NUL] @ v)"

fun ancestors :: "nat \<Rightarrow> path \<Rightarrow> path list" where
  \<comment> \<open>a path and what \<open>pop\<close> leaves of it, again and again; the depth of the path bounds the number\<close>
  "ancestors 0 dir = [dir]"
| "ancestors (Suc n) dir = dir # (case path_parent dir of Some d \<Rightarrow> ancestors n d | None \<Rightarrow> [])"

definition dated :: "('p, 'l, 'w) hook_host \<Rightarrow> path \<Rightarrow> (path \<times> nat) list" where
  "dated H path = (case hh_mtime H path of Some t \<Rightarrow> [(path, t)] | None \<Rightarrow> [])"

definition collect_config_files :: "('p, 'l, 'w) hook_host \<Rightarrow> path \<Rightarrow> (path \<times> nat) list" where
  "collect_config_files H start_dir =
     (let profiles = get_profiles (hh_world H) []
      in concat (map (\<lambda>dir. concat (map (dated H) (config_paths profiles dir))) (ancestors (length start_dir) start_dir)) @
         dated H (global_config_path (hh_world H)))"

definition fnox_vars :: "(string, string) imap \<Rightarrow> (string \<times> string) list" where
  \<comment> \<open>the entries of the \<open>BTreeMap\<close>, in its order\<close>
  "fnox_vars env = sort_key fst (filter (\<lambda>(k, _). starts_with ''FNOX_'' k) env)"

definition hash_fnox_env_vars :: "hook_library \<Rightarrow> (string, string) imap \<Rightarrow> string" where
  "hash_fnox_env_vars L env = hl_hash_vars L (fnox_vars env)"

fun le_bytes :: "nat \<Rightarrow> nat \<Rightarrow> string" where
  "le_bytes 0 n = []"
| "le_bytes (Suc k) n = char_of (n mod 256) # le_bytes k (n div 256)"

definition session_key :: "('p, 'l, 'w) hook_host \<Rightarrow> string" where
  "session_key H = hl_blake3 (hh_library H) (''fnox-session-'' @ le_bytes 16 (hh_now H) @ le_bytes 4 (hh_pid H))"

definition parent_of_first :: "hook_library \<Rightarrow> (string, string) imap \<Rightarrow> path option" where
  \<comment> \<open>the directory of the first file that has one\<close>
  "parent_of_first L temp_files =
     (case List.find (\<lambda>p. p \<noteq> None) (map (\<lambda>(_, p). path_parent (path_components p)) (hl_order L temp_files)) of
        Some d \<Rightarrow> d | None \<Rightarrow> None)"

definition new_session ::
  "('p, 'l, 'w) hook_host \<Rightarrow> (string, string) imap \<Rightarrow> path option \<Rightarrow> path option \<Rightarrow> (string, string) imap \<Rightarrow>
   (string, string) imap \<Rightarrow> hook_session" where
  "new_session H env dir config_path loaded_secrets temp_files =
     (let L = hh_library H; key = session_key H
      in \<lparr>hs_dir = dir,
          hs_config_path = config_path,
          hs_config_mtime = Option.bind config_path (hh_mtime H),
          hs_secret_hashes = map (\<lambda>(k, v). (k, hash_secret_with_key L key k v)) (hl_order L loaded_secrets),
          hs_hash_key = key,
          hs_env_var_hash = hash_fnox_env_vars L env,
          hs_config_files_hash = (case dir of Some d \<Rightarrow> hl_hash_files L (collect_config_files H d) | None \<Rightarrow> []),
          hs_temp_files = temp_files,
          hs_hook_temp_dir = parent_of_first L temp_files,
          hs_needs_retry = False\<rparr>)"

subsection \<open>When a run can stop at once\<close>

definition has_config_been_modified :: "('p, 'l, 'w) hook_host \<Rightarrow> hook_session \<Rightarrow> bool" where
  "has_config_been_modified H prev =
     (case w_cwd (hh_world H) of
        None \<Rightarrow> True
      | Some dir \<Rightarrow>
          (let current = collect_config_files H dir
           in if hs_config_files_hash prev = [] then hs_config_path prev \<noteq> None \<or> current \<noteq> []
              else hl_hash_files (hh_library H) current \<noteq> hs_config_files_hash prev))"

definition has_fnox_env_vars_changed :: "('p, 'l, 'w) hook_host \<Rightarrow> (string, string) imap \<Rightarrow> hook_session \<Rightarrow> bool" where
  "has_fnox_env_vars_changed H env prev \<longleftrightarrow> hash_fnox_env_vars (hh_library H) env \<noteq> hs_env_var_hash prev"

definition should_exit_early :: "('p, 'l, 'w) hook_host \<Rightarrow> (string, string) imap \<Rightarrow> hook_session \<Rightarrow> bool" where
  "should_exit_early H env prev =
     (if hs_needs_retry prev then False
      else if has_config_been_modified H prev then False
      else \<not> has_fnox_env_vars_changed H env prev)"

definition startup_exit_allowed :: "string list \<Rightarrow> string option \<Rightarrow> bool \<Rightarrow> bool" where
  "startup_exit_allowed args shell_output rust_log =
     (case args of
        [command, flag, shell] \<Rightarrow>
          if command = ''hook-env'' \<and> (flag = ''-s'' \<or> flag = ''--shell'')
          then \<not> isl (get_shell (\<lambda>_. None) (Some shell)) \<and>
               \<not> (case shell_output of
                    Some mode \<Rightarrow> to_ascii_lowercase mode \<in> {''debug'', ''verbose''} | None \<Rightarrow> False) \<and>
               \<not> rust_log
          else False
      | _ \<Rightarrow> False)"

definition can_exit_before_startup ::
  "('p, 'l, 'w) hook_host \<Rightarrow> (string, string) imap \<Rightarrow> hook_session \<Rightarrow> string list \<Rightarrow> bool" where
  "can_exit_before_startup H env prev args \<longleftrightarrow>
     startup_exit_allowed args (im_get env ''FNOX_SHELL_OUTPUT'') (im_has env ''RUST_LOG'') \<and>
     should_exit_early H env prev"

subsection \<open>Loading\<close>

fun find_config_from :: "('p, 'l, 'w) hook_host \<Rightarrow> path list \<Rightarrow> path option" where
  "find_config_from H [] =
     (let g = global_config_path (hh_world H) in if hh_is_file H g then Some g else None)"
| "find_config_from H (dir # dirs) =
     (case List.find (w_exists (hh_world H)) (config_paths (get_profiles (hh_world H) []) dir) of
        Some path \<Rightarrow> Some path
      | None \<Rightarrow> find_config_from H dirs)"

definition find_config :: "('p, 'l, 'w) hook_host \<Rightarrow> path option" where
  "find_config H =
     (case w_cwd (hh_world H) of
        None \<Rightarrow> None
      | Some dir \<Rightarrow> find_config_from H (ancestors (length dir) dir))"

definition path_text :: "path \<Rightarrow> string" where
  "path_text p = (case p of c # cs \<Rightarrow> if c = ''/'' then CHR ''/'' # join ''/'' cs else join ''/'' p | [] \<Rightarrow> [])"

definition secret_file_path :: "('p, 'l, 'w) hook_host \<Rightarrow> string \<Rightarrow> string" where
  "secret_file_path H key =
     path_text (path_join (hh_temp_dir H)
       [''fnox-hook-'' @ key @ ''-'' @ digits_of (hh_pid H) @ ''-'' @ digits_of (hh_now H)])"

type_synonym ('w, 'a) hook_effect = "('w hook_state, fnox_error, 'a) comp"

definition create_persistent_secret_file ::
  "('p, 'l, 'w) hook_host \<Rightarrow> string \<Rightarrow> string \<Rightarrow> (string \<Rightarrow> string option) \<Rightarrow> string option \<times> (string \<Rightarrow> string option)" where
  \<comment> \<open>the path, or \<open>None\<close> for an error\<close>
  "create_persistent_secret_file H key v files =
     (let path = secret_file_path H key
      in if hh_can_create H path then (Some path, files(path \<mapsto> v)) else (None, files))"

record loaded_secrets =
  ld_secrets :: "(string, string) imap"
  ld_temp_files :: "(string, string) imap"
  ld_needs_retry :: bool

definition nothing_loaded :: "bool \<Rightarrow> loaded_secrets" where
  "nothing_loaded retry = \<lparr>ld_secrets = [], ld_temp_files = [], ld_needs_retry = retry\<rparr>"

definition load_secret ::
  "('p, 'l, 'w) hook_host \<Rightarrow> secrets \<Rightarrow> string \<times> string option \<Rightarrow>
   loaded_secrets \<times> (string \<Rightarrow> string option) \<Rightarrow> loaded_secrets \<times> (string \<Rightarrow> string option)" where
  \<comment> \<open>the body of the loop over what was resolved\<close>
  "load_secret H secrets = (\<lambda>(key, value_opt) (ld, files).
     if (case im_get secrets key of Some sc \<Rightarrow> \<not> in_shell (secret_env_mode sc) | None \<Rightarrow> False) then (ld, files)
     else case value_opt of
            None \<Rightarrow> (ld\<lparr>ld_needs_retry := True\<rparr>, files)
          | Some v \<Rightarrow>
              if (case im_get secrets key of Some sc \<Rightarrow> s_as_file sc | None \<Rightarrow> False)
              then (case create_persistent_secret_file H key v files of
                      (Some path, files) \<Rightarrow>
                        (ld\<lparr>ld_secrets := im_insert key path (ld_secrets ld),
                            ld_temp_files := im_insert key path (ld_temp_files ld)\<rparr>, files)
                    | (None, files) \<Rightarrow> (ld\<lparr>ld_needs_retry := True\<rparr>, files))
              else (ld\<lparr>ld_secrets := im_insert key v (ld_secrets ld)\<rparr>, files))"

fun load_first ::
  "('p, 'l, 'w) hook_host \<Rightarrow> string list \<Rightarrow> fnox_error option \<Rightarrow> (fnox_error option + ('p, 'l) config) option loading" where
  \<comment> \<open>the file names in turn; \<open>Inl None\<close> is the error that no file was found, and \<open>None\<close> a load that
    ran out of fuel\<close>
  "load_first H [] last_error = ok (Some (Inl last_error))"
| "load_first H (filename # filenames) last_error = (\<lambda>reg.
     case load_smart (hh_world H) (hh_fuel H) True (path_components filename) reg of
       (Inr (Some c), reg) \<Rightarrow> (Inr (Some (Inr c)), reg)
     | (Inr None, reg) \<Rightarrow> (Inr None, reg)
     | (Inl e, reg) \<Rightarrow>
         load_first H filenames (case e of ConfigNotFound _ \<Rightarrow> last_error | _ \<Rightarrow> Some e) reg)"

definition quiet_client :: "('p, 'l, 'w) hook_host \<Rightarrow> ('p, 'w) client_host" where
  \<comment> \<open>after \<open>set_non_interactive(true)\<close>\<close>
  "quiet_client H = (hh_client H)\<lparr>mh_services := (mh_services (hh_client H))\<lparr>sv_non_interactive := True\<rparr>\<rparr>"

definition load_secrets_from_config ::
  "('p, 'l, 'w) hook_host \<Rightarrow> command_line \<Rightarrow> 'w hook_state \<Rightarrow> (fnox_error option + loaded_secrets) option \<times> 'w hook_state" where
  "load_secrets_from_config H cli s =
     (let profiles = get_profiles (hh_world H) []; M = quiet_client H
      in case load_first H (all_config_filenames profiles) None (hk_registry s) of
           (Inr (Some (Inr c)), reg) \<Rightarrow>
             (let s = s\<lparr>hk_registry := reg\<rparr>; ps = w_settings_profile (hh_world H)
              in case validate_profiles c ps None of
                   Inl e \<Rightarrow> (Some (Inl (Some e)), s)
                 | Inr _ \<Rightarrow>
                     (case get_secrets_with_no_defaults c ps (sv_no_defaults (mh_services M)) of
                        Inl e \<Rightarrow> (Some (Inl (Some e)), s)
                      | Inr secrets \<Rightarrow>
                          (case resolve_batch_with_context M (context_of cli (hh_settings H) True) c ps secrets PHookEnv False
                                  (hk_client s) of
                             (Inl _, cl) \<Rightarrow> (Some (Inr (nothing_loaded True)), s\<lparr>hk_client := cl\<rparr>)
                           | (Inr resolved, cl) \<Rightarrow>
                               (case fold (load_secret H secrets) resolved (nothing_loaded False, hk_files s) of
                                  (ld, files) \<Rightarrow> (Some (Inr ld), s\<lparr>hk_client := cl, hk_files := files\<rparr>)))))
         | (Inr (Some (Inl e)), reg) \<Rightarrow> (Some (Inl e), s\<lparr>hk_registry := reg\<rparr>)
         | (Inr None, reg) \<Rightarrow> (None, s\<lparr>hk_registry := reg\<rparr>)
         | (Inl e, reg) \<Rightarrow> (Some (Inl (Some e)), s\<lparr>hk_registry := reg\<rparr>))"

subsection \<open>A run\<close>

definition calculate_changes ::
  "hook_library \<Rightarrow> hook_session \<Rightarrow> (string, string) imap \<Rightarrow> (string \<times> string) list \<times> string list" where
  "calculate_changes L prev new_secrets =
     (filter (\<lambda>(key, v). im_get (hs_secret_hashes prev) key \<noteq> Some (hash_secret_with_key L (hs_hash_key prev) key v))
        (hl_order L new_secrets),
      filter (\<lambda>key. \<not> im_has new_secrets key) (im_keys (hs_secret_hashes prev)))"

definition cleanup_old_temp_files ::
  "(string \<Rightarrow> bool) \<Rightarrow> (string, string) imap \<Rightarrow> (string, string) imap \<Rightarrow> (string \<Rightarrow> string option) \<Rightarrow> (string \<Rightarrow> string option)" where
  \<comment> \<open>a file that cannot be deleted is left\<close>
  "cleanup_old_temp_files undeletable old_files new_files files =
     fold (\<lambda>(key, old_path) files.
             if im_get new_files key \<noteq> Some old_path \<and> \<not> undeletable old_path then files(old_path := None) else files)
       old_files files"

datatype output_mode = OutputNone | OutputNormal | OutputDebug

definition output_mode_of :: "string \<Rightarrow> output_mode" where
  "output_mode_of s =
     (let mode = to_ascii_lowercase s
      in if mode \<in> {''none'', ''off'', ''false'', ''0''} then OutputNone
         else if mode \<in> {''debug'', ''verbose''} then OutputDebug
         else OutputNormal)"

definition shows_summary :: "output_mode \<Rightarrow> shell \<Rightarrow> (string \<times> string) list \<Rightarrow> string list \<Rightarrow> bool" where
  "shows_summary mode sh added removed \<longleftrightarrow>
     mode \<in> {OutputNormal, OutputDebug} \<and> sh \<noteq> Pwsh \<and> (added \<noteq> [] \<or> removed \<noteq> [])"

datatype hook_error =
  SettingsUnavailable | ShellUnknown "string option" | SessionNotEncoded | ShellPanic | NotActivated | CleanupFailed "string list"

record hook_printed =
  \<comment> \<open>the code for the shell, and the names that the summary shows\<close>
  ho_code :: string
  ho_summary :: "(string list \<times> string list) option"

definition emit_changes ::
  "('p, 'l, 'w) hook_host \<Rightarrow> shell \<Rightarrow> (string, string) imap \<Rightarrow> hook_session \<Rightarrow> path option \<Rightarrow> loaded_secrets \<Rightarrow>
   hook_error + hook_printed" where
  \<comment> \<open>from the comparison with the previous session to the printed code\<close>
  "emit_changes H sh env prev config_path ld =
     (case calculate_changes (hh_library H) prev (ld_secrets ld) of
        (added, removed) \<Rightarrow>
          (let session = (new_session H env (w_cwd (hh_world H)) config_path (ld_secrets ld) (ld_temp_files ld))
                           \<lparr>hs_needs_retry := ld_needs_retry ld\<rparr>
           in case hl_encode (hh_library H) session of
                None \<Rightarrow> Inl SessionNotEncoded
              | Some encoded \<Rightarrow>
                  (case hook_env_output (hl_shell (hh_library H)) sh added removed encoded of
                     None \<Rightarrow> Inl ShellPanic
                   | Some code \<Rightarrow> Inr \<lparr>ho_code = code,
                       ho_summary = (if shows_summary (output_mode_of (hh_output H)) sh added removed
                                     then Some (map fst added, removed) else None)\<rparr>)))"

definition hook_load ::
  "('p, 'l, 'w) hook_host \<Rightarrow> command_line \<Rightarrow> path option \<Rightarrow> 'w hook_state \<Rightarrow> loaded_secrets option \<times> 'w hook_state" where
  "hook_load H cli config_path s =
     (if config_path = None then (Some (nothing_loaded False), s)
      else case load_secrets_from_config H cli s of
             (Some (Inr ld), s) \<Rightarrow> (Some ld, s)
           | (Some (Inl _), s) \<Rightarrow> (Some (nothing_loaded True), s)
           | (None, s) \<Rightarrow> (None, s))"

definition hook_shell :: "(string \<Rightarrow> string option) \<Rightarrow> string option \<Rightarrow> string option + shell" where
  "hook_shell env shell_arg =
     get_shell env (Some (case shell_arg of
        Some n \<Rightarrow> n
      | None \<Rightarrow> (case detect_shell env of Some n \<Rightarrow> n | None \<Rightarrow> ''bash'')))"

definition hook_run ::
  "('p, 'l, 'w) hook_host \<Rightarrow> command_line \<Rightarrow> string option \<Rightarrow> 'w hook_state \<Rightarrow>
   (hook_error + hook_printed option) option \<times> 'w hook_state" where
  \<comment> \<open>\<open>Inr None\<close> is the early exit, which prints nothing; \<open>None\<close> a load that ran out of fuel\<close>
  "hook_run H cli shell_arg s =
     (let env = rs_env (cl_run (hk_client s)); prev = prev_session (hh_library H) (im_get env)
      in if hh_settings H = None then (Some (Inl SettingsUnavailable), s)
         else case hook_shell (im_get env) shell_arg of
           Inl why \<Rightarrow> (Some (Inl (ShellUnknown why)), s)
         | Inr sh \<Rightarrow>
             if should_exit_early H env prev then (Some (Inr None), s)
             else (let config_path = find_config H
                   in case hook_load H cli config_path s of
                        (None, s) \<Rightarrow> (None, s)
                      | (Some ld, s) \<Rightarrow>
                          (let s = s\<lparr>hk_files := cleanup_old_temp_files (hh_undeletable H) (hs_temp_files prev) (ld_temp_files ld) (hk_files s)\<rparr>
                           in case emit_changes H sh env prev config_path ld of
                                Inl e \<Rightarrow> (Some (Inl e), s)
                              | Inr out \<Rightarrow> (Some (Inr (Some out)), s))))"

subsection \<open>Deactivation\<close>

definition is_hook_temp_file :: "path option \<Rightarrow> string \<Rightarrow> bool" where
  "is_hook_temp_file temp_dir path_str =
     (let path = path_components path_str
      in path_parent path = temp_dir \<and>
         (case file_name path of Some name \<Rightarrow> starts_with ''fnox-hook-'' name | None \<Rightarrow> False))"

definition session_temp_dir :: "hook_library \<Rightarrow> hook_session \<Rightarrow> path option" where
  "session_temp_dir L prev =
     (case hs_hook_temp_dir prev of Some d \<Rightarrow> Some d | None \<Rightarrow> parent_of_first L (hs_temp_files prev))"

definition cleanup_session_file ::
  "(string \<Rightarrow> bool) \<Rightarrow> path option \<Rightarrow> string \<times> string \<Rightarrow> string list \<times> (string \<Rightarrow> string option) \<Rightarrow>
   string list \<times> (string \<Rightarrow> string option)" where
  \<comment> \<open>the body of the loop; the names of the files that were refused or cannot be deleted are collected\<close>
  "cleanup_session_file undeletable temp_dir = (\<lambda>(key, path) (failed, files).
     if \<not> is_hook_temp_file temp_dir path then (failed @ [key], files)
     else if files path = None then (failed, files)
     else if undeletable path then (failed @ [key], files)
     else (failed, files(path := None)))"

definition cleanup_session_temp_files ::
  "('p, 'l, 'w) hook_host \<Rightarrow> hook_session \<Rightarrow> (string \<Rightarrow> string option) \<Rightarrow>
   (hook_error + unit) \<times> (string \<Rightarrow> string option)" where
  "cleanup_session_temp_files H prev files =
     (case fold (cleanup_session_file (hh_undeletable H) (session_temp_dir (hh_library H) prev))
             (hl_order (hh_library H) (hs_temp_files prev)) ([], files) of
        (failed, files) \<Rightarrow> (if failed = [] then Inr () else Inl (CleanupFailed failed), files))"

definition deactivate_run ::
  "('p, 'l, 'w) hook_host \<Rightarrow> (shell \<Rightarrow> string) \<Rightarrow> 'w hook_state \<Rightarrow> (hook_error + string) \<times> 'w hook_state" where
  "deactivate_run H script s =
     (let env = rs_env (cl_run (hk_client s)); prev = prev_session (hh_library H) (im_get env)
      in if \<not> im_has env ''FNOX_SHELL'' then (Inl NotActivated, s)
         else case get_shell (im_get env) None of
           Inl why \<Rightarrow> (Inl (ShellUnknown why), s)
         | Inr sh \<Rightarrow>
             (case cleanup_session_temp_files H prev (hk_files s) of
                (Inl e, files) \<Rightarrow> (Inl e, s\<lparr>hk_files := files\<rparr>)
              | (Inr _, files) \<Rightarrow>
                  ((case deactivate_output (hl_shell (hh_library H)) script sh (im_keys (hs_secret_hashes prev)) of
                      None \<Rightarrow> Inl ShellPanic | Some code \<Rightarrow> Inr code), s\<lparr>hk_files := files\<rparr>)))"

subsection \<open>What a run leaves in the shell\<close>

definition hook_laws :: "hook_library \<Rightarrow> bool" where
  \<comment> \<open>no collisions of the keyed hash, a session reads back from its text, which is base64, and a hash map is
    walked in some order\<close>
  "hook_laws L \<longleftrightarrow>
     (\<forall>key m m'. hl_keyed L key m = hl_keyed L key m' \<longrightarrow> m = m') \<and>
     (\<forall>session t. hl_encode L session = Some t \<longrightarrow> hl_decode L t = Some session \<and> NUL \<notin> set t) \<and>
     (\<forall>xs. mset (hl_order L xs) = mset xs) \<and>
     quote_law (hl_shell L)"

lemma hook_lawsD:
  assumes "hook_laws L"
  shows "hl_keyed L key m = hl_keyed L key m' \<Longrightarrow> m = m'"
    and "hl_encode L session = Some t \<Longrightarrow> hl_decode L t = Some session"
    and "hl_encode L session = Some t \<Longrightarrow> NUL \<notin> set t"
    and "mset (hl_order L xs) = mset xs" and "set (hl_order L xs) = set xs" and "quote_law (hl_shell L)"
  using assms unfolding hook_laws_def by (blast, blast, blast, blast, metis set_mset_mset, blast)

lemma order_distinct:
  assumes "hook_laws L"
  shows "distinct (map fst (hl_order L m)) = distinct (map fst m)"
proof -
  have "mset (map fst (hl_order L m)) = mset (map fst m)" by (simp add: hook_lawsD(4) [OF assms])
  then show ?thesis by (rule mset_eq_imp_distinct_iff)
qed

lemma order_lookup:
  assumes "hook_laws L" and "im_wf m"
  shows "map_of (hl_order L m) = map_of m"
  using assms order_distinct [OF assms(1), of m] hook_lawsD(5) [OF assms(1), of m]
  by (subst map_of_inject_set) (auto simp: im_wf_def im_keys_def)

lemma hash_secret_inject:
  assumes "hook_laws L" and "hash_secret_with_key L key k v = hash_secret_with_key L key k v'"
  shows "v = v'"
  using hook_lawsD(1) [OF assms(1)] assms(2) unfolding hash_secret_with_key_def by (metis append_same_eq same_append_eq)

lemma fold_set_env:
  "distinct (map fst added) \<Longrightarrow>
   fold (\<lambda>(k, v) e. e(k \<mapsto> clean v)) added env k =
     (case map_of added k of Some v \<Rightarrow> Some (clean v) | None \<Rightarrow> env k)"
  by (induction added arbitrary: env) (auto split: option.splits simp: rev_image_eqI dest: map_of_SomeD)

lemma fold_unset_env: "fold (\<lambda>k e. e(k := None)) removed env k = (if k \<in> set removed then None else env k)"
  by (induction removed arbitrary: env) auto

lemma apply_changes_lookup:
  "distinct (map fst added) \<Longrightarrow>
   apply_changes clean added removed env k =
     (if k \<in> set removed then None else case map_of added k of Some v \<Rightarrow> Some (clean v) | None \<Rightarrow> env k)"
  by (simp add: apply_changes_def fold_unset_env fold_set_env)

definition tracked :: "hook_library \<Rightarrow> shell \<Rightarrow> env \<Rightarrow> (string \<Rightarrow> string option) \<Rightarrow> bool" where
  \<comment> \<open>the shell holds the values of \<open>V\<close>, and its session knows exactly them\<close>
  "tracked L sh env V \<longleftrightarrow>
     (let prev = prev_session L env
      in im_wf (hs_secret_hashes prev) \<and>
         (\<forall>k. im_get (hs_secret_hashes prev) k = map_option (hash_secret_with_key L (hs_hash_key prev) k) (V k)) \<and>
         (\<forall>k v. V k = Some v \<longrightarrow> env k = Some (arrives sh v) \<and> is_valid_secret_name k \<and> k \<noteq> SESSION_VAR))"

lemma tracked_fresh: "prev_session L env = default_session \<Longrightarrow> tracked L sh env (\<lambda>_. None)"
  by (simp add: tracked_def default_session_def im_wf_def im_keys_def)

definition printable :: "shell \<Rightarrow> (string, string) imap \<Rightarrow> bool" where
  \<comment> \<open>accepted names other than the session's; no NUL for fish\<close>
  "printable sh loaded \<longleftrightarrow> im_wf loaded \<and>
     list_all (\<lambda>(k, v). is_valid_secret_name k \<and> k \<noteq> SESSION_VAR \<and> (sh = Fish \<longrightarrow> NUL \<notin> set v)) loaded"

definition follows_load :: "shell \<Rightarrow> (string, string) imap \<Rightarrow> (string \<Rightarrow> string option) \<Rightarrow> env \<Rightarrow> env \<Rightarrow> bool" where
  \<comment> \<open>\<open>env'\<close> has the loaded secrets instead of those of \<open>V\<close>, and is \<open>env\<close> elsewhere\<close>
  "follows_load sh loaded V env env' \<longleftrightarrow>
     (\<forall>k. k \<noteq> SESSION_VAR \<longrightarrow>
        env' k = (case im_get loaded k of
                    Some v \<Rightarrow> Some (arrives sh v)
                  | None \<Rightarrow> if V k \<noteq> None then None else env k))"

lemma map_of_filter_distinct:
  "distinct (map fst xs) \<Longrightarrow> map_of (filter P xs) k = (case map_of xs k of Some v \<Rightarrow> if P (k, v) then Some v else None | None \<Rightarrow> None)"
  by (induction xs) (auto split: option.splits simp: rev_image_eqI dest: map_of_SomeD)

lemma changes_lookup:
  assumes L: "hook_laws L" and "im_wf new" and "calculate_changes L prev new = (added, removed)"
    and hashes: "\<forall>k. im_get (hs_secret_hashes prev) k = map_option (hash_secret_with_key L (hs_hash_key prev) k) (V k)"
  shows "distinct (map fst added)"
    and "map_of added k = (case im_get new k of Some v \<Rightarrow> if V k = Some v then None else Some v | None \<Rightarrow> None)"
    and "k \<in> set removed \<longleftrightarrow> V k \<noteq> None \<and> im_get new k = None"
proof -
  let ?changed = "\<lambda>(key, v). im_get (hs_secret_hashes prev) key \<noteq> Some (hash_secret_with_key L (hs_hash_key prev) key v)"
  have added: "added = filter ?changed (hl_order L new)"
    and removed: "removed = filter (\<lambda>key. \<not> im_has new key) (im_keys (hs_secret_hashes prev))"
    using assms(3) by (auto simp: calculate_changes_def)
  have d: "distinct (map fst (hl_order L new))" using order_distinct [OF L] assms(2) by (simp add: im_wf_def im_keys_def)
  then show "distinct (map fst added)" unfolding added by (rule distinct_map_filter)
  have same: "(\<not> ?changed (k, v)) = (V k = Some v)" for v
    using hashes [rule_format, of k] hash_secret_inject [OF L] by (cases "V k") auto
  have m: "map_of (hl_order L new) k = im_get new k" by (simp add: order_lookup [OF L assms(2)] im_get_def)
  show "map_of added k = (case im_get new k of Some v \<Rightarrow> if V k = Some v then None else Some v | None \<Rightarrow> None)"
    unfolding added map_of_filter_distinct [OF d] m
    by (cases "im_get new k") (simp_all only: option.case if_split same [symmetric], auto)
  have "k \<in> set (im_keys (hs_secret_hashes prev)) \<longleftrightarrow> V k \<noteq> None"
    unfolding im_has_def [symmetric] im_has_iff using hashes [rule_format, of k] by auto
  then show "k \<in> set removed \<longleftrightarrow> V k \<noteq> None \<and> im_get new k = None"
    unfolding removed by (auto simp: im_has_None)
qed

lemma new_session_hashes:
  assumes "hook_laws L" and "hh_library H = L" and "im_wf loaded"
  shows "im_get (hs_secret_hashes (new_session H env dir cfg loaded files)) k =
      map_option (hash_secret_with_key L (hs_hash_key (new_session H env dir cfg loaded files)) k) (im_get loaded k)"
    and "im_wf (hs_secret_hashes (new_session H env dir cfg loaded files))"
proof -
  have "map_of (map (\<lambda>(k, v). (k, f k v)) xs) k = map_option (f k) (map_of xs k)" for f :: "string \<Rightarrow> string \<Rightarrow> string" and xs
    by (induction xs) auto
  then show "im_get (hs_secret_hashes (new_session H env dir cfg loaded files)) k =
      map_option (hash_secret_with_key L (hs_hash_key (new_session H env dir cfg loaded files)) k) (im_get loaded k)"
    by (simp add: new_session_def Let_def im_get_def assms(2) order_lookup [OF assms(1,3)])
  have "map fst (map (\<lambda>(k, v). (k, f k v)) xs) = map fst xs" for f :: "string \<Rightarrow> string \<Rightarrow> string" and xs
    by (induction xs) auto
  then show "im_wf (hs_secret_hashes (new_session H env dir cfg loaded files))"
    using order_distinct [OF assms(1), of loaded] assms(3)
    by (simp add: new_session_def Let_def im_wf_def im_keys_def assms(2) del: map_map)
qed

lemma emitted_code_runs:
  assumes L: "hook_laws L" "hh_library H = L" and sh: "sh \<in> {Bash, Zsh, Fish}"
    and ld: "printable sh (ld_secrets ld)"
    and V: "tracked L sh env V"
    and out: "emit_changes H sh penv (prev_session L env) cfg ld = Inr out"
  shows "\<exists>env'. run_script sh (ho_code out) env = Some env' \<and> tracked L sh env' (im_get (ld_secrets ld)) \<and>
    follows_load sh (ld_secrets ld) V env env'"
proof -
  let ?prev = "prev_session L env" and ?new = "ld_secrets ld"
  define session where "session = (new_session H penv (w_cwd (hh_world H)) cfg ?new (ld_temp_files ld))\<lparr>hs_needs_retry := ld_needs_retry ld\<rparr>"
  obtain added removed where ch: "calculate_changes L ?prev ?new = (added, removed)" by fastforce
  with out obtain encoded where enc: "hl_encode L session = Some encoded"
    and code: "hook_env_output (hl_shell L) sh added removed encoded = Some (ho_code out)"
    by (auto simp: emit_changes_def L(2) session_def Let_def split: option.splits)
  have wf: "im_wf ?new" and names: "\<And>k v. im_get ?new k = Some v \<Longrightarrow>
      is_valid_secret_name k \<and> k \<noteq> SESSION_VAR \<and> (sh = Fish \<longrightarrow> NUL \<notin> set v)"
    using ld by (auto simp: printable_def list_all_iff dest!: im_get_in)
  have hashes: "\<forall>k. im_get (hs_secret_hashes ?prev) k = map_option (hash_secret_with_key L (hs_hash_key ?prev) k) (V k)"
    and held: "\<And>k v. V k = Some v \<Longrightarrow> env k = Some (arrives sh v) \<and> is_valid_secret_name k \<and> k \<noteq> SESSION_VAR"
    using V by (auto simp: tracked_def Let_def)
  note ch_facts = changes_lookup [OF L(1) wf ch hashes]
  have "(k, v) \<in> set added \<Longrightarrow> im_get ?new k = Some v" for k v
    using ch_facts(2) [of k] map_of_is_SomeI [OF ch_facts(1)] by (auto split: option.splits if_splits)
  moreover have "k \<in> set removed \<Longrightarrow> is_valid_secret_name k" for k
    using ch_facts(3) held by blast
  ultimately have "changes_ok sh added removed"
    using names unfolding changes_ok_def list_all_iff by blast
  from hook_output_runs [OF hook_lawsD(6) [OF L(1)] sh this hook_lawsD(3) [OF L(1) enc], of env] code
  have run: "run_script sh (ho_code out) env =
      Some ((apply_changes (arrives sh) added removed env)(SESSION_VAR \<mapsto> encoded))" by simp
  define env' where "env' = (apply_changes (arrives sh) added removed env)(SESSION_VAR \<mapsto> encoded)"
  have got: "env' k = (case im_get ?new k of Some v \<Rightarrow> Some (arrives sh v)
      | None \<Rightarrow> if V k \<noteq> None then None else env k)" if "k \<noteq> SESSION_VAR" for k
    using that held [of k] ch_facts(2,3) [of k]
    by (auto simp: env'_def apply_changes_lookup [OF ch_facts(1)] split: option.splits)
  have decoded: "prev_session L env' = session"
    by (simp add: prev_session_def env'_def hook_lawsD(2) [OF L(1) enc])
  have "tracked L sh env' (im_get ?new)"
    unfolding tracked_def Let_def decoded
    using new_session_hashes [OF L wf, of penv "w_cwd (hh_world H)" cfg "ld_temp_files ld"] got names
    by (auto simp: session_def)
  with run got show ?thesis unfolding env'_def [symmetric] follows_load_def by blast
qed

lemma hook_run_emits:
  assumes "hook_run H cli arg s = (Some (Inr (Some out)), s')"
  shows "\<exists>sh ld s1. hook_shell (im_get (rs_env (cl_run (hk_client s)))) arg = Inr sh \<and>
    hook_load H cli (find_config H) s = (Some ld, s1) \<and>
    emit_changes H sh (rs_env (cl_run (hk_client s))) (prev_session (hh_library H) (im_get (rs_env (cl_run (hk_client s)))))
      (find_config H) ld = Inr out"
  using assms by (auto simp: hook_run_def Let_def split: if_splits sum.splits prod.splits option.splits)

text \<open>\<open>hooked machines L sh env V\<close>: a shell with the variables \<open>env\<close> after some prompts, of which the last
  one loaded the secrets \<open>V\<close>. Each prompt may find another machine, that is other configuration files,
  settings and times; between prompts the other variables may change.\<close>

inductive hooked ::
  "('p, 'l, 'w) hook_host set \<Rightarrow> hook_library \<Rightarrow> shell \<Rightarrow> env \<Rightarrow> (string \<Rightarrow> string option) \<Rightarrow> bool" for machines L sh where
  fresh: "prev_session L env = default_session \<Longrightarrow> hooked machines L sh env (\<lambda>_. None)"
| other: "hooked machines L sh env V \<Longrightarrow> env' SESSION_VAR = env SESSION_VAR \<Longrightarrow> \<forall>k. V k \<noteq> None \<longrightarrow> env' k = env k \<Longrightarrow>
    hooked machines L sh env' V"
| prompt: "hooked machines L sh (im_get (rs_env (cl_run (hk_client s)))) V \<Longrightarrow> H \<in> machines \<Longrightarrow> hh_library H = L \<Longrightarrow>
    hook_shell (im_get (rs_env (cl_run (hk_client s)))) arg = Inr sh \<Longrightarrow>
    hook_run H cli arg s = (Some (Inr (Some out)), s') \<Longrightarrow>
    hook_load H cli (find_config H) s = (Some ld, s1) \<Longrightarrow> printable sh (ld_secrets ld) \<Longrightarrow>
    run_script sh (ho_code out) (im_get (rs_env (cl_run (hk_client s)))) = Some env' \<Longrightarrow>
    hooked machines L sh env' (im_get (ld_secrets ld))"

lemma tracked_other:
  "tracked L sh env V \<Longrightarrow> env' SESSION_VAR = env SESSION_VAR \<Longrightarrow> \<forall>k. V k \<noteq> None \<longrightarrow> env' k = env k \<Longrightarrow> tracked L sh env' V"
  by (auto simp: tracked_def Let_def prev_session_def)

lemma prompt_effect:
  assumes "hook_laws (hh_library H)" and "sh \<in> {Bash, Zsh, Fish}"
    and "tracked (hh_library H) sh (im_get (rs_env (cl_run (hk_client s)))) V"
    and "hook_shell (im_get (rs_env (cl_run (hk_client s)))) arg = Inr sh"
    and "hook_run H cli arg s = (Some (Inr (Some out)), s')"
    and "hook_load H cli (find_config H) s = (Some ld, s1)" and "printable sh (ld_secrets ld)"
  shows "\<exists>env'. run_script sh (ho_code out) (im_get (rs_env (cl_run (hk_client s)))) = Some env' \<and>
    tracked (hh_library H) sh env' (im_get (ld_secrets ld)) \<and>
    follows_load sh (ld_secrets ld) V (im_get (rs_env (cl_run (hk_client s)))) env'"
  using emitted_code_runs [OF assms(1) refl assms(2,7,3)] hook_run_emits [OF assms(5)] assms(4,6) by fastforce

lemma hooked_tracked: "hooked machines L sh env V \<Longrightarrow> hook_laws L \<Longrightarrow> sh \<in> {Bash, Zsh, Fish} \<Longrightarrow> tracked L sh env V"
proof (induction rule: hooked.induct)
  case (fresh env)
  then show ?case by (simp add: tracked_fresh)
next
  case (other env V env')
  then show ?case by (blast intro: tracked_other)
next
  case (prompt s V H arg cli out s' ld s1 env')
  then have "tracked (hh_library H) sh (im_get (rs_env (cl_run (hk_client s)))) V" and "hook_laws (hh_library H)" by auto
  from prompt_effect [OF this(2) prompt.prems(2) this(1)] prompt show ?case by force
qed

text \<open>C17: The shell always holds exactly the secrets of the last load. Whatever prompts, changes of the
  configuration and changes of other variables came before, the code that a run prints for bash, zsh or
  fish gives every loaded secret its value, also one that did not change and is not printed again, removes
  the secrets of the previous load that are gone, and leaves every other variable as it was.\<close>

theorem hook_keeps_shell_current:
  assumes "hook_laws (hh_library H)" and "sh \<in> {Bash, Zsh, Fish}" and "H \<in> machines"
    and "hooked machines (hh_library H) sh (im_get (rs_env (cl_run (hk_client s)))) V"
    and "hook_shell (im_get (rs_env (cl_run (hk_client s)))) arg = Inr sh"
    and "hook_run H cli arg s = (Some (Inr (Some out)), s')"
    and "hook_load H cli (find_config H) s = (Some ld, s1)" and "printable sh (ld_secrets ld)"
  shows "\<exists>env'. run_script sh (ho_code out) (im_get (rs_env (cl_run (hk_client s)))) = Some env' \<and>
    hooked machines (hh_library H) sh env' (im_get (ld_secrets ld)) \<and>
    follows_load sh (ld_secrets ld) V (im_get (rs_env (cl_run (hk_client s)))) env'"
  using prompt_effect [OF assms(1,2) hooked_tracked [OF assms(4,1,2)] assms(5-8)] hooked.prompt [OF assms(4,3) refl assms(5-8)]
  by blast

definition hook_config :: "(string, lease_backend) config" where
  "hook_config = new_config\<lparr>c_secrets :=
     [(''HOST'', default_secret ''local$(host)''),
      (''KEY'', (default_secret ''-----'')\<lparr>s_as_file := True\<rparr>),
      (''ADMIN'', (default_secret ''root'')\<lparr>s_env := Some EnvNever\<rparr>)]\<rparr>"

definition hook_world :: "(string, lease_backend) world" where
  "hook_world =
     \<lparr>w_exists = (\<lambda>p. p = [''/'', ''p'', ''fnox.toml'']), w_read = (\<lambda>p. if p = [''/'', ''p'', ''fnox.toml''] then Some ''C'' else None),
      w_parse = (\<lambda>s. if s = ''C'' then Inr hook_config else Inl (''bad'', None)),
      w_cwd = Some [''/'', ''p''], w_tilde = id, w_config_dir = [''/'', ''g''], w_no_defaults = False,
      w_settings_profile = [''default'']\<rparr>"

definition base_library :: hook_library where
  "base_library =
     \<lparr>hl_blake3 = (\<lambda>s. s), hl_keyed = (\<lambda>key m. key @ m), hl_hash_files = (\<lambda>fs. digits_of (length fs)),
      hl_hash_vars = (\<lambda>vs. digits_of (length vs)), hl_encode = (\<lambda>_. None), hl_decode = (\<lambda>_. None), hl_order = (\<lambda>m. m),
      hl_shell = plain_shell\<rparr>"

definition hook_machine :: "hook_library \<Rightarrow> (string, lease_backend, unit) hook_host" where
  "hook_machine L =
     \<lparr>hh_library = L, hh_world = hook_world, hh_fuel = 2, hh_mtime = (\<lambda>p. if p = [''/'', ''p'', ''fnox.toml''] then Some 7 else None),
      hh_is_file = (\<lambda>_. False), hh_client = run_client,
      hh_settings = Some \<lparr>ct_profile = [''default''], ct_age_key_file = None, ct_if_missing = None, ct_no_defaults = False\<rparr>,
      hh_output = ''normal'', hh_temp_dir = [''/'', ''tmp''], hh_can_create = (\<lambda>_. True), hh_undeletable = (\<lambda>_. False),
      hh_now = 5, hh_pid = 3\<rparr>"

definition hook_cli :: command_line where
  "hook_cli =
     \<lparr>ct_profile = [], ct_age_key_file = None, ct_if_missing = None, ct_no_defaults = False, cm_config = [],
      cm_non_interactive = False, cm_no_daemon = True\<rparr>"

definition hook_start :: "unit hook_state" where
  "hook_start = \<lparr>hk_client = rn_client run_start, hk_registry = [], hk_files = (\<lambda>_. None)\<rparr>"

definition hook_loaded :: loaded_secrets where
  "hook_loaded =
     (case hook_load (hook_machine base_library) hook_cli (Some []) hook_start of
        (Some ld, _) \<Rightarrow> ld | _ \<Rightarrow> nothing_loaded True)"

definition first_session :: hook_session where
  "first_session =
     (new_session (hook_machine base_library) (rs_env (cl_run (hk_client hook_start))) (Some [''/'', ''p''])
        (Some [''/'', ''p'', ''fnox.toml'']) (ld_secrets hook_loaded) (ld_temp_files hook_loaded))\<lparr>hs_needs_retry := False\<rparr>"

definition hook_crates :: hook_library where
  "hook_crates = base_library\<lparr>hl_encode := (\<lambda>s. if s = first_session then Some ''c2Vzc2lvbg=='' else None),
     hl_decode := (\<lambda>t. if t = ''c2Vzc2lvbg=='' then Some first_session else None)\<rparr>"

lemma hook_crates_laws: "hook_laws hook_crates"
  by (auto simp: hook_laws_def hook_crates_def base_library_def plain_shell_quotes NUL_def split: if_splits)

lemma hook_loads: "ld_secrets hook_loaded = [(''HOST'', ''local$(host)''), (''KEY'', ''/tmp/fnox-hook-KEY-3-5'')]"
  by code_simp

definition hook_result :: "(hook_error + hook_printed option) option \<times> unit hook_state" where
  "hook_result = hook_run (hook_machine hook_crates) hook_cli (Some ''fish'') hook_start"

definition hook_out :: hook_printed where
  "hook_out = (case fst hook_result of Some (Inr (Some out)) \<Rightarrow> out | _ \<Rightarrow> \<lparr>ho_code = [], ho_summary = None\<rparr>)"

lemma hook_emits: "case fst hook_result of Some (Inr (Some out)) \<Rightarrow> ho_summary out = Some ([''HOST'', ''KEY''], []) | _ \<Rightarrow> False"
  by code_simp

lemma hook_result_out: "hook_run (hook_machine hook_crates) hook_cli (Some ''fish'') hook_start = (Some (Inr (Some hook_out)), snd hook_result)"
  using hook_emits
  by (auto simp: hook_out_def hook_result_def [symmetric] prod_eq_iff split: option.splits sum.splits)

lemma hook_load_result:
  "hook_load (hook_machine hook_crates) hook_cli (find_config (hook_machine hook_crates)) hook_start =
     (Some hook_loaded, snd (hook_load (hook_machine hook_crates) hook_cli (find_config (hook_machine hook_crates)) hook_start))"
proof -
  have "fst (hook_load (hook_machine hook_crates) hook_cli (find_config (hook_machine hook_crates)) hook_start) = Some hook_loaded"
    by code_simp
  then show ?thesis by (simp add: prod_eq_iff)
qed

theorem hook_keeps_shell_current_witness:
  "\<exists>env'. run_script Fish (ho_code hook_out) (im_get (rs_env (cl_run (hk_client hook_start)))) = Some env' \<and>
    hooked {hook_machine hook_crates} hook_crates Fish env' (im_get (ld_secrets hook_loaded)) \<and>
    follows_load Fish (ld_secrets hook_loaded) (\<lambda>_. None) (im_get (rs_env (cl_run (hk_client hook_start)))) env'"
proof -
  have lib: "hh_library (hook_machine hook_crates) = hook_crates" by (simp add: hook_machine_def)
  have fresh: "hooked {hook_machine hook_crates} hook_crates Fish (im_get (rs_env (cl_run (hk_client hook_start)))) (\<lambda>_. None)"
    by (rule hooked.fresh) code_simp
  have "printable Fish (ld_secrets hook_loaded)" by code_simp
  from hook_keeps_shell_current [of "hook_machine hook_crates", unfolded lib, OF hook_crates_laws _ _ fresh _
      hook_result_out hook_load_result this] show ?thesis
    by (simp add: hook_shell_def get_shell_def shell_of_name_def)
qed

subsection \<open>What is loaded\<close>

definition loaded_value :: "('p, 'l, 'w) hook_host \<Rightarrow> secrets \<Rightarrow> vals \<Rightarrow> string \<Rightarrow> string option" where
  "loaded_value H secrets resolved k =
     (case im_get resolved k of
        Some (Some v) \<Rightarrow>
          (case im_get secrets k of
             None \<Rightarrow> Some v
           | Some sc \<Rightarrow>
               if \<not> in_shell (secret_env_mode sc) then None
               else if \<not> s_as_file sc then Some v
               else if hh_can_create H (secret_file_path H k) then Some (secret_file_path H k) else None)
      | _ \<Rightarrow> None)"

definition for_shell :: "secrets \<Rightarrow> string \<Rightarrow> bool" where
  "for_shell secrets k \<longleftrightarrow> (case im_get secrets k of Some sc \<Rightarrow> in_shell (secret_env_mode sc) | None \<Rightarrow> True)"

definition as_file :: "secrets \<Rightarrow> string \<Rightarrow> bool" where
  "as_file secrets k \<longleftrightarrow> (case im_get secrets k of Some sc \<Rightarrow> s_as_file sc | None \<Rightarrow> False)"

definition loads_for_shell ::
  "('p, 'l, 'w) hook_host \<Rightarrow> secrets \<Rightarrow> vals \<Rightarrow> loaded_secrets \<Rightarrow> (string \<Rightarrow> string option) \<Rightarrow> (string \<Rightarrow> string option) \<Rightarrow> bool" where
  "loads_for_shell H secrets resolved ld files files' \<longleftrightarrow>
     (\<forall>k. im_get (ld_secrets ld) k = loaded_value H secrets resolved k) \<and>
     (\<forall>k. im_get (ld_temp_files ld) k =
        (if for_shell secrets k \<and> as_file secrets k then loaded_value H secrets resolved k else None)) \<and>
     (\<forall>k v. im_get (ld_temp_files ld) k \<noteq> None \<longrightarrow> im_get resolved k = Some (Some v) \<longrightarrow>
        files' (secret_file_path H k) = Some v) \<and>
     (\<forall>path. (\<forall>k. im_get (ld_temp_files ld) k \<noteq> Some path) \<longrightarrow> files' path = files path) \<and>
     (ld_needs_retry ld \<longleftrightarrow> (\<exists>k. im_has resolved k \<and> for_shell secrets k \<and> loaded_value H secrets resolved k = None))"

lemma path_text_snoc: "\<exists>prefix. \<forall>name. path_text (d @ [name]) = prefix @ name"
proof (cases d)
  case Nil
  then show ?thesis by (intro exI [of _ "[]"]) (simp add: path_text_def)
next
  case (Cons c cs)
  have "\<exists>prefix. \<forall>name. join ''/'' (xs @ [name]) = prefix @ name" for xs
  proof (induction xs)
    case (Cons x xs)
    then obtain prefix where "\<forall>name. join ''/'' (xs @ [name]) = prefix @ name" by blast
    then have "\<forall>name. join ''/'' ((x # xs) @ [name]) = (x @ ''/'' @ prefix) @ name" by (cases xs) auto
    then show ?case by blast
  qed (intro exI [of _ "[]"], simp)
  then obtain p q where "\<forall>name. join ''/'' (cs @ [name]) = p @ name" "\<forall>name. join ''/'' ((c # cs) @ [name]) = q @ name"
    by metis
  then have "\<forall>name. path_text (d @ [name]) = (if c = ''/'' then CHR ''/'' # p else q) @ name"
    by (simp add: path_text_def Cons)
  then show ?thesis by blast
qed

lemma secret_file_path_inject:
  assumes "secret_file_path H k = secret_file_path H k'"
  shows "k = k'"
proof -
  have "path_join d [''fnox-hook-'' @ s] = d @ [''fnox-hook-'' @ s]" for d s
    by (simp add: path_join_def path_is_absolute_def)
  moreover obtain prefix where "\<And>name. path_text (hh_temp_dir H @ [name]) = prefix @ name" using path_text_snoc by metis
  ultimately show ?thesis using assms unfolding secret_file_path_def by simp
qed

lemma loaded_value_snoc:
  "im_get seen key = None \<Longrightarrow> loaded_value H secrets (seen @ [(key, v)]) k =
     (if k = key then loaded_value H secrets [(key, v)] k else loaded_value H secrets seen k)"
  by (auto simp: loaded_value_def im_get_def map_add_def split: option.splits)

lemma load_secret_step:
  assumes "loads_for_shell H secrets seen ld files files1" and "im_get seen key = None"
    and "load_secret H secrets (key, value_opt) (ld, files1) = (ld', files2)"
  shows "loads_for_shell H secrets (seen @ [(key, value_opt)]) ld' files files2"
proof -
  have got: "im_get (seen @ [(key, value_opt)]) k = (if k = key then Some value_opt else im_get seen k)" for k
    using assms(2) by (auto simp: im_get_def map_add_def split: option.splits)
  have has: "im_has (seen @ [(key, value_opt)]) k \<longleftrightarrow> k = key \<or> im_has seen k" for k
    by (auto simp: im_has_iff got)
  have fresh: "im_get (ld_temp_files ld) key = None" "loaded_value H secrets seen key = None" "\<not> im_has seen key"
    using assms(1,2) by (auto simp: loads_for_shell_def loaded_value_def im_has_None)
  have one: "loaded_value H secrets [(key, value_opt)] key = 
     (case value_opt of Some v \<Rightarrow>
        if \<not> for_shell secrets key then None else if \<not> as_file secrets key then Some v
        else if hh_can_create H (secret_file_path H key) then Some (secret_file_path H key) else None
      | None \<Rightarrow> None)"
    by (auto simp: loaded_value_def for_shell_def as_file_def im_get_def split: option.splits)
  have result: "(ld', files2) =
     (if \<not> for_shell secrets key then (ld, files1)
      else case value_opt of
             None \<Rightarrow> (ld\<lparr>ld_needs_retry := True\<rparr>, files1)
           | Some v \<Rightarrow>
               if \<not> as_file secrets key then (ld\<lparr>ld_secrets := im_insert key v (ld_secrets ld)\<rparr>, files1)
               else if hh_can_create H (secret_file_path H key)
               then (ld\<lparr>ld_secrets := im_insert key (secret_file_path H key) (ld_secrets ld),
                        ld_temp_files := im_insert key (secret_file_path H key) (ld_temp_files ld)\<rparr>,
                     files1(secret_file_path H key \<mapsto> v))
               else (ld\<lparr>ld_needs_retry := True\<rparr>, files1))"
    unfolding assms(3) [symmetric]
    by (simp add: load_secret_def for_shell_def as_file_def create_persistent_secret_file_def Let_def split: option.split)
  have old: "im_get (ld_secrets ld) k = loaded_value H secrets seen k"
    "im_get (ld_temp_files ld) k = (if for_shell secrets k \<and> as_file secrets k then loaded_value H secrets seen k else None)"
    "im_get (ld_temp_files ld) k \<noteq> None \<Longrightarrow> im_get seen k = Some (Some v) \<Longrightarrow> files1 (secret_file_path H k) = Some v"
    "\<forall>k. im_get (ld_temp_files ld) k \<noteq> Some path \<Longrightarrow> files1 path = files path"
    "ld_needs_retry ld \<longleftrightarrow> (\<exists>k. im_has seen k \<and> for_shell secrets k \<and> loaded_value H secrets seen k = None)" for k v path
    using assms(1) unfolding loads_for_shell_def by blast+
  note value_of = loaded_value_snoc [OF assms(2), of H secrets value_opt]
  let ?seen = "seen @ [(key, value_opt)]" and ?path = "secret_file_path H key"
  consider (keep) "loaded_value H secrets [(key, value_opt)] key = None" "ld_secrets ld' = ld_secrets ld"
      "ld_temp_files ld' = ld_temp_files ld" "files2 = files1" "ld_needs_retry ld' \<longleftrightarrow> ld_needs_retry ld \<or> for_shell secrets key"
    | (plain) v where "loaded_value H secrets [(key, value_opt)] key = Some v" "\<not> as_file secrets key"
      "ld_secrets ld' = im_insert key v (ld_secrets ld)"
      "ld_temp_files ld' = ld_temp_files ld" "files2 = files1" "ld_needs_retry ld' = ld_needs_retry ld"
    | (as_file) v where "loaded_value H secrets [(key, value_opt)] key = Some ?path" "for_shell secrets key" "as_file secrets key"
      "ld_secrets ld' = im_insert key ?path (ld_secrets ld)" "value_opt = Some v"
      "ld_temp_files ld' = im_insert key ?path (ld_temp_files ld)" "files2 = files1(?path \<mapsto> v)"
      "ld_needs_retry ld' = ld_needs_retry ld"
    using result unfolding one by (auto split: if_splits option.splits)
  then show ?thesis
  proof cases
    case keep
    with old(5) fresh(3) have "ld_needs_retry ld' \<longleftrightarrow>
        (\<exists>k. im_has ?seen k \<and> for_shell secrets k \<and> loaded_value H secrets ?seen k = None)"
      unfolding has value_of by metis
    with keep old(1-4) fresh show ?thesis
      unfolding loads_for_shell_def value_of got by simp
  next
    case plain
    with old(5) fresh(3) have "ld_needs_retry ld' \<longleftrightarrow>
        (\<exists>k. im_has ?seen k \<and> for_shell secrets k \<and> loaded_value H secrets ?seen k = None)"
      unfolding has value_of by (metis option.distinct(1))
    with plain old(1-4) fresh show ?thesis
      unfolding loads_for_shell_def value_of got by (simp add: im_get_insert)
  next
    case as_file
    with old(5) fresh(3) have retry: "ld_needs_retry ld' \<longleftrightarrow>
        (\<exists>k. im_has ?seen k \<and> for_shell secrets k \<and> loaded_value H secrets ?seen k = None)"
      unfolding has value_of by (metis option.distinct(1))
    have "files2 (secret_file_path H k) = Some u"
      if "im_get (ld_temp_files ld') k \<noteq> None" "im_get ?seen k = Some (Some u)" for k u
      using that(1) that(2) [unfolded got] as_file old(3) [of k u] secret_file_path_inject [of H k key]
      by (cases "k = key") (auto simp: im_get_insert)
    moreover have "files2 path = files path" if "\<forall>k. im_get (ld_temp_files ld') k \<noteq> Some path" for path
    proof -
      have "path \<noteq> ?path" using that [rule_format, of key] as_file by (simp add: im_get_insert)
      moreover have "\<forall>k. im_get (ld_temp_files ld) k \<noteq> Some path"
        using that as_file fresh(1) by (metis im_get_insert option.distinct(1))
      ultimately show ?thesis using old(4) [of path] as_file by simp
    qed
    moreover have "im_get (ld_temp_files ld') k =
        (if for_shell secrets k \<and> as_file secrets k then loaded_value H secrets ?seen k else None)" for k
      using as_file old(2) [of k] unfolding value_of by (simp add: im_get_insert)
    moreover have "im_get (ld_secrets ld') k = loaded_value H secrets ?seen k" for k
      using as_file old(1) [of k] unfolding value_of by (simp add: im_get_insert)
    ultimately show ?thesis using retry unfolding loads_for_shell_def by blast
  qed
qed

lemma load_loop:
  assumes "im_wf (seen @ rest)" and "loads_for_shell H secrets seen ld files files1"
    and "fold (load_secret H secrets) rest (ld, files1) = (ld', files2)"
  shows "loads_for_shell H secrets (seen @ rest) ld' files files2"
  using assms
proof (induction rest arbitrary: seen ld files1)
  case (Cons kv rest)
  obtain key v where kv: "kv = (key, v)" by fastforce
  obtain ld1 files1' where step: "load_secret H secrets (key, v) (ld, files1) = (ld1, files1')" by fastforce
  have "im_get seen key = None"
    using Cons.prems(1) by (auto simp: kv im_wf_def im_keys_def im_get_def map_of_eq_None_iff)
  from load_secret_step [OF Cons.prems(2) this step] Cons.IH [of "seen @ [kv]" ld1 files1'] Cons.prems step
  show ?case by (simp add: kv)
qed simp

lemma load_all:
  assumes "im_wf resolved" and "fold (load_secret H secrets) resolved (nothing_loaded retry, files) = (ld, files')" and "\<not> retry"
  shows "loads_for_shell H secrets resolved ld files files'"
proof -
  have "loads_for_shell H secrets [] (nothing_loaded retry) files files"
    using assms(3) by (simp add: loads_for_shell_def nothing_loaded_def loaded_value_def im_get_def im_has_def im_keys_def)
  from load_loop [of "[]" resolved, OF _ this assms(2)] assms(1) show ?thesis by simp
qed

text \<open>C18: The hook loads what is meant for the shell, and nothing else. A successful load is that of the
  resolved values of the profile's secrets: a secret whose \<open>env\<close> mode is not for shells has no variable and
  no file; a file secret is the path of a file with its value, any other secret its value; no other file is
  written; and the next prompt tries again exactly when a secret for the shell has no value or no file.\<close>

theorem hook_loads_shell_secrets:
  assumes "load_secrets_from_config H cli s = (Some (Inr ld), s')"
  shows "\<exists>c secrets r.
    fst (load_first H (all_config_filenames (get_profiles (hh_world H) [])) None (hk_registry s)) = Inr (Some (Inr c)) \<and>
    get_secrets_with_no_defaults c (w_settings_profile (hh_world H)) (sv_no_defaults (mh_services (quiet_client H))) = Inr secrets \<and>
    resolve_batch_with_context (quiet_client H) (context_of cli (hh_settings H) True) c (w_settings_profile (hh_world H))
      secrets PHookEnv False (hk_client s) = (r, hk_client s') \<and>
    (case r of
       Inl _ \<Rightarrow> ld = nothing_loaded True \<and> hk_files s' = hk_files s
     | Inr resolved \<Rightarrow> im_wf resolved \<longrightarrow> loads_for_shell H secrets resolved ld (hk_files s) (hk_files s'))"
proof -
  let ?M = "quiet_client H" and ?ps = "w_settings_profile (hh_world H)"
  obtain c reg where first: "load_first H (all_config_filenames (get_profiles (hh_world H) [])) None (hk_registry s) =
      (Inr (Some (Inr c)), reg)"
    using assms by (auto simp: load_secrets_from_config_def Let_def split: prod.splits sum.splits option.splits)
  obtain secrets where secrets: "get_secrets_with_no_defaults c ?ps (sv_no_defaults (mh_services ?M)) = Inr secrets"
    using assms by (auto simp: load_secrets_from_config_def Let_def first split: prod.splits sum.splits)
  obtain r cl where batch: "resolve_batch_with_context ?M (context_of cli (hh_settings H) True) c ?ps secrets PHookEnv False
      (hk_client s) = (r, cl)" by fastforce
  have rest: "(case (r, cl) of
      (Inl _, cl) \<Rightarrow> (Some (Inr (nothing_loaded True)), s\<lparr>hk_registry := reg, hk_client := cl\<rparr>)
    | (Inr resolved, cl) \<Rightarrow>
        (case fold (load_secret H secrets) resolved (nothing_loaded False, hk_files s) of
           (ld, files) \<Rightarrow> (Some (Inr ld), s\<lparr>hk_registry := reg, hk_client := cl, hk_files := files\<rparr>))) = (Some (Inr ld), s')"
    using assms by (auto simp: load_secrets_from_config_def Let_def first secrets batch split: sum.splits prod.splits)
  show ?thesis
  proof (cases r)
    case (Inl e)
    with rest first secrets batch show ?thesis by (intro exI [of _ c] exI [of _ secrets] exI [of _ r]) auto
  next
    case (Inr resolved)
    then obtain files where loop: "fold (load_secret H secrets) resolved (nothing_loaded False, hk_files s) = (ld, files)"
      and s': "s' = s\<lparr>hk_registry := reg, hk_client := cl, hk_files := files\<rparr>"
      using rest by (auto split: prod.splits)
    with Inr first secrets batch show ?thesis
      by (intro exI [of _ c] exI [of _ secrets] exI [of _ r]) (auto intro: load_all)
  qed
qed

definition hook_load_start :: "(fnox_error option + loaded_secrets) option \<times> unit hook_state" where
  "hook_load_start = load_secrets_from_config (hook_machine hook_crates) hook_cli hook_start"

lemma hook_load_start:
  "load_secrets_from_config (hook_machine hook_crates) hook_cli hook_start = (Some (Inr hook_loaded), snd hook_load_start)"
proof -
  have "fst hook_load_start = Some (Inr hook_loaded)" by code_simp
  then show ?thesis unfolding hook_load_start_def by (simp add: prod_eq_iff)
qed

definition loads_as_configured ::
  "('p, 'l, 'w) hook_host \<Rightarrow> command_line \<Rightarrow> 'w hook_state \<Rightarrow> loaded_secrets \<Rightarrow> 'w hook_state \<Rightarrow> bool" where
  "loads_as_configured H cli s ld s' \<longleftrightarrow>
     (\<exists>c secrets r.
       fst (load_first H (all_config_filenames (get_profiles (hh_world H) [])) None (hk_registry s)) = Inr (Some (Inr c)) \<and>
       get_secrets_with_no_defaults c (w_settings_profile (hh_world H)) (sv_no_defaults (mh_services (quiet_client H))) = Inr secrets \<and>
       resolve_batch_with_context (quiet_client H) (context_of cli (hh_settings H) True) c (w_settings_profile (hh_world H))
         secrets PHookEnv False (hk_client s) = (r, hk_client s') \<and>
       (case r of
          Inl _ \<Rightarrow> ld = nothing_loaded True \<and> hk_files s' = hk_files s
        | Inr resolved \<Rightarrow> im_wf resolved \<longrightarrow> loads_for_shell H secrets resolved ld (hk_files s) (hk_files s')))"

theorem hook_loads_shell_secrets_witness:
  "loads_as_configured (hook_machine hook_crates) hook_cli hook_start hook_loaded (snd hook_load_start)"
  unfolding loads_as_configured_def by (rule hook_loads_shell_secrets [OF hook_load_start])

subsection \<open>When nothing happens\<close>

definition hashes_apart :: "hook_library \<Rightarrow> (path \<times> nat) list list \<Rightarrow> (string \<times> string) list list \<Rightarrow> bool" where
  \<comment> \<open>the hash of files is never the empty text, and these inputs do not collide\<close>
  "hashes_apart L files vars \<longleftrightarrow>
     list_all (\<lambda>fs. hl_hash_files L fs \<noteq> []) files \<and>
     inj_on (hl_hash_files L) (set files) \<and> inj_on (hl_hash_vars L) (set vars)"

text \<open>A prompt does nothing exactly when nothing changed: after a run in directory \<open>d0\<close>, the next run
  stops early if and only if the load was complete, the configuration files found from the current
  directory up, with the global one, are the same paths with the same modification times, and the
  \<open>FNOX_\<close> variables are the same.\<close>

lemma early_exit_iff_unchanged:
  assumes "hh_library H0 = hh_library H" and "w_cwd (hh_world H) = Some d"
    and "hashes_apart (hh_library H) [collect_config_files H0 d0, collect_config_files H d] [fnox_vars env0, fnox_vars env]"
  shows "should_exit_early H env ((new_session H0 env0 (Some d0) cfg loaded temp)\<lparr>hs_needs_retry := retry\<rparr>) \<longleftrightarrow>
    \<not> retry \<and> collect_config_files H d = collect_config_files H0 d0 \<and> fnox_vars env = fnox_vars env0"
proof -
  have files: "inj_on (hl_hash_files (hh_library H)) {collect_config_files H0 d0, collect_config_files H d}"
    and vars: "inj_on (hl_hash_vars (hh_library H)) {fnox_vars env0, fnox_vars env}"
    and "hl_hash_files (hh_library H) (collect_config_files H0 d0) \<noteq> []"
    using assms(3) by (simp_all add: hashes_apart_def)
  moreover have "hl_hash_files (hh_library H) (collect_config_files H d) = hl_hash_files (hh_library H) (collect_config_files H0 d0) \<longleftrightarrow>
      collect_config_files H d = collect_config_files H0 d0"
    by (rule inj_on_eq_iff [OF files]) simp_all
  moreover have "hl_hash_vars (hh_library H) (fnox_vars env) = hl_hash_vars (hh_library H) (fnox_vars env0) \<longleftrightarrow> fnox_vars env = fnox_vars env0"
    by (rule inj_on_eq_iff [OF vars]) simp_all
  ultimately show ?thesis using assms(1,2)
    by (auto simp: should_exit_early_def has_config_been_modified_def has_fnox_env_vars_changed_def new_session_def Let_def
        hash_fnox_env_vars_def)
qed

subsection \<open>Deactivation cleans up\<close>

lemma cleanup_session_files:
  assumes "fold (cleanup_session_file undeletable dir) xs (failed, files) = (failed', files')"
  shows "(files path = None \<longrightarrow> files' path = None) \<and> (files' path \<noteq> files path \<longrightarrow> path \<in> snd ` set xs \<and> is_hook_temp_file dir path) \<and>
    (failed' = [] \<longrightarrow> failed = [] \<and> (path \<in> snd ` set xs \<longrightarrow> is_hook_temp_file dir path \<and> files' path = None))"
  using assms
proof (induction xs arbitrary: failed files)
  case (Cons x xs)
  obtain key p where x: "x = (key, p)" by fastforce
  obtain failed1 files1 where step: "cleanup_session_file undeletable dir (key, p) (failed, files) = (failed1, files1)" by fastforce
  with Cons.prems have "fold (cleanup_session_file undeletable dir) xs (failed1, files1) = (failed', files')" by (simp add: x)
  note IH = Cons.IH [OF this]
  have step': "files1 = files \<and> (failed1 = failed @ [key] \<or> failed1 = failed \<and> files p = None \<and> is_hook_temp_file dir p) \<or>
      files1 = files(p := None) \<and> failed1 = failed \<and> is_hook_temp_file dir p"
    using step by (auto simp: cleanup_session_file_def split: if_splits)
  show ?case
  proof (cases "path = p")
    case True
    with IH step' show ?thesis by (elim disjE conjE) (auto simp: x)
  next
    case False
    with step' have "files1 path = files path" and "failed1 = [] \<Longrightarrow> failed = []" by auto
    with IH False show ?thesis by (simp add: x)
  qed
qed simp

lemma unset_lines_run:
  assumes "quote_law L" and "sh \<in> {Bash, Zsh, Fish}" and "\<forall>k \<in> set keys. is_valid_secret_name k"
  shows "\<exists>unsets. deactivate_output L script sh keys = Some (unsets @ script sh) \<and>
    run_script sh unsets env = Some (\<lambda>k. if k \<in> set keys then None else env k)"
proof (cases "sh = Fish")
  case True
  from fish.run_unsets [OF TrueI assms(3), of "[]" env] show ?thesis
    by (simp add: True deactivate_output_def shell_env_lines concat_options_Some run_script_def fish.run_nil fold_unset_env
        fun_eq_iff)
next
  case False
  with assms(2) have sh: "sh = Bash \<or> sh = Zsh" by auto
  from posix.run_unsets [OF assms(1,3), of "[]" env] sh False show ?thesis
    by (auto simp: deactivate_output_def shell_env_lines concat_options_Some run_script_def posix.run_nil fold_unset_env
        fun_eq_iff)
qed

text \<open>C28: Deactivation removes what the session owns and nothing else. Whether it succeeds or not, only
  files of the session that lie in its temporary directory under the hook's prefix are deleted, whatever
  paths the session claims; and when it succeeds, none of the session's files is left, and the printed code
  begins with statements that remove every secret of the session from the shell and do nothing else.\<close>

theorem deactivation_cleans_up:
  assumes "hook_laws (hh_library H)" and "prev = prev_session (hh_library H) (im_get (rs_env (cl_run (hk_client s))))"
    and "deactivate_run H script s = (r, s')" and "get_shell (im_get (rs_env (cl_run (hk_client s)))) None = Inr sh"
    and "sh \<in> {Bash, Zsh, Fish}" and "list_all is_valid_secret_name (im_keys (hs_secret_hashes prev))"
  shows "(\<forall>path. hk_files s' path = hk_files s path \<or>
      path \<in> snd ` set (hs_temp_files prev) \<and> is_hook_temp_file (session_temp_dir (hh_library H) prev) path) \<and>
    (case r of
       Inl _ \<Rightarrow> True
     | Inr code \<Rightarrow>
         (\<forall>path \<in> snd ` set (hs_temp_files prev). hk_files s' path = None) \<and>
         (\<exists>unsets. code = unsets @ script sh \<and>
            run_script sh unsets env = Some (\<lambda>k. if k \<in> set (im_keys (hs_secret_hashes prev)) then None else env k)))"
proof -
  let ?dir = "session_temp_dir (hh_library H) prev"
  obtain failed files where loop: "fold (cleanup_session_file (hh_undeletable H) ?dir)
      (hl_order (hh_library H) (hs_temp_files prev)) ([], hk_files s) = (failed, files)" by fastforce
  note cleaned = cleanup_session_files [OF loop, unfolded hook_lawsD(5) [OF assms(1)]]
  obtain unsets where code: "deactivate_output (hl_shell (hh_library H)) script sh (im_keys (hs_secret_hashes prev)) =
      Some (unsets @ script sh)"
    and run: "run_script sh unsets env = Some (\<lambda>k. if k \<in> set (im_keys (hs_secret_hashes prev)) then None else env k)"
    using unset_lines_run [OF hook_lawsD(6) [OF assms(1)] assms(5) assms(6) [unfolded list_all_iff], of script env] by blast
  consider "s' = s" "isl r" | "s' = s\<lparr>hk_files := files\<rparr>" "isl r"
    | "s' = s\<lparr>hk_files := files\<rparr>" "failed = []" "r = Inr (unsets @ script sh)"
    using assms(3) unfolding deactivate_run_def Let_def assms(2) [symmetric] assms(4) cleanup_session_temp_files_def loop
    by (auto simp: code split: if_splits)
  then show ?thesis
  proof cases
    case 3
    with cleaned run show ?thesis by auto
  qed (use cleaned in \<open>auto split: sum.splits\<close>)
qed

definition cleaned_up ::
  "hook_session \<Rightarrow> path option \<Rightarrow> shell \<Rightarrow> string \<Rightarrow> env \<Rightarrow> (string \<Rightarrow> string option) \<Rightarrow> (string \<Rightarrow> string option) \<Rightarrow>
   hook_error + string \<Rightarrow> bool" where
  "cleaned_up prev dir sh script env files files' r \<longleftrightarrow>
     (\<forall>path. files' path = files path \<or> path \<in> snd ` set (hs_temp_files prev) \<and> is_hook_temp_file dir path) \<and>
     (case r of
        Inl _ \<Rightarrow> True
      | Inr code \<Rightarrow>
          (\<forall>path \<in> snd ` set (hs_temp_files prev). files' path = None) \<and>
          (\<exists>unsets. code = unsets @ script \<and>
             run_script sh unsets env = Some (\<lambda>k. if k \<in> set (im_keys (hs_secret_hashes prev)) then None else env k)))"

definition active_shell :: "unit hook_state" where
  "active_shell = hook_start
     \<lparr>hk_client := (hk_client hook_start)\<lparr>cl_run := \<lparr>rs_env = [(''FNOX_SHELL'', ''fish''), (SESSION_VAR, ''c2Vzc2lvbg=='')], rs_world = ()\<rparr>\<rparr>,
      hk_files := (\<lambda>p. if p = ''/tmp/fnox-hook-KEY-3-5'' then Some ''-----'' else None)\<rparr>"

definition deactivated :: "(hook_error + string) \<times> unit hook_state" where
  "deactivated = deactivate_run (hook_machine hook_crates) (\<lambda>_. ''functions --erase fnox'') active_shell"

lemma deactivated_code: "\<not> isl (fst deactivated) \<and> hk_files (snd deactivated) ''/tmp/fnox-hook-KEY-3-5'' = None"
  by code_simp

theorem deactivation_cleans_up_witness:
  "cleaned_up first_session (session_temp_dir hook_crates first_session) Fish ''functions --erase fnox'' Map.empty
     (hk_files active_shell) (hk_files (snd deactivated)) (fst deactivated)"
proof -
  have lib: "hh_library (hook_machine hook_crates) = hook_crates" by (simp add: hook_machine_def)
  have prev: "first_session = prev_session hook_crates (im_get (rs_env (cl_run (hk_client active_shell))))"
    by (simp add: prev_session_def active_shell_def im_get_def hook_crates_def SESSION_VAR_def)
  have sh: "get_shell (im_get (rs_env (cl_run (hk_client active_shell)))) None = Inr Fish" by code_simp
  have names: "list_all is_valid_secret_name (im_keys (hs_secret_hashes first_session))" by code_simp
  have run: "deactivate_run (hook_machine hook_crates) (\<lambda>_. ''functions --erase fnox'') active_shell = (fst deactivated, snd deactivated)"
    by (simp only: deactivated_def prod.collapse)
  have fish: "Fish \<in> {Bash, Zsh, Fish}" by simp
  show ?thesis
    unfolding cleaned_up_def
    by (rule deactivation_cleans_up [of "hook_machine hook_crates", unfolded lib, OF hook_crates_laws prev run sh fish names])
qed

end
