(* ===== verification/Sandbox.thy ===== *)
theory Sandbox
  imports HookEnv
begin

text \<open>
  The sandbox of \<open>fnox proxy run\<close> (\<open>src/sandbox.rs\<close>): which paths a command may not read or write, and
  the arguments of \<open>bwrap\<close> and the profile of \<open>sandbox-exec\<close> that say so. The file system is the record
  \<open>host_fs\<close>; what else the policy is made from is \<open>sandbox_host\<close>. What the arguments mean is specified by
  \<open>parse_bwrap\<close>, which reads them as bubblewrap documents, and \<open>view\<close>, by which the last mount over a path
  shows what the command finds there; \<open>SandboxSafety\<close> does the same for the profile. Running the
  tools, and the check that they work, are left out.
\<close>

record host_fs =
  \<comment> \<open>\<open>fs::canonicalize\<close>, and whether \<open>fs::metadata\<close> finds a directory\<close>
  fs_canonical :: "path \<Rightarrow> path option"
  fs_kind :: "path \<Rightarrow> bool option"

definition exists_at :: "host_fs \<Rightarrow> path \<Rightarrow> bool" where
  "exists_at fs p \<longleftrightarrow> fs_kind fs p \<noteq> None"

definition CREDENTIAL_PATHS :: "string list" where
  "CREDENTIAL_PATHS =
     [''.ssh'', ''.aws'', ''.azure'', ''.kube'', ''.gnupg'', ''.password-store'', ''.config/gcloud'', ''.config/gh'',
      ''.config/op'', ''.config/doppler'', ''.config/rclone'', ''.docker/config.json'', ''.local/share/keyrings'',
      ''.local/share/gopass'', ''.netrc'', ''.git-credentials'', ''.npmrc'', ''.pypirc'', ''.vault-token'',
      ''.terraform.d/credentials.tfrc.json'']"

definition SANDBOX_DIR :: path where
  "SANDBOX_DIR = path_components ''/tmp/.fnox-sandbox''"

definition BRIDGE_PORT :: nat where
  "BRIDGE_PORT = 18099"

record hidden_path =
  hp_path :: path
  hp_is_dir :: bool

record sandbox_policy =
  sp_cwd :: path
  sp_hide :: "hidden_path list"
  sp_writable :: "path list"
  sp_read_only :: "path list"

record policy_inputs =
  pi_cwd :: path
  pi_home :: path
  pi_fnox_dirs :: "path list"
  pi_fnox_files :: "path list"
  pi_environment :: "path list"
  pi_config :: proxy_config

subsection \<open>The policy\<close>

function canonicalize_lossy :: "host_fs \<Rightarrow> path \<Rightarrow> path" where
  "canonicalize_lossy fs p =
     (case fs_canonical fs p of
        Some real \<Rightarrow> real
      | None \<Rightarrow>
          (case path_parent p of
             Some parent \<Rightarrow>
               (case file_name p of Some name \<Rightarrow> path_join (canonicalize_lossy fs parent) [name] | None \<Rightarrow> p)
           | None \<Rightarrow> p))"
  by pat_completeness auto
termination
  by (relation "measure (\<lambda>(_, p). length p)") (auto simp: path_parent_def split: if_splits)

declare canonicalize_lossy.simps [simp del]

definition expand :: "host_fs \<Rightarrow> string \<Rightarrow> path \<Rightarrow> path \<Rightarrow> path" where
  "expand fs entry home cwd =
     (let path = (if entry = ''~'' then home
                  else case strip_prefix ''~/'' entry of
                         Some rest \<Rightarrow> path_join home (path_components rest)
                       | None \<Rightarrow> path_components entry);
          path = (if path_is_absolute path then path else path_join cwd path)
      in case fs_canonical fs path of Some real \<Rightarrow> real | None \<Rightarrow> path)"

definition under_any :: "path list \<Rightarrow> path \<Rightarrow> bool" where
  "under_any bounds path \<longleftrightarrow> list_ex (\<lambda>bound. prefix bound path) bounds"

definition place_candidate ::
  "host_fs \<Rightarrow> path list \<Rightarrow> path list \<Rightarrow> path \<Rightarrow> hidden_path list \<times> path list \<Rightarrow> hidden_path list \<times> path list" where
  \<comment> \<open>the body of the loop over the candidates\<close>
  "place_candidate fs writable allowed candidate = (\<lambda>(hide, read_only).
     let path = canonicalize_lossy fs candidate
     in if under_any allowed path
        then (hide, if under_any writable path then read_only @ [path] else read_only)
        else case fs_kind fs path of
               Some is_dir \<Rightarrow> (hide @ [\<lparr>hp_path = path, hp_is_dir = is_dir\<rparr>], read_only)
             | None \<Rightarrow>
                 if under_any writable path then (hide @ [\<lparr>hp_path = path, hp_is_dir = False\<rparr>], read_only)
                 else (hide, read_only))"

fun dedup_paths :: "hidden_path list \<Rightarrow> hidden_path list" where
  \<comment> \<open>\<open>dedup_by\<close> on the path: the first of equal neighbours stays\<close>
  "dedup_paths (a # b # hs) = (if hp_path a = hp_path b then dedup_paths (a # hs) else a # dedup_paths (b # hs))"
| "dedup_paths hs = hs"

definition outermost :: "hidden_path list \<Rightarrow> hidden_path list" where
  "outermost hide =
     filter (\<lambda>h. \<not> list_ex (\<lambda>other. other \<noteq> hp_path h \<and> prefix other (hp_path h)) (map hp_path hide)) hide"

definition candidates :: "host_fs \<Rightarrow> policy_inputs \<Rightarrow> path list" where
  "candidates fs inp =
     pi_fnox_dirs inp @ pi_fnox_files inp @ pi_environment inp @
     map (\<lambda>path. path_join (pi_home inp) (path_components path)) CREDENTIAL_PATHS @
     map (\<lambda>entry. expand fs entry (pi_home inp) (pi_cwd inp)) (x_sandbox_deny_read (pi_config inp))"

definition build :: "host_fs \<Rightarrow> policy_inputs \<Rightarrow> sandbox_policy" where
  "build fs inp =
     (let cwd = pi_cwd inp;
          resolve = (\<lambda>entry. expand fs entry (pi_home inp) cwd);
          writable = filter (exists_at fs) (cwd # map resolve (x_sandbox_allow_write (pi_config inp)));
          allowed = map resolve (x_sandbox_allow_read (pi_config inp));
          (hide, read_only) = fold (place_candidate fs writable allowed) (candidates fs inp) ([], []);
          hide = outermost (dedup_paths (sort_key hp_path hide));
          read_only = (if fs_kind fs (path_join cwd [''.git'']) = Some True
                       then read_only @ map (\<lambda>f. path_join cwd (path_components f)) [''.git/hooks'', ''.git/config'']
                       else read_only)
      in \<lparr>sp_cwd = cwd, sp_hide = hide, sp_writable = writable, sp_read_only = remdups_adj (sort read_only)\<rparr>)"

subsection \<open>The policy of a process\<close>

datatype key_file = NoKeyFile | KeyFile string | KeyFileUnknown

record ('p, 'l) sandbox_host =
  \<comment> \<open>\<open>sx_key_file\<close> is the JSON member of a provider, \<open>sx_imports\<close> the imports that TOML finds in a text\<close>
  sx_fs :: host_fs
  sx_world :: "('p, 'l) world"
  sx_env :: "string \<Rightarrow> string option"
  sx_home :: path
  sx_state_dir :: path
  sx_data_dir :: path
  sx_key_file :: "'p \<Rightarrow> key_file"
  sx_imports :: "string \<Rightarrow> string list option"

datatype sandbox_error = NoWorkingDirectory | KeyFileNotLiteral string | SandboxConfig fnox_error

fun provider_key_files ::
  "('p, 'l) sandbox_host \<Rightarrow> path \<Rightarrow> (string, 'p) imap \<Rightarrow> sandbox_error + path list" where
  "provider_key_files X cwd [] = Inr []"
| "provider_key_files X cwd ((name, provider) # providers) =
     (case sx_key_file X provider of
        NoKeyFile \<Rightarrow> provider_key_files X cwd providers
      | KeyFile path \<Rightarrow>
          bind_sum (provider_key_files X cwd providers) (\<lambda>files. Inr (expand (sx_fs X) path (sx_home X) cwd # files))
      | KeyFileUnknown \<Rightarrow> Inl (KeyFileNotLiteral name))"

definition imported_files :: "('p, 'l) sandbox_host \<Rightarrow> path \<Rightarrow> path list" where
  "imported_files X path =
     (case Option.bind (w_read (sx_world X) path) (sx_imports X) of
        Some imports \<Rightarrow> map (\<lambda>i. resolve_relative_to_dir (sx_world X) i (parent_or_empty path)) imports
      | None \<Rightarrow> [])"

definition config_files_of :: "('p, 'l) sandbox_host \<Rightarrow> path \<Rightarrow> string list \<Rightarrow> path \<Rightarrow> path list" where
  \<comment> \<open>the files that fnox reads its configuration from, with their imports\<close>
  "config_files_of X config profile cwd =
     (let own = (if uses_config_discovery config
                 then concat (map (config_paths profile) (ancestors (length cwd) cwd))
                 else [if path_is_absolute config then config else path_join cwd config]) @
                [global_config_path (sx_world X)]
      in own @ concat (map (imported_files X) own))"

definition from_environment ::
  "('p, 'l) sandbox_host \<Rightarrow> command_line \<Rightarrow> ('p, 'l) config \<Rightarrow> proxy_config \<Rightarrow> sandbox_error + sandbox_policy" where
  "from_environment X cli c proxy =
     (case Option.bind (w_cwd (sx_world X)) (fs_canonical (sx_fs X)) of
        None \<Rightarrow> Inl NoWorkingDirectory
      | Some cwd \<Rightarrow>
          (let requested = get_profiles (sx_world X) (ct_profile cli);
               profile = (case resolve_profiles c requested of Inr ps \<Rightarrow> ps | Inl _ \<Rightarrow> requested);
               optional = (\<lambda>f. case f of Some p \<Rightarrow> [p] | None \<Rightarrow> []);
               variable = (\<lambda>v. optional (map_option path_components (sx_env X v)))
           in case get_providers c profile of
                Inl e \<Rightarrow> Inl (SandboxConfig e)
              | Inr providers \<Rightarrow>
                  bind_sum (provider_key_files X cwd providers) (\<lambda>key_files.
                    Inr (build (sx_fs X)
                      \<lparr>pi_cwd = cwd, pi_home = sx_home X,
                       pi_fnox_dirs = [w_config_dir (sx_world X), sx_state_dir X, sx_data_dir X],
                       pi_fnox_files = config_files_of X (cm_config cli) profile cwd @ optional (c_age_key_file c) @
                         optional (ct_age_key_file cli) @ key_files @ variable ''FNOX_AGE_KEY_FILE'',
                       pi_environment = variable ''XDG_RUNTIME_DIR'' @ variable ''SSH_AUTH_SOCK'',
                       pi_config = proxy\<rparr>))))"

subsection \<open>The arguments of bubblewrap\<close>

function mask_target :: "host_fs \<Rightarrow> path \<Rightarrow> path" where
  "mask_target fs path =
     (case path_parent path of
        Some parent \<Rightarrow> if exists_at fs parent then path else mask_target fs parent
      | None \<Rightarrow> path)"
  by pat_completeness auto
termination
  by (relation "measure (\<lambda>(_, p). length p)") (auto simp: path_parent_def split: if_splits)

declare mask_target.simps [simp del]

definition hidden_by_tmpfs :: "path \<Rightarrow> sandbox_policy \<Rightarrow> bool" where
  "hidden_by_tmpfs path P \<longleftrightarrow>
     (prefix (path_components ''/tmp'') path \<or> prefix (path_components ''/run'') path) \<and>
     \<not> under_any (sp_writable P @ sp_read_only P) path"

definition BASE_FLAGS :: "string list" where
  "BASE_FLAGS =
     [''--die-with-parent'', ''--new-session'', ''--unshare-net'', ''--unshare-pid'', ''--unshare-ipc'', ''--unshare-uts'',
      ''--cap-drop'', ''ALL'', ''--ro-bind'', ''/'', ''/'', ''--dev'', ''/dev'', ''--proc'', ''/proc'', ''--tmpfs'', ''/tmp'',
      ''--tmpfs'', ''/run'']"

definition read_only_args :: "host_fs \<Rightarrow> path \<Rightarrow> string list" where
  "read_only_args fs path =
     (if exists_at fs path then [''--ro-bind'', path_text path, path_text path]
      else [''--ro-bind'', ''/dev/null'', path_text (mask_target fs path)])"

definition hide_args :: "host_fs \<Rightarrow> sandbox_policy \<Rightarrow> hidden_path \<Rightarrow> string list" where
  "hide_args fs P hidden =
     (if hidden_by_tmpfs (hp_path hidden) P then []
      else if \<not> exists_at fs (hp_path hidden) then [''--ro-bind'', ''/dev/null'', path_text (mask_target fs (hp_path hidden))]
      else if hp_is_dir hidden then [''--tmpfs'', path_text (hp_path hidden)]
      else [''--ro-bind'', ''/dev/null'', path_text (hp_path hidden)])"

definition bwrap_args :: "host_fs \<Rightarrow> sandbox_policy \<Rightarrow> path \<Rightarrow> path \<Rightarrow> path \<Rightarrow> string list \<Rightarrow> string list" where
  "bwrap_args fs P exe socket ca command =
     (let bridge_exe = path_text (path_join SANDBOX_DIR [''fnox'']);
          bridge_socket = path_text (path_join SANDBOX_DIR [''proxy.sock'']);
          bridge_ca = path_text (path_join SANDBOX_DIR [''ca.pem''])
      in BASE_FLAGS @
         concat (map (\<lambda>path. [''--bind'', path_text path, path_text path]) (sp_writable P)) @
         concat (map (read_only_args fs) (sp_read_only P)) @
         [''--ro-bind'', path_text exe, bridge_exe, ''--bind'', path_text socket, bridge_socket, ''--ro-bind'', path_text ca, bridge_ca] @
         concat (map (hide_args fs P) (sp_hide P)) @
         [''--chdir'', path_text (sp_cwd P), ''--'', bridge_exe, ''sandbox-bridge'', ''--port'', digits_of BRIDGE_PORT,
          ''--socket'', bridge_socket, ''--''] @ command)"

subsection \<open>Mount points that are left behind\<close>

definition pending_mount_points :: "host_fs \<Rightarrow> sandbox_policy \<Rightarrow> path list" where
  "pending_mount_points fs P =
     map (mask_target fs) (filter (\<lambda>path. \<not> exists_at fs path) (map hp_path (sp_hide P) @ sp_read_only P))"

definition remove_mount_points :: "path list \<Rightarrow> (path \<Rightarrow> nat option) \<Rightarrow> (path \<Rightarrow> nat option)" where
  \<comment> \<open>the state is the size of each regular file\<close>
  "remove_mount_points paths sizes = fold (\<lambda>path sizes. if sizes path = Some 0 then sizes(path := None) else sizes) paths sizes"

subsection \<open>The profile of sandbox-exec\<close>

definition quote_path :: "path \<Rightarrow> string" where
  "quote_path path =
     [DQUOTE] @ replace_char DQUOTE [BACKSLASH, DQUOTE] (replace_char BACKSLASH [BACKSLASH, BACKSLASH] (path_text path)) @ [DQUOTE]"

definition DEVICES :: string where
  "DEVICES = ''^/dev/(null|zero|tty|ttys[0-9]+|dtracehelper|random|urandom|fd/[0-9]+)$''"

definition seatbelt_profile :: "sandbox_policy \<Rightarrow> nat \<Rightarrow> string" where
  "seatbelt_profile P proxy_port =
     ''(version 1)'' @ [LF] @ ''(allow default)'' @ [LF] @ ''(deny network*)'' @ [LF] @
     ''(allow network-outbound (remote ip '' @ [DQUOTE] @ ''localhost:'' @ digits_of proxy_port @ [DQUOTE] @ ''))'' @ [LF] @
     ''(deny file-write*)'' @ [LF] @ ''(allow file-write*'' @ [LF] @
     ''  (regex #'' @ [DQUOTE] @ DEVICES @ [DQUOTE] @ '')'' @ [LF] @
     concat (map (\<lambda>temp. ''  (subpath '' @ [DQUOTE] @ temp @ [DQUOTE] @ '')'' @ [LF]) [''/private/tmp'', ''/private/var/folders'']) @
     concat (map (\<lambda>path. ''  (subpath '' @ quote_path path @ '')'' @ [LF]) (sp_writable P)) @
     '')'' @ [LF] @
     concat (map (\<lambda>path. ''(deny file-write* (subpath '' @ quote_path path @ ''))'' @ [LF]) (sp_read_only P)) @
     concat (map (\<lambda>hidden.
       ''(deny file-read* file-write* ('' @ (if hp_is_dir hidden then ''subpath'' else ''literal'') @ '' '' @
       quote_path (hp_path hidden) @ ''))'' @ [LF]) (sp_hide P))"

subsection \<open>Launching\<close>

datatype platform = Linux | MacOS

record running_proxy =
  \<comment> \<open>the proxy's token, its certificate file and, for a loopback listener, its port\<close>
  rp_token :: string
  rp_ca :: path
  rp_port :: "nat option"

record launch =
  ln_program :: string
  ln_args :: "string list"
  ln_proxy_url :: string
  ln_ca_path :: path
  ln_mount_points :: "path list"

definition loopback_url :: "running_proxy \<Rightarrow> nat \<Rightarrow> string" where
  "loopback_url running port = ''http://fnox:'' @ rp_token running @ ''@127.0.0.1:'' @ digits_of port"

definition launch_linux :: "host_fs \<Rightarrow> sandbox_policy \<Rightarrow> path \<Rightarrow> path \<Rightarrow> running_proxy \<Rightarrow> string list \<Rightarrow> launch" where
  \<comment> \<open>\<open>exe\<close> is fnox itself, \<open>socket_dir\<close> the temporary directory of the proxy's socket\<close>
  "launch_linux fs P exe socket_dir running command =
     \<lparr>ln_program = ''bwrap'',
      ln_args = bwrap_args fs P exe (path_join socket_dir [''proxy.sock'']) (rp_ca running) command,
      ln_proxy_url = loopback_url running BRIDGE_PORT,
      ln_ca_path = path_join SANDBOX_DIR [''ca.pem''],
      ln_mount_points = pending_mount_points fs P\<rparr>"

definition launch_macos :: "sandbox_policy \<Rightarrow> running_proxy \<Rightarrow> string list \<Rightarrow> launch option" where
  \<comment> \<open>\<open>None\<close> is the panic of a proxy without an address\<close>
  "launch_macos P running command =
     map_option (\<lambda>port.
       \<lparr>ln_program = ''/usr/bin/sandbox-exec'', ln_args = [''-p'', seatbelt_profile P port] @ command,
        ln_proxy_url = loopback_url running port, ln_ca_path = rp_ca running, ln_mount_points = []\<rparr>) (rp_port running)"

subsection \<open>What bubblewrap makes of its arguments\<close>

datatype mount = RoBind path path | Bind path path | Fresh path

fun target :: "mount \<Rightarrow> path" where
  "target (RoBind source dest) = dest"
| "target (Bind source dest) = dest"
| "target (Fresh dest) = dest"

definition flag_arity :: "string \<Rightarrow> nat option" where
  "flag_arity flag =
     (if flag \<in> {''--die-with-parent'', ''--new-session'', ''--unshare-net'', ''--unshare-pid'', ''--unshare-ipc'', ''--unshare-uts''}
      then Some 0
      else if flag \<in> {''--cap-drop'', ''--dev'', ''--proc'', ''--tmpfs'', ''--chdir''} then Some 1
      else if flag \<in> {''--bind'', ''--ro-bind''} then Some 2
      else None)"

definition flag_mounts :: "string \<Rightarrow> string list \<Rightarrow> mount list" where
  "flag_mounts flag vs =
     (if flag = ''--ro-bind'' then [RoBind (path_components (vs ! 0)) (path_components (vs ! 1))]
      else if flag = ''--bind'' then [Bind (path_components (vs ! 0)) (path_components (vs ! 1))]
      else if flag \<in> {''--dev'', ''--proc'', ''--tmpfs''} then [Fresh (path_components (vs ! 0))]
      else [])"

function parse_bwrap :: "string list \<Rightarrow> (mount list \<times> string list) option" where
  \<comment> \<open>the mounts in their order, and the command\<close>
  "parse_bwrap [] = None"
| "parse_bwrap (flag # args) =
     (if flag = ''--'' then Some ([], args)
      else case flag_arity flag of
             None \<Rightarrow> None
           | Some n \<Rightarrow>
               if length args < n then None
               else map_option (\<lambda>(ms, command). (flag_mounts flag (take n args) @ ms, command)) (parse_bwrap (drop n args)))"
  by pat_completeness auto
termination by (relation "measure length") auto

datatype shown = HostPath path bool | Private

definition mounted :: "mount \<Rightarrow> path \<Rightarrow> shown" where
  "mounted m p =
     (case m of
        RoBind source dest \<Rightarrow> HostPath (source @ drop (length dest) p) False
      | Bind source dest \<Rightarrow> HostPath (source @ drop (length dest) p) True
      | Fresh dest \<Rightarrow> Private)"

definition view :: "mount list \<Rightarrow> path \<Rightarrow> shown option" where
  \<comment> \<open>what a process finds at a path without symbolic links: the file or directory of the host, and whether it
    may write it, or something of its own\<close>
  "view ms p = fold (\<lambda>m v. if prefix (target m) p then Some (mounted m p) else v) ms None"

definition shielded :: "shown option \<Rightarrow> bool" where
  "shielded v \<longleftrightarrow>
     (case v of Some (HostPath q w) \<Rightarrow> prefix (path_components ''/dev/null'') q \<and> \<not> w | Some Private \<Rightarrow> True | None \<Rightarrow> True)"

definition proper :: "path \<Rightarrow> bool" where
  \<comment> \<open>absolute, and the components are names\<close>
  "proper p \<longleftrightarrow>
     (case p of
        root # names \<Rightarrow> root = ''/'' \<and> list_all (\<lambda>n. n \<noteq> [] \<and> n \<noteq> ''.'' \<and> n \<noteq> ''..'' \<and> CHR ''/'' \<notin> set n) names
      | [] \<Rightarrow> False)"

definition proper_policy :: "host_fs \<Rightarrow> sandbox_policy \<Rightarrow> bool" where
  "proper_policy fs P \<longleftrightarrow>
     proper (sp_cwd P) \<and> list_all proper (sp_writable P) \<and> list_all proper (sp_read_only P) \<and>
     list_all (\<lambda>h. proper (hp_path h)) (sp_hide P)"

end
