(* ===== verification/SandboxSafety.thy ===== *)
theory SandboxSafety
  imports Sandbox
begin

text \<open>
  What the sandbox keeps a command from. The arguments that fnox passes to \<open>bwrap\<close> are read back as a list of
  mounts; a path is shown by the last mount over it, so whatever lies under a hidden path is out of reach,
  and only writable paths of the policy can be written. The policy hides every file that fnox reads its
  configuration from. Both promises have an exception, which \<open>nested_bind_exposes_configuration\<close> shows to be
  real: below a directory that is bound inside a hidden part of \<open>/tmp\<close> or \<open>/run\<close> nothing is hidden.
\<close>

subsection \<open>Reading the arguments back\<close>

lemma split_join:
  "ws \<noteq> [] \<Longrightarrow> list_all (\<lambda>w. d \<notin> set w) ws \<Longrightarrow> split_char d (join [d] ws) = ws"
proof (induction "[d]" ws rule: join.induct)
  case (3 w v ws)
  then show ?case using split_char_append [of d w] by simp
qed (simp_all add: split_char_none)

lemma path_text_components: "proper p \<Longrightarrow> path_components (path_text p) = p"
proof (cases p)
  case (Cons root names)
  assume "proper p"
  with Cons have root: "root = ''/''" and names: "list_all (\<lambda>n. n \<noteq> [] \<and> n \<noteq> ''.'' \<and> n \<noteq> ''..'' \<and> CHR ''/'' \<notin> set n) names"
    by (auto simp: proper_def)
  have split: "split_char CHR ''/'' (path_text p) = [] # (if names = [] then [[]] else names)"
  proof (cases "names = []")
    case False
    with names have "split_char CHR ''/'' (join ''/'' names) = names"
      by (intro split_join) (auto simp: list_all_iff)
    with False show ?thesis
      using split_char_append [of "CHR ''/''" "[]" "join ''/'' names"] by (simp add: path_text_def Cons root)
  qed (simp add: path_text_def Cons root)
  have "filter (\<lambda>c. c \<noteq> []) (split_char CHR ''/'' (path_text p)) = names"
    using names unfolding split by (auto simp: list_all_iff filter_id_conv)
  moreover have "filter (\<lambda>x. x \<noteq> ''.'') names = names" using names by (auto simp: list_all_iff filter_id_conv)
  moreover have "starts_with ''/'' (path_text p)" by (simp add: path_text_def Cons root starts_with_def)
  ultimately show ?thesis by (simp add: path_components_def Let_def Cons root)
qed (simp add: proper_def)

definition reads_as :: "string list \<Rightarrow> mount list \<Rightarrow> bool" where
  "reads_as args ms \<longleftrightarrow>
     (\<forall>rest. parse_bwrap (args @ rest) = map_option (\<lambda>r. (ms @ fst r, snd r)) (parse_bwrap rest))"

lemma reads_as_nil: "reads_as [] []"
  by (simp add: reads_as_def option.map_ident)

lemma reads_as_append: "reads_as xs ms \<Longrightarrow> reads_as ys ns \<Longrightarrow> reads_as (xs @ ys) (ms @ ns)"
  by (simp add: reads_as_def option.map_comp comp_def)

lemma reads_as_concat: "(\<And>x. x \<in> set xs \<Longrightarrow> reads_as (f x) (g x)) \<Longrightarrow> reads_as (concat (map f xs)) (concat (map g xs))"
  by (induction xs) (auto intro: reads_as_nil reads_as_append)

lemma reads_as_flag:
  "flag \<noteq> ''--'' \<Longrightarrow> flag_arity flag = Some (length vs) \<Longrightarrow> reads_as (flag # vs) (flag_mounts flag vs)"
  by (simp add: reads_as_def case_prod_unfold)

lemma reads_as_bind:
  "reads_as [''--bind'', a, b] [Bind (path_components a) (path_components b)]"
  "reads_as [''--ro-bind'', a, b] [RoBind (path_components a) (path_components b)]"
  "reads_as [''--tmpfs'', a] [Fresh (path_components a)]"
  using reads_as_flag [of "''--bind''" "[a, b]"] reads_as_flag [of "''--ro-bind''" "[a, b]"] reads_as_flag [of "''--tmpfs''" "[a]"]
  by (simp_all add: flag_arity_def flag_mounts_def)

definition base_mounts :: "mount list" where
  "base_mounts =
     [RoBind [''/''] [''/''], Fresh [''/'', ''dev''], Fresh [''/'', ''proc''], Fresh [''/'', ''tmp''], Fresh [''/'', ''run'']]"

definition read_only_mount :: "host_fs \<Rightarrow> path \<Rightarrow> mount" where
  "read_only_mount fs path =
     (if exists_at fs path then RoBind path path else RoBind (path_components ''/dev/null'') (mask_target fs path))"

definition hide_mounts :: "host_fs \<Rightarrow> sandbox_policy \<Rightarrow> hidden_path \<Rightarrow> mount list" where
  "hide_mounts fs P h =
     (if hidden_by_tmpfs (hp_path h) P then []
      else if \<not> exists_at fs (hp_path h) then [RoBind (path_components ''/dev/null'') (mask_target fs (hp_path h))]
      else if hp_is_dir h then [Fresh (hp_path h)]
      else [RoBind (path_components ''/dev/null'') (hp_path h)])"

definition bridge_mounts :: "path \<Rightarrow> path \<Rightarrow> path \<Rightarrow> mount list" where
  "bridge_mounts exe socket ca =
     [RoBind exe (SANDBOX_DIR @ [''fnox'']), Bind socket (SANDBOX_DIR @ [''proxy.sock'']), RoBind ca (SANDBOX_DIR @ [''ca.pem''])]"

definition sandbox_mounts :: "host_fs \<Rightarrow> sandbox_policy \<Rightarrow> path \<Rightarrow> path \<Rightarrow> path \<Rightarrow> mount list" where
  "sandbox_mounts fs P exe socket ca =
     base_mounts @ map (\<lambda>w. Bind w w) (sp_writable P) @ map (read_only_mount fs) (sp_read_only P) @
     bridge_mounts exe socket ca @ concat (map (hide_mounts fs P) (sp_hide P))"

lemma reads_as_switch:
  "flag \<noteq> ''--'' \<Longrightarrow> flag_arity flag = Some 0 \<Longrightarrow> flag_mounts flag [] = [] \<Longrightarrow> reads_as [flag] []"
  using reads_as_flag [of flag "[]"] by simp

lemma reads_as_more:
  "reads_as [''--cap-drop'', a] []" "reads_as [''--dev'', a] [Fresh (path_components a)]" "reads_as [''--proc'', a] [Fresh (path_components a)]"
  "reads_as [''--chdir'', a] []"
  using reads_as_flag [of "''--cap-drop''" "[a]"] reads_as_flag [of "''--dev''" "[a]"] reads_as_flag [of "''--proc''" "[a]"]
    reads_as_flag [of "''--chdir''" "[a]"]
  by (simp_all add: flag_arity_def flag_mounts_def)

lemma base_flags_read: "reads_as BASE_FLAGS base_mounts"
proof -
  have "reads_as ([''--die-with-parent''] @ [''--new-session''] @ [''--unshare-net''] @ [''--unshare-pid''] @ [''--unshare-ipc''] @
      [''--unshare-uts''] @ [''--cap-drop'', ''ALL''] @ [''--ro-bind'', ''/'', ''/''] @ [''--dev'', ''/dev''] @ [''--proc'', ''/proc''] @
      [''--tmpfs'', ''/tmp''] @ [''--tmpfs'', ''/run''])
    ([] @ [] @ [] @ [] @ [] @ [] @ [] @ [RoBind (path_components ''/'') (path_components ''/'')] @ [Fresh (path_components ''/dev'')] @
      [Fresh (path_components ''/proc'')] @ [Fresh (path_components ''/tmp'')] @ [Fresh (path_components ''/run'')])"
    by (intro reads_as_append reads_as_bind reads_as_more reads_as_switch) (simp_all add: flag_arity_def flag_mounts_def)
  moreover have "path_components ''/'' = [''/'']" "path_components ''/dev'' = [''/'', ''dev'']" "path_components ''/proc'' = [''/'', ''proc'']"
    "path_components ''/tmp'' = [''/'', ''tmp'']" "path_components ''/run'' = [''/'', ''run'']" by code_simp+
  ultimately show ?thesis by (simp add: BASE_FLAGS_def base_mounts_def)
qed

lemma mask_target_prefix: "prefix (mask_target fs p) p"
proof (induction fs p rule: mask_target.induct)
  case (1 fs p)
  show ?case
  proof (cases "path_parent p")
    case None
    then show ?thesis by (simp add: mask_target.simps [of fs p])
  next
    case (Some parent)
    then have "prefix parent p" by (auto simp: path_parent_def prefixeq_butlast split: if_splits)
    with 1 Some show ?thesis by (auto simp: mask_target.simps [of fs p] intro: prefix_order.trans)
  qed
qed

lemma mask_target_proper:
  assumes "proper p"
  shows "proper (mask_target fs p)"
  using assms
proof (induction fs p rule: mask_target.induct)
  case (1 fs p)
  show ?case
  proof (cases "path_parent p")
    case None
    then show ?thesis using 1 by (simp add: mask_target.simps [of fs p])
  next
    case (Some parent)
    have "proper parent"
    proof -
      obtain names where p: "p = ''/'' # names" and ok: "list_all (\<lambda>n. n \<noteq> [] \<and> n \<noteq> ''.'' \<and> n \<noteq> ''..'' \<and> CHR ''/'' \<notin> set n) names"
        using "1.prems" by (cases p) (auto simp: proper_def)
      with Some have "parent = ''/'' # butlast names" by (auto simp: path_parent_def split: if_splits)
      with ok show ?thesis by (auto simp: proper_def list_all_iff dest: in_set_butlastD)
    qed
    with 1 Some show ?thesis by (simp add: mask_target.simps [of fs p])
  qed
qed

lemma sandbox_dir: "SANDBOX_DIR = [''/'', ''tmp'', ''.fnox-sandbox'']"
  by code_simp

lemma bwrap_args_read:
  assumes P: "proper_policy fs P" and "proper exe" "proper socket" "proper ca"
  shows "\<exists>command'. parse_bwrap (bwrap_args fs P exe socket ca command) = Some (sandbox_mounts fs P exe socket ca, command' @ command)"
proof -
  have plain: "path_components (path_text (SANDBOX_DIR @ [n])) = SANDBOX_DIR @ [n]" if "n \<in> {''fnox'', ''proxy.sock'', ''ca.pem''}" for n
    using that by (intro path_text_components) (auto simp: sandbox_dir proper_def)
  have join: "path_join SANDBOX_DIR [n] = SANDBOX_DIR @ [n]" if "n \<in> {''fnox'', ''proxy.sock'', ''ca.pem''}" for n
    using that by (auto simp: sandbox_dir path_join_def path_is_absolute_def)
  have "reads_as [''--bind'', path_text w, path_text w] [Bind w w]" if "w \<in> set (sp_writable P)" for w
    using reads_as_bind(1) [of "path_text w" "path_text w"] P that by (auto simp: proper_policy_def list_all_iff path_text_components)
  then have writable: "reads_as (concat (map (\<lambda>w. [''--bind'', path_text w, path_text w]) (sp_writable P))) (map (\<lambda>w. Bind w w) (sp_writable P))"
    using reads_as_concat [of "sp_writable P" _ "\<lambda>w. [Bind w w]"] by (simp add: concat_map_singleton)
  have "reads_as (read_only_args fs r) [read_only_mount fs r]" if "r \<in> set (sp_read_only P)" for r
    using reads_as_bind(2) [of "path_text r" "path_text r"] reads_as_bind(2) [of "''/dev/null''" "path_text (mask_target fs r)"] P that
    by (auto simp: read_only_args_def read_only_mount_def proper_policy_def list_all_iff path_text_components mask_target_proper)
  then have read_only: "reads_as (concat (map (read_only_args fs) (sp_read_only P))) (map (read_only_mount fs) (sp_read_only P))"
    using reads_as_concat [of "sp_read_only P" "read_only_args fs" "\<lambda>r. [read_only_mount fs r]"] by (simp add: concat_map_singleton)
  have "reads_as (hide_args fs P h) (hide_mounts fs P h)" if "h \<in> set (sp_hide P)" for h
    using reads_as_bind(2) [of "''/dev/null''" "path_text (hp_path h)"] reads_as_bind(3) [of "path_text (hp_path h)"]
      reads_as_bind(2) [of "''/dev/null''" "path_text (mask_target fs (hp_path h))"] P that
    by (auto simp: hide_args_def hide_mounts_def proper_policy_def list_all_iff path_text_components mask_target_proper reads_as_nil)
  then have hide: "reads_as (concat (map (hide_args fs P) (sp_hide P))) (concat (map (hide_mounts fs P) (sp_hide P)))"
    by (rule reads_as_concat)
  have bridge: "reads_as ([''--ro-bind'', path_text exe, path_text (SANDBOX_DIR @ [''fnox''])] @
      [''--bind'', path_text socket, path_text (SANDBOX_DIR @ [''proxy.sock''])] @
      [''--ro-bind'', path_text ca, path_text (SANDBOX_DIR @ [''ca.pem''])])
     ([RoBind exe (SANDBOX_DIR @ [''fnox''])] @ [Bind socket (SANDBOX_DIR @ [''proxy.sock''])] @ [RoBind ca (SANDBOX_DIR @ [''ca.pem''])])"
    using reads_as_bind(2) [of "path_text exe" "path_text (SANDBOX_DIR @ [''fnox''])"]
      reads_as_bind(1) [of "path_text socket" "path_text (SANDBOX_DIR @ [''proxy.sock''])"]
      reads_as_bind(2) [of "path_text ca" "path_text (SANDBOX_DIR @ [''ca.pem''])"] assms(2-4)
    by (intro reads_as_append) (simp_all add: path_text_components plain)
  note all = reads_as_append [OF base_flags_read reads_as_append [OF writable reads_as_append [OF read_only reads_as_append [OF bridge hide]]]]
  have chdir: "reads_as [''--chdir'', path_text (sp_cwd P)] []" by (rule reads_as_more)
  show ?thesis
    using reads_as_append [OF all chdir]
    by (simp add: bwrap_args_def Let_def join reads_as_def sandbox_mounts_def bridge_mounts_def)
qed

subsection \<open>What a path shows\<close>

lemma view_snoc: "view (ms @ [m]) p = (if prefix (target m) p then Some (mounted m p) else view ms p)"
  by (simp add: view_def)

lemma view_append:
  "view (xs @ ys) p = (if \<exists>m \<in> set ys. prefix (target m) p then view ys p else view xs p)"
proof (induction ys rule: rev_induct)
  case (snoc m ys)
  show ?case using snoc view_snoc [of "xs @ ys" m p] view_snoc [of ys m p] by auto
qed simp

lemma view_covered:
  "\<exists>m \<in> set ms. prefix (target m) p \<Longrightarrow> \<exists>m \<in> set ms. prefix (target m) p \<and> view ms p = Some (mounted m p)"
proof (induction ms rule: rev_induct)
  case (snoc m ms)
  then show ?case by (cases "prefix (target m) p") (auto simp: view_snoc)
qed simp

lemma view_uncovered: "\<forall>m \<in> set ms. \<not> prefix (target m) p \<Longrightarrow> view ms p = None"
  by (induction ms rule: rev_induct) (simp_all add: view_snoc view_def)

lemma mounted_null: "shielded (Some (mounted (RoBind (path_components ''/dev/null'') dest) p))"
  by (simp add: shielded_def mounted_def)

lemma mounted_fresh: "shielded (Some (mounted (Fresh dest) p))"
  by (simp add: shielded_def mounted_def)

lemma hide_mounts_shield: "m \<in> set (concat (map (hide_mounts fs P) hs)) \<Longrightarrow> shielded (Some (mounted m p))"
  by (auto simp: hide_mounts_def mounted_null mounted_fresh split: if_splits)

lemma hide_mounts_cover:
  assumes "h \<in> set hs" and "prefix (hp_path h) p" and "\<not> hidden_by_tmpfs (hp_path h) P"
  shows "\<exists>m \<in> set (concat (map (hide_mounts fs P) hs)). prefix (target m) p"
proof -
  have "\<exists>m \<in> set (hide_mounts fs P h). prefix (target m) (hp_path h)"
    using assms(3) by (simp add: hide_mounts_def mask_target_prefix)
  with assms(1,2) show ?thesis by (auto intro: prefix_order.trans)
qed

lemma read_only_mount_cases:
  "target (read_only_mount fs r) = r \<and> read_only_mount fs r = RoBind r r \<or>
   prefix (target (read_only_mount fs r)) r \<and> (\<exists>dest. read_only_mount fs r = RoBind (path_components ''/dev/null'') dest)"
  by (simp add: read_only_mount_def mask_target_prefix)

lemma bridge_targets: "m \<in> set (bridge_mounts exe socket ca) \<Longrightarrow> prefix SANDBOX_DIR (target m)"
  by (auto simp: bridge_mounts_def)

lemma hidden_shielded:
  assumes "h \<in> set (sp_hide P)" and under: "prefix (hp_path h) p" and "\<not> prefix SANDBOX_DIR p"
  shows "shielded (view (sandbox_mounts fs P exe socket ca) p) \<or>
    hidden_by_tmpfs (hp_path h) P \<and>
    (\<exists>b \<in> set (sp_writable P @ sp_read_only P). strict_prefix (hp_path h) b \<and> prefix b p)"
proof -
  let ?hide = "concat (map (hide_mounts fs P) (sp_hide P))" and ?writable = "map (\<lambda>w. Bind w w) (sp_writable P)"
    and ?ro = "map (read_only_mount fs) (sp_read_only P)" and ?bridge = "bridge_mounts exe socket ca"
  show ?thesis
  proof (cases "\<exists>m \<in> set ?hide. prefix (target m) p")
    case True
    then have "view (sandbox_mounts fs P exe socket ca) p = view ?hide p"
      unfolding sandbox_mounts_def append_assoc [symmetric] by (simp only: view_append if_True)
    with view_covered [OF True] hide_mounts_shield show ?thesis by metis
  next
    case False
    then have tmp: "hidden_by_tmpfs (hp_path h) P" using hide_mounts_cover [OF assms(1,2)] by blast
    have "\<not> (\<exists>m \<in> set ?bridge. prefix (target m) p)"
      using assms(3) bridge_targets prefix_order.trans by blast
    with False have v: "view (sandbox_mounts fs P exe socket ca) p = view (base_mounts @ ?writable @ ?ro) p"
      unfolding sandbox_mounts_def append_assoc [symmetric] by (simp only: view_append if_False)
    show ?thesis
    proof (cases "\<exists>m \<in> set (?writable @ ?ro). prefix (target m) p")
      case True
      then obtain m where m: "m \<in> set (?writable @ ?ro)" "prefix (target m) p"
          "view (sandbox_mounts fs P exe socket ca) p = Some (mounted m p)"
        using view_covered [OF True] v view_append [of base_mounts "?writable @ ?ro" p] by auto
      consider "target m \<in> set (sp_writable P @ sp_read_only P)" | "shielded (Some (mounted m p))"
        using m(1) by (auto simp: read_only_mount_def mounted_null)
      then show ?thesis
      proof cases
        case 1
        have "\<not> prefix (target m) (hp_path h)" using tmp 1 by (auto simp: hidden_by_tmpfs_def under_any_def list_ex_iff)
        with m(2) under have "strict_prefix (hp_path h) (target m)"
          by (metis prefix_same_cases strict_prefixI prefix_order.refl)
        with 1 m(2) tmp show ?thesis by blast
      next
        case 2
        with m(3) show ?thesis by simp
      qed
    next
      case False
      then have v': "view (sandbox_mounts fs P exe socket ca) p = view base_mounts p" using v by (simp only: view_append if_False)
      have "prefix [''/'', ''tmp''] (hp_path h) \<or> prefix [''/'', ''run''] (hp_path h)"
        using tmp by (simp add: hidden_by_tmpfs_def path_components_def Let_def starts_with_iff)
      then have "prefix [''/'', ''tmp''] p \<or> prefix [''/'', ''run''] p" using under prefix_order.trans by blast
      then have "shielded (view base_mounts p)"
        by (auto simp: view_def base_mounts_def mounted_def shielded_def)
      with v' show ?thesis by simp
    qed
  qed
qed

lemma written_paths:
  assumes "view (sandbox_mounts fs P exe socket ca) p = Some (HostPath q True)"
  shows "prefix (SANDBOX_DIR @ [''proxy.sock'']) p \<or>
    q = p \<and> under_any (sp_writable P) p \<and> \<not> under_any (sp_read_only P) p \<and>
    (\<forall>h \<in> set (sp_hide P). prefix (hp_path h) p \<longrightarrow> hidden_by_tmpfs (hp_path h) P)"
proof -
  let ?hide = "concat (map (hide_mounts fs P) (sp_hide P))" and ?writable = "map (\<lambda>w. Bind w w) (sp_writable P)"
    and ?ro = "map (read_only_mount fs) (sp_read_only P)" and ?bridge = "bridge_mounts exe socket ca"
  have hide: "\<not> (\<exists>m \<in> set ?hide. prefix (target m) p)"
  proof
    assume c: "\<exists>m \<in> set ?hide. prefix (target m) p"
    then have "view (sandbox_mounts fs P exe socket ca) p = view ?hide p"
      unfolding sandbox_mounts_def append_assoc [symmetric] by (simp only: view_append if_True)
    with view_covered [OF c] hide_mounts_shield [of _ fs P "sp_hide P" p] assms show False by (fastforce simp: shielded_def)
  qed
  then have skipped: "\<forall>h \<in> set (sp_hide P). prefix (hp_path h) p \<longrightarrow> hidden_by_tmpfs (hp_path h) P"
    using hide_mounts_cover by blast
  have v: "view (base_mounts @ ?writable @ ?ro @ ?bridge) p = Some (HostPath q True)"
    using assms hide unfolding sandbox_mounts_def append_assoc [symmetric] by (simp only: view_append if_False)
  show ?thesis
  proof (cases "\<exists>m \<in> set ?bridge. prefix (target m) p")
    case True
    then have "view ?bridge p = Some (HostPath q True)"
      using v unfolding append_assoc [symmetric] by (simp only: view_append if_True)
    with view_covered [OF True] show ?thesis by (auto simp: bridge_mounts_def mounted_def)
  next
    case False
    then have v: "view (base_mounts @ ?writable @ ?ro) p = Some (HostPath q True)"
      using v unfolding append_assoc [symmetric] by (simp only: view_append if_False)
    have ro: "\<not> (\<exists>m \<in> set ?ro. prefix (target m) p)"
    proof
      assume c: "\<exists>m \<in> set ?ro. prefix (target m) p"
      then have "view ?ro p = Some (HostPath q True)"
        using v unfolding append_assoc [symmetric] by (simp only: view_append if_True)
      with view_covered [OF c] show False by (auto simp: read_only_mount_def mounted_def split: if_splits)
    qed
    then have v: "view (base_mounts @ ?writable) p = Some (HostPath q True)"
      using v unfolding append_assoc [symmetric] by (simp only: view_append if_False)
    have "\<not> prefix r p" if "r \<in> set (sp_read_only P)" for r
      using ro that read_only_mount_cases [of fs r] prefix_order.trans by fastforce
    then have "\<not> under_any (sp_read_only P) p" by (auto simp: under_any_def list_ex_iff)
    moreover have "q = p \<and> under_any (sp_writable P) p"
    proof (cases "\<exists>m \<in> set ?writable. prefix (target m) p")
      case True
      then have "view ?writable p = Some (HostPath q True)" using v by (simp only: view_append if_True)
      with view_covered [OF True] show ?thesis by (auto simp: mounted_def under_any_def list_ex_iff prefix_def)
    next
      case False
      then have "view base_mounts p = Some (HostPath q True)" using v by (simp only: view_append if_False)
      then show ?thesis by (auto simp: view_def base_mounts_def mounted_def split: if_splits)
    qed
    ultimately show ?thesis using skipped by blast
  qed
qed

subsection \<open>What the policy hides\<close>

definition allowed_reads :: "host_fs \<Rightarrow> policy_inputs \<Rightarrow> path list" where
  "allowed_reads fs inp = map (\<lambda>entry. expand fs entry (pi_home inp) (pi_cwd inp)) (x_sandbox_allow_read (pi_config inp))"

lemma placed:
  assumes "fold (place_candidate fs writable allowed) cs (hide0, ro0) = (hide, ro)"
  shows "set hide0 \<subseteq> set hide \<and> set ro0 \<subseteq> set ro \<and>
    (\<forall>c \<in> set cs. let r = canonicalize_lossy fs c in
       (under_any allowed r \<longrightarrow> under_any writable r \<longrightarrow> r \<in> set ro) \<and>
       (\<not> under_any allowed r \<longrightarrow> exists_at fs r \<or> under_any writable r \<longrightarrow> r \<in> hp_path ` set hide))"
  using assms
proof (induction cs arbitrary: hide0 ro0)
  case (Cons c cs)
  obtain hide1 ro1 where step: "place_candidate fs writable allowed c (hide0, ro0) = (hide1, ro1)" by fastforce
  with Cons.prems have "fold (place_candidate fs writable allowed) cs (hide1, ro1) = (hide, ro)" by simp
  note IH = Cons.IH [OF this]
  have "set hide0 \<subseteq> set hide1 \<and> set ro0 \<subseteq> set ro1 \<and> (let r = canonicalize_lossy fs c in
       (under_any allowed r \<longrightarrow> under_any writable r \<longrightarrow> r \<in> set ro1) \<and>
       (\<not> under_any allowed r \<longrightarrow> exists_at fs r \<or> under_any writable r \<longrightarrow> r \<in> hp_path ` set hide1))"
    using step by (auto simp: place_candidate_def Let_def exists_at_def split: if_splits option.splits)
  moreover have "hp_path ` set hide1 \<subseteq> hp_path ` set hide" "set ro1 \<subseteq> set ro" using IH by auto
  ultimately show ?case using IH by (auto simp: Let_def)
qed simp

lemma dedup_paths_set: "hp_path ` set (dedup_paths hs) = hp_path ` set hs"
  by (induction hs rule: dedup_paths.induct) auto

lemma outermost_covers:
  "x \<in> hp_path ` set hide \<Longrightarrow> \<exists>h \<in> set (outermost hide). prefix (hp_path h) x"
proof (induction x rule: length_induct)
  case (1 x)
  then obtain h where h: "h \<in> set hide" "hp_path h = x" by auto
  show ?case
  proof (cases "h \<in> set (outermost hide)")
    case False
    with h obtain other where other: "other \<in> hp_path ` set hide" "other \<noteq> x" "prefix other x"
      by (auto simp: outermost_def list_ex_iff)
    then have "length other < length x"
      by (metis prefix_length_less strict_prefixI)
    with 1 other show ?thesis by (meson prefix_order.trans)
  qed (use h in auto)
qed

lemma outermost_apart:
  "h \<in> set (outermost hide) \<Longrightarrow> h' \<in> set (outermost hide) \<Longrightarrow> prefix (hp_path h) (hp_path h') \<Longrightarrow> hp_path h = hp_path h'"
  by (auto simp: outermost_def list_ex_iff)

lemma build_places:
  assumes "c \<in> set (candidates fs inp)"
  shows "let r = canonicalize_lossy fs c in
    if under_any (allowed_reads fs inp) r
    then under_any (sp_writable (build fs inp)) r \<longrightarrow> r \<in> set (sp_read_only (build fs inp))
    else exists_at fs r \<or> under_any (sp_writable (build fs inp)) r \<longrightarrow>
         (\<exists>h \<in> set (sp_hide (build fs inp)). prefix (hp_path h) r)"
proof -
  let ?resolve = "\<lambda>entry. expand fs entry (pi_home inp) (pi_cwd inp)"
  define writable where "writable = filter (exists_at fs) (pi_cwd inp # map ?resolve (x_sandbox_allow_write (pi_config inp)))"
  obtain hide ro where f: "fold (place_candidate fs writable (allowed_reads fs inp)) (candidates fs inp) ([], []) = (hide, ro)" by fastforce
  have w: "sp_writable (build fs inp) = writable" and h: "sp_hide (build fs inp) = outermost (dedup_paths (sort_key hp_path hide))"
    and r: "set ro \<subseteq> set (sp_read_only (build fs inp))"
    using f by (auto simp: build_def Let_def allowed_reads_def writable_def)
  have "hp_path ` set hide = hp_path ` set (dedup_paths (sort_key hp_path hide))" by (simp add: dedup_paths_set)
  then have "x \<in> hp_path ` set hide \<Longrightarrow> \<exists>h \<in> set (sp_hide (build fs inp)). prefix (hp_path h) x" for x
    unfolding h using outermost_covers by blast
  then show ?thesis using placed [OF f] assms r unfolding w by (auto simp: Let_def)
qed

lemma build_hides_apart:
  "h \<in> set (sp_hide (build fs inp)) \<Longrightarrow> h' \<in> set (sp_hide (build fs inp)) \<Longrightarrow> prefix (hp_path h) (hp_path h') \<Longrightarrow>
   hp_path h = hp_path h'"
  by (auto simp: build_def Let_def split: prod.splits intro: outermost_apart)

lemma from_environment_builds:
  assumes "from_environment X cli c proxy = Inr P" and "Option.bind (w_cwd (sx_world X)) (fs_canonical (sx_fs X)) = Some cwd"
  shows "\<exists>inp. P = build (sx_fs X) inp \<and> pi_cwd inp = cwd \<and> pi_home inp = sx_home X \<and> pi_config inp = proxy \<and>
    set (config_files_of X (cm_config cli)
      (case resolve_profiles c (get_profiles (sx_world X) (ct_profile cli)) of
         Inr ps \<Rightarrow> ps | Inl _ \<Rightarrow> get_profiles (sx_world X) (ct_profile cli)) cwd) \<subseteq> set (pi_fnox_files inp) \<and>
    {w_config_dir (sx_world X), sx_state_dir X, sx_data_dir X} \<subseteq> set (pi_fnox_dirs inp)"
proof -
  let ?requested = "get_profiles (sx_world X) (ct_profile cli)"
  let ?profile = "case resolve_profiles c ?requested of Inr ps \<Rightarrow> ps | Inl _ \<Rightarrow> ?requested"
  obtain providers keys where "get_providers c ?profile = Inr providers" "provider_key_files X cwd providers = Inr keys"
    using assms by (auto simp: from_environment_def Let_def bind_sum_Inr split: sum.splits)
  with assms show ?thesis
    by (auto simp: from_environment_def Let_def split: sum.splits intro!: exI)
qed

subsection \<open>The promises\<close>

definition sensitive_files :: "('p, 'l) sandbox_host \<Rightarrow> command_line \<Rightarrow> ('p, 'l) config \<Rightarrow> path \<Rightarrow> path set" where
  \<comment> \<open>the configuration files that apply to the directory with their imports, fnox's own directories, and the
    directories of other credentials\<close>
  "sensitive_files X cli c cwd =
     set (config_files_of X (cm_config cli)
       (case resolve_profiles c (get_profiles (sx_world X) (ct_profile cli)) of
          Inr ps \<Rightarrow> ps | Inl _ \<Rightarrow> get_profiles (sx_world X) (ct_profile cli)) cwd) \<union>
     {w_config_dir (sx_world X), sx_state_dir X, sx_data_dir X} \<union>
     (\<lambda>entry. path_join (sx_home X) (path_components entry)) ` set CREDENTIAL_PATHS"

definition exposed_in_tmpfs :: "sandbox_policy \<Rightarrow> path \<Rightarrow> bool" where
  \<comment> \<open>the path lies in a bound directory inside a hidden one below \<open>/tmp\<close> or \<open>/run\<close>\<close>
  "exposed_in_tmpfs P p \<longleftrightarrow>
     list_ex (\<lambda>h. hidden_by_tmpfs (hp_path h) P \<and>
       list_ex (\<lambda>b. strict_prefix (hp_path h) b \<and> prefix b p) (sp_writable P @ sp_read_only P)) (sp_hide P)"

text \<open>C4: A sandboxed command cannot read fnox's configuration or the usual credentials. Take any file that
  fnox reads its configuration from in the working directory, with its imports and the files of inherited
  profiles, one of fnox's directories or one of the known credential paths, that exists and is not allowed to
  be read: with the arguments that fnox passes to \<open>bwrap\<close>, a path at or below its real location shows nothing
  of the host. One case is excepted, because there the sandbox leaks: a path in a directory that is bound
  into the sandbox, like the working directory, and lies inside a hidden directory below \<open>/tmp\<close> or \<open>/run\<close>.\<close>

theorem sandbox_hides_configuration:
  assumes "from_environment X cli c proxy = Inr P"
    and "Option.bind (w_cwd (sx_world X)) (fs_canonical (sx_fs X)) = Some cwd"
    and "proper_policy (sx_fs X) P" and "proper exe" and "proper socket" and "proper ca"
    and "f \<in> sensitive_files X cli c cwd" and "exists_at (sx_fs X) (canonicalize_lossy (sx_fs X) f)"
    and "\<not> under_any (map (\<lambda>entry. expand (sx_fs X) entry (sx_home X) cwd) (x_sandbox_allow_read proxy))
           (canonicalize_lossy (sx_fs X) f)"
    and "prefix (canonicalize_lossy (sx_fs X) f) p" and "\<not> prefix SANDBOX_DIR p" and "\<not> exposed_in_tmpfs P p"
  shows "\<exists>ms command'. parse_bwrap (bwrap_args (sx_fs X) P exe socket ca command) = Some (ms, command' @ command) \<and>
    shielded (view ms p)"
proof -
  let ?fs = "sx_fs X"
  obtain inp where P: "P = build ?fs inp" and inp: "pi_cwd inp = cwd" "pi_home inp = sx_home X" "pi_config inp = proxy"
    and files: "set (config_files_of X (cm_config cli)
       (case resolve_profiles c (get_profiles (sx_world X) (ct_profile cli)) of
          Inr ps \<Rightarrow> ps | Inl _ \<Rightarrow> get_profiles (sx_world X) (ct_profile cli)) cwd) \<subseteq> set (pi_fnox_files inp)"
    and dirs: "{w_config_dir (sx_world X), sx_state_dir X, sx_data_dir X} \<subseteq> set (pi_fnox_dirs inp)"
    using from_environment_builds [OF assms(1,2)] by blast
  have "f \<in> set (pi_fnox_files inp) \<or> f \<in> set (pi_fnox_dirs inp) \<or>
      f \<in> set (map (\<lambda>entry. path_join (pi_home inp) (path_components entry)) CREDENTIAL_PATHS)"
    using assms(7) subsetD [OF files] subsetD [OF dirs] unfolding sensitive_files_def set_map inp by (elim UnE) blast+
  then have "f \<in> set (candidates ?fs inp)" unfolding candidates_def set_append by blast
  from build_places [OF this] assms(8,9) obtain h where h: "h \<in> set (sp_hide P)" "prefix (hp_path h) (canonicalize_lossy ?fs f)"
    by (auto simp: Let_def P allowed_reads_def inp)
  then have "prefix (hp_path h) p" using assms(10) prefix_order.trans by blast
  from hidden_shielded [OF h(1) this assms(11), of ?fs exe socket ca] h(1) assms(12)
  have "shielded (view (sandbox_mounts ?fs P exe socket ca) p)"
    by (auto simp: exposed_in_tmpfs_def list_ex_iff)
  with bwrap_args_read [OF assms(3-6), of command] show ?thesis by blast
qed

definition policy_writes :: "host_fs \<Rightarrow> policy_inputs \<Rightarrow> path \<Rightarrow> bool" where
  "policy_writes fs inp p \<longleftrightarrow>
     (let P = build fs inp
      in under_any (sp_writable P) p \<and> \<not> under_any (sp_read_only P) p \<and>
         (fs_kind fs (path_join (pi_cwd inp) [''.git'']) = Some True \<longrightarrow>
            \<not> under_any (map (\<lambda>f. path_join (pi_cwd inp) (path_components f)) [''.git/hooks'', ''.git/config'']) p))"

text \<open>C5: A sandboxed command writes only where the policy lets it. A path that the arguments of \<open>bwrap\<close> show
  writable is the host's path of the same name, lies under the working directory or an allowed path and under no
  read-only path; in a git repository it is neither \<open>.git/config\<close> nor below \<open>.git/hooks\<close>. It lies under no hidden
  path either, except where the sandbox leaks: in a directory that is bound into the sandbox inside a hidden
  directory below \<open>/tmp\<close> or \<open>/run\<close>. The only other writable path is the proxy's socket.\<close>

theorem sandbox_confines_writes:
  assumes "proper_policy fs (build fs inp)" and "proper exe" and "proper socket" and "proper ca"
    and "parse_bwrap (bwrap_args fs (build fs inp) exe socket ca command) = Some (ms, command')"
    and "view ms p = Some (HostPath q True)"
  shows "prefix (SANDBOX_DIR @ [''proxy.sock'']) p \<or>
    q = p \<and> policy_writes fs inp p \<and>
    (exposed_in_tmpfs (build fs inp) p \<or> \<not> under_any (map hp_path (sp_hide (build fs inp))) p)"
proof -
  let ?P = "build fs inp"
  have "ms = sandbox_mounts fs ?P exe socket ca" using bwrap_args_read [OF assms(1-4), of command] assms(5) by auto
  with assms(6) have "view (sandbox_mounts fs ?P exe socket ca) p = Some (HostPath q True)" by simp
  note written = written_paths [OF this]
  have "set (map (\<lambda>f. path_join (pi_cwd inp) (path_components f)) [''.git/hooks'', ''.git/config'']) \<subseteq> set (sp_read_only ?P)"
    if "fs_kind fs (path_join (pi_cwd inp) [''.git'']) = Some True"
    using that by (auto simp: build_def Let_def split: prod.splits)
  then have "\<not> under_any (map (\<lambda>f. path_join (pi_cwd inp) (path_components f)) [''.git/hooks'', ''.git/config'']) p"
    if "fs_kind fs (path_join (pi_cwd inp) [''.git'']) = Some True" "\<not> under_any (sp_read_only ?P) p"
    using that unfolding under_any_def list_ex_iff by blast
  moreover have "exposed_in_tmpfs ?P p" if under: "under_any (map hp_path (sp_hide ?P)) p" and w: "under_any (sp_writable ?P) p"
    and skipped: "\<forall>h \<in> set (sp_hide ?P). prefix (hp_path h) p \<longrightarrow> hidden_by_tmpfs (hp_path h) ?P"
  proof -
    from under skipped obtain h where h: "h \<in> set (sp_hide ?P)" "prefix (hp_path h) p" "hidden_by_tmpfs (hp_path h) ?P"
      by (auto simp: under_any_def list_ex_iff)
    from w obtain b where b: "b \<in> set (sp_writable ?P)" "prefix b p" by (auto simp: under_any_def list_ex_iff)
    with h(3) have "\<not> prefix b (hp_path h)" by (auto simp: hidden_by_tmpfs_def under_any_def list_ex_iff)
    with h(2) b(2) have "strict_prefix (hp_path h) b" by (metis prefix_same_cases strict_prefixI prefix_order.refl)
    with h b show ?thesis by (auto simp: exposed_in_tmpfs_def list_ex_iff)
  qed
  ultimately show ?thesis using written unfolding policy_writes_def Let_def by blast
qed

subsection \<open>A concrete sandbox\<close>

definition demo_dirs :: "path list" where
  "demo_dirs = [[''/''], [''/'', ''p''], [''/'', ''p'', ''.git''], [''/'', ''p'', ''.git'', ''hooks''], [''/'', ''h''], [''/'', ''h'', ''.ssh''], [''/'', ''tmp'']]"

definition demo_fs :: host_fs where
  "demo_fs =
     \<lparr>fs_canonical = (\<lambda>p. if p \<in> set ([''/'', ''p'', ''fnox.toml''] # demo_dirs) then Some p else None),
      fs_kind = (\<lambda>p. if p \<in> set demo_dirs then Some True else if p = [''/'', ''p'', ''fnox.toml''] then Some False else None)\<rparr>"

definition demo_sandbox :: "(string, lease_backend) sandbox_host" where
  "demo_sandbox =
     \<lparr>sx_fs = demo_fs, sx_world = hook_world, sx_env = (\<lambda>_. None), sx_home = [''/'', ''h''], sx_state_dir = [''/'', ''h'', ''state''],
      sx_data_dir = [''/'', ''h'', ''data''], sx_key_file = (\<lambda>_. NoKeyFile), sx_imports = (\<lambda>_. Some [])\<rparr>"

definition demo_proxy :: proxy_config where
  "demo_proxy =
     \<lparr>x_egress = Strict, x_audit = True, x_rules = [], x_allow_domains = [], x_allow_private = [], x_sandbox = True,
      x_sandbox_allow_write = [], x_sandbox_deny_read = [], x_sandbox_allow_read = []\<rparr>"

definition demo_cli :: command_line where
  "demo_cli = hook_cli\<lparr>cm_config := [''fnox.toml'']\<rparr>"

definition demo_sandbox_policy :: sandbox_policy where
  "demo_sandbox_policy =
     (case from_environment demo_sandbox demo_cli hook_config demo_proxy of
        Inr P \<Rightarrow> P | Inl _ \<Rightarrow> \<lparr>sp_cwd = [], sp_hide = [], sp_writable = [], sp_read_only = []\<rparr>)"

lemma demo_sandbox_policy: "from_environment demo_sandbox demo_cli hook_config demo_proxy = Inr demo_sandbox_policy"
proof -
  have "\<not> isl (from_environment demo_sandbox demo_cli hook_config demo_proxy)" by code_simp
  then show ?thesis by (auto simp: demo_sandbox_policy_def split: sum.splits)
qed

lemma demo_hidden:
  "set (map hp_path (sp_hide demo_sandbox_policy)) \<supseteq> {[''/'', ''p'', ''fnox.toml''], [''/'', ''p'', ''fnox.local.toml''], [''/'', ''h'', ''.ssh'']}"
  by code_simp

theorem sandbox_hides_configuration_witness:
  "\<exists>ms command'. parse_bwrap (bwrap_args demo_fs demo_sandbox_policy [''/'', ''fnox''] [''/'', ''s'', ''proxy.sock''] [''/'', ''s'', ''ca''] [''sh'']) =
     Some (ms, command' @ [''sh'']) \<and> shielded (view ms [''/'', ''p'', ''fnox.toml''])"
proof -
  have fs: "sx_fs demo_sandbox = demo_fs" by (simp add: demo_sandbox_def)
  show ?thesis
    unfolding fs [symmetric]
    by (rule sandbox_hides_configuration [OF demo_sandbox_policy, where cwd = "[''/'', ''p'']" and f = "[''/'', ''p'', ''fnox.toml'']"]) code_simp+
qed

definition demo_inputs :: policy_inputs where
  "demo_inputs =
     \<lparr>pi_cwd = [''/'', ''p''], pi_home = [''/'', ''h''], pi_fnox_dirs = [], pi_fnox_files = [[''/'', ''p'', ''fnox.toml'']],
      pi_environment = [], pi_config = demo_proxy\<rparr>"

theorem sandbox_confines_writes_witness:
  "prefix (SANDBOX_DIR @ [''proxy.sock'']) [''/'', ''p'', ''src''] \<or>
   [''/'', ''p'', ''src''] = [''/'', ''p'', ''src''] \<and> policy_writes demo_fs demo_inputs [''/'', ''p'', ''src''] \<and>
   (exposed_in_tmpfs (build demo_fs demo_inputs) [''/'', ''p'', ''src''] \<or>
    \<not> under_any (map hp_path (sp_hide (build demo_fs demo_inputs))) [''/'', ''p'', ''src''])"
proof -
  have ok: "proper_policy demo_fs (build demo_fs demo_inputs)" "proper [''/'', ''fnox'']" "proper [''/'', ''s'', ''proxy.sock'']"
    "proper [''/'', ''s'', ''ca'']" by code_simp+
  obtain command' where read: "parse_bwrap (bwrap_args demo_fs (build demo_fs demo_inputs) [''/'', ''fnox''] [''/'', ''s'', ''proxy.sock'']
      [''/'', ''s'', ''ca''] [''sh'']) = Some (sandbox_mounts demo_fs (build demo_fs demo_inputs) [''/'', ''fnox'']
      [''/'', ''s'', ''proxy.sock''] [''/'', ''s'', ''ca''], command' @ [''sh''])"
    using bwrap_args_read [OF ok] by blast
  have here: "view (sandbox_mounts demo_fs (build demo_fs demo_inputs) [''/'', ''fnox''] [''/'', ''s'', ''proxy.sock''] [''/'', ''s'', ''ca''])
      [''/'', ''p'', ''src''] = Some (HostPath [''/'', ''p'', ''src''] True)" by code_simp
  show ?thesis by (rule sandbox_confines_writes [OF ok read here])
qed

text \<open>Where the working directory lies inside a hidden directory below \<open>/run\<close>, here the one that
  \<open>XDG_RUNTIME_DIR\<close> names, only the outer directory is in the policy, and no mount hides it because \<open>/run\<close> is a
  fresh file system. The mount of the working directory then shows its \<open>fnox.toml\<close>, and lets it be written.\<close>

definition runtime_dirs :: "path list" where
  "runtime_dirs = [[''/''], [''/'', ''run''], [''/'', ''run'', ''u''], [''/'', ''run'', ''u'', ''p'']]"

definition runtime_fs :: host_fs where
  "runtime_fs =
     \<lparr>fs_canonical = (\<lambda>p. if p \<in> set ([''/'', ''run'', ''u'', ''p'', ''fnox.toml''] # runtime_dirs) then Some p else None),
      fs_kind = (\<lambda>p. if p \<in> set runtime_dirs then Some True
        else if p = [''/'', ''run'', ''u'', ''p'', ''fnox.toml''] then Some False else None)\<rparr>"

definition runtime_sandbox :: "(string, lease_backend) sandbox_host" where
  "runtime_sandbox = demo_sandbox\<lparr>sx_fs := runtime_fs, sx_world := hook_world\<lparr>w_cwd := Some [''/'', ''run'', ''u'', ''p'']\<rparr>,
     sx_env := (\<lambda>v. if v = ''XDG_RUNTIME_DIR'' then Some ''/run/u'' else None)\<rparr>"

definition runtime_policy :: sandbox_policy where
  "runtime_policy =
     (case from_environment runtime_sandbox demo_cli hook_config demo_proxy of
        Inr P \<Rightarrow> P | Inl _ \<Rightarrow> \<lparr>sp_cwd = [], sp_hide = [], sp_writable = [], sp_read_only = []\<rparr>)"

lemma runtime_policy: "from_environment runtime_sandbox demo_cli hook_config demo_proxy = Inr runtime_policy"
proof -
  have "\<not> isl (from_environment runtime_sandbox demo_cli hook_config demo_proxy)" by code_simp
  then show ?thesis by (auto simp: runtime_policy_def split: sum.splits)
qed

lemma runtime_mounts:
  "view (sandbox_mounts runtime_fs runtime_policy [''/'', ''fnox''] [''/'', ''s'', ''proxy.sock''] [''/'', ''s'', ''ca''])
     [''/'', ''run'', ''u'', ''p'', ''fnox.toml''] = Some (HostPath [''/'', ''run'', ''u'', ''p'', ''fnox.toml''] True)"
  by code_simp

lemma nested_bind_exposes_configuration:
  "[''/'', ''run'', ''u'', ''p'', ''fnox.toml''] \<in> sensitive_files runtime_sandbox demo_cli hook_config [''/'', ''run'', ''u'', ''p'']"
  "\<exists>ms command'. parse_bwrap (bwrap_args runtime_fs runtime_policy [''/'', ''fnox''] [''/'', ''s'', ''proxy.sock'']
      [''/'', ''s'', ''ca''] [''sh'']) = Some (ms, command') \<and>
     view ms [''/'', ''run'', ''u'', ''p'', ''fnox.toml''] = Some (HostPath [''/'', ''run'', ''u'', ''p'', ''fnox.toml''] True)"
proof -
  have "proper_policy runtime_fs runtime_policy" "proper [''/'', ''fnox'']" "proper [''/'', ''s'', ''proxy.sock'']"
    "proper [''/'', ''s'', ''ca'']" by code_simp+
  from bwrap_args_read [OF this, of "[''sh'']"] runtime_mounts
  show "\<exists>ms command'. parse_bwrap (bwrap_args runtime_fs runtime_policy [''/'', ''fnox''] [''/'', ''s'', ''proxy.sock'']
      [''/'', ''s'', ''ca''] [''sh'']) = Some (ms, command') \<and>
     view ms [''/'', ''run'', ''u'', ''p'', ''fnox.toml''] = Some (HostPath [''/'', ''run'', ''u'', ''p'', ''fnox.toml''] True)"
    by blast
qed code_simp

end
