(* ===== verification/Seatbelt.thy ===== *)
theory Seatbelt
  imports SandboxSafety
begin

text \<open>
  What the profile for \<open>sandbox-exec\<close> means. The printed text is read back as expressions, the way the
  profile language is written: words, strings with their escapes, raw regular expressions and parentheses.
  A rule names operations, a trailing star standing for any ending, and filters; of the rules that match
  a request the last decides. The text that fnox prints decides every request as the policy says.
\<close>

subsection \<open>The profile language\<close>

datatype lexeme = Opening | Closing | Word string | Quoted string | Raw string

fun lex_string :: "string \<Rightarrow> (string \<times> string) option" where
  \<comment> \<open>a string after its opening quote, and what follows it\<close>
  "lex_string [] = None"
| "lex_string [c] = (if c = DQUOTE then Some ([], []) else None)"
| "lex_string (c # d # cs) =
     (if c = DQUOTE then Some ([], d # cs)
      else if c = BACKSLASH
           then (if d = DQUOTE \<or> d = BACKSLASH then map_option (\<lambda>(t, r). (d # t, r)) (lex_string cs) else None)
      else map_option (\<lambda>(t, r). (c # t, r)) (lex_string (d # cs)))"

fun lex_raw :: "string \<Rightarrow> (string \<times> string) option" where
  "lex_raw [] = None"
| "lex_raw (c # cs) = (if c = DQUOTE then Some ([], cs) else map_option (\<lambda>(t, r). (c # t, r)) (lex_raw cs))"

definition word_char :: "char \<Rightarrow> bool" where
  "word_char c \<longleftrightarrow> \<not> is_whitespace c \<and> c \<noteq> CHR ''('' \<and> c \<noteq> CHR '')'' \<and> c \<noteq> DQUOTE \<and> c \<noteq> CHR ''#''"

lemma lex_string_length: "lex_string s = Some (t, r) \<Longrightarrow> length r < length s"
  by (induction s arbitrary: t rule: lex_string.induct) (auto split: if_splits)

lemma lex_raw_length: "lex_raw s = Some (t, r) \<Longrightarrow> length r < length s"
  by (induction s arbitrary: t) (auto split: if_splits)

function lex :: "string \<Rightarrow> lexeme list option" where
  "lex [] = Some []"
| "lex (c # cs) =
     (if is_whitespace c then lex cs
      else if c = CHR ''('' then map_option ((#) Opening) (lex cs)
      else if c = CHR '')'' then map_option ((#) Closing) (lex cs)
      else if c = DQUOTE
           then (case lex_string cs of None \<Rightarrow> None | Some (t, r) \<Rightarrow> map_option ((#) (Quoted t)) (lex r))
      else if c = CHR ''#''
           then (case cs of
                   d # ds \<Rightarrow>
                     if d = DQUOTE
                     then (case lex_raw ds of None \<Rightarrow> None | Some (t, r) \<Rightarrow> map_option ((#) (Raw t)) (lex r))
                     else None
                 | [] \<Rightarrow> None)
      else map_option ((#) (Word (c # takeWhile word_char cs))) (lex (dropWhile word_char cs)))"
  by pat_completeness auto

termination
  by (relation "measure length")
    (auto simp: less_Suc_eq_le dest: lex_string_length lex_raw_length intro: length_dropWhile_le)

datatype expression = Name string | Text string | Pattern string | Group "expression list"

fun group_lexemes :: "expression list list \<Rightarrow> lexeme list \<Rightarrow> expression list option" where
  \<comment> \<open>the open groups, innermost first, each with its members in reverse\<close>
  "group_lexemes [] ts = None"
| "group_lexemes [es] [] = Some (rev es)"
| "group_lexemes (es # fs # gs) [] = None"
| "group_lexemes (es # gs) (Opening # ts) = group_lexemes ([] # es # gs) ts"
| "group_lexemes [es] (Closing # ts) = None"
| "group_lexemes (es # fs # gs) (Closing # ts) = group_lexemes ((Group (rev es) # fs) # gs) ts"
| "group_lexemes (es # gs) (Word t # ts) = group_lexemes ((Name t # es) # gs) ts"
| "group_lexemes (es # gs) (Quoted t # ts) = group_lexemes ((Text t # es) # gs) ts"
| "group_lexemes (es # gs) (Raw t # ts) = group_lexemes ((Pattern t # es) # gs) ts"

definition read_profile :: "string \<Rightarrow> expression list option" where
  "read_profile s = Option.bind (lex s) (group_lexemes [[]])"

datatype resource = AtPath path | Remote string

fun filter_matches :: "(string \<Rightarrow> path \<Rightarrow> bool) \<Rightarrow> resource \<Rightarrow> expression \<Rightarrow> bool" where
  "filter_matches regex (AtPath p) (Group [Name kind, Text t]) =
     (if kind = ''subpath'' then prefix (path_components t) p else kind = ''literal'' \<and> p = path_components t)"
| "filter_matches regex (AtPath p) (Group [Name kind, Pattern r]) = (kind = ''regex'' \<and> regex r p)"
| "filter_matches regex (Remote a) (Group [Name kind, Name protocol, Text t]) =
     (kind = ''remote'' \<and> protocol = ''ip'' \<and> a = t)"
| "filter_matches regex res e = False"

definition names_operation :: "string \<Rightarrow> expression \<Rightarrow> bool" where
  "names_operation operation e =
     (case e of
        Name n \<Rightarrow> n = ''default'' \<or> n = operation \<or> (ends_with ''*'' n \<and> prefix (butlast n) operation)
      | _ \<Rightarrow> False)"

definition is_name :: "expression \<Rightarrow> bool" where
  "is_name e = (case e of Name _ \<Rightarrow> True | _ \<Rightarrow> False)"

fun rule_decides :: "(string \<Rightarrow> path \<Rightarrow> bool) \<Rightarrow> string \<Rightarrow> resource \<Rightarrow> expression \<Rightarrow> bool option" where
  \<comment> \<open>the decision of a rule that matches\<close>
  "rule_decides regex operation res (Group (Name action # es)) =
     (if (action = ''allow'' \<or> action = ''deny'') \<and> list_ex (names_operation operation) (takeWhile is_name es) \<and>
         (dropWhile is_name es = [] \<or> list_ex (filter_matches regex res) (dropWhile is_name es))
      then Some (action = ''allow'') else None)"
| "rule_decides regex operation res e = None"

definition profile_allows :: "(string \<Rightarrow> path \<Rightarrow> bool) \<Rightarrow> expression list \<Rightarrow> string \<Rightarrow> resource \<Rightarrow> bool" where
  \<comment> \<open>the last rule that matches decides; what no rule names is denied\<close>
  "profile_allows regex es operation res =
     fold (\<lambda>e allowed. case rule_decides regex operation res e of Some d \<Rightarrow> d | None \<Rightarrow> allowed) es False"

subsection \<open>Reading printed expressions\<close>

fun lexemes :: "expression \<Rightarrow> lexeme list" where
  "lexemes (Name t) = [Word t]"
| "lexemes (Text t) = [Quoted t]"
| "lexemes (Pattern t) = [Raw t]"
| "lexemes (Group es) = Opening # concat (map lexemes es) @ [Closing]"

lemma group_one: "group_lexemes (es # gs) (lexemes e @ ts) = group_lexemes ((e # es) # gs) ts"
proof (induction e arbitrary: es gs ts)
  case (Group xs)
  have "group_lexemes (ys # hs) (concat (map lexemes xs) @ us) = group_lexemes ((rev xs @ ys) # hs) us" for ys hs us
    using Group.IH by (induction xs arbitrary: ys) simp_all
  then show ?case by simp
qed simp_all

lemma group_all: "group_lexemes [es] (concat (map lexemes xs)) = Some (rev es @ xs)"
proof (induction xs arbitrary: es)
  case (Cons x xs)
  then show ?case using group_one [of es "[]" x] by simp
qed simp

definition lexes :: "string \<Rightarrow> lexeme list \<Rightarrow> bool" where
  "lexes s ts \<longleftrightarrow> (\<forall>rest. lex (s @ rest) = (case lex rest of None \<Rightarrow> None | Some us \<Rightarrow> Some (ts @ us)))"

lemma lexes_Nil [simp]: "lexes [] []"
  by (simp add: lexes_def split: option.split)

lemma lexes_append: "lexes s ts \<Longrightarrow> lexes t us \<Longrightarrow> lexes (s @ t) (ts @ us)"
  by (auto simp: lexes_def split: option.splits)

lemma lexes_concat: "(\<And>x. x \<in> set xs \<Longrightarrow> lexes (f x) (g x)) \<Longrightarrow> lexes (concat (map f xs)) (concat (map g xs))"
  by (induction xs) (auto intro: lexes_append)

lemma lexes_read: "lexes s (concat (map lexemes es)) \<Longrightarrow> read_profile s = Some es"
  using group_all [of "[]" es] unfolding lexes_def read_profile_def by (auto dest!: spec [of _ "[]"])

lemma lexes_Cons:
  "is_whitespace c \<Longrightarrow> lexes s ts \<Longrightarrow> lexes (c # s) ts"
  "lexes s ts \<Longrightarrow> lexes (CHR ''('' # s) (Opening # ts)"
  "lexes s ts \<Longrightarrow> lexes (CHR '')'' # s) (Closing # ts)"
  by (auto simp: lexes_def is_whitespace_def split: option.split)

lemma lex_string_close: "lex_string (DQUOTE # rest) = Some ([], rest)"
  by (cases rest) simp_all

lemma lex_string_char:
  "c \<noteq> DQUOTE \<Longrightarrow> c \<noteq> BACKSLASH \<Longrightarrow> lex_string (c # t @ DQUOTE # rest) = map_option (\<lambda>(u, r). (c # u, r)) (lex_string (t @ DQUOTE # rest))"
  by (cases "t @ DQUOTE # rest") auto

lemma lex_quoted:
  "lex_string (replace_char DQUOTE [BACKSLASH, DQUOTE] (replace_char BACKSLASH [BACKSLASH, BACKSLASH] t) @ DQUOTE # rest) = Some (t, rest)"
proof (induction t)
  case Nil
  show ?case by (simp add: replace_char_def lex_string_close)
next
  case (Cons c t)
  then show ?case
  proof (cases "c = DQUOTE \<or> c = BACKSLASH")
    case True
    with Cons show ?thesis by (auto simp: replace_char_def char_defs)
  next
    case False
    with Cons lex_string_char [of c] show ?thesis by (simp add: replace_char_def)
  qed
qed

lemma lexes_quote_path: "lexes (quote_path p) [Quoted (path_text p)]"
  using lex_quoted [of "path_text p"]
  by (simp add: lexes_def quote_path_def is_whitespace_def char_defs split: option.split)

lemma lex_string_plain:
  "DQUOTE \<notin> set t \<Longrightarrow> BACKSLASH \<notin> set t \<Longrightarrow> lex_string (t @ DQUOTE # rest) = Some (t, rest)"
proof (induction t)
  case (Cons c t)
  with lex_string_char [of c t rest] show ?case by auto
qed (simp add: lex_string_close)

lemma lexes_plain:
  assumes "DQUOTE \<notin> set t" and "BACKSLASH \<notin> set t"
  shows "lexes ([DQUOTE] @ t @ [DQUOTE]) [Quoted t]"
  using lex_string_plain [OF assms] by (simp add: lexes_def is_whitespace_def char_defs split: option.split)

subsection \<open>The printed profile\<close>

definition subpath_filter :: "string \<Rightarrow> expression" where
  "subpath_filter t = Group [Name ''subpath'', Text t]"

definition general_rules :: "sandbox_policy \<Rightarrow> nat \<Rightarrow> expression list" where
  "general_rules P port =
     [Group [Name ''version'', Name ''1''], Group [Name ''allow'', Name ''default''], Group [Name ''deny'', Name ''network*''],
      Group [Name ''allow'', Name ''network-outbound'', Group [Name ''remote'', Name ''ip'', Text (''localhost:'' @ digits_of port)]],
      Group [Name ''deny'', Name ''file-write*''],
      Group ([Name ''allow'', Name ''file-write*'', Group [Name ''regex'', Pattern DEVICES]] @
        map subpath_filter ([''/private/tmp'', ''/private/var/folders''] @ map path_text (sp_writable P)))]"

definition profile_expressions :: "sandbox_policy \<Rightarrow> nat \<Rightarrow> expression list" where
  "profile_expressions P port =
     general_rules P port @
     map (\<lambda>path. Group [Name ''deny'', Name ''file-write*'', subpath_filter (path_text path)]) (sp_read_only P) @
     map (\<lambda>h. Group [Name ''deny'', Name ''file-read*'', Name ''file-write*'',
       Group [Name (if hp_is_dir h then ''subpath'' else ''literal''), Text (path_text (hp_path h))]]) (sp_hide P)"

lemma lexes_header:
  "lexes (''(version 1)'' @ [LF] @ ''(allow default)'' @ [LF] @ ''(deny network*)'' @ [LF])
     (concat (map lexemes [Group [Name ''version'', Name ''1''], Group [Name ''allow'', Name ''default''],
       Group [Name ''deny'', Name ''network*'']]))"
  by (simp add: lexes_def is_whitespace_def word_char_def char_defs
    split: option.split)

lemma lexes_closing: "lexes (''))'' @ [LF]) [Closing, Closing]" "lexes ('')'' @ [LF]) [Closing]"
  by (simp_all add: lexes_def is_whitespace_def char_defs
    split: option.split)

lemma lexes_openings:
  "lexes ''(allow network-outbound (remote ip '' [Opening, Word ''allow'', Word ''network-outbound'', Opening, Word ''remote'', Word ''ip'']"
  "lexes (''(deny file-write*)'' @ [LF] @ ''(allow file-write*'' @ [LF])
     [Opening, Word ''deny'', Word ''file-write*'', Closing, Opening, Word ''allow'', Word ''file-write*'']"
  "lexes ''  (subpath '' [Opening, Word ''subpath'']"
  "lexes ''(deny file-write* (subpath '' [Opening, Word ''deny'', Word ''file-write*'', Opening, Word ''subpath'']"
  "lexes ''(deny file-read* file-write* ('' [Opening, Word ''deny'', Word ''file-read*'', Word ''file-write*'', Opening]"
  "lexes (''subpath'' @ '' '') [Word ''subpath'']" "lexes (''literal'' @ '' '') [Word ''literal'']"
  by (simp_all add: lexes_def is_whitespace_def word_char_def char_defs
    split: option.split)

lemma lexes_devices:
  "lexes (''  (regex #'' @ [DQUOTE] @ DEVICES @ [DQUOTE] @ '')'' @ [LF]) (lexemes (Group [Name ''regex'', Pattern DEVICES]))"
  by (simp add: lexes_def DEVICES_def is_whitespace_def word_char_def char_defs
    split: option.split)

lemma lexes_temp:
  "temp \<in> {''/private/tmp'', ''/private/var/folders''} \<Longrightarrow>
   lexes (''  (subpath '' @ [DQUOTE] @ temp @ [DQUOTE] @ '')'' @ [LF]) (lexemes (subpath_filter temp))"
  using lexes_append [OF lexes_openings(3) lexes_append [OF lexes_plain [of temp] lexes_closing(2)]]
  by (auto simp: subpath_filter_def char_defs)

lemma lexes_writable: "lexes (''  (subpath '' @ quote_path path @ '')'' @ [LF]) (lexemes (subpath_filter (path_text path)))"
  using lexes_append [OF lexes_openings(3) lexes_append [OF lexes_quote_path [of path] lexes_closing(2)]]
  by (simp add: subpath_filter_def)

lemma digits_plain: "c \<in> set (digits_of n) \<Longrightarrow> is_digit c"
proof (induction n rule: digits_of.induct)
  case (1 n)
  then show ?case by (auto simp: digits_of.simps [of n] is_digit_def split: if_splits)
qed

lemma lexes_port: "lexes ([DQUOTE] @ ''localhost:'' @ digits_of port @ [DQUOTE]) [Quoted (''localhost:'' @ digits_of port)]"
proof -
  have "\<not> is_digit DQUOTE" "\<not> is_digit BACKSLASH" by (simp_all add: is_digit_def char_defs)
  then have "DQUOTE \<notin> set (digits_of port)" "BACKSLASH \<notin> set (digits_of port)" using digits_plain by blast+
  then show ?thesis using lexes_plain [of "''localhost:'' @ digits_of port"] by (simp add: char_defs)
qed

lemma lexes_deny_write:
  "lexes (''(deny file-write* (subpath '' @ quote_path path @ ''))'' @ [LF])
     (lexemes (Group [Name ''deny'', Name ''file-write*'', subpath_filter (path_text path)]))"
  using lexes_append [OF lexes_openings(4) lexes_append [OF lexes_quote_path [of path] lexes_closing(1)]]
  by (simp add: subpath_filter_def)

lemma lexes_deny_all:
  "lexes (''(deny file-read* file-write* ('' @ (if d then ''subpath'' else ''literal'') @ '' '' @ quote_path path @ ''))'' @ [LF])
     (lexemes (Group [Name ''deny'', Name ''file-read*'', Name ''file-write*'',
       Group [Name (if d then ''subpath'' else ''literal''), Text (path_text path)]]))"
  using lexes_append [OF lexes_openings(5) lexes_append [OF lexes_openings(6) lexes_append [OF lexes_quote_path [of path] lexes_closing(1)]]]
    lexes_append [OF lexes_openings(5) lexes_append [OF lexes_openings(7) lexes_append [OF lexes_quote_path [of path] lexes_closing(1)]]]
  by (cases d) simp_all

lemma profile_lexes: "lexes (seatbelt_profile P port) (concat (map lexemes (profile_expressions P port)))"
proof -
  have temps: "lexes (concat (map (\<lambda>temp. ''  (subpath '' @ [DQUOTE] @ temp @ [DQUOTE] @ '')'' @ [LF]) [''/private/tmp'', ''/private/var/folders'']))
      (concat (map (lexemes \<circ> subpath_filter) [''/private/tmp'', ''/private/var/folders'']))"
    unfolding comp_def by (rule lexes_concat) (rule lexes_temp, simp)
  have writable: "lexes (concat (map (\<lambda>path. ''  (subpath '' @ quote_path path @ '')'' @ [LF]) (sp_writable P)))
      (concat (map (\<lambda>path. lexemes (subpath_filter (path_text path))) (sp_writable P)))"
    by (rule lexes_concat) (rule lexes_writable)
  have ro: "lexes (concat (map (\<lambda>path. ''(deny file-write* (subpath '' @ quote_path path @ ''))'' @ [LF]) (sp_read_only P)))
      (concat (map (\<lambda>path. lexemes (Group [Name ''deny'', Name ''file-write*'', subpath_filter (path_text path)])) (sp_read_only P)))"
    by (rule lexes_concat) (rule lexes_deny_write)
  have hide: "lexes (concat (map (\<lambda>h. ''(deny file-read* file-write* ('' @ (if hp_is_dir h then ''subpath'' else ''literal'') @ '' '' @
       quote_path (hp_path h) @ ''))'' @ [LF]) (sp_hide P)))
      (concat (map (\<lambda>h. lexemes (Group [Name ''deny'', Name ''file-read*'', Name ''file-write*'',
       Group [Name (if hp_is_dir h then ''subpath'' else ''literal''), Text (path_text (hp_path h))]])) (sp_hide P)))"
    by (rule lexes_concat) (rule lexes_deny_all)
  note whole = lexes_append [OF lexes_header lexes_append [OF lexes_openings(1) lexes_append [OF lexes_port lexes_append [OF lexes_closing(1)
    lexes_append [OF lexes_openings(2) lexes_append [OF lexes_devices lexes_append [OF temps lexes_append [OF writable
    lexes_append [OF lexes_closing(2) lexes_append [OF ro hide]]]]]]]]]]
  have printed: "seatbelt_profile P port = (''(version 1)'' @ [LF] @ ''(allow default)'' @ [LF] @ ''(deny network*)'' @ [LF]) @
    ''(allow network-outbound (remote ip '' @ ([DQUOTE] @ ''localhost:'' @ digits_of port @ [DQUOTE]) @ (''))'' @ [LF]) @
    (''(deny file-write*)'' @ [LF] @ ''(allow file-write*'' @ [LF]) @ (''  (regex #'' @ [DQUOTE] @ DEVICES @ [DQUOTE] @ '')'' @ [LF]) @
    concat (map (\<lambda>temp. ''  (subpath '' @ [DQUOTE] @ temp @ [DQUOTE] @ '')'' @ [LF]) [''/private/tmp'', ''/private/var/folders'']) @
    concat (map (\<lambda>path. ''  (subpath '' @ quote_path path @ '')'' @ [LF]) (sp_writable P)) @ ('')'' @ [LF]) @
    concat (map (\<lambda>path. ''(deny file-write* (subpath '' @ quote_path path @ ''))'' @ [LF]) (sp_read_only P)) @
    concat (map (\<lambda>h. ''(deny file-read* file-write* ('' @ (if hp_is_dir h then ''subpath'' else ''literal'') @ '' '' @
       quote_path (hp_path h) @ ''))'' @ [LF]) (sp_hide P))"
    unfolding seatbelt_profile_def append_assoc ..
  have tokens: "concat (map lexemes (profile_expressions P port)) =
    concat (map lexemes [Group [Name ''version'', Name ''1''], Group [Name ''allow'', Name ''default''], Group [Name ''deny'', Name ''network*'']]) @
    [Opening, Word ''allow'', Word ''network-outbound'', Opening, Word ''remote'', Word ''ip''] @
    [Quoted (''localhost:'' @ digits_of port)] @ [Closing, Closing] @
    [Opening, Word ''deny'', Word ''file-write*'', Closing, Opening, Word ''allow'', Word ''file-write*''] @
    lexemes (Group [Name ''regex'', Pattern DEVICES]) @
    concat (map (lexemes \<circ> subpath_filter) [''/private/tmp'', ''/private/var/folders'']) @
    concat (map (\<lambda>path. lexemes (subpath_filter (path_text path))) (sp_writable P)) @ [Closing] @
    concat (map (\<lambda>path. lexemes (Group [Name ''deny'', Name ''file-write*'', subpath_filter (path_text path)])) (sp_read_only P)) @
    concat (map (\<lambda>h. lexemes (Group [Name ''deny'', Name ''file-read*'', Name ''file-write*'',
       Group [Name (if hp_is_dir h then ''subpath'' else ''literal''), Text (path_text (hp_path h))]])) (sp_hide P))"
    by (simp add: profile_expressions_def general_rules_def comp_def)
  show ?thesis unfolding printed tokens by (rule whole)
qed

subsection \<open>What the profile permits\<close>

definition hides :: "hidden_path \<Rightarrow> path \<Rightarrow> bool" where
  "hides h p \<longleftrightarrow> (if hp_is_dir h then prefix (hp_path h) p else p = hp_path h)"

lemma decide_snoc:
  "profile_allows regex (xs @ ys) operation res =
     fold (\<lambda>e allowed. case rule_decides regex operation res e of Some d \<Rightarrow> d | None \<Rightarrow> allowed) ys (profile_allows regex xs operation res)"
  by (simp add: profile_allows_def)

lemma fold_denials:
  "fold (\<lambda>e allowed. case rule_decides regex operation res e of Some d \<Rightarrow> d | None \<Rightarrow> allowed) (map f xs) allowed \<longleftrightarrow>
     allowed \<and> \<not> list_ex denied xs"
  if "\<And>x. x \<in> set xs \<Longrightarrow> rule_decides regex operation res (f x) = (if denied x then Some False else None)"
  using that by (induction xs arbitrary: allowed) auto

lemma names_star:
  "names_operation (''file-write'' @ x) (Name ''file-write*'')" "names_operation (''file-read'' @ x) (Name ''file-read*'')"
  "names_operation (''network'' @ x) (Name ''network*'')" "names_operation operation (Name ''default'')"
  "\<not> names_operation (''file-write'' @ x) (Name ''file-read*'')" "\<not> names_operation (''file-read'' @ x) (Name ''file-write*'')"
  "\<not> names_operation (''network'' @ x) (Name ''file-write*'')" "\<not> names_operation (''network'' @ x) (Name ''file-read*'')"
  "\<not> names_operation (''file-write'' @ x) (Name ''network*'')" "\<not> names_operation (''file-read'' @ x) (Name ''network*'')"
  "\<not> names_operation (''file-write'' @ x) (Name ''network-outbound'')" "\<not> names_operation (''file-read'' @ x) (Name ''network-outbound'')"
  "names_operation (''network'' @ x) (Name ''network-outbound'') \<longleftrightarrow> x = ''-outbound''"
  by (simp_all add: names_operation_def ends_with_def starts_with_def) auto

lemma subpath_matches:
  "filter_matches regex (AtPath p) (subpath_filter t) \<longleftrightarrow> prefix (path_components t) p"
  "\<not> filter_matches regex (Remote a) (subpath_filter t)"
  by (simp_all add: subpath_filter_def)

lemma list_ex_over: "list_ex f (map g xs) = list_ex (\<lambda>x. f (g x)) xs"
  by (induction xs) simp_all

lemma general_decisions:
  "profile_allows regex (general_rules P port) (''file-read'' @ x) (AtPath p)"
  "profile_allows regex (general_rules P port) (''file-write'' @ x) (AtPath p) \<longleftrightarrow>
     regex DEVICES p \<or> list_ex (\<lambda>t. prefix (path_components t) p) ([''/private/tmp'', ''/private/var/folders''] @ map path_text (sp_writable P))"
  "profile_allows regex (general_rules P port) (''network'' @ x) (Remote a) \<longleftrightarrow>
     x = ''-outbound'' \<and> a = ''localhost:'' @ digits_of port"
  unfolding general_rules_def profile_allows_def
  by (simp_all add: names_star [simplified append_Cons append_Nil] is_name_def list_ex_over subpath_matches)

lemma denials:
  assumes "proper_policy fs P"
  shows "r \<in> set (sp_read_only P) \<Longrightarrow>
      rule_decides regex (''file-read'' @ x) (AtPath p) (Group [Name ''deny'', Name ''file-write*'', subpath_filter (path_text r)]) =
        (if False then Some False else None)"
    and "r \<in> set (sp_read_only P) \<Longrightarrow>
      rule_decides regex (''file-write'' @ x) (AtPath p) (Group [Name ''deny'', Name ''file-write*'', subpath_filter (path_text r)]) =
        (if prefix r p then Some False else None)"
    and "r \<in> set (sp_read_only P) \<Longrightarrow>
      rule_decides regex (''network'' @ x) (Remote a) (Group [Name ''deny'', Name ''file-write*'', subpath_filter (path_text r)]) =
        (if False then Some False else None)"
    and "h \<in> set (sp_hide P) \<Longrightarrow> operation \<in> {''file-read'' @ x, ''file-write'' @ x} \<Longrightarrow>
      rule_decides regex operation (AtPath p) (Group [Name ''deny'', Name ''file-read*'', Name ''file-write*'',
        Group [Name (if hp_is_dir h then ''subpath'' else ''literal''), Text (path_text (hp_path h))]]) =
        (if hides h p then Some False else None)"
    and "h \<in> set (sp_hide P) \<Longrightarrow>
      rule_decides regex (''network'' @ x) (Remote a) (Group [Name ''deny'', Name ''file-read*'', Name ''file-write*'',
        Group [Name (if hp_is_dir h then ''subpath'' else ''literal''), Text (path_text (hp_path h))]]) =
        (if False then Some False else None)"
proof -
  have paths: "r \<in> set (sp_read_only P) \<Longrightarrow> path_components (path_text r) = r"
    "h \<in> set (sp_hide P) \<Longrightarrow> path_components (path_text (hp_path h)) = hp_path h" for r h
    using assms by (auto simp: proper_policy_def list_all_iff path_text_components)
  note names = names_star [simplified append_Cons append_Nil]
  show "r \<in> set (sp_read_only P) \<Longrightarrow>
      rule_decides regex (''file-read'' @ x) (AtPath p) (Group [Name ''deny'', Name ''file-write*'', subpath_filter (path_text r)]) =
        (if False then Some False else None)"
    by (simp add: names is_name_def subpath_filter_def)
  show "r \<in> set (sp_read_only P) \<Longrightarrow>
      rule_decides regex (''file-write'' @ x) (AtPath p) (Group [Name ''deny'', Name ''file-write*'', subpath_filter (path_text r)]) =
        (if prefix r p then Some False else None)"
    by (simp add: names is_name_def subpath_filter_def paths)
  show "r \<in> set (sp_read_only P) \<Longrightarrow>
      rule_decides regex (''network'' @ x) (Remote a) (Group [Name ''deny'', Name ''file-write*'', subpath_filter (path_text r)]) =
        (if False then Some False else None)"
    by (simp add: names is_name_def subpath_filter_def)
  show "h \<in> set (sp_hide P) \<Longrightarrow> operation \<in> {''file-read'' @ x, ''file-write'' @ x} \<Longrightarrow>
      rule_decides regex operation (AtPath p) (Group [Name ''deny'', Name ''file-read*'', Name ''file-write*'',
        Group [Name (if hp_is_dir h then ''subpath'' else ''literal''), Text (path_text (hp_path h))]]) =
        (if hides h p then Some False else None)"
    by (elim insertE; simp add: names is_name_def paths hides_def)
  show "h \<in> set (sp_hide P) \<Longrightarrow>
      rule_decides regex (''network'' @ x) (Remote a) (Group [Name ''deny'', Name ''file-read*'', Name ''file-write*'',
        Group [Name (if hp_is_dir h then ''subpath'' else ''literal''), Text (path_text (hp_path h))]]) =
        (if False then Some False else None)"
    by (simp add: names is_name_def)
qed

text \<open>C29: The profile for \<open>sandbox-exec\<close> says what the policy says. The text that fnox prints, whatever
  characters its paths contain, is read back as rules by which the last matching one decides. They let any
  path be read but the hidden ones, whole directories or single files; they let a path be written when it is one
  of the devices, temporary or below a writable path, and neither below a read-only path nor hidden; and they
  let the command connect to nothing but the proxy's port on this machine.\<close>

theorem seatbelt_decides_policy:
  assumes "proper_policy fs P"
  shows "\<exists>es. read_profile (seatbelt_profile P port) = Some es \<and>
    (\<forall>x p. profile_allows regex es (''file-read'' @ x) (AtPath p) \<longleftrightarrow> \<not> list_ex (\<lambda>h. hides h p) (sp_hide P)) \<and>
    (\<forall>x p. profile_allows regex es (''file-write'' @ x) (AtPath p) \<longleftrightarrow>
       (regex DEVICES p \<or> under_any ([path_components ''/private/tmp'', path_components ''/private/var/folders''] @ sp_writable P) p) \<and>
       \<not> under_any (sp_read_only P) p \<and> \<not> list_ex (\<lambda>h. hides h p) (sp_hide P)) \<and>
    (\<forall>x a. profile_allows regex es (''network'' @ x) (Remote a) \<longleftrightarrow>
       x = ''-outbound'' \<and> a = ''localhost:'' @ digits_of port)"
proof -
  have writable: "list_ex (\<lambda>t. prefix (path_components t) p) ([''/private/tmp'', ''/private/var/folders''] @ map path_text (sp_writable P)) =
      under_any ([path_components ''/private/tmp'', path_components ''/private/var/folders''] @ sp_writable P) p" for p
    using assms by (auto simp: under_any_def list_ex_iff proper_policy_def list_all_iff path_text_components)
  note deny = denials [OF assms]
  have never: "\<not> list_ex (\<lambda>_. False) xs" for xs :: "'x list" by (induction xs) simp_all
  have "profile_allows regex (profile_expressions P port) (''file-read'' @ x) (AtPath p) \<longleftrightarrow> \<not> list_ex (\<lambda>h. hides h p) (sp_hide P)" for x p
    unfolding profile_expressions_def decide_snoc fold_append comp_apply
    by (subst fold_denials [where denied = "\<lambda>h. hides h p"], rule deny(4), assumption, blast,
        subst fold_denials [where denied = "\<lambda>_. False"], rule deny(1), assumption) (simp only: general_decisions never simp_thms)
  moreover have "profile_allows regex (profile_expressions P port) (''file-write'' @ x) (AtPath p) \<longleftrightarrow>
       (regex DEVICES p \<or> under_any ([path_components ''/private/tmp'', path_components ''/private/var/folders''] @ sp_writable P) p) \<and>
       \<not> under_any (sp_read_only P) p \<and> \<not> list_ex (\<lambda>h. hides h p) (sp_hide P)" for x p
    unfolding profile_expressions_def decide_snoc fold_append comp_apply
    by (subst fold_denials [where denied = "\<lambda>h. hides h p"], rule deny(4), assumption, blast,
        subst fold_denials [where denied = "\<lambda>r. prefix r p"], rule deny(2), assumption)
      (simp only: general_decisions writable under_any_def simp_thms conj_assoc)
  moreover have "profile_allows regex (profile_expressions P port) (''network'' @ x) (Remote a) \<longleftrightarrow>
       x = ''-outbound'' \<and> a = ''localhost:'' @ digits_of port" for x a
    unfolding profile_expressions_def decide_snoc fold_append comp_apply
    by (subst fold_denials [where denied = "\<lambda>_. False"], rule deny(5), assumption,
        subst fold_denials [where denied = "\<lambda>_. False"], rule deny(3), assumption) (simp only: general_decisions never simp_thms)
  ultimately show ?thesis using lexes_read [OF profile_lexes [of P port]] by blast
qed

theorem seatbelt_decides_policy_witness:
  "\<exists>es. read_profile (seatbelt_profile demo_sandbox_policy 8080) = Some es \<and>
    \<not> profile_allows (\<lambda>_ _. False) es ''file-read-data'' (AtPath [''/'', ''p'', ''fnox.toml'']) \<and>
    profile_allows (\<lambda>_ _. False) es ''file-write-data'' (AtPath [''/'', ''p'', ''src'']) \<and>
    profile_allows (\<lambda>_ _. False) es ''network-outbound'' (Remote (''localhost:'' @ digits_of 8080))"
proof -
  have proper: "proper_policy demo_fs demo_sandbox_policy" by code_simp
  have hidden: "list_ex (\<lambda>h. hides h [''/'', ''p'', ''fnox.toml'']) (sp_hide demo_sandbox_policy)" by code_simp
  have source: "\<not> list_ex (\<lambda>h. hides h [''/'', ''p'', ''src'']) (sp_hide demo_sandbox_policy)"
    "under_any ([path_components ''/private/tmp'', path_components ''/private/var/folders''] @ sp_writable demo_sandbox_policy) [''/'', ''p'', ''src'']"
    "\<not> under_any (sp_read_only demo_sandbox_policy) [''/'', ''p'', ''src'']" by code_simp+
  show ?thesis
    using seatbelt_decides_policy [OF proper, of 8080 "\<lambda>_ _. False"]
  proof (elim exE conjE, intro exI conjI)
    fix es assume "read_profile (seatbelt_profile demo_sandbox_policy 8080) = Some es"
    then show "read_profile (seatbelt_profile demo_sandbox_policy 8080) = Some es" .
  next
    fix es assume decided: "\<forall>x p. profile_allows (\<lambda>_ _. False) es (''file-read'' @ x) (AtPath p) \<longleftrightarrow> \<not> list_ex (\<lambda>h. hides h p) (sp_hide demo_sandbox_policy)"
    show "\<not> profile_allows (\<lambda>_ _. False) es ''file-read-data'' (AtPath [''/'', ''p'', ''fnox.toml''])"
      using spec [OF spec [OF decided, of "''-data''"], of "[''/'', ''p'', ''fnox.toml'']"] hidden by simp
  next
    fix es assume decided: "\<forall>x p. profile_allows (\<lambda>_ _. False) es (''file-write'' @ x) (AtPath p) \<longleftrightarrow>
       (False \<or> under_any ([path_components ''/private/tmp'', path_components ''/private/var/folders''] @ sp_writable demo_sandbox_policy) p) \<and>
       \<not> under_any (sp_read_only demo_sandbox_policy) p \<and> \<not> list_ex (\<lambda>h. hides h p) (sp_hide demo_sandbox_policy)"
    show "profile_allows (\<lambda>_ _. False) es ''file-write-data'' (AtPath [''/'', ''p'', ''src''])"
      using spec [OF spec [OF decided, of "''-data''"], of "[''/'', ''p'', ''src'']"] source by simp
  next
    fix es assume decided: "\<forall>x a. profile_allows (\<lambda>_ _. False) es (''network'' @ x) (Remote a) \<longleftrightarrow> x = ''-outbound'' \<and> a = ''localhost:'' @ digits_of 8080"
    show "profile_allows (\<lambda>_ _. False) es ''network-outbound'' (Remote (''localhost:'' @ digits_of 8080))"
      using spec [OF spec [OF decided, of "''-outbound''"], of "''localhost:'' @ digits_of 8080"] by simp
  qed
qed

end
