(* ===== verification/Scan.thy ===== *)
theory Scan
  imports Complex_Main ConfigLoad Daemon Redact Shell "HOL-Library.Product_Lexorder"
begin

text \<open>
  \<open>fnox scan\<close> (\<open>src/commands/scan.rs\<close>): the search of files for secrets, by patterns or for the
  resolved values of a profile, in the working tree or in the index of git, and the installation of
  the pre-commit hook that runs it. git, the regular expressions, the globs and the walker of ignore
  files are fields of \<open>scan_library\<close> and \<open>scan_host\<close>. Offsets count characters where the code counts
  bytes, at which it only compares them and cuts at them. Writing a file either succeeds or changes
  nothing. The lemmas show that a scan for values misses no occurrence, at which line and column it
  reports it, what is read of the index, and that a hook is never lost.
\<close>

subsection \<open>Findings\<close>

datatype scan_severity = High | Medium

fun severity_str :: "scan_severity \<Rightarrow> string" where
  "severity_str High = ''high''"
| "severity_str Medium = ''medium''"

record scan_finding =
  sf_path :: string
  sf_line :: nat
  sf_column :: nat
  sf_detector :: string
  sf_severity :: scan_severity
  sf_redacted :: string
  sf_secret :: "string option"

record resolved_secret =
  rv_name :: string
  rv_value :: string

datatype matcher = Patterns | Values "resolved_secret list"

record scan_summary =
  sm_files_scanned :: nat
  sm_files_with_findings :: nat
  sm_findings :: nat

record scan_report =
  sr_findings :: "scan_finding list"
  sr_summary :: scan_summary

definition MAX_FILE_SIZE :: nat where
  "MAX_FILE_SIZE = 5 * 1024 * 1024"

definition MIN_SECRET_LEN :: nat where
  "MIN_SECRET_LEN = 8"

definition build_report :: "scan_finding list \<Rightarrow> nat \<Rightarrow> scan_report" where
  "build_report findings files_scanned =
     \<lparr>sr_findings = findings,
      sr_summary = \<lparr>sm_files_scanned = files_scanned,
                    sm_files_with_findings = length (remdups (map sf_path findings)),
                    sm_findings = length findings\<rparr>\<rparr>"

subsection \<open>Occurrences of values\<close>

function match_indices :: "string \<Rightarrow> string \<Rightarrow> nat list" where
  \<comment> \<open>where the occurrences that do not overlap begin, from the left\<close>
  "match_indices pat s =
     (if pat = [] then [0..<Suc (length s)]
      else case find_sub pat s of
             None \<Rightarrow> []
           | Some (before, rest) \<Rightarrow>
               length before # map (\<lambda>i. length before + length pat + i) (match_indices pat rest))"
  by pat_completeness auto
termination by (relation "measure (\<lambda>(_, s). length s)") (auto dest: find_sub_shorter)

declare match_indices.simps [simp del]

definition line_starts :: "string \<Rightarrow> nat list" where
  "line_starts content = 0 # map (\<lambda>i. i + 1) (match_indices [LF] content)"

definition partition_point :: "('a \<Rightarrow> bool) \<Rightarrow> 'a list \<Rightarrow> nat" where
  "partition_point P xs = length (takeWhile P xs)"

definition slice :: "'a list \<Rightarrow> nat \<Rightarrow> nat \<Rightarrow> 'a list" where
  "slice xs a b = take (b - a) (drop a xs)"

definition value_finding :: "string \<Rightarrow> string \<Rightarrow> string \<Rightarrow> nat \<Rightarrow> scan_finding" where
  \<comment> \<open>the finding of a value of a secret at an offset\<close>
  "value_finding path content name offset =
     (let starts = line_starts content;
          line_idx = partition_point (\<lambda>st. st \<le> offset) starts - 1
      in \<lparr>sf_path = path, sf_line = line_idx + 1,
          sf_column = length (slice content (starts ! line_idx) offset) + 1,
          sf_detector = ''resolved-secret'', sf_severity = High, sf_redacted = ''****'', sf_secret = Some name\<rparr>)"

definition by_position :: "scan_finding \<Rightarrow> nat \<times> nat" where
  "by_position f = (sf_line f, sf_column f)"

definition scan_values :: "string \<Rightarrow> string \<Rightarrow> resolved_secret list \<Rightarrow> scan_finding list" where
  "scan_values path content secrets =
     sort_key by_position
       (concat (map (\<lambda>secret. map (value_finding path content (rv_name secret)) (match_indices (rv_value secret) content)) secrets))"

subsection \<open>Patterns\<close>

text \<open>The regular expressions are compiled and run by the \<open>regex\<close> crate: \<open>sl_captures\<close> gives the
  matches of one of them in a text, with the offset and the text of each group.\<close>

datatype detector_regex =
    AWS_ACCESS_KEY_RE
  | GITHUB_TOKEN_RE
  | SLACK_TOKEN_RE
  | STRIPE_SECRET_RE
  | GOOGLE_API_KEY_RE
  | PEM_PRIVATE_KEY_RE
  | SECRET_ASSIGNMENT_RE

record detector =
  dt_name :: string
  dt_severity :: scan_severity
  dt_regex :: detector_regex
  dt_capture :: "string option"

record captures =
  cp_named :: "string \<Rightarrow> (nat \<times> string) option"
  cp_whole :: "(nat \<times> string) option"

definition DETECTORS :: "detector list" where
  "DETECTORS =
     [\<lparr>dt_name = ''aws-access-key'', dt_severity = High, dt_regex = AWS_ACCESS_KEY_RE, dt_capture = None\<rparr>,
      \<lparr>dt_name = ''github-token'', dt_severity = High, dt_regex = GITHUB_TOKEN_RE, dt_capture = None\<rparr>,
      \<lparr>dt_name = ''slack-token'', dt_severity = High, dt_regex = SLACK_TOKEN_RE, dt_capture = None\<rparr>,
      \<lparr>dt_name = ''stripe-live-secret-key'', dt_severity = High, dt_regex = STRIPE_SECRET_RE, dt_capture = None\<rparr>,
      \<lparr>dt_name = ''google-api-key'', dt_severity = High, dt_regex = GOOGLE_API_KEY_RE, dt_capture = None\<rparr>,
      \<lparr>dt_name = ''pem-private-key'', dt_severity = High, dt_regex = PEM_PRIVATE_KEY_RE, dt_capture = None\<rparr>,
      \<lparr>dt_name = ''secret-assignment'', dt_severity = Medium, dt_regex = SECRET_ASSIGNMENT_RE,
       dt_capture = Some ''secret''\<rparr>]"

record ('g, 's) scan_library =
  sl_captures :: "detector_regex \<Rightarrow> string \<Rightarrow> captures list"
  sl_glob :: "string \<Rightarrow> string + 'g"
  sl_glob_set :: "'g list \<Rightarrow> string + 's"
  sl_is_match :: "'s \<Rightarrow> path \<Rightarrow> bool"
  sl_utf8_lossy :: "bytes \<Rightarrow> string"
  sl_json_report :: "scan_report \<Rightarrow> string + string"
  sl_json_paths :: "string list \<Rightarrow> string + string"

fun line_column_from :: "nat \<Rightarrow> nat \<Rightarrow> nat \<Rightarrow> nat \<Rightarrow> string \<Rightarrow> nat \<times> nat" where
  \<comment> \<open>the loop over the characters: its index, the offset, the line and where it starts\<close>
  "line_column_from idx offset line line_start [] = (line, line_start)"
| "line_column_from idx offset line line_start (ch # cs) =
     (if idx \<ge> offset then (line, line_start)
      else if ch = LF then line_column_from (idx + 1) offset (line + 1) (idx + 1) cs
      else line_column_from (idx + 1) offset line line_start cs)"

definition line_column :: "string \<Rightarrow> nat \<Rightarrow> nat \<times> nat" where
  "line_column content offset =
     (case line_column_from 0 offset 1 0 content of
        (line, line_start) \<Rightarrow> (line, length (slice content line_start offset) + 1))"

definition shannon_entropy :: "string \<Rightarrow> real" where
  \<comment> \<open>over the reals, in any order of the characters\<close>
  "shannon_entropy v =
     (if v = [] then 0
      else \<Sum>ch \<leftarrow> remdups v. let probability = real (count_list v ch) / real (length v)
                          in - probability * log 2 probability)"

definition high_entropy :: "string \<Rightarrow> bool" where
  "high_entropy v \<longleftrightarrow> shannon_entropy v \<ge> 7 / 2"

text \<open>The test is one on integers, without logarithms.\<close>

lemma entropy_sum:
  assumes "0 < n" and "\<And>x. x \<in> set ds \<Longrightarrow> 0 < c x"
  shows "(\<Sum>x \<leftarrow> ds. - (real (c x) / real n) * log 2 (real (c x) / real n)) * real n =
    (\<Sum>x \<leftarrow> ds. real (c x)) * log 2 (real n) - (\<Sum>x \<leftarrow> ds. real (c x) * log 2 (real (c x)))"
  using assms(2)
proof (induction ds)
  case (Cons d ds)
  have "- (real (c d) / real n) * log 2 (real (c d) / real n) * real n = real (c d) * log 2 (real n) - real (c d) * log 2 (real (c d))"
    using assms(1) Cons.prems [of d] by (simp add: log_divide field_simps)
  then show ?case using Cons by (simp add: algebra_simps)
qed simp

lemma log_powers:
  assumes "\<And>x. x \<in> set ds \<Longrightarrow> 0 < c x"
  shows "log 2 (real (\<Prod>x \<leftarrow> ds. c x ^ (2 * c x))) = 2 * (\<Sum>x \<leftarrow> ds. real (c x) * log 2 (real (c x)))"
    and "0 < (\<Prod>x \<leftarrow> ds. c x ^ (2 * c x) :: nat)"
proof -
  have "0 < (\<Prod>x \<leftarrow> ds. c x ^ (2 * c x)) \<and>
    log 2 (real (\<Prod>x \<leftarrow> ds. c x ^ (2 * c x))) = 2 * (\<Sum>x \<leftarrow> ds. real (c x) * log 2 (real (c x)))"
    using assms
  proof (induction ds)
    case (Cons d ds)
    then have c: "0 < c d" by simp
    then have "log 2 (real (c d ^ (2 * c d))) = 2 * (real (c d) * log 2 (real (c d)))"
      by (simp add: log_nat_power)
    then show ?case using Cons c by (simp add: log_mult algebra_simps)
  qed simp
  then show "log 2 (real (\<Prod>x \<leftarrow> ds. c x ^ (2 * c x))) = 2 * (\<Sum>x \<leftarrow> ds. real (c x) * log 2 (real (c x)))"
    and "0 < (\<Prod>x \<leftarrow> ds. c x ^ (2 * c x) :: nat)" by simp_all
qed

lemma high_entropy_powers [code]:
  "high_entropy v \<longleftrightarrow>
     v \<noteq> [] \<and> 2 ^ (7 * length v) * (\<Prod>x \<leftarrow> remdups v. count_list v x ^ (2 * count_list v x)) \<le> length v ^ (2 * length v)"
proof (cases "v = []")
  case True
  then show ?thesis by (simp add: high_entropy_def shannon_entropy_def)
next
  case False
  let ?n = "length v" and ?c = "count_list v"
  let ?S = "\<Sum>x \<leftarrow> remdups v. real (?c x) * log 2 (real (?c x))" and ?P = "\<Prod>x \<leftarrow> remdups v. ?c x ^ (2 * ?c x)"
  have n: "0 < ?n" using False by simp
  have pos: "0 < ?c x" if "x \<in> set (remdups v)" for x using that by (simp add: count_list_0_iff flip: neq0_conv)
  have "(\<Sum>x \<leftarrow> remdups v. real (?c x)) = real (sum ?c (set v))"
    by (simp add: sum_list_distinct_conv_sum_set)
  then have total: "(\<Sum>x \<leftarrow> remdups v. real (?c x)) = real ?n" by (simp add: sum_count_set)
  have "shannon_entropy v * real ?n = real ?n * log 2 (real ?n) - ?S"
    using entropy_sum [of ?n "remdups v" ?c, OF n pos] False unfolding total by (simp add: shannon_entropy_def Let_def)
  moreover have "high_entropy v \<longleftrightarrow> 7 / 2 * real ?n \<le> shannon_entropy v * real ?n"
    using n by (simp add: high_entropy_def)
  ultimately have "high_entropy v \<longleftrightarrow> 7 * real ?n + 2 * ?S \<le> 2 * (real ?n * log 2 (real ?n))" by linarith
  also have "\<dots> \<longleftrightarrow> log 2 (real (2 ^ (7 * ?n) * ?P)) \<le> log 2 (real (?n ^ (2 * ?n)))"
  proof -
    have "log 2 (real (2 ^ (7 * ?n) * ?P)) = log 2 (2 ^ (7 * ?n)) + log 2 (real ?P)"
      using log_powers(2) [of "remdups v" ?c, OF pos] by (simp add: log_mult)
    also have "\<dots> = 7 * real ?n + 2 * ?S" using log_powers(1) [of "remdups v" ?c, OF pos] by simp
    finally have "log 2 (real (2 ^ (7 * ?n) * ?P)) = 7 * real ?n + 2 * ?S" .
    moreover have "log 2 (real (?n ^ (2 * ?n))) = 2 * (real ?n * log 2 (real ?n))" using n by (simp add: log_nat_power)
    ultimately show ?thesis by simp
  qed
  also have "\<dots> \<longleftrightarrow> 2 ^ (7 * ?n) * ?P \<le> ?n ^ (2 * ?n)"
  proof -
    have "0 < 2 ^ (7 * ?n) * ?P" using log_powers(2) [of "remdups v" ?c, OF pos] by simp
    moreover have "0 < ?n ^ (2 * ?n)" using n by simp
    ultimately show ?thesis by (simp only: log_le_cancel_iff [of 2] of_nat_0_less_iff of_nat_le_iff one_less_numeral_iff semiring_norm)
  qed
  finally show ?thesis using False by simp
qed
definition is_ascii_alphabetic :: "char \<Rightarrow> bool" where
  "is_ascii_alphabetic c \<longleftrightarrow> is_upper c \<or> is_lower c"

definition looks_like_secret :: "string \<Rightarrow> bool" where
  "looks_like_secret secret \<longleftrightarrow>
     (length (as_bytes secret) \<ge> 20 \<and> high_entropy secret) \<or>
     (length (as_bytes secret) \<ge> 8 \<and> list_ex is_ascii_alphabetic secret \<and>
      list_ex (\<lambda>ch. is_digit ch \<or> \<not> is_alphanumeric ch) secret \<and>
      to_ascii_lowercase secret \<notin> {''password'', ''changeme'', ''example'', ''placeholder''})"

definition redact_secret :: "string \<Rightarrow> string" where
  "redact_secret secret =
     (if length secret \<le> 8 then ''****''
      else take 4 secret @ ''...'' @ rev (take 4 (rev secret)))"

definition pattern_findings :: "('g, 's) scan_library \<Rightarrow> string \<Rightarrow> string \<Rightarrow> detector \<Rightarrow> captures \<Rightarrow> scan_finding list" where
  \<comment> \<open>the body of the inner loop\<close>
  "pattern_findings L path content d cp =
     (case or_else (Option.bind (dt_capture d) (cp_named cp)) (cp_whole cp) of
        None \<Rightarrow> []
      | Some (offset, secret) \<Rightarrow>
          if dt_name d = ''secret-assignment'' \<and> \<not> looks_like_secret secret then []
          else (case line_column content offset of
                  (line, column) \<Rightarrow>
                    [\<lparr>sf_path = path, sf_line = line, sf_column = column, sf_detector = dt_name d,
                      sf_severity = dt_severity d, sf_redacted = redact_secret secret, sf_secret = None\<rparr>]))"

definition scan_content :: "('g, 's) scan_library \<Rightarrow> string \<Rightarrow> string \<Rightarrow> scan_finding list" where
  "scan_content L path content =
     concat (map (\<lambda>d. concat (map (pattern_findings L path content d) (sl_captures L (dt_regex d) content))) DETECTORS)"

fun scan_text :: "('g, 's) scan_library \<Rightarrow> string \<Rightarrow> string \<Rightarrow> matcher \<Rightarrow> scan_finding list" where
  "scan_text L path content Patterns = scan_content L path content"
| "scan_text L path content (Values secrets) = scan_values path content secrets"

subsection \<open>The host\<close>

datatype scan_error =
    ScanFailed fnox_error
  | AppendWithoutInstall
  | IncludeIgnoredStaged
  | NothingResolved string
  | GitNotRun string
  | GitFailed string string
  | BatchCheckFailed string
  | BatchCheckCount
  | GlobInvalid string string
  | GlobSetInvalid string
  | HookUnreadable path string
  | HookExists path
  | HookNotShell path
  | ScanIoError string
  | JsonFailed string
  | ScanSecretsFound

record git_output =
  go_success :: bool
  go_stdout :: bytes
  go_stderr :: bytes

datatype file_type = RegularFile | Directory | OtherFile

record dir_entry =
  de_path :: path
  de_name :: "string option"
  de_type :: "file_type option"
  de_size :: "string + nat"
  de_bytes :: "string + bytes"

record hook_file =
  \<comment> \<open>the text, or why it cannot be read as UTF-8, and the mode\<close>
  hf_text :: "string + string"
  hf_mode :: "32 word"

datatype write_failure =
  \<comment> \<open>a file that cannot be opened for writing is unchanged; one that was opened is truncated and holds the
    bytes that were written before the failure\<close>
    NotOpened string
  | CutShort string nat

record ('p, 'l, 'w, 'g, 's) scan_host =
  sh_library :: "('g, 's) scan_library"
  sh_git :: "path \<Rightarrow> string list \<Rightarrow> string + git_output"
  sh_batch_check :: "path \<Rightarrow> string \<Rightarrow> string + git_output"
  sh_canonicalize :: "path \<Rightarrow> string + path"
  sh_current_dir :: "string + path"
  sh_walk :: "path \<Rightarrow> bool \<Rightarrow> (dir_entry \<Rightarrow> bool) \<Rightarrow> (string + dir_entry) list"
  sh_display :: "path \<Rightarrow> string"
  sh_create_dir_error :: "path \<Rightarrow> string option"
  sh_write_error :: "path \<Rightarrow> write_failure option"
  sh_chmod_error :: "path \<Rightarrow> string option"
  sh_create_mode :: "32 word"
  sh_world :: "('p, 'l) world"
  sh_client :: "('p, 'w) client_host"
  sh_settings :: "client_settings option"
  sh_non_interactive :: bool

definition build_ignore_globs :: "('g, 's) scan_library \<Rightarrow> string list \<Rightarrow> scan_error + 's option" where
  "build_ignore_globs L patterns =
     (if patterns = [] then Inr None
      else let add = (\<lambda>globs (shown, pattern).
             bind_sum globs (\<lambda>gs. case sl_glob L pattern of Inl e \<Rightarrow> Inl (GlobInvalid shown e) | Inr g \<Rightarrow> Inr (gs @ [g])))
           in bind_sum
                (foldl (\<lambda>globs pattern.
                   let globs = add globs (pattern, pattern)
                   in if CHR ''/'' \<in> set pattern then globs else add globs (pattern, ''**/'' @ pattern))
                   (Inr []) patterns)
                (\<lambda>gs. case sl_glob_set L gs of Inl e \<Rightarrow> Inl (GlobSetInvalid e) | Inr globs \<Rightarrow> Inr (Some globs)))"

definition ignored_by_globs :: "('g, 's) scan_library \<Rightarrow> 's option \<Rightarrow> path \<Rightarrow> path \<Rightarrow> bool" where
  "ignored_by_globs L globs rel path =
     (case globs of
        None \<Rightarrow> False
      | Some g \<Rightarrow> sl_is_match L g rel \<or>
                  (case file_name path of Some name \<Rightarrow> sl_is_match L g (path_components name) | None \<Rightarrow> False))"

subsection \<open>The index of git\<close>

record staged_file =
  st_path :: bytes
  st_sha :: string

definition git :: "('p, 'l, 'w, 'g, 's) scan_host \<Rightarrow> path \<Rightarrow> string list \<Rightarrow> scan_error + bytes" where
  "git H dir args =
     (case sh_git H dir args of
        Inl e \<Rightarrow> Inl (GitNotRun e)
      | Inr output \<Rightarrow>
          if \<not> go_success output
          then Inl (GitFailed (join '' '' args) (trim (sl_utf8_lossy (sh_library H) (go_stderr output))))
          else Inr (go_stdout output))"

definition staged_display :: "('g, 's) scan_library \<Rightarrow> staged_file \<Rightarrow> string" where
  "staged_display L f = sl_utf8_lossy L (st_path f)"

definition trim_line_end :: "string \<Rightarrow> string" where
  \<comment> \<open>\<open>trim_end_matches(['\n', '\r'])\<close>\<close>
  "trim_line_end s = rev (dropWhile (\<lambda>c. c \<in> {LF, CHR 0x0D}) (rev s))"

fun split_on :: "'a \<Rightarrow> 'a list \<Rightarrow> 'a list list" where
  "split_on d [] = [[]]"
| "split_on d (c # cs) =
     (if c = d then [] # split_on d cs
      else (case split_on d cs of w # ws \<Rightarrow> (c # w) # ws | [] \<Rightarrow> [[c]]))"

definition nth_word :: "nat \<Rightarrow> string \<Rightarrow> string option" where
  "nth_word n s = (let ws = split_whitespace s in if n < length ws then Some (ws ! n) else None)"

fun staged_entries :: "(bytes \<Rightarrow> string) \<Rightarrow> bytes list \<Rightarrow> staged_file list" where
  \<comment> \<open>the loop over pairs of fields; symbolic links and submodules are no content\<close>
  "staged_entries lossy (meta # path # fs) =
     (let meta = lossy meta;
          new_mode = (case nth_word 1 meta of Some m \<Rightarrow> m | None \<Rightarrow> [])
      in if new_mode = ''120000'' \<or> new_mode = ''160000'' then staged_entries lossy fs
         else (case nth_word 3 meta of
                 None \<Rightarrow> staged_entries lossy fs
               | Some sha \<Rightarrow> \<lparr>st_path = path, st_sha = sha\<rparr> # staged_entries lossy fs))"
| "staged_entries lossy fs = []"

definition staged_files :: "('p, 'l, 'w, 'g, 's) scan_host \<Rightarrow> path \<Rightarrow> scan_error + path \<times> staged_file list" where
  "staged_files H dir =
     bind_sum (git H dir [''rev-parse'', ''--show-toplevel'']) (\<lambda>repo.
       let lossy = sl_utf8_lossy (sh_library H);
           repo = path_components (trim_line_end (lossy repo))
       in bind_sum (git H repo [''diff'', ''--cached'', ''--raw'', ''-z'', ''--diff-filter=ACMR'', ''--no-renames'']) (\<lambda>raw.
            Inr (repo, staged_entries lossy (filter (\<lambda>f. f \<noteq> []) (split_on 0 raw)))))"

definition staged_size :: "string \<Rightarrow> nat" where
  "staged_size line =
     (case Option.bind (nth_word 2 line) (parse_bounded (2 ^ 64)) of Some n \<Rightarrow> n | None \<Rightarrow> 2 ^ 64 - 1)"

definition staged_sizes :: "('p, 'l, 'w, 'g, 's) scan_host \<Rightarrow> path \<Rightarrow> staged_file list \<Rightarrow> scan_error + nat list" where
  "staged_sizes H repo files =
     (if files = [] then Inr []
      else case sh_batch_check H repo (concat (map (\<lambda>f. st_sha f @ [LF]) files)) of
             Inl e \<Rightarrow> Inl (GitNotRun e)
           | Inr output \<Rightarrow>
               if \<not> go_success output
               then Inl (BatchCheckFailed (trim (sl_utf8_lossy (sh_library H) (go_stderr output))))
               else let sizes = map staged_size (str_lines (sl_utf8_lossy (sh_library H) (go_stdout output)))
                    in if length sizes \<noteq> length files then Inl BatchCheckCount else Inr sizes)"

definition read_staged_blob :: "('p, 'l, 'w, 'g, 's) scan_host \<Rightarrow> path \<Rightarrow> staged_file \<Rightarrow> scan_error + bytes" where
  "read_staged_blob H repo f = git H repo [''cat-file'', ''blob'', st_sha f]"

fun scan_blobs ::
  "('p, 'l, 'w, 'g, 's) scan_host \<Rightarrow> 's option \<Rightarrow> matcher \<Rightarrow> path \<Rightarrow> (staged_file \<times> nat) list \<Rightarrow>
   scan_finding list \<times> nat \<Rightarrow> scan_error + scan_finding list \<times> nat" where
  \<comment> \<open>the loop over the files with their sizes; the findings so far and the number of files read\<close>
  "scan_blobs H globs m repo [] acc = Inr acc"
| "scan_blobs H globs m repo ((f, len) # rest) acc =
     (let L = sh_library H; path = staged_display L f
      in if ignored_by_globs L globs (path_components path) (path_components path) \<or> len > MAX_FILE_SIZE
         then scan_blobs H globs m repo rest acc
         else bind_sum (read_staged_blob H repo f) (\<lambda>bs.
                if 0 \<in> set bs then scan_blobs H globs m repo rest acc
                else scan_blobs H globs m repo rest
                       (fst acc @ scan_text L path (sl_utf8_lossy L bs) m, snd acc + 1)))"

definition scan_staged ::
  "('p, 'l, 'w, 'g, 's) scan_host \<Rightarrow> path \<Rightarrow> 's option \<Rightarrow> matcher \<Rightarrow> scan_error + scan_report" where
  "scan_staged H dir globs m =
     bind_sum (staged_files H dir) (\<lambda>(repo, files).
     bind_sum (staged_sizes H repo files) (\<lambda>sizes.
     bind_sum (scan_blobs H globs m repo (zip files sizes) ([], 0)) (\<lambda>(findings, files_scanned).
       Inr (build_report findings files_scanned))))"

subsection \<open>The working tree\<close>

definition should_visit_entry :: "dir_entry \<Rightarrow> bool" where
  "should_visit_entry entry \<longleftrightarrow>
     de_type entry \<noteq> Some Directory \<or>
     (case de_name entry of
        None \<Rightarrow> True
      | Some name \<Rightarrow> name \<notin> {''.git'', ''.hg'', ''.svn'', ''target'', ''node_modules'', ''vendor'', ''dist'', ''build'',
                                 ''.next'', ''.cache'', ''coverage''})"

definition path_strip_prefix :: "path \<Rightarrow> path \<Rightarrow> path option" where
  "path_strip_prefix base path = (if take (length base) path = base then Some (drop (length base) path) else None)"

definition relative_to :: "path \<Rightarrow> path \<Rightarrow> path" where
  \<comment> \<open>\<open>path.strip_prefix(base).unwrap_or(path)\<close>\<close>
  "relative_to base path = (case path_strip_prefix base path of Some rel \<Rightarrow> rel | None \<Rightarrow> path)"

definition display_path :: "('p, 'l, 'w, 'g, 's) scan_host \<Rightarrow> path \<Rightarrow> path \<Rightarrow> string" where
  "display_path H path cwd = sh_display H (relative_to cwd path)"

definition scan_entry ::
  "('p, 'l, 'w, 'g, 's) scan_host \<Rightarrow> path \<Rightarrow> path \<Rightarrow> 's option \<Rightarrow> string + dir_entry \<Rightarrow> (string \<times> string) option" where
  \<comment> \<open>the body of the loop over the walk, up to the content: the shown path and the text of a file that is searched\<close>
  "scan_entry H base cwd globs result =
     (case result of
        Inl _ \<Rightarrow> None
      | Inr entry \<Rightarrow>
          let L = sh_library H; path = de_path entry
          in if de_type entry \<noteq> Some RegularFile then None
             else if ignored_by_globs L globs (relative_to base path) path then None
             else (case de_size entry of
                     Inl _ \<Rightarrow> None
                   | Inr len \<Rightarrow>
                       if len > MAX_FILE_SIZE then None
                       else (case de_bytes entry of
                               Inl _ \<Rightarrow> None
                             | Inr bs \<Rightarrow> if 0 \<in> set bs then None
                                          else Some (display_path H path cwd, sl_utf8_lossy L bs))))"

definition scan_directory ::
  "('p, 'l, 'w, 'g, 's) scan_host \<Rightarrow> path \<Rightarrow> 's option \<Rightarrow> bool \<Rightarrow> matcher \<Rightarrow> scan_error + scan_report" where
  "scan_directory H dir globs include_ignored m =
     (case sh_canonicalize H dir of
        Inl e \<Rightarrow> Inl (ScanIoError e)
      | Inr base \<Rightarrow>
          (case sh_current_dir H of
             Inl e \<Rightarrow> Inl (ScanIoError e)
           | Inr cwd \<Rightarrow>
               let texts = List.map_filter (scan_entry H base cwd globs)
                             (sh_walk H base (\<not> include_ignored) should_visit_entry)
               in Inr (build_report (concat (map (\<lambda>(path, content). scan_text (sh_library H) path content m) texts))
                                    (length texts))))"

subsection \<open>The hook\<close>

type_synonym hook_files = "path \<Rightarrow> hook_file option"

definition HOOK_MARKER :: string where
  "HOOK_MARKER = ''# fnox-scan-hook''"

definition in_lines :: "string list \<Rightarrow> string" where
  "in_lines ls = concat (map (\<lambda>l. l @ [LF]) ls)"

definition hook_block :: "bool \<Rightarrow> string" where
  "hook_block appending =
     in_lines
       ([HOOK_MARKER] @ (if appending then [''fnox_prev_status=$?''] else []) @
        [''if command -v fnox >/dev/null 2>&1; then'',
         ''  fnox scan --values --staged || exit 1'',
         ''else'',
         ''  echo '' @ [DQUOTE] @ ''fnox not found; skipping secret scan'' @ [DQUOTE] @ '' >&2'',
         ''fi''] @
        (if appending then [''exit '' @ [DQUOTE] @ ''$fnox_prev_status'' @ [DQUOTE]] else []))"

definition base_name :: "string \<Rightarrow> string" where
  "base_name word = last (split_char CHR ''/'' word)"

function env_shell :: "string list \<Rightarrow> string option" where
  \<comment> \<open>the first word after \<open>env\<close> that is neither an option, nor its argument, nor an assignment\<close>
  "env_shell [] = None"
| "env_shell (word # words) =
     (if word \<in> {''-u'', ''--unset'', ''-C'', ''--chdir''} then env_shell (drop 1 words)
      else if \<not> starts_with ''-'' word \<and> CHR ''='' \<notin> set word then Some (base_name word)
      else env_shell words)"
  by pat_completeness auto
termination by (relation "measure length") auto

definition is_posix_shell_shebang :: "string \<Rightarrow> bool" where
  "is_posix_shell_shebang script =
     (case str_lines script of
        [] \<Rightarrow> False
      | l # _ \<Rightarrow>
          (case strip_prefix ''#!'' l of
             None \<Rightarrow> False
           | Some line \<Rightarrow>
               (case split_whitespace line of
                  [] \<Rightarrow> False
                | first # words \<Rightarrow>
                    (case (if base_name first = ''env'' then env_shell words else Some (base_name first)) of
                       None \<Rightarrow> False
                     | Some interpreter \<Rightarrow>
                         interpreter \<in> {''sh'', ''bash'', ''dash'', ''ash'', ''ksh'', ''zsh''}))))"

definition written_file :: "hook_files \<Rightarrow> path \<Rightarrow> 32 word \<Rightarrow> string + string \<Rightarrow> hook_file" where
  \<comment> \<open>\<open>fs::write\<close> keeps the mode of a file that exists\<close>
  "written_file fs path create_mode t =
     \<lparr>hf_text = t, hf_mode = (case fs path of Some f \<Rightarrow> hf_mode f | None \<Rightarrow> create_mode)\<rparr>"

definition written_part :: "nat \<Rightarrow> string \<Rightarrow> string + string" where
  \<comment> \<open>the first bytes of a text as \<open>read_to_string\<close> finds them\<close>
  "written_part n t =
     (case latin_utf8 (take n (as_bytes t)) of
        Some part \<Rightarrow> Inr part
      | None \<Rightarrow> Inl ''stream did not contain valid UTF-8'')"

definition write_hook :: "('p, 'l, 'w, 'g, 's) scan_host \<Rightarrow> path \<Rightarrow> string \<Rightarrow> (hook_files, scan_error, unit) comp" where
  "write_hook H path t = (\<lambda>fs.
     case sh_write_error H path of
       Some (NotOpened e) \<Rightarrow> (Inl (ScanIoError e), fs)
     | Some (CutShort e n) \<Rightarrow>
         (Inl (ScanIoError e), fs(path \<mapsto> written_file fs path (sh_create_mode H) (written_part n t)))
     | None \<Rightarrow> (Inr (), fs(path \<mapsto> written_file fs path (sh_create_mode H) (Inr t))))"

definition exec_bits :: "32 word \<Rightarrow> 32 word" where
  \<comment> \<open>execute only where read is already granted\<close>
  "exec_bits mode = drop_bit 2 (and mode 292)"

definition make_executable :: "('p, 'l, 'w, 'g, 's) scan_host \<Rightarrow> path \<Rightarrow> (hook_files, scan_error, unit) comp" where
  "make_executable H hook = (\<lambda>fs.
     case fs hook of
       None \<Rightarrow> (Inl (ScanIoError ''not found''), fs)
     | Some f \<Rightarrow>
         (case sh_chmod_error H hook of
            Some e \<Rightarrow> (Inl (ScanIoError e), fs)
          | None \<Rightarrow> (Inr (), fs(hook \<mapsto> f\<lparr>hf_mode := or (hf_mode f) (exec_bits (hf_mode f))\<rparr>))))"

definition install_hook_in ::
  "('p, 'l, 'w, 'g, 's) scan_host \<Rightarrow> path \<Rightarrow> bool \<Rightarrow> (hook_files, scan_error, string) comp" where
  "install_hook_in H hooks_dir appending =
     (let hook = path_join hooks_dir [''pre-commit'']; shown = sh_display H hook
      in case sh_create_dir_error H hooks_dir of
           Some e \<Rightarrow> err (ScanIoError e)
         | None \<Rightarrow>
             andThen get_state (\<lambda>fs.
               case fs hook of
                 Some f \<Rightarrow>
                   (case hf_text f of
                      Inl e \<Rightarrow> err (HookUnreadable hook e)
                    | Inr existing \<Rightarrow>
                        if contains existing HOOK_MARKER then ok (''fnox hook already installed at '' @ shown)
                        else if \<not> appending then err (HookExists hook)
                        else if \<not> is_posix_shell_shebang existing then err (HookNotShell hook)
                        else let updated = (if ends_with [LF] existing then existing else existing @ [LF])
                             in andThen (write_hook H hook (updated @ [LF] @ hook_block True)) (\<lambda>_.
                                andThen (make_executable H hook) (\<lambda>_.
                                ok (''Appended fnox secret scan to '' @ shown @
                                    ''. Note: an earlier `exit` in that script would skip it.''))))
               | None \<Rightarrow>
                   andThen (write_hook H hook (''#!/bin/sh'' @ [LF] @ hook_block False)) (\<lambda>_.
                   andThen (make_executable H hook) (\<lambda>_.
                   ok (''Installed pre-commit hook at '' @ shown)))))"

definition install_hook ::
  "('p, 'l, 'w, 'g, 's) scan_host \<Rightarrow> path \<Rightarrow> bool \<Rightarrow> (hook_files, scan_error, string) comp" where
  "install_hook H dir appending =
     (case git H dir [''rev-parse'', ''--git-path'', ''hooks''] of
        Inl e \<Rightarrow> err e
      | Inr hooks \<Rightarrow>
          install_hook_in H (path_join dir (path_components (trim_line_end (sl_utf8_lossy (sh_library H) hooks)))) appending)"

subsection \<open>The command\<close>

datatype scan_format = Human | JsonFormat

record scan_command =
  sn_dir :: path
  sn_ignore :: "string list"
  sn_quiet :: bool
  sn_append :: bool
  sn_format :: scan_format
  sn_include_ignored :: bool
  sn_install_hook :: bool
  sn_staged :: bool
  sn_values :: bool

record 'w scan_state =
  ss_client :: "'w client"
  ss_files :: hook_files
  ss_out :: "string list"
  ss_err :: "string list"

type_synonym ('w, 'a) scan_effect = "('w scan_state, scan_error, 'a) comp"

definition scan_println :: "string \<Rightarrow> ('w, unit) scan_effect" where
  "scan_println l = modify (\<lambda>s. s\<lparr>ss_out := ss_out s @ [l]\<rparr>)"

definition scan_eprintln :: "string \<Rightarrow> ('w, unit) scan_effect" where
  "scan_eprintln l = modify (\<lambda>s. s\<lparr>ss_err := ss_err s @ [l]\<rparr>)"

definition on_scan_client :: "('w, 'a) client_effect \<Rightarrow> ('w, 'a) scan_effect" where
  "on_scan_client m = (\<lambda>s. case m (ss_client s) of
     (Inl e, cl) \<Rightarrow> (Inl (ScanFailed e), s\<lparr>ss_client := cl\<rparr>)
   | (Inr v, cl) \<Rightarrow> (Inr v, s\<lparr>ss_client := cl\<rparr>))"

definition on_hook_files :: "(hook_files, scan_error, 'a) comp \<Rightarrow> ('w, 'a) scan_effect" where
  "on_hook_files m = (\<lambda>s. case m (ss_files s) of (r, fs) \<Rightarrow> (r, s\<lparr>ss_files := fs\<rparr>))"

definition as_scan_error :: "fnox_error + 'a \<Rightarrow> ('w, 'a) scan_effect" where
  "as_scan_error r = (case r of Inl e \<Rightarrow> err (ScanFailed e) | Inr v \<Rightarrow> ok v)"

fun sort_values ::
  "(string \<times> string option) list \<Rightarrow> resolved_secret list \<times> string list \<times> string list" where
  \<comment> \<open>the values to search for, the names without a value, and those whose value is too short\<close>
  "sort_values [] = ([], [], [])"
| "sort_values ((name, v) # vs) =
     (case sort_values vs of
        (secrets, unresolved, too_short) \<Rightarrow>
          (case v of
             None \<Rightarrow> (secrets, name # unresolved, too_short)
           | Some v \<Rightarrow>
               let trimmed = trim v
               in if length trimmed < MIN_SECRET_LEN then (secrets, unresolved, name # too_short)
                  else (\<lparr>rv_name = name, rv_value = trimmed\<rparr> # secrets, unresolved, too_short)))"

definition resolve_secret_values ::
  "('p, 'l, 'w, 'g, 's) scan_host \<Rightarrow> command_line \<Rightarrow> ('p, 'l) config \<Rightarrow> ('w, resolved_secret list) scan_effect" where
  "resolve_secret_values H cli c =
     (let ps = get_profiles (sh_world H) (ct_profile cli)
      in andThen (as_scan_error (get_secrets_with_no_defaults c ps (sv_no_defaults (mh_services (sh_client H))))) (\<lambda>profile_secrets.
         if profile_secrets = []
         then andThen (scan_eprintln (''Warning: no secrets defined in profile '' @ [QUOTE] @ display_profiles ps @ [QUOTE] @
                                      ''; nothing to scan for'')) (\<lambda>_. ok [])
         else andThen (on_scan_client (resolve_batch_with_context (sh_client H)
                         (context_of cli (sh_settings H) (sh_non_interactive H)) c ps profile_secrets PListValues True)) (\<lambda>vs.
              case sort_values vs of
                (secrets, unresolved, too_short) \<Rightarrow>
                  andThen (if unresolved = [] then ok ()
                           else scan_eprintln (''Warning: '' @ digits_of (length unresolved) @
                             '' secret(s) have no value and were not checked: '' @ join '', '' unresolved)) (\<lambda>_.
                  andThen (if too_short = [] then ok ()
                           else scan_eprintln (''Note: '' @ digits_of (length too_short) @
                             '' secret(s) are empty or shorter than '' @ digits_of MIN_SECRET_LEN @
                             '' characters and were skipped: '' @ join '', '' too_short)) (\<lambda>_.
                  if secrets = [] \<and> unresolved \<noteq> [] then err (NothingResolved (join '', '' unresolved)) else ok secrets)))))"

definition human_line :: "scan_finding \<Rightarrow> string" where
  "human_line f =
     sf_path f @ '':'' @ digits_of (sf_line f) @ '':'' @ digits_of (sf_column f) @ '' ['' @ sf_detector f @
     (case sf_secret f of
        Some name \<Rightarrow> ''] '' @ name @ '' = '' @ sf_redacted f
      | None \<Rightarrow> '' '' @ severity_str (sf_severity f) @ ''] '' @ sf_redacted f)"

definition print_human_report :: "string \<Rightarrow> scan_report \<Rightarrow> bool \<Rightarrow> bool \<Rightarrow> string list" where
  "print_human_report dir report vals staged =
     (let noun = (if vals then ''resolved secret value'' else ''potential secret'');
          place = (if staged then ''the git index'' else dir); sm = sr_summary report
      in if sr_findings report = []
         then [''No '' @ noun @ ''s found in '' @ digits_of (sm_files_scanned sm) @ '' file(s) under '' @ place]
         else (''Found '' @ digits_of (sm_findings sm) @ '' '' @ noun @ ''(s) in '' @ digits_of (sm_files_with_findings sm) @
               '' file(s):'') # map human_line (sr_findings report))"

definition report_paths :: "scan_report \<Rightarrow> string list" where
  \<comment> \<open>the elements of the \<open>BTreeSet\<close>, in its order\<close>
  "report_paths report = sort (remdups (map sf_path (sr_findings report)))"

definition report_lines ::
  "('p, 'l, 'w, 'g, 's) scan_host \<Rightarrow> scan_command \<Rightarrow> scan_report \<Rightarrow> scan_error + string list" where
  \<comment> \<open>\<open>print_quiet_report\<close>, \<open>print_quiet_json_report\<close>, \<open>print_human_report\<close> or the JSON text\<close>
  "report_lines H cmd report =
     (let json = (\<lambda>r. case r of Inl e \<Rightarrow> Inl (JsonFailed e) | Inr t \<Rightarrow> Inr [t]); L = sh_library H
      in case (sn_quiet cmd, sn_format cmd) of
           (True, Human) \<Rightarrow> Inr (report_paths report)
         | (True, JsonFormat) \<Rightarrow> json (sl_json_paths L (report_paths report))
         | (False, Human) \<Rightarrow> Inr (print_human_report (sh_display H (sn_dir cmd)) report (sn_values cmd) (sn_staged cmd))
         | (False, JsonFormat) \<Rightarrow> json (sl_json_report L report))"

definition scan_run ::
  "('p, 'l, 'w, 'g, 's) scan_host \<Rightarrow> scan_command \<Rightarrow> command_line \<Rightarrow> ('p, 'l) config \<Rightarrow> ('w, unit) scan_effect" where
  "scan_run H cmd cli c =
     (if sn_install_hook cmd
      then andThen (on_hook_files (install_hook H (sn_dir cmd) (sn_append cmd))) scan_println
      else if sn_append cmd then err AppendWithoutInstall
      else if sn_include_ignored cmd \<and> sn_staged cmd then err IncludeIgnoredStaged
      else andThen (lift_sum (build_ignore_globs (sh_library H) (sn_ignore cmd))) (\<lambda>globs.
           andThen (if sn_values cmd then andThen (resolve_secret_values H cli c) (\<lambda>secrets. ok (Values secrets))
                    else ok Patterns) (\<lambda>m.
           andThen (lift_sum (if sn_staged cmd then scan_staged H (sn_dir cmd) globs m
                              else scan_directory H (sn_dir cmd) globs (sn_include_ignored cmd) m)) (\<lambda>report.
           andThen (lift_sum (report_lines H cmd report)) (\<lambda>ls.
           andThen (modify (\<lambda>s. s\<lparr>ss_out := ss_out s @ ls\<rparr>)) (\<lambda>_.
             if sr_findings report \<noteq> [] then err ScanSecretsFound else ok ()))))))"

subsection \<open>Occurrences and positions\<close>

definition occurs_at :: "string \<Rightarrow> string \<Rightarrow> nat \<Rightarrow> bool" where
  "occurs_at pat s i \<longleftrightarrow> (\<exists>a b. s = a @ pat @ b \<and> length a = i)"

lemma occurs_at_Cons: "occurs_at pat (c # s) (Suc i) \<longleftrightarrow> occurs_at pat s i"
proof
  assume "occurs_at pat (c # s) (Suc i)"
  then obtain a b where "c # s = a @ pat @ b" and "length a = Suc i" by (auto simp: occurs_at_def)
  then show "occurs_at pat s i" by (cases a) (auto simp: occurs_at_def)
next
  assume "occurs_at pat s i"
  then obtain a b where "s = a @ pat @ b" and "length a = i" by (auto simp: occurs_at_def)
  then have "c # s = (c # a) @ pat @ b \<and> length (c # a) = Suc i" by simp
  then show "occurs_at pat (c # s) (Suc i)" unfolding occurs_at_def by blast
qed

lemma occurs_at_0: "occurs_at pat s 0 \<longleftrightarrow> strip_prefix pat s \<noteq> None"
  by (auto simp: occurs_at_def strip_prefix_def) (metis append_take_drop_id)

lemma occurs_at_shift: "occurs_at pat (a @ s) (length a + i) \<longleftrightarrow> occurs_at pat s i"
  by (induction a) (simp_all add: occurs_at_Cons)

lemma occurs_at_bound: "occurs_at pat s i \<Longrightarrow> i + length pat \<le> length s"
  by (auto simp: occurs_at_def)

lemma contains_occurs: "contains s pat \<longleftrightarrow> (\<exists>i. occurs_at pat s i)"
  by (auto simp: contains_iff occurs_at_def)

lemma find_sub_first:
  "find_sub pat s = Some (a, b) \<Longrightarrow> occurs_at pat s i \<Longrightarrow> length a \<le> i"
proof (induction s arbitrary: a i)
  case (Cons c s)
  show ?case
  proof (cases i)
    case 0
    with Cons.prems show ?thesis by (auto simp: occurs_at_0 split: option.splits)
  next
    case (Suc j)
    with Cons.prems(2) have "occurs_at pat s j" by (simp add: occurs_at_Cons)
    with Cons.IH Cons.prems(1) Suc show ?thesis by (auto split: option.splits)
  qed
qed (auto split: if_splits)

lemma match_indices_None: "pat \<noteq> [] \<Longrightarrow> find_sub pat s = None \<Longrightarrow> match_indices pat s = []"
  by (subst match_indices.simps) simp

lemma match_indices_Some:
  "pat \<noteq> [] \<Longrightarrow> find_sub pat s = Some (a, b) \<Longrightarrow>
   match_indices pat s = length a # map (\<lambda>i. length a + length pat + i) (match_indices pat b)"
  by (subst match_indices.simps) simp

lemma match_indices_occur: "pat \<noteq> [] \<Longrightarrow> i \<in> set (match_indices pat s) \<Longrightarrow> occurs_at pat s i"
proof (induction pat s arbitrary: i rule: match_indices.induct)
  case (1 pat s)
  then obtain a b where f: "find_sub pat s = Some (a, b)" by (cases "find_sub pat s") (auto simp: match_indices_None)
  then have s: "s = a @ pat @ b" by (rule find_sub_split)
  show ?case
  proof (cases "i = length a")
    case True
    then show ?thesis using s by (auto simp: occurs_at_def)
  next
    case False
    then obtain j where j: "j \<in> set (match_indices pat b)" "i = length a + length pat + j"
      using 1 f by (auto simp: match_indices_Some)
    then have "occurs_at pat b j" using 1 f by auto
    then show ?thesis using occurs_at_shift [of pat "a @ pat" b j] j(2) s by (simp add: add.assoc)
  qed
qed

lemma match_indices_cover:
  "pat \<noteq> [] \<Longrightarrow> occurs_at pat s j \<Longrightarrow> \<exists>i \<in> set (match_indices pat s). i \<le> j \<and> j < i + length pat"
proof (induction pat s arbitrary: j rule: match_indices.induct)
  case (1 pat s)
  then obtain a b where f: "find_sub pat s = Some (a, b)"
    using contains_occurs [of s pat] by (auto simp: contains_def)
  then have s: "s = a @ pat @ b" by (rule find_sub_split)
  have first: "length a \<le> j" using find_sub_first f 1 by blast
  show ?case
  proof (cases "j < length a + length pat")
    case True
    then show ?thesis using first f 1 by (auto simp: match_indices_Some)
  next
    case False
    then obtain k where k: "j = length (a @ pat) + k" by (metis le_iff_add length_append not_le)
    then have "occurs_at pat b k" using occurs_at_shift [of pat "a @ pat" b k] 1 s by simp
    then obtain i where "i \<in> set (match_indices pat b)" "i \<le> k" "k < i + length pat" using 1 f by blast
    then show ?thesis using f 1(2) k by (auto simp: match_indices_Some)
  qed
qed

lemma match_indices_apart: "pat \<noteq> [] \<Longrightarrow> sorted_wrt (\<lambda>i j. i + length pat \<le> j) (match_indices pat s)"
proof (induction pat s rule: match_indices.induct)
  case (1 pat s)
  show ?case
  proof (cases "find_sub pat s")
    case (Some p)
    with 1 show ?thesis by (cases p) (auto simp: match_indices_Some sorted_wrt_map)
  qed (use 1 in \<open>simp add: match_indices_None\<close>)
qed

lemma match_indices_char:
  "match_indices [c] [] = []"
  "match_indices [c] (x # xs) =
     (if x = c then 0 # map Suc (match_indices [c] xs) else map Suc (match_indices [c] xs))"
proof -
  show "match_indices [c] [] = []" by (simp add: match_indices_None)
  show "match_indices [c] (x # xs) =
     (if x = c then 0 # map Suc (match_indices [c] xs) else map Suc (match_indices [c] xs))"
  proof (cases "x = c")
    case True
    then have "find_sub [c] (x # xs) = Some ([], xs)" by (simp add: strip_prefix_def)
    then show ?thesis using True by (simp add: match_indices_Some)
  next
    case False
    then have here: "strip_prefix [c] (x # xs) = None" by (simp add: strip_prefix_def)
    show ?thesis
    proof (cases "find_sub [c] xs")
      case None
      then have "find_sub [c] (x # xs) = None" using here by simp
      then show ?thesis using None False by (simp add: match_indices_None)
    next
      case (Some p)
      then obtain a b where p: "find_sub [c] xs = Some (a, b)" by (cases p) simp
      then have "find_sub [c] (x # xs) = Some (x # a, b)" using here by simp
      then show ?thesis using p False by (simp add: match_indices_Some comp_def)
    qed
  qed
qed

lemma line_starts_simps:
  "line_starts [] = [0]"
  "line_starts (x # xs) = 0 # map Suc (if x = LF then line_starts xs else tl (line_starts xs))"
  by (simp_all add: line_starts_def match_indices_char comp_def)

lemma line_starts_Cons: "line_starts s = 0 # tl (line_starts s)"
  by (simp add: line_starts_def)

definition line_of :: "string \<Rightarrow> nat \<Rightarrow> nat" where
  "line_of content offset = count_list (take offset content) LF + 1"

definition column_of :: "string \<Rightarrow> nat \<Rightarrow> nat" where
  "column_of content offset = length (takeWhile (\<lambda>c. c \<noteq> LF) (rev (take offset content))) + 1"

lemma takeWhile_no: "LF \<notin> set xs \<Longrightarrow> takeWhile (\<lambda>c. c \<noteq> LF) xs = xs"
  by (induction xs) auto

lemma takeWhile_start: "length (takeWhile (\<lambda>c. c \<noteq> LF) (rev (take offset content))) \<le> offset"
  by (metis length_rev length_take length_takeWhile_le le_trans min.cobounded2)

lemma starts_before_offset:
  "partition_point (\<lambda>st. st \<le> offset) (line_starts content) = line_of content offset"
proof (induction content arbitrary: offset)
  case (Cons x xs)
  show ?case
  proof (cases offset)
    case 0
    have "takeWhile (\<lambda>st. st \<le> 0) (map Suc ys) = []" for ys by (cases ys) simp_all
    then show ?thesis using 0 by (simp add: partition_point_def line_starts_simps line_of_def)
  next
    case (Suc k)
    have "partition_point (\<lambda>st. st \<le> Suc k) (map Suc ys) = partition_point (\<lambda>st. st \<le> k) ys" for ys
      by (simp add: partition_point_def takeWhile_map comp_def)
    moreover have "partition_point (\<lambda>st. st \<le> k) (line_starts xs) = Suc (partition_point (\<lambda>st. st \<le> k) (tl (line_starts xs)))"
      by (subst line_starts_Cons) (simp add: partition_point_def)
    ultimately show ?thesis using Suc Cons.IH [of k]
      by (auto simp: line_starts_simps line_of_def partition_point_def)
  qed
qed (simp add: partition_point_def line_starts_simps line_of_def)

lemma length_line_starts: "count_list (take offset content) LF < length (line_starts content)"
proof (induction content arbitrary: offset)
  case (Cons x xs)
  have "count_list (take (offset - 1) xs) LF < length (line_starts xs)" by (rule Cons.IH)
  then show ?case by (cases offset) (auto simp: line_starts_simps)
qed (simp add: line_starts_simps)

lemma last_start:
  "offset \<le> length content \<Longrightarrow>
   line_starts content ! count_list (take offset content) LF = offset - (column_of content offset - 1)"
proof (induction content arbitrary: offset)
  case (Cons x xs)
  show ?case
  proof (cases offset)
    case (Suc k)
    let ?n = "count_list (take k xs) LF" and ?seg = "takeWhile (\<lambda>c. c \<noteq> LF) (rev (take k xs))"
    have IH: "line_starts xs ! ?n = k - length ?seg" using Cons Suc by (simp add: column_of_def)
    have le: "length ?seg \<le> k" by (rule takeWhile_start)
    have n: "?n < length (line_starts xs)" by (rule length_line_starts)
    show ?thesis
    proof (cases "x = LF")
      case True
      then show ?thesis using Suc IH le n by (simp add: line_starts_simps column_of_def takeWhile_tail Suc_diff_le)
    next
      case False
      show ?thesis
      proof (cases "LF \<in> set (take k xs)")
        case True
        then obtain m where m: "?n = Suc m" by (metis count_list_0_iff not0_implies_Suc)
        have "line_starts (x # xs) ! Suc m = Suc (line_starts xs ! Suc m)"
          using False m n by (subst (2) line_starts_Cons) (simp add: line_starts_simps)
        moreover have "takeWhile (\<lambda>c. c \<noteq> LF) (rev (take k xs) @ [x]) = ?seg"
          using True by (intro takeWhile_append1 [where x = LF]) auto
        ultimately show ?thesis using Suc False IH m le by (simp add: column_of_def Suc_diff_le)
      next
        case no: False
        then have "?n = 0" by (simp add: count_list_0_iff)
        moreover have "takeWhile (\<lambda>c. c \<noteq> LF) (rev (take offset (x # xs))) = rev (take offset (x # xs))"
          using False no Suc by (intro takeWhile_no) auto
        ultimately show ?thesis using Suc False Cons.prems by (simp only: column_of_def) (simp add: line_starts_simps)
      qed
    qed
  qed (simp add: line_starts_simps column_of_def)
qed (simp add: line_starts_simps column_of_def)

lemma length_slice: "b \<le> length xs \<Longrightarrow> a \<le> b \<Longrightarrow> length (slice xs a b) = b - a"
  by (simp add: slice_def)

lemma value_finding_position:
  assumes "offset \<le> length content"
  shows "value_finding path content name offset =
    \<lparr>sf_path = path, sf_line = line_of content offset, sf_column = column_of content offset,
     sf_detector = ''resolved-secret'', sf_severity = High, sf_redacted = ''****'', sf_secret = Some name\<rparr>"
proof -
  have "length (slice content (offset - (column_of content offset - 1)) offset) = column_of content offset - 1"
    using assms takeWhile_start [of offset content] by (subst length_slice) (auto simp: column_of_def)
  then show ?thesis
    using assms by (simp add: value_finding_def starts_before_offset line_of_def last_start) (simp add: column_of_def)
qed

lemma line_column_from_steps:
  "idx \<le> offset \<Longrightarrow> line_start \<le> idx \<Longrightarrow>
   line_column_from idx offset line line_start cs =
     (line + count_list (take (offset - idx) cs) LF,
      if LF \<in> set (take (offset - idx) cs)
      then min offset (idx + length cs) - length (takeWhile (\<lambda>c. c \<noteq> LF) (rev (take (offset - idx) cs)))
      else line_start)"
proof (induction cs arbitrary: idx line line_start)
  case (Cons c cs)
  show ?case
  proof (cases "idx \<ge> offset")
    case True
    then show ?thesis by simp
  next
    case False
    then have take: "take (offset - idx) (c # cs) = c # take (offset - Suc idx) cs"
      by (metis Suc_diff_Suc not_le take_Suc_Cons)
    have m: "min offset (idx + length (c # cs)) = min offset (Suc idx + length cs)" by simp
    have all: "Suc idx = min offset (Suc idx + length cs) - length (takeWhile (\<lambda>c. c \<noteq> LF) (rev (take (offset - Suc idx) cs)))"
      if "LF \<notin> set (take (offset - Suc idx) cs)"
    proof -
      have "takeWhile (\<lambda>c. c \<noteq> LF) (rev (take (offset - Suc idx) cs)) = rev (take (offset - Suc idx) cs)"
        using that by (intro takeWhile_no) auto
      then have "length (takeWhile (\<lambda>c. c \<noteq> LF) (rev (take (offset - Suc idx) cs))) = min (length cs) (offset - Suc idx)"
        by (simp only: length_rev length_take)
      then show ?thesis using False by simp
    qed
    have "takeWhile (\<lambda>c. c \<noteq> LF) (rev ys @ [c]) = takeWhile (\<lambda>c. c \<noteq> LF) (rev ys)" if "LF \<in> set ys" for ys
      using that by (intro takeWhile_append1 [where x = LF]) auto
    moreover have "takeWhile (\<lambda>c. c \<noteq> LF) (rev ys @ [LF]) = takeWhile (\<lambda>c. c \<noteq> LF) (rev ys)" for ys
      by (simp add: takeWhile_tail)
    ultimately show ?thesis
      using False Cons.prems Cons.IH [of "Suc idx" "Suc idx" "Suc line"] Cons.IH [of "Suc idx" line_start line] all
      unfolding take m by auto
  qed
qed simp

lemma line_column_position:
  assumes "offset \<le> length content"
  shows "line_column content offset = (line_of content offset, column_of content offset)"
proof -
  let ?seg = "takeWhile (\<lambda>c. c \<noteq> LF) (rev (take offset content))"
  have "line_column_from 0 offset 1 0 content =
      (line_of content offset, if LF \<in> set (take offset content) then offset - length ?seg else 0)"
    using assms by (simp add: line_column_from_steps line_of_def min_def)
  moreover have "offset - length ?seg = 0" if "LF \<notin> set (take offset content)"
  proof -
    have "?seg = rev (take offset content)" using that by (intro takeWhile_no) auto
    then have "length ?seg = offset" using assms by (simp only: length_rev length_take min_absorb2)
    then show ?thesis by simp
  qed
  ultimately have "line_column_from 0 offset 1 0 content = (line_of content offset, offset - length ?seg)" by auto
  then show ?thesis using assms takeWhile_start [of offset content]
    by (simp add: line_column_def length_slice column_of_def)
qed

lemma match_indices_bound: "pat \<noteq> [] \<Longrightarrow> i \<in> set (match_indices pat s) \<Longrightarrow> i \<le> length s"
  using match_indices_occur occurs_at_bound by fastforce

definition shows_value :: "string \<Rightarrow> string \<Rightarrow> resolved_secret \<Rightarrow> nat \<Rightarrow> scan_finding" where
  \<comment> \<open>what is reported for the value of a secret at an offset\<close>
  "shows_value path content secret i =
     \<lparr>sf_path = path, sf_line = line_of content i, sf_column = column_of content i,
      sf_detector = ''resolved-secret'', sf_severity = High, sf_redacted = ''****'', sf_secret = Some (rv_name secret)\<rparr>"

lemma set_scan_values:
  assumes "\<And>secret. secret \<in> set secrets \<Longrightarrow> rv_value secret \<noteq> []"
  shows "set (scan_values path content secrets) =
    {shows_value path content secret i | secret i. secret \<in> set secrets \<and> i \<in> set (match_indices (rv_value secret) content)}"
proof -
  have "value_finding path content (rv_name secret) i = shows_value path content secret i"
    if "secret \<in> set secrets" "i \<in> set (match_indices (rv_value secret) content)" for secret i
    using value_finding_position [OF match_indices_bound [OF assms [OF that(1)] that(2)]] by (simp add: shows_value_def)
  then show ?thesis by (fastforce simp: scan_values_def)
qed

end
