(* ===== verification/ScanSafety.thy ===== *)
theory ScanSafety
  imports Scan Exec
begin

text \<open>
  What a scan is worth: it finds every occurrence of a value, a scan that ends without findings has
  read everything it had to read and found no value in it, what it reads of the index of git is what
  is staged, and installing the hook keeps what was in its file.
\<close>

subsection \<open>Every value is found\<close>

text \<open>C7: A scan of a text for values reports occurrences of the values only, each at its line and
  column and without any part of the value, in the order of their positions; and every occurrence of a
  value is reported or begins inside a reported occurrence of the same value.\<close>

theorem scan_values_finds_every_value:
  assumes "\<And>secret. secret \<in> set secrets \<Longrightarrow> rv_value secret \<noteq> []"
  shows "sorted (map by_position (scan_values path content secrets)) \<and>
    (\<forall>f \<in> set (scan_values path content secrets). \<exists>secret \<in> set secrets. \<exists>i.
       occurs_at (rv_value secret) content i \<and> f = shows_value path content secret i) \<and>
    (\<forall>secret \<in> set secrets. \<forall>j. occurs_at (rv_value secret) content j \<longrightarrow>
       (\<exists>i. i \<le> j \<and> j < i + length (rv_value secret) \<and>
            shows_value path content secret i \<in> set (scan_values path content secrets)))"
proof (intro conjI ballI allI impI)
  show "sorted (map by_position (scan_values path content secrets))" by (simp add: scan_values_def)
next
  fix f
  assume "f \<in> set (scan_values path content secrets)"
  then obtain secret i where "secret \<in> set secrets" "i \<in> set (match_indices (rv_value secret) content)"
    "f = shows_value path content secret i"
    using set_scan_values [OF assms, of secrets path content] by auto
  then show "\<exists>secret \<in> set secrets. \<exists>i. occurs_at (rv_value secret) content i \<and> f = shows_value path content secret i"
    using match_indices_occur [OF assms] by blast
next
  fix secret j
  assume secret: "secret \<in> set secrets" and "occurs_at (rv_value secret) content j"
  then obtain i where "i \<in> set (match_indices (rv_value secret) content)" "i \<le> j" "j < i + length (rv_value secret)"
    using match_indices_cover [OF assms] by blast
  with secret show "\<exists>i. i \<le> j \<and> j < i + length (rv_value secret) \<and> shows_value path content secret i \<in> set (scan_values path content secrets)"
    using set_scan_values [OF assms, of secrets path content] by auto
qed

lemma scan_values_empty:
  assumes "\<And>secret. secret \<in> set secrets \<Longrightarrow> rv_value secret \<noteq> []"
  shows "scan_values path content secrets = [] \<longleftrightarrow> (\<forall>secret \<in> set secrets. \<not> contains content (rv_value secret))"
proof -
  have "scan_values path content secrets = [] \<longleftrightarrow>
      (\<forall>secret \<in> set secrets. match_indices (rv_value secret) content = [])"
  proof -
    have "scan_values path content secrets = [] \<longleftrightarrow> length (scan_values path content secrets) = 0" by simp
    also have "\<dots> \<longleftrightarrow> (\<forall>secret \<in> set secrets. match_indices (rv_value secret) content = [])"
      by (simp add: scan_values_def)
    finally show ?thesis .
  qed
  moreover have "match_indices (rv_value secret) content = [] \<longleftrightarrow> \<not> contains content (rv_value secret)"
    if "secret \<in> set secrets" for secret
    using match_indices_cover [OF assms [OF that]] match_indices_occur [OF assms [OF that]] contains_occurs
    by (metis empty_iff list.set(1) list.set_intros(1) neq_Nil_conv)
  ultimately show ?thesis by auto
qed

text \<open>The two routines that compute positions agree.\<close>

lemma positions_agree:
  "offset \<le> length content \<Longrightarrow>
   line_column content offset =
     (sf_line (value_finding path content name offset), sf_column (value_finding path content name offset))"
  by (simp add: line_column_position value_finding_position)

text \<open>Of a match of nine characters the report of a scan for patterns shows all but the fifth.\<close>

lemma redaction_shows_all_but_one:
  assumes "length secret = 9"
  shows "redact_secret secret = take 4 secret @ ''...'' @ drop 5 secret"
proof -
  have "rev (take 4 (rev secret)) = drop 5 secret" using assms by (simp add: take_rev)
  then show ?thesis using assms by (simp add: redact_secret_def)
qed

subsection \<open>A scan without findings\<close>

lemma sort_values_parts:
  assumes "sort_values vs = (secrets, unresolved, too_short)"
  shows "secrets = concat (map (\<lambda>(name, v). case v of
      Some v \<Rightarrow> if length (trim v) < MIN_SECRET_LEN then [] else [\<lparr>rv_name = name, rv_value = trim v\<rparr>] | None \<Rightarrow> []) vs)"
  using assms
proof (induction vs arbitrary: secrets unresolved too_short)
  case (Cons nv vs)
  then show ?case by (cases nv) (auto simp: Let_def split: prod.splits option.splits if_splits)
qed simp

lemma sort_values_keeps:
  assumes "sort_values vs = (secrets, unresolved, too_short)"
  shows "(name, Some v) \<in> set vs \<Longrightarrow> MIN_SECRET_LEN \<le> length (trim v) \<Longrightarrow> \<lparr>rv_name = name, rv_value = trim v\<rparr> \<in> set secrets"
    and "secret \<in> set secrets \<Longrightarrow> rv_value secret \<noteq> []"
proof -
  assume "(name, Some v) \<in> set vs" and "MIN_SECRET_LEN \<le> length (trim v)"
  then show "\<lparr>rv_name = name, rv_value = trim v\<rparr> \<in> set secrets"
    unfolding sort_values_parts [OF assms] by force
next
  assume "secret \<in> set secrets"
  then show "rv_value secret \<noteq> []"
    unfolding sort_values_parts [OF assms] by (auto simp: MIN_SECRET_LEN_def split: option.splits if_splits)
qed

lemma scan_blobs_covers:
  "scan_blobs H globs m repo fs (F, n) = Inr (F', n') \<Longrightarrow>
   set F \<subseteq> set F' \<and>
   (\<forall>(f, len) \<in> set fs.
      ignored_by_globs (sh_library H) globs (path_components (staged_display (sh_library H) f))
        (path_components (staged_display (sh_library H) f)) \<or> len > MAX_FILE_SIZE \<or>
      (\<exists>bs. read_staged_blob H repo f = Inr bs \<and>
            (0 \<in> set bs \<or> set (scan_text (sh_library H) (staged_display (sh_library H) f) (sl_utf8_lossy (sh_library H) bs) m) \<subseteq> set F')))"
proof (induction fs arbitrary: F n)
  case (Cons fl fs)
  obtain f len where fl: "fl = (f, len)" by (cases fl)
  let ?L = "sh_library H"
  let ?path = "staged_display ?L f"
  let ?skip = "ignored_by_globs ?L globs (path_components ?path) (path_components ?path) \<or> len > MAX_FILE_SIZE"
  show ?case
  proof (cases ?skip)
    case True
    then show ?thesis using Cons fl by (auto simp: Let_def)
  next
    case False
    then obtain bs where bs: "read_staged_blob H repo f = Inr bs"
      using Cons.prems fl by (cases "read_staged_blob H repo f") (auto simp: Let_def)
    show ?thesis
    proof (cases "0 \<in> set bs")
      case True
      then show ?thesis using Cons False fl bs by (auto simp: Let_def)
    next
      case no: False
      let ?F = "F @ scan_text ?L ?path (sl_utf8_lossy ?L bs) m"
      have "scan_blobs H globs m repo fs (?F, n + 1) = Inr (F', n')"
        using Cons.prems False fl bs no by (simp add: Let_def)
      from Cons.IH [OF this] show ?thesis using False fl bs by auto
    qed
  qed
qed simp

definition holds_no_value :: "(string \<times> string option) list \<Rightarrow> string \<Rightarrow> bool" where
  \<comment> \<open>no value that is long enough occurs in the text\<close>
  "holds_no_value vs t =
     list_all (\<lambda>(_, v). case v of Some v \<Rightarrow> length (trim v) < MIN_SECRET_LEN \<or> \<not> contains t (trim v) | None \<Rightarrow> True) vs"

definition blob_is_clean ::
  "('p, 'l, 'w, 'g, 's) scan_host \<Rightarrow> 's option \<Rightarrow> (string \<times> string option) list \<Rightarrow> path \<Rightarrow> staged_file \<times> nat \<Rightarrow> bool" where
  \<comment> \<open>a staged file is ignored, too large, binary, or was read and holds no value\<close>
  "blob_is_clean H globs vs repo = (\<lambda>(f, len).
     let L = sh_library H; path = path_components (staged_display L f)
     in ignored_by_globs L globs path path \<or> len > MAX_FILE_SIZE \<or>
        (case read_staged_blob H repo f of
           Inl _ \<Rightarrow> False | Inr bs \<Rightarrow> 0 \<in> set bs \<or> holds_no_value vs (sl_utf8_lossy L bs)))"

definition entry_is_clean ::
  "('p, 'l, 'w, 'g, 's) scan_host \<Rightarrow> path \<Rightarrow> path \<Rightarrow> 's option \<Rightarrow> (string \<times> string option) list \<Rightarrow> string + dir_entry \<Rightarrow> bool" where
  "entry_is_clean H base cwd globs vs result =
     (case scan_entry H base cwd globs result of None \<Rightarrow> True | Some (_, t) \<Rightarrow> holds_no_value vs t)"

definition everything_clean ::
  "('p, 'l, 'w, 'g, 's) scan_host \<Rightarrow> scan_command \<Rightarrow> 's option \<Rightarrow> (string \<times> string option) list \<Rightarrow> bool" where
  \<comment> \<open>what the command had to read was read and holds no value\<close>
  "everything_clean H cmd globs vs \<longleftrightarrow>
     (if sn_staged cmd
      then (\<exists>repo files sizes. staged_files H (sn_dir cmd) = Inr (repo, files) \<and> staged_sizes H repo files = Inr sizes \<and>
              length sizes = length files \<and> list_all (blob_is_clean H globs vs repo) (zip files sizes))
      else (\<exists>base cwd. sh_canonicalize H (sn_dir cmd) = Inr base \<and> sh_current_dir H = Inr cwd \<and>
              list_all (entry_is_clean H base cwd globs vs) (sh_walk H base (\<not> sn_include_ignored cmd) should_visit_entry)))"

lemma scan_values_clean:
  assumes "sort_values vs = (secrets, unresolved, too_short)" and "scan_values path t secrets = []"
  shows "holds_no_value vs t"
proof -
  have none: "\<not> contains t (rv_value secret)" if "secret \<in> set secrets" for secret
    using assms scan_values_empty sort_values_keeps(2) [OF assms(1)] that by blast
  have "length (trim v) < MIN_SECRET_LEN \<or> \<not> contains t (trim v)" if "(name, Some v) \<in> set vs" for name v
    using none [OF sort_values_keeps(1) [OF assms(1) that]] by (auto simp: not_less)
  then show ?thesis by (fastforce simp: holds_no_value_def list_all_iff split: option.splits)
qed

lemma length_staged_sizes: "staged_sizes H repo files = Inr sizes \<Longrightarrow> length sizes = length files"
  by (auto simp: staged_sizes_def Let_def split: if_splits sum.splits)

lemma clean_staged:
  assumes "scan_staged H dir globs (Values secrets) = Inr report" and "sr_findings report = []"
    and "sort_values vs = (secrets, unresolved, too_short)"
  shows "\<exists>repo files sizes. staged_files H dir = Inr (repo, files) \<and> staged_sizes H repo files = Inr sizes \<and>
    length sizes = length files \<and> list_all (blob_is_clean H globs vs repo) (zip files sizes)"
proof -
  obtain repo files sizes findings n where steps: "staged_files H dir = Inr (repo, files)" "staged_sizes H repo files = Inr sizes"
    "scan_blobs H globs (Values secrets) repo (zip files sizes) ([], 0) = Inr (findings, n)"
    "report = build_report findings n"
    using assms(1) by (auto simp: scan_staged_def bind_sum_Inr)
  have none: "findings = []" using assms(2) steps(4) by (simp add: build_report_def)
  have "blob_is_clean H globs vs repo (f, len)" if "(f, len) \<in> set (zip files sizes)" for f len
    using scan_blobs_covers [OF steps(3)] that scan_values_clean [OF assms(3)]
    unfolding none blob_is_clean_def by (fastforce simp: Let_def split: sum.splits)
  then show ?thesis using steps length_staged_sizes [OF steps(2)] by (auto simp: list_all_iff)
qed

lemma clean_directory:
  assumes "scan_directory H dir globs include_ignored (Values secrets) = Inr report" and "sr_findings report = []"
    and "sort_values vs = (secrets, unresolved, too_short)"
  shows "\<exists>base cwd. sh_canonicalize H dir = Inr base \<and> sh_current_dir H = Inr cwd \<and>
    list_all (entry_is_clean H base cwd globs vs) (sh_walk H base (\<not> include_ignored) should_visit_entry)"
proof -
  obtain base cwd where at: "sh_canonicalize H dir = Inr base" "sh_current_dir H = Inr cwd"
    using assms(1) by (auto simp: scan_directory_def split: sum.splits)
  let ?walk = "sh_walk H base (\<not> include_ignored) should_visit_entry"
  have none: "scan_values path t secrets = []"
    if "r \<in> set ?walk" "scan_entry H base cwd globs r = Some (path, t)" for r path t
  proof -
    have "(path, t) \<in> set (List.map_filter (scan_entry H base cwd globs) ?walk)"
      using that by (force simp: List.map_filter_def)
    then show ?thesis using assms(1,2) at by (auto simp: scan_directory_def build_report_def Let_def)
  qed
  have "entry_is_clean H base cwd globs vs r" if "r \<in> set ?walk" for r
    using none [OF that] scan_values_clean [OF assms(3)] by (auto simp: entry_is_clean_def split: option.splits)
  then show ?thesis using at by (auto simp: list_all_iff)
qed

lemma resolve_secret_values_ok:
  assumes "resolve_secret_values H cli c s = (Inr values_found, s1)"
  shows "\<exists>secrets. get_secrets_with_no_defaults c (get_profiles (sh_world H) (ct_profile cli))
      (sv_no_defaults (mh_services (sh_client H))) = Inr secrets \<and>
    (secrets = [] \<or> (\<exists>vs cl unresolved too_short.
       resolve_batch_with_context (sh_client H) (context_of cli (sh_settings H) (sh_non_interactive H)) c
         (get_profiles (sh_world H) (ct_profile cli)) secrets PListValues True (ss_client s) = (Inr vs, cl) \<and>
       sort_values vs = (values_found, unresolved, too_short)))"
  using assms
  by (auto simp: resolve_secret_values_def as_scan_error_def on_scan_client_def andThen_Inr Let_def comp_simps
      split: sum.splits prod.splits if_splits)

lemma scan_run_values:
  assumes "scan_run H cmd cli c s = (Inr (), s')" and "\<not> sn_install_hook cmd" and "sn_values cmd"
  shows "\<exists>globs values_found s1 report. build_ignore_globs (sh_library H) (sn_ignore cmd) = Inr globs \<and>
    resolve_secret_values H cli c s = (Inr values_found, s1) \<and> sr_findings report = [] \<and>
    (if sn_staged cmd then scan_staged H (sn_dir cmd) globs (Values values_found) = Inr report
     else scan_directory H (sn_dir cmd) globs (sn_include_ignored cmd) (Values values_found) = Inr report)"
  using assms by (auto simp: scan_run_def andThen_Inr split: if_splits)


subsection \<open>The hook\<close>

lemma contains_in_lines: "l \<in> set ls \<Longrightarrow> contains (in_lines ls) l"
proof -
  assume "l \<in> set ls"
  then obtain xs ys where "ls = xs @ l # ys" by (auto simp: in_set_conv_decomp)
  then have "in_lines ls = in_lines xs @ l @ (LF # in_lines ys)" by (simp add: in_lines_def)
  then show ?thesis unfolding contains_iff by blast
qed

lemma contains_append: "contains b pat \<Longrightarrow> contains (a @ b) pat"
  unfolding contains_iff by (metis append.assoc)

lemma hook_block_marked: "contains (hook_block appending) HOOK_MARKER"
  unfolding hook_block_def by (rule contains_in_lines) simp

lemma bit_292: "bit (292 :: 32 word) n \<longleftrightarrow> n \<in> {2, 5, 8}"
proof (cases "n < 9")
  case True
  then have "n \<in> {0, 1, 2, 3, 4, 5, 6, 7, 8}" by auto
  then show ?thesis by (auto simp: bit_iff_odd)
next
  case False
  have "take_bit 9 (292 :: 32 word) = 292" by simp
  then have "\<not> bit (292 :: 32 word) n" using False by (metis bit_take_bit_iff)
  then show ?thesis using False by auto
qed

lemma bit_exec_bits: "bit (exec_bits m) i \<longleftrightarrow> i \<in> {0, 3, 6} \<and> bit m (i + 2)"
  unfolding exec_bits_def bit_drop_bit_eq comp_def bit_and_iff bit_292 by auto

definition widened :: "32 word \<Rightarrow> 32 word \<Rightarrow> bool" where
  \<comment> \<open>execution is added exactly where reading is permitted\<close>
  "widened m m' \<longleftrightarrow> (\<forall>i. bit m' i \<longleftrightarrow> bit m i \<or> (i \<in> {0, 3, 6} \<and> bit m (i + 2)))"

lemma widened_exec_bits: "widened m (or m (exec_bits m))"
  by (simp add: widened_def bit_or_iff bit_exec_bits)

definition runnable :: "32 word \<Rightarrow> bool" where
  "runnable m \<longleftrightarrow> list_all (\<lambda>i. \<not> bit m i \<or> bit m (i - 2)) [2, 5, 8]"

lemma widened_runnable: "widened m m' \<Longrightarrow> runnable m'"
  by (simp add: widened_def runnable_def numeral_2_eq_2)

definition keeps_hook :: "bool \<Rightarrow> hook_file \<Rightarrow> hook_file \<Rightarrow> bool" where
  \<comment> \<open>a hook is left alone, or is a shell script to which the scan was appended\<close>
  "keeps_hook appending f f' \<longleftrightarrow>
     f' = f \<or>
     (appending \<and> (\<exists>t gap. hf_text f = Inr t \<and> is_posix_shell_shebang t \<and> hf_text f' = Inr (t @ gap @ hook_block True) \<and>
        (hf_mode f' = hf_mode f \<or> widened (hf_mode f) (hf_mode f'))))"

definition new_hook :: "('p, 'l, 'w, 'g, 's) scan_host \<Rightarrow> hook_file \<Rightarrow> bool" where
  "new_hook H f \<longleftrightarrow>
     hf_text f = Inr (''#!/bin/sh'' @ [LF] @ hook_block False) \<and>
     (hf_mode f = sh_create_mode H \<or> widened (sh_create_mode H) (hf_mode f))"

definition hook_installed ::
  "('p, 'l, 'w, 'g, 's) scan_host \<Rightarrow> path \<Rightarrow> hook_files \<Rightarrow> hook_files \<Rightarrow> bool" where
  \<comment> \<open>the hook runs the scan, whoever may read it may execute it unless it was there before, and installing it again
    changes nothing\<close>
  "hook_installed H hooks_dir fs fs' \<longleftrightarrow>
     (\<exists>f t. fs' (path_join hooks_dir [''pre-commit'']) = Some f \<and> hf_text f = Inr t \<and> contains t HOOK_MARKER \<and>
            (fs' = fs \<or> runnable (hf_mode f)) \<and>
            (\<forall>appending. install_hook_in H hooks_dir appending fs' =
               (Inr (''fnox hook already installed at '' @ sh_display H (path_join hooks_dir [''pre-commit''])), fs')))"

definition cut_short :: "('p, 'l, 'w, 'g, 's) scan_host \<Rightarrow> path \<Rightarrow> scan_error + string \<Rightarrow> bool" where
  \<comment> \<open>writing the hook began and failed\<close>
  "cut_short H hooks_dir r \<longleftrightarrow>
     (\<exists>e n. sh_write_error H (path_join hooks_dir [''pre-commit'']) = Some (CutShort e n) \<and> r = Inl (ScanIoError e))"

lemma already_installed:
  assumes "fs (path_join hooks_dir [''pre-commit'']) = Some f" and "hf_text f = Inr t" and "contains t HOOK_MARKER"
    and "sh_create_dir_error H hooks_dir = None"
  shows "install_hook_in H hooks_dir appending fs =
    (Inr (''fnox hook already installed at '' @ sh_display H (path_join hooks_dir [''pre-commit''])), fs)"
  using assms by (simp add: install_hook_in_def andThen_def Let_def)

lemma existing_hook:
  assumes "install_hook_in H hooks_dir appending fs = (r, fs')" and "sh_create_dir_error H hooks_dir = None"
    and "fs (path_join hooks_dir [''pre-commit'']) = Some f"
  shows "(fs' = fs \<and> (case r of Inl _ \<Rightarrow> True | Inr _ \<Rightarrow> \<exists>t. hf_text f = Inr t \<and> contains t HOOK_MARKER)) \<or>
    (\<exists>f' t gap. fs' = fs(path_join hooks_dir [''pre-commit''] \<mapsto> f') \<and> hf_text f = Inr t \<and>
       hf_text f' = Inr (t @ gap @ hook_block True) \<and> keeps_hook appending f f' \<and>
       (case r of Inl _ \<Rightarrow> True | Inr _ \<Rightarrow> runnable (hf_mode f'))) \<or>
    (\<exists>f'. fs' = fs(path_join hooks_dir [''pre-commit''] \<mapsto> f') \<and> appending \<and> cut_short H hooks_dir r \<and> hf_mode f' = hf_mode f)"
proof (cases "hf_text f")
  case (Inl e)
  then show ?thesis using assms by (auto simp: install_hook_in_def andThen_def Let_def)
next
  case (Inr t)
  let ?hook = "path_join hooks_dir [''pre-commit'']"
  show ?thesis
  proof (cases "contains t HOOK_MARKER \<or> \<not> appending \<or> \<not> is_posix_shell_shebang t")
    case True
    then show ?thesis using assms Inr by (auto simp: install_hook_in_def andThen_def Let_def split: if_splits)
  next
    case False
    define gap where "gap = (if ends_with [LF] t then [LF] else [LF, LF])"
    have updated: "(if ends_with [LF] t then t else t @ [LF]) @ [LF] @ hook_block True = t @ gap @ hook_block True"
      by (simp add: gap_def)
    let ?f = "\<lparr>hf_text = Inr (t @ gap @ hook_block True), hf_mode = hf_mode f\<rparr>"
    let ?g = "?f\<lparr>hf_mode := or (hf_mode f) (exec_bits (hf_mode f))\<rparr>"
    have kept: "keeps_hook appending f ?f" "keeps_hook appending f ?g"
      using False Inr widened_exec_bits by (auto simp: keeps_hook_def)
    have run: "install_hook_in H hooks_dir appending fs =
      andThen (write_hook H ?hook (t @ gap @ hook_block True)) (\<lambda>_.
        andThen (make_executable H ?hook) (\<lambda>_.
          ok (''Appended fnox secret scan to '' @ sh_display H ?hook @
              ''. Note: an earlier `exit` in that script would skip it.''))) fs"
      using assms(2,3) Inr False unfolding updated [symmetric]
      by (simp add: install_hook_in_def Let_def andThen_def)
    consider e where "r = Inl e" "fs' = fs" | e where "r = Inl e" "fs' = fs(?hook \<mapsto> ?f)"
      | m where "r = Inr m" "fs' = fs(?hook \<mapsto> ?g)"
      | f' where "cut_short H hooks_dir r" "fs' = fs(?hook \<mapsto> f')" "hf_mode f' = hf_mode f"
      using assms(1,3) unfolding run
      by (auto simp: andThen_def write_hook_def make_executable_def written_file_def cut_short_def
          split: option.splits write_failure.splits)
    then show ?thesis
    proof cases
      case 4
      then show ?thesis using False by (intro disjI2 exI [of _ f']) simp
    qed (use kept Inr widened_runnable [OF widened_exec_bits, of "hf_mode f"] in \<open>auto 0 3\<close>)
  qed
qed

text \<open>C8: Installing the hook touches no other file. A hook that is there is left alone, or keeps its
  text in front of what is appended, which happens only to shell scripts and only on request; a new file
  is the generated script; execution is granted only to those who may read. The only way to lose the text is
  a write that fails after it began, which is reported as an error: the file is truncated first. After a
  success the hook runs the scan, and installing it again changes nothing.\<close>

theorem hook_keeps_its_text:
  assumes "install_hook_in H hooks_dir appending fs = (r, fs')"
  shows "(\<forall>p. fs' p = fs p \<or> p = path_join hooks_dir [''pre-commit'']) \<and>
    (case (fs (path_join hooks_dir [''pre-commit'']), fs' (path_join hooks_dir [''pre-commit''])) of
       (Some f, Some f') \<Rightarrow> keeps_hook appending f f' \<or> (appending \<and> cut_short H hooks_dir r \<and> hf_mode f' = hf_mode f)
     | (None, Some f') \<Rightarrow> new_hook H f' \<or> (cut_short H hooks_dir r \<and> hf_mode f' = sh_create_mode H)
     | (Some _, None) \<Rightarrow> False
     | (None, None) \<Rightarrow> True) \<and>
    (case r of Inl _ \<Rightarrow> True | Inr _ \<Rightarrow> hook_installed H hooks_dir fs fs')"
proof -
  let ?hook = "path_join hooks_dir [''pre-commit'']"
  have again: "hook_installed H hooks_dir fs fs'" if "fs' ?hook = Some f" "hf_text f = Inr t" "contains t HOOK_MARKER"
    "fs' = fs \<or> runnable (hf_mode f)" "sh_create_dir_error H hooks_dir = None" for f t
    using that already_installed [of fs' hooks_dir f t H] by (auto simp: hook_installed_def)
  show ?thesis
  proof (cases "sh_create_dir_error H hooks_dir")
    case (Some e)
    then show ?thesis using assms by (auto simp: install_hook_in_def keeps_hook_def split: option.splits)
  next
    case dir: None
    show ?thesis
    proof (cases "fs ?hook")
      case None
      consider (unwritten) e where "r = Inl e" "fs' = fs"
        | (written) f where "fs' = fs(?hook \<mapsto> f)" "new_hook H f"
            "case r of Inl _ \<Rightarrow> True | Inr _ \<Rightarrow> runnable (hf_mode f)"
        | (cut) f where "fs' = fs(?hook \<mapsto> f)" "cut_short H hooks_dir r" "hf_mode f = sh_create_mode H"
        using assms dir None widened_exec_bits widened_runnable [OF widened_exec_bits]
        by (auto simp: install_hook_in_def andThen_def write_hook_def written_file_def make_executable_def new_hook_def
            cut_short_def Let_def split: option.splits write_failure.splits)
      then show ?thesis
      proof cases
        case written
        then show ?thesis
          using None dir again [of f] contains_append [OF hook_block_marked, of "''#!/bin/sh'' @ [LF]" False]
          by (auto simp: new_hook_def split: sum.splits)
      next
        case cut
        then show ?thesis using None by (auto simp: cut_short_def split: sum.splits)
      qed (use None in simp)
    next
      case (Some f)
      consider (kept) "fs' = fs" "case r of Inl _ \<Rightarrow> True | Inr _ \<Rightarrow> \<exists>t. hf_text f = Inr t \<and> contains t HOOK_MARKER"
        | (appended) f' t gap where "fs' = fs(?hook \<mapsto> f')" "hf_text f = Inr t" "hf_text f' = Inr (t @ gap @ hook_block True)"
            "keeps_hook appending f f'" "case r of Inl _ \<Rightarrow> True | Inr _ \<Rightarrow> runnable (hf_mode f')"
        | (cut) f' where "fs' = fs(?hook \<mapsto> f')" "appending" "cut_short H hooks_dir r" "hf_mode f' = hf_mode f"
        using existing_hook [OF assms dir Some] by blast
      then show ?thesis
      proof cases
        case kept
        then show ?thesis using Some dir again [of f] by (auto simp: keeps_hook_def split: sum.splits)
      next
        case cut
        then show ?thesis using Some by (auto simp: cut_short_def split: sum.splits)
      next
        case appended
        then show ?thesis
          using Some dir again [of f'] contains_append [OF hook_block_marked, of "t @ gap" True]
          by (auto split: sum.splits)
      qed
    qed
  qed
qed

subsection \<open>The index\<close>

text \<open>A record of \<open>git diff --raw -z\<close>.\<close>

record index_entry =
  ie_old_mode :: string
  ie_new_mode :: string
  ie_old_sha :: string
  ie_new_sha :: string
  ie_status :: string
  ie_path :: bytes

definition record_meta :: "index_entry \<Rightarrow> string" where
  "record_meta e = join '' '' [CHR '':'' # ie_old_mode e, ie_new_mode e, ie_old_sha e, ie_new_sha e, ie_status e]"

definition raw_record :: "index_entry \<Rightarrow> bytes" where
  "raw_record e = as_bytes (record_meta e) @ [0] @ ie_path e @ [0]"

definition plain_word :: "string \<Rightarrow> bool" where
  "plain_word w \<longleftrightarrow> w \<noteq> [] \<and> list_all (\<lambda>c. \<not> is_whitespace c \<and> c \<noteq> NUL) w"

definition index_entry_ok :: "index_entry \<Rightarrow> bool" where
  "index_entry_ok e \<longleftrightarrow>
     plain_word (ie_old_mode e) \<and> plain_word (ie_new_mode e) \<and> plain_word (ie_old_sha e) \<and>
     plain_word (ie_new_sha e) \<and> plain_word (ie_status e) \<and> ie_path e \<noteq> [] \<and> 0 \<notin> set (ie_path e)"

lemma split_on_append: "d \<notin> set a \<Longrightarrow> split_on d (a @ d # b) = a # split_on d b"
  by (induction a) auto

lemma words_from_word:
  "(\<And>c. c \<in> set w \<Longrightarrow> \<not> sep c) \<Longrightarrow> words_from sep v (w @ s) = words_from sep (rev w @ v) s"
  by (induction w arbitrary: v) auto

lemma split_whitespace_join: "list_all plain_word ws \<Longrightarrow> split_whitespace (join '' '' ws) = ws"
proof (induction ws)
  case (Cons w ws)
  have w: "w \<noteq> []" "\<And>c. c \<in> set w \<Longrightarrow> \<not> is_whitespace c" using Cons.prems by (auto simp: plain_word_def list_all_iff)
  have blank: "is_whitespace CHR '' ''" by (simp add: is_whitespace_def)
  show ?case
  proof (cases ws)
    case Nil
    then show ?thesis using w words_from_word [of w is_whitespace "[]" "[]"] by (simp add: split_whitespace_def)
  next
    case (Cons w' ws')
    then have "join '' '' (w # ws) = w @ CHR '' '' # join '' '' ws" by simp
    then show ?thesis using w blank Cons.IH Cons.prems words_from_word [of w is_whitespace "[]"]
      by (simp add: split_whitespace_def)
  qed
qed (simp add: split_whitespace_def)

lemma record_meta_ok:
  assumes "index_entry_ok e"
  shows "NUL \<notin> set (record_meta e)" and "as_bytes (record_meta e) \<noteq> []"
    and "nth_word 1 (record_meta e) = Some (ie_new_mode e)" and "nth_word 3 (record_meta e) = Some (ie_new_sha e)"
proof -
  let ?ws = "[CHR '':'' # ie_old_mode e, ie_new_mode e, ie_old_sha e, ie_new_sha e, ie_status e]"
  have words: "list_all plain_word ?ws" using assms by (simp add: index_entry_ok_def plain_word_def is_whitespace_def NUL_def)
  have "NUL \<notin> set w" if "w \<in> set ?ws" for w using words that by (auto simp: plain_word_def list_all_iff)
  then have "NUL \<notin> \<Union> (set (map set ?ws))" by (simp only: set_map image_iff Union_iff bex_simps) blast
  moreover have "NUL \<notin> set '' ''" by (simp add: NUL_def)
  ultimately show "NUL \<notin> set (record_meta e)" using subsetD [OF join_set [of "'' ''" ?ws]] unfolding record_meta_def by blast
  have "record_meta e \<noteq> []" by (simp add: record_meta_def)
  moreover have "utf8_char c \<noteq> []" for c by (simp add: utf8_char_def Let_def)
  ultimately show "as_bytes (record_meta e) \<noteq> []" by (cases "record_meta e") (simp_all add: as_bytes_def)
  have "split_whitespace (record_meta e) = ?ws"
    unfolding record_meta_def by (rule split_whitespace_join [OF words])
  then show "nth_word 1 (record_meta e) = Some (ie_new_mode e)" and "nth_word 3 (record_meta e) = Some (ie_new_sha e)"
    by (simp_all add: nth_word_def)
qed

lemma split_on_records:
  assumes "list_all index_entry_ok es"
  shows "filter (\<lambda>f. f \<noteq> []) (split_on 0 (concat (map raw_record es))) =
    concat (map (\<lambda>e. [as_bytes (record_meta e), ie_path e]) es)"
  using assms
proof (induction es)
  case (Cons e es)
  have e: "index_entry_ok e" using Cons.prems by simp
  have meta: "0 \<notin> set (as_bytes (record_meta e))" 
    by (rule as_bytes_no_zero) (rule record_meta_ok(1) [OF e, unfolded NUL_def])
  have path: "0 \<notin> set (ie_path e)" "ie_path e \<noteq> []" using e by (simp_all add: index_entry_ok_def)
  have "split_on 0 (concat (map raw_record (e # es))) =
      as_bytes (record_meta e) # ie_path e # split_on 0 (concat (map raw_record es))"
    using split_on_append [OF meta] split_on_append [OF path(1)] by (simp add: raw_record_def)
  then show ?case using Cons record_meta_ok(2) [OF e] path(2) by simp
qed simp

definition staged_of :: "index_entry list \<Rightarrow> staged_file list" where
  \<comment> \<open>the entries whose content is a file\<close>
  "staged_of es = map (\<lambda>e. \<lparr>st_path = ie_path e, st_sha = ie_new_sha e\<rparr>)
                    (filter (\<lambda>e. ie_new_mode e \<notin> {''120000'', ''160000''}) es)"

lemma staged_entries_records:
  assumes "list_all index_entry_ok es" and "\<And>t. lossy (as_bytes t) = t"
  shows "staged_entries lossy (filter (\<lambda>f. f \<noteq> []) (split_on 0 (concat (map raw_record es)))) = staged_of es"
  unfolding split_on_records [OF assms(1)]
  using assms(1)
proof (induction es)
  case (Cons e es)
  then show ?case using record_meta_ok [of e] by (simp add: staged_of_def assms(2) Let_def)
qed (simp add: staged_of_def)

text \<open>C9: From what git prints of an index, the scan reads exactly the entries that are files, in
  their order, each with its path byte by byte and its blob.\<close>

theorem index_is_read_back:
  assumes "list_all index_entry_ok es" and "\<And>t. sl_utf8_lossy (sh_library H) (as_bytes t) = t"
    and "git H dir [''rev-parse'', ''--show-toplevel''] = Inr repo"
    and "git H (path_components (trim_line_end (sl_utf8_lossy (sh_library H) repo)))
           [''diff'', ''--cached'', ''--raw'', ''-z'', ''--diff-filter=ACMR'', ''--no-renames''] = Inr (concat (map raw_record es))"
  shows "staged_files H dir =
    Inr (path_components (trim_line_end (sl_utf8_lossy (sh_library H) repo)), staged_of es)"
  using assms(3,4) staged_entries_records [OF assms(1,2)] by (simp add: staged_files_def Let_def)

subsection \<open>A repository\<close>

text \<open>One text file and one symbolic link are staged, and a hook of the user's own is there.\<close>

definition scan_crates :: "(string, string list) scan_library" where
  "scan_crates =
     \<lparr>sl_captures = (\<lambda>_ _. []), sl_glob = Inr, sl_glob_set = Inr, sl_is_match = (\<lambda>gs p. list_ex (\<lambda>g. p = [g]) gs),
      sl_utf8_lossy = (\<lambda>bs. case latin_utf8 bs of Some t \<Rightarrow> t | None \<Rightarrow> ''?''),
      sl_json_report = (\<lambda>_. Inr []), sl_json_paths = (\<lambda>_. Inr [])\<rparr>"

definition demo_index :: "index_entry list" where
  "demo_index =
     [\<lparr>ie_old_mode = ''000000'', ie_new_mode = ''100644'', ie_old_sha = ''0000'', ie_new_sha = ''1a2b'', ie_status = ''A'',
       ie_path = [97, 46, 195, 169]\<rparr>,
      \<lparr>ie_old_mode = ''000000'', ie_new_mode = ''120000'', ie_old_sha = ''0000'', ie_new_sha = ''3c4d'', ie_status = ''A'',
       ie_path = [98]\<rparr>]"

definition git_says :: "bytes \<Rightarrow> string + git_output" where
  "git_says bs = Inr \<lparr>go_success = True, go_stdout = bs, go_stderr = []\<rparr>"

definition demo_git :: "path \<Rightarrow> string list \<Rightarrow> string + git_output" where
  "demo_git dir args =
     (if args = [''rev-parse'', ''--show-toplevel''] then git_says (as_bytes (''/p'' @ [LF]))
      else if args = [''diff'', ''--cached'', ''--raw'', ''-z'', ''--diff-filter=ACMR'', ''--no-renames'']
      then git_says (concat (map raw_record demo_index))
      else if args = [''cat-file'', ''blob'', ''1a2b''] then git_says (as_bytes ''port=1'') else Inl ''usage'')"

definition demo_repo :: "(string, lease_backend, unit, string, string list) scan_host" where
  "demo_repo =
     \<lparr>sh_library = scan_crates, sh_git = demo_git, sh_batch_check = (\<lambda>_ _. git_says (as_bytes (''1a2b blob 6'' @ [LF]))),
      sh_canonicalize = Inr, sh_current_dir = Inr [''/''], sh_walk = (\<lambda>_ _ _. []), sh_display = (\<lambda>p. concat p),
      sh_create_dir_error = (\<lambda>_. None), sh_write_error = (\<lambda>_. None), sh_chmod_error = (\<lambda>_. None), sh_create_mode = 420,
      sh_world = \<lparr>w_exists = (\<lambda>_. False), w_read = (\<lambda>_. None), w_parse = (\<lambda>_. Inl ([], None)), w_cwd = Some [''/''], w_tilde = id,
        w_config_dir = [], w_no_defaults = False, w_settings_profile = [''default'']\<rparr>,
      sh_client = run_client, sh_settings = None, sh_non_interactive = True\<rparr>"

definition demo_scan :: scan_command where
  "demo_scan =
     \<lparr>sn_dir = [''.''], sn_ignore = [], sn_quiet = False, sn_append = False, sn_format = Human, sn_include_ignored = False,
      sn_install_hook = False, sn_staged = True, sn_values = True\<rparr>"

definition scan_cli :: command_line where
  "scan_cli =
     \<lparr>ct_profile = [], ct_age_key_file = None, ct_if_missing = None, ct_no_defaults = False, cm_config = [],
      cm_non_interactive = False, cm_no_daemon = True\<rparr>"

definition demo_scan_start :: "unit scan_state" where
  "demo_scan_start = \<lparr>ss_client = rn_client run_start, ss_files = (\<lambda>_. None), ss_out = [], ss_err = []\<rparr>"

definition demo_values :: "resolved_secret list" where
  "demo_values = [\<lparr>rv_name = ''URL'', rv_value = ''db://localhost''\<rparr>, \<lparr>rv_name = ''HOST'', rv_value = ''localhost''\<rparr>]"

lemma demo_resolves: "fst (resolve_secret_values demo_repo scan_cli run_config demo_scan_start) = Inr demo_values"
  by code_simp

lemma demo_staged: "staged_files demo_repo [''.''] = Inr ([''/'', ''p''], [\<lparr>st_path = [97, 46, 195, 169], st_sha = ''1a2b''\<rparr>])"
  by code_simp

lemma demo_sizes: "staged_sizes demo_repo [''/'', ''p''] [\<lparr>st_path = [97, 46, 195, 169], st_sha = ''1a2b''\<rparr>] = Inr [6]"
proof -
  have "str_lines (sl_utf8_lossy scan_crates (as_bytes (''1a2b blob 6'' @ [LF]))) = [''1a2b blob 6'']" by code_simp
  moreover have "nth_word 2 ''1a2b blob 6'' = Some ''6''" by code_simp
  then have "staged_size ''1a2b blob 6'' = 6" by (simp add: staged_size_def parse_bounded_def is_digit_def)
  ultimately show ?thesis by (simp add: staged_sizes_def demo_repo_def git_says_def)
qed

lemma demo_blob: "read_staged_blob demo_repo [''/'', ''p''] \<lparr>st_path = [97, 46, 195, 169], st_sha = ''1a2b''\<rparr> = Inr (as_bytes ''port=1'')"
  by code_simp

lemma demo_scan_ends:
  "fst (scan_run demo_repo demo_scan scan_cli run_config demo_scan_start) = Inr ()"
proof -
  have "scan_values path ''port=1'' demo_values = []" for path
    by (simp add: scan_values_def demo_values_def match_indices_None strip_prefix_def)
  moreover have "0 \<notin> set (as_bytes ''port=1'')" by code_simp
  moreover have "sl_utf8_lossy scan_crates (as_bytes ''port=1'') = ''port=1''" by code_simp
  ultimately have "scan_staged demo_repo [''.''] None (Values demo_values) = Inr (build_report [] 1)"
    using demo_blob
    by (simp add: scan_staged_def demo_staged demo_sizes ignored_by_globs_def MAX_FILE_SIZE_def Let_def)
       (simp add: demo_repo_def)
  moreover have "build_ignore_globs (sh_library demo_repo) [] = Inr None" by (simp add: build_ignore_globs_def)
  ultimately show ?thesis
    using demo_resolves
    by (simp add: scan_run_def demo_scan_def andThen_fst report_lines_def build_report_def)
qed

lemma scan_crates_utf8: "sl_utf8_lossy scan_crates (as_bytes t) = t"
  by (simp add: scan_crates_def latin_utf8_complete)

lemma demo_index_ok: "list_all index_entry_ok demo_index"
  by code_simp

theorem scan_values_finds_every_value_witness:
  "sorted (map by_position (scan_values ''f'' ''a localhost'' [\<lparr>rv_name = ''HOST'', rv_value = ''localhost''\<rparr>])) \<and>
   (\<exists>i. i \<le> 2 \<and> 2 < i + 9 \<and> shows_value ''f'' ''a localhost'' \<lparr>rv_name = ''HOST'', rv_value = ''localhost''\<rparr> i
      \<in> set (scan_values ''f'' ''a localhost'' [\<lparr>rv_name = ''HOST'', rv_value = ''localhost''\<rparr>]))"
proof -
  let ?secret = "\<lparr>rv_name = ''HOST'', rv_value = ''localhost''\<rparr>"
  have at: "occurs_at (rv_value ?secret) ''a localhost'' 2"
    unfolding occurs_at_def by (intro exI [of _ "''a ''"] exI [of _ "[]"]) simp
  have ok: "rv_value secret \<noteq> []" if "secret \<in> set [?secret]" for secret using that by simp
  have len: "length (rv_value ?secret) = 9" by simp
  from scan_values_finds_every_value [of "[?secret]" "''f''" "''a localhost''", OF ok] at show ?thesis
    unfolding len [symmetric] by (metis list.set_intros(1))
qed


definition own_hook :: hook_files where
  "own_hook = (\<lambda>p. if p = [''/'', ''h'', ''pre-commit'']
     then Some \<lparr>hf_text = Inr (''#!/bin/sh'' @ [LF] @ ''make lint''), hf_mode = 420\<rparr> else None)"

theorem hook_keeps_its_text_witness:
  "\<exists>msg. fst (install_hook_in demo_repo [''/'', ''h''] True own_hook) = Inr msg \<and>
     hook_installed demo_repo [''/'', ''h''] own_hook (snd (install_hook_in demo_repo [''/'', ''h''] True own_hook))"
proof -
  have "case fst (install_hook_in demo_repo [''/'', ''h''] True own_hook) of Inr _ \<Rightarrow> True | Inl _ \<Rightarrow> False" by code_simp
  then obtain msg where msg: "fst (install_hook_in demo_repo [''/'', ''h''] True own_hook) = Inr msg"
    by (auto split: sum.splits)
  then show ?thesis
    using hook_keeps_its_text [of demo_repo "[''/'', ''h'']" True own_hook "Inr msg"
        "snd (install_hook_in demo_repo [''/'', ''h''] True own_hook)"]
    by (simp add: prod_eq_iff)
qed

text \<open>A disk that fills up while the check is appended leaves nothing of the hook.\<close>

lemma failed_write_loses_hook:
  "case install_hook_in (demo_repo\<lparr>sh_write_error := (\<lambda>_. Some (CutShort ''No space left on device'' 0))\<rparr>) [''/'', ''h''] True own_hook of
     (r, fs') \<Rightarrow> isl r \<and> map_option hf_text (fs' [''/'', ''h'', ''pre-commit'']) = Some (Inr [])"
  by code_simp

theorem index_is_read_back_witness:
  "staged_files demo_repo [''.''] = Inr ([''/'', ''p''], staged_of demo_index)"
proof -
  have top: "git demo_repo [''.''] [''rev-parse'', ''--show-toplevel''] = Inr (as_bytes (''/p'' @ [LF]))"
    by (simp add: git_def demo_repo_def demo_git_def git_says_def)
  have at: "path_components (trim_line_end (sl_utf8_lossy (sh_library demo_repo) (as_bytes (''/p'' @ [LF])))) = [''/'', ''p'']"
    by code_simp
  have diff: "git demo_repo [''/'', ''p''] [''diff'', ''--cached'', ''--raw'', ''-z'', ''--diff-filter=ACMR'', ''--no-renames''] =
      Inr (concat (map raw_record demo_index))"
    by (simp add: git_def demo_repo_def demo_git_def git_says_def)
  have lossy: "sl_utf8_lossy (sh_library demo_repo) (as_bytes t) = t" for t
    using scan_crates_utf8 by (simp add: demo_repo_def)
  show ?thesis
    using index_is_read_back [OF demo_index_ok lossy top] diff unfolding at by simp
qed

end
