(* ===== verification/Spec2Isabelle.thy ===== *)
theory Spec2Isabelle
  imports DiscoveryEnds ResolverFacts Redact LeaseLedger LeaseResolve Daemon Exec ProxyServe Seatbelt ScanSafety
begin

text \<open>
  fnox resolves the secrets of a project. A configuration, layered from files, names secrets, the
  providers that hold their values and the leases of short-lived credentials; fnox resolves the values
  and hands them to a command, to the shell or to a proxy, with a daemon that may remember them. The
  development models this path from the text of a configuration to the variables of a process, in
  plain HOL: structs are records, enums are datatypes, an \<open>IndexMap\<close> is an association list with
  distinct keys (\<open>imap\<close> of \<open>Prelude\<close>), effects are functions of an explicit state that return an
  error or a value (\<open>comp\<close> of \<open>Prelude\<close>), and each error is a constructor of \<open>fnox_error\<close> or of
  the type of messages of its component. A character of the model is a scalar value below U+0100; where
  the code works on bytes, \<open>Utf8\<close> gives the bytes of a text.

  \<^bold>\<open>Parts and theories.\<close> Paths are relative to \<open>src\<close> of the repository, where \<open>core\<close> stands for
  \<open>crates/fnox-core/src\<close>, \<open>client\<close> for \<open>crates/fnox-client/src\<close>. A definition has the name of its
  Rust item, unless HOL or another part has taken that name.

  \<^item> \<open>Prelude\<close>, \<open>Text\<close>, \<open>Utf8\<close>: ordered maps, the error and state monad with its fact collections, the
    operations of \<open>str\<close>, and the bytes of a text.
  \<^item> \<open>Names\<close>, \<open>Errors\<close>: profile names, secret names, configuration file names
    (\<open>client/profile.rs\<close>, \<open>core/config.rs\<close>), errors and the registry of sources (\<open>core/error.rs\<close>).
  \<^item> \<open>ConfigModel\<close>, \<open>ProfileExpansion\<close>, \<open>ConfigQuery\<close>, \<open>ConfigMerge\<close>, \<open>ConfigLoad\<close>,
    \<open>DiscoveryEnds\<close> (\<open>core/config.rs\<close>): the data, the expansion of \<open>inherits\<close>, the effective view for a
    stack of profiles, the layering of files, and the walk over directories with the discovery loop. Loading
    uses \<open>merge_configs\<close> of \<open>ConfigMerge\<close> only through the locale \<open>layering\<close>.
  \<^item> \<open>SecretValue\<close>, \<open>Levels\<close>, \<open>Closure\<close>, \<open>Resolver\<close>, \<open>ResolverFacts\<close>
    (\<open>core/secret_resolver.rs\<close>): the text of a secret, Kahn's levels, the closures of dependencies, and
    the resolution of one secret and of a batch over the state \<open>rstate\<close>, the process environment and
    the outside world of the providers. \<open>services\<close> are the providers, prompts and settings.
  \<^item> \<open>LeaseLedger\<close>, \<open>LeaseBackend\<close>, \<open>LeaseResolve\<close> (\<open>core/lease.rs\<close>, \<open>core/lease_backends\<close>,
    \<open>commands/lease.rs\<close>): the ledger with its commands, the checks of each backend, and the lease of a
    run, which resolves secrets for its encryption provider.
  \<^item> \<open>DaemonCache\<close>, \<open>Daemon\<close> (\<open>daemon.rs\<close>, \<open>client/wire.rs\<close>, \<open>core/audit.rs\<close>): the cache with
    its clear epochs, the requests and their isolation, the client that falls back to its own process,
    and the audit log. Client and daemon act on one outside world.
  \<^item> \<open>ChildEnv\<close>, \<open>Redact\<close>, \<open>Exec\<close> (\<open>child_env.rs\<close>, \<open>secret_filter.rs\<close>, \<open>redact.rs\<close>,
    \<open>commands/exec.rs\<close>): which variables a command gets, the redaction of its output, and a run from
    the selection to the start of the command.
  \<^item> \<open>ProxyNetwork\<close>, \<open>ProxyPolicy\<close>, \<open>ProxyHttp\<close>, \<open>ProxyServe\<close> (\<open>proxy.rs\<close>): addresses and
    networks on words, rules with placeholders and their substitution, the reading of requests from a
    buffered stream, and one connection as a list of actions.
  \<^item> \<open>Shell\<close>, \<open>HookEnv\<close> (\<open>shell\<close>, \<open>hook_env.rs\<close>, \<open>commands/hook_env.rs\<close>,
    \<open>commands/deactivate.rs\<close>, \<open>core/temp_file_secrets.rs\<close>): what is printed for a shell to evaluate, and
    the hook that prints it before each prompt, with its session in a variable of the shell.
  \<^item> \<open>Sandbox\<close>, \<open>SandboxSafety\<close>, \<open>Seatbelt\<close> (\<open>sandbox.rs\<close>): the policy of the sandbox, the arguments of
    \<open>bwrap\<close> and the profile of \<open>sandbox-exec\<close>; then what a command can reach in it, shown by reading the
    arguments back as mounts and the text of the profile back as rules.
  \<^item> \<open>Scan\<close>, \<open>ScanSafety\<close> (\<open>commands/scan.rs\<close>): the search of the working tree or of the index of git for
    the values of a profile, and the hook that runs it.

  \<^bold>\<open>Interfaces.\<close> Each locale states what one part needs of another and is interpreted on the code's
  own functions where they are defined: \<open>layering\<close> on \<open>merge_configs\<close> and on the merge of profiles,
  \<open>incremental\<close> (of \<open>Redact\<close>, a transformer of chunks) on the redactor, and \<open>scripting\<close> on the
  statements of bash and zsh and on those of fish; the hook rests on the last.

  \<^bold>\<open>What the lemmas show.\<close> Configuration: names stay in their directory, expansion yields exactly
  the reachable profiles and fails exactly on cycles, merging is associative, the walk is one fold in
  which the nearest layer wins, and discovery ends, at a fixed point, in every finite file system. Resolution:
  levels that respect dependencies, closures that are reachability, and batches that answer every secret but
  those that a provider leaves out of its answer, which \<open>left_out_secret_vanishes\<close> shows to be lost.
  Leases: the ledger keeps no credentials of revoked leases and loses no lease, leases are reused or
  fresh. Daemon: stale values are never cached, requests are isolated. Commands:
  the environment is the specified one, with or without a filter, and without one it holds no secret that is
  not meant for commands; streamed
  redaction is redaction of the whole. Proxy: a connection yields nothing before the token and permitted
  actions afterwards, values enter requests only where a rule says so and leave no response. Shells
  execute nothing but assignments and removals, and hold exactly the secrets of the last load after any
  sequence of prompts; deactivation removes them and their files. A sandboxed command reads no
  configuration and no known credential, and writes only where the policy lets it; excepted are the
  directories that are bound inside a hidden directory below \<open>/tmp\<close> or \<open>/run\<close>, where
  \<open>nested_bind_exposes_configuration\<close> shows that the sandbox leaks. Installing the scan as a hook keeps the hook
  that is there, unless writing it fails half way (\<open>failed_write_loses_hook\<close>). A scan for values that
  ends without a finding has read every file it had to read, and none holds a value.

  \<^bold>\<open>Parameters and hypotheses.\<close> Code outside the repository is a field of a record: the TOML and JSON
  parsers, BLAKE3, globs, URLs, TLS, Aho-Corasick, \<open>shlex\<close>, providers, clocks, file system and
  sockets. Theorems assume of it only what its documentation states, by name: \<open>leftmost_longest_laws\<close> of
  the automaton, \<open>order_law\<close> of hash orders, \<open>quote_law\<close> of \<open>shlex\<close>, \<open>hook_laws\<close> of the hook's
  crates, which also idealises its keyed hash as injective; each has an instance in a witness. The order of a
  hash map is a parameter and the theorems hold for every order. What providers answer is not assumed to be
  complete or right.

  \<^bold>\<open>Bounds and fuel.\<close> Loops end by a measure (the directory walk by the length of the path, the levels
  by the secrets that remain, the authentication of a connection by its attempts), except two that have
  fuel: the discovery loop, for which \<open>DiscoveryEnds\<close> shows that some fuel is enough and more changes
  nothing, and the redaction of a response, where one step for each byte is enough
  (\<open>redact_bytes_fuel\<close>). Widths are kept where they matter: 64-bit words in durations and clear
  epochs, 32- and 128-bit words in addresses.

  \<^bold>\<open>Not modelled.\<close> The provider back ends, MCP server, terminal interface and command line call
  libraries, tools and services, and add no state of their own to what is modelled. Configuration
  writing edits TOML documents by the rules of \<open>toml_edit\<close>. Concurrent work runs in sequence: the
  provider batches of a level and the connections of the proxy do not interleave. Spawning, signals and
  exit statuses, wire formats, display texts and help texts, and time stamps of log entries are left out.
\<close>

end
